(* ===== verification/Prelude.thy ===== *)
theory Prelude
  imports Main "HOL-Library.Word"
begin

unbundle bit_operations_syntax

text \<open>
  What every component shares: the machine-integer types of \<open>alt_types.h\<close>, the C library's
  error numbers and open flags as newlib defines them, the collections of simplification
  rules, and generic lemmas on words and lists.

  Conventions of the whole development.
  \<^item> A C \<open>unsigned int\<close>/\<open>alt_u32\<close> is a \<open>32 word\<close>, \<open>alt_u16\<close> a \<open>16 word\<close>,
    \<open>alt_u8\<close> an \<open>8 word\<close>; a signed value that may wrap is the same word read with
    \<open>sint\<close>; a return code or a count that cannot wrap is an \<open>int\<close>.
  \<^item> \<open>option\<close> as the result of a whole operation: \<open>None\<close> says that the C code has
    undefined behaviour there or never returns; each theory says which.
\<close>

type_synonym u8 = "8 word"
type_synonym u16 = "16 word"
type_synonym u32 = "32 word"
type_synonym u64 = "64 word"

text \<open>\<open>hal_simps\<close>: how each operation acts on the observable parts of a state.
  \<open>hal_intros\<close>: preservation of invariants, for \<open>auto intro\<close>.\<close>

named_theorems hal_simps
named_theorems hal_intros

text \<open>The values of newlib's \<open>errno.h\<close>.\<close>

definition EIO :: int where "EIO = 5"
definition EWOULDBLOCK :: int where "EWOULDBLOCK = 11"
definition EACCES :: int where "EACCES = 13"
definition ENODEV :: int where "ENODEV = 19"
definition EINVAL :: int where "EINVAL = 22"
definition EMFILE :: int where "EMFILE = 24"
definition ENOTTY :: int where "ENOTTY = 25"
definition ESRCH :: int where "ESRCH = 3"
definition ENOSYS :: int where "ENOSYS = 88"
definition EBADFD :: int where "EBADFD = 81"
definition ENOTSUP :: int where "ENOTSUP = 134"

lemmas errno_defs = EIO_def EWOULDBLOCK_def EACCES_def ENODEV_def EINVAL_def EMFILE_def
  ENOTTY_def ESRCH_def ENOSYS_def EBADFD_def ENOTSUP_def

text \<open>\<open>INT_MAX\<close> of \<open>limits.h\<close> for the 32-bit \<open>int\<close> of Nios II.\<close>

definition INT_MAX :: u32 where "INT_MAX = 2147483647"

lemma word_and_mask_less:
  fixes x :: "'a::len word"
  shows "unat (x AND m) \<le> unat m"
  by (rule word_le_nat_alt [THEN iffD1]) (rule word_and_le1)

lemma unat_lt_2p: "unat (x :: u32) < 4294967296"
  using unsigned_less [where ?'a = nat, of x] by simp

text \<open>A 32-bit word read as a signed \<open>int\<close>.\<close>

lemma sint32_conv:
  fixes w :: u32
  shows "sint w = (if w < 0x80000000 then int (unat w) else int (unat w) - 4294967296)"
proof -
  define k where "k = uint w"
  have k: "0 \<le> k" "k < 4294967296"
    using uint_bounded [of w] by (simp_all add: k_def)
  have lt: "w < 0x80000000 \<longleftrightarrow> k < 2147483648"
    by (simp add: word_less_def k_def)
  have self: "signed_take_bit 31 j = j" if "- 2147483648 \<le> j" "j < 2147483648" for j :: int
    using that by (intro signed_take_bit_int_eq_self) simp_all
  have "signed_take_bit 31 k = (if k < 2147483648 then k else k - 4294967296)"
  proof (cases "k < 2147483648")
    case True
    with k show ?thesis by (simp add: self)
  next
    case False
    have "signed_take_bit 31 k = signed_take_bit 31 (k - 4294967296)"
      by (subst signed_take_bit_eq_iff_take_bit_eq) (simp add: take_bit_eq_mod)
    with False k show ?thesis
      by (simp add: self)
  qed
  moreover have "sint w = signed_take_bit 31 k"
    by (simp add: sint_uint k_def)
  ultimately show ?thesis
    by (simp add: lt) (simp add: k_def)
qed
end
