(* ===== verification/HalIo.thy ===== *)
theory HalIo
  imports Prelude
begin

text \<open>
  Memory-mapped i/o: the macros \<open>IORD\<close> and \<open>IOWR\<close> of \<open>HAL/inc/io.h\<close> and what the program
  does to the outside world. The hardware behind the bus (the CY7C67200 USB controller and
  the keycode port) is not part of the sources: it is the parameter \<open>'d bus\<close>, a state
  \<open>'d\<close> with a read, a write and a passage of time. Every access is recorded in the \<open>log\<close>
  of the \<open>world\<close>, in program order, together with the delays and the console messages.
\<close>

text \<open>The console messages of \<open>usb.c\<close> and \<open>main.c\<close>, one constructor per format string.\<close>

datatype console =
    Msg_setup
  | Msg_reset_finished
  | Msg_clear_interrupt
  | Msg_mailbox_error u32
  | Msg_no_device
  | Msg_insert_keyboard
  | Msg_full_speed
  | Msg_low_speed
  | Msg_td_status nat u32
  | Msg_td_control nat u16
  | Msg_stage_done nat
  | Msg_sie1_msg u16
  | Msg_mem u32 u32
  | Msg_code u16
  | Msg_keyboard_detected
  | Msg_value u16
  | Msg_keyboard_not_detected
  | Msg_packet_size u8
  | Msg_keycodes u32
  | Msg_keyboard_removed
  | Msg_insert_again

datatype io_event =
    IoWr u32 u32    \<comment> \<open>address, value written\<close>
  | IoRd u32 u32    \<comment> \<open>address, value returned\<close>
  | Usleep u32      \<comment> \<open>microseconds\<close>
  | Print console

record 'd bus =
  bus_rd :: "'d \<Rightarrow> u32 \<Rightarrow> u32 \<times> 'd"
  bus_wr :: "'d \<Rightarrow> u32 \<Rightarrow> u32 \<Rightarrow> 'd"
  bus_sleep :: "'d \<Rightarrow> u32 \<Rightarrow> 'd"

record 'd world =
  dev :: 'd
  log :: "io_event list"

text \<open>The native register address: the base plus the register number in bus words
  (\<open>SYSTEM_BUS_WIDTH\<close> is 32).\<close>

definition IO_CALC_ADDRESS_NATIVE :: "u32 \<Rightarrow> u32 \<Rightarrow> u32" where
  "IO_CALC_ADDRESS_NATIVE base regnum = base + regnum * (32 div 8)"

definition IORD :: "'d bus \<Rightarrow> u32 \<Rightarrow> u32 \<Rightarrow> 'd world \<Rightarrow> u32 \<times> 'd world" where
  "IORD b base regnum w =
     (let a = IO_CALC_ADDRESS_NATIVE base regnum; (v, d) = bus_rd b (dev w) a
      in (v, w\<lparr>dev := d, log := log w @ [IoRd a v]\<rparr>))"

definition IOWR :: "'d bus \<Rightarrow> u32 \<Rightarrow> u32 \<Rightarrow> u32 \<Rightarrow> 'd world \<Rightarrow> 'd world" where
  "IOWR b base regnum v w =
     (let a = IO_CALC_ADDRESS_NATIVE base regnum
      in w\<lparr>dev := bus_wr b (dev w) a v, log := log w @ [IoWr a v]\<rparr>)"

definition usleep :: "'d bus \<Rightarrow> u32 \<Rightarrow> 'd world \<Rightarrow> 'd world" where
  "usleep b us w = w\<lparr>dev := bus_sleep b (dev w) us, log := log w @ [Usleep us]\<rparr>"

definition printf :: "console \<Rightarrow> 'd world \<Rightarrow> 'd world" where
  "printf m w = w\<lparr>log := log w @ [Print m]\<rparr>"

lemma native_address [simp]: "IO_CALC_ADDRESS_NATIVE base regnum = base + regnum * 4"
  by (simp add: IO_CALC_ADDRESS_NATIVE_def)

subsection \<open>What an operation adds to the log\<close>

text \<open>\<open>log_adds P w w'\<close>: the log of \<open>w'\<close> is that of \<open>w\<close> followed by events that all
  satisfy \<open>P\<close>. The safety properties of the drivers are instances; the equations of
  \<open>hal_simps\<close> compute the added events of every operation without a loop.\<close>

definition log_adds :: "(io_event \<Rightarrow> bool) \<Rightarrow> 'd world \<Rightarrow> 'd world \<Rightarrow> bool" where
  "log_adds P w w' \<longleftrightarrow> (\<exists>es. log w' = log w @ es \<and> list_all P es)"

lemma log_addsI: "log w' = log w @ es \<Longrightarrow> list_all P es \<Longrightarrow> log_adds P w w'"
  by (auto simp: log_adds_def)

lemma log_addsE:
  assumes "log_adds P w w'"
  obtains es where "log w' = log w @ es" "list_all P es"
  using assms by (auto simp: log_adds_def)

lemma log_adds_refl [simp, intro!]: "log_adds P w w"
  by (simp add: log_adds_def)

lemma log_adds_trans [hal_intros]: "log_adds P u v \<Longrightarrow> log_adds P v w \<Longrightarrow> log_adds P u w"
  by (auto simp: log_adds_def)

lemma log_adds_mono: "log_adds P w w' \<Longrightarrow> (\<And>e. P e \<Longrightarrow> Q e) \<Longrightarrow> log_adds Q w w'"
  by (auto simp: log_adds_def list_all_iff)

lemma log_IOWR [hal_simps]: "log (IOWR b base r v w) = log w @ [IoWr (base + r * 4) v]"
  by (simp add: IOWR_def Let_def)

lemma log_IORD: "IORD b base r w = (v, w') \<Longrightarrow> log w' = log w @ [IoRd (base + r * 4) v]"
  by (auto simp: IORD_def Let_def split: prod.splits)

lemma log_usleep [hal_simps]: "log (usleep b us w) = log w @ [Usleep us]"
  by (simp add: usleep_def)

lemma log_printf [hal_simps]: "log (printf m w) = log w @ [Print m]"
  by (simp add: printf_def)

text \<open>The device sees the accesses and the delays, not the console.\<close>

lemma dev_printf [hal_simps]: "dev (printf m w) = dev w"
  by (simp add: printf_def)

lemma dev_IOWR [hal_simps]: "dev (IOWR b base r v w) = bus_wr b (dev w) (base + r * 4) v"
  by (simp add: IOWR_def Let_def)

lemma dev_IORD: "IORD b base r w = (v, w') \<Longrightarrow> bus_rd b (dev w) (base + r * 4) = (v, dev w')"
  by (auto simp: IORD_def Let_def split: prod.splits)

lemma IORD_conv:
  "IORD b base r w =
     (fst (bus_rd b (dev w) (base + r * 4)),
      w\<lparr>dev := snd (bus_rd b (dev w) (base + r * 4)),
        log := log w @ [IoRd (base + r * 4) (fst (bus_rd b (dev w) (base + r * 4)))]\<rparr>)"
  by (simp add: IORD_def Let_def split: prod.splits)

end
