(* ===== verification/UsbHpi.thy ===== *)
theory UsbHpi
  imports HalIo
begin

text \<open>
  The CY7C67200 access layer, \<open>software/usb_kb/usb.c\<close>: register reads and writes through the
  chip's host port interface (HPI), the soft reset, one function per USB request that writes
  the request's list of transaction descriptors (TDs) into the chip's memory and starts it,
  and the functions that wait for the result.
\<close>

subsection \<open>Register numbers and constants (usb.h, system.h, cy7c67200.h, lcp_cmd.h, lcp_data.h)\<close>

definition HPI_DATA :: u32 where "HPI_DATA = 0"
definition HPI_MAILBOX :: u32 where "HPI_MAILBOX = 1"
definition HPI_ADDR :: u32 where "HPI_ADDR = 2"
definition HPI_STATUS :: u32 where "HPI_STATUS = 3"

definition CY7C67200_BASE :: u32 where "CY7C67200_BASE = 0x10000000"
definition KEYCODE_BASE :: u32 where "KEYCODE_BASE = 0x11001020"

definition HPI_SIE1_MSG_ADR :: u16 where "HPI_SIE1_MSG_ADR = 0x0144"
definition HPI_SIE2_MSG_ADR :: u16 where "HPI_SIE2_MSG_ADR = 0x0148"
definition HOST1_STAT_REG :: u16 where "HOST1_STAT_REG = 0xC090"
definition HOST2_STAT_REG :: u16 where "HOST2_STAT_REG = 0xC0B0"
definition HPI_STATUS_SIE1msg_FLAG :: u32 where "HPI_STATUS_SIE1msg_FLAG = 0x0010"

definition COMM_RESET :: u32 where "COMM_RESET = 0xFA50"
definition COMM_EXEC_INT :: u32 where "COMM_EXEC_INT = 0xCE01"
definition COMM_ACK :: u32 where "COMM_ACK = 0x0FED"
definition HUSB_TDListDone :: u16 where "HUSB_TDListDone = 0x1000"
definition HUSB_SIE1_pCurrentTDPtr :: u16 where "HUSB_SIE1_pCurrentTDPtr = 0x01B0"

lemmas hpi_regs = HPI_DATA_def HPI_MAILBOX_def HPI_ADDR_def HPI_STATUS_def
  CY7C67200_BASE_def KEYCODE_BASE_def

subsection \<open>Register access\<close>

definition UsbWrite :: "'d bus \<Rightarrow> u16 \<Rightarrow> u16 \<Rightarrow> 'd world \<Rightarrow> 'd world" where
  "UsbWrite b Address Data w =
     IOWR b CY7C67200_BASE HPI_DATA (ucast Data)
       (IOWR b CY7C67200_BASE HPI_ADDR (ucast Address) w)"

definition UsbRead :: "'d bus \<Rightarrow> u16 \<Rightarrow> 'd world \<Rightarrow> u16 \<times> 'd world" where
  "UsbRead b Address w =
     (let (v, w') = IORD b CY7C67200_BASE HPI_DATA
                      (IOWR b CY7C67200_BASE HPI_ADDR (ucast Address) w)
      in (ucast v, w'))"

definition UsbSoftReset :: "'d bus \<Rightarrow> 'd world \<Rightarrow> 'd world" where
  "UsbSoftReset b w =
     (let w = IOWR b CY7C67200_BASE HPI_MAILBOX COMM_RESET w;
          w = usleep b 100000 w;
          w = printf Msg_reset_finished w;
          w = usleep b 500000 w;
          w = printf Msg_clear_interrupt w;
          (_, w) = IORD b CY7C67200_BASE HPI_MAILBOX w;
          (_, w) = IORD b CY7C67200_BASE HPI_STATUS w;
          (_, w) = UsbRead b HPI_SIE1_MSG_ADR w;
          w = UsbWrite b HPI_SIE1_MSG_ADR 0 w;
          (_, w) = UsbRead b HPI_SIE2_MSG_ADR w;
          w = UsbWrite b HPI_SIE2_MSG_ADR 0 w;
          w = UsbWrite b HOST1_STAT_REG 0xFFFF w;
          w = UsbWrite b HOST2_STAT_REG 0xFFFF w
      in w)"

subsection \<open>The requests: lists of transaction descriptors\<close>

text \<open>A run of \<open>IOWR(CY7C67200_BASE,HPI_DATA,v)\<close> lines, in order.\<close>

fun hpi_data_writes :: "'d bus \<Rightarrow> u32 list \<Rightarrow> 'd world \<Rightarrow> 'd world" where
  "hpi_data_writes b [] w = w"
| "hpi_data_writes b (v # vs) w = hpi_data_writes b vs (IOWR b CY7C67200_BASE HPI_DATA v w)"

text \<open>The data words each request function writes, TD by TD as in the source.\<close>

definition UsbSetAddress_words :: "u32 list" where
  "UsbSetAddress_words =
    [0x050C, 0x0008, 0x00D0, 0x0001, 0x0013, 0x0514,
     0x0500, 0x0002, 0x0000, 0x0000,
     0x0000, 0x0000, 0x0090, 0x0041, 0x0013, 0x0000]"

definition UsbGetDeviceDesc1_words :: "u32 list" where
  "UsbGetDeviceDesc1_words =
    [0x050C, 0x0008, 0x02D0, 0x0001, 0x0013, 0x0514,
     0x0680, 0x0100, 0x0000, 0x0008,
     0x052C, 0x0008, 0x0290, 0x0041, 0x0013, 0x0520,
     0x0000, 0x0000, 0x0210, 0x0041, 0x0013, 0x0000]"

definition UsbGetDeviceDesc2_words :: "u32 list" where
  "UsbGetDeviceDesc2_words =
    [0x050C, 0x0008, 0x02D0, 0x0001, 0x0013, 0x0514,
     0x0680, 0x0100, 0x0000, 0x0012,
     0x0544, 0x0008, 0x0290, 0x0041, 0x0013, 0x0520,
     0x054c, 0x0008, 0x0290, 0x0001, 0x0013, 0x052c,
     0x0554, 0x0002, 0x0290, 0x0041, 0x0013, 0x0538,
     0x0000, 0x0000, 0x0210, 0x0041, 0x0013, 0x0000]"

definition UsbGetConfigDesc1_words :: "u32 list" where
  "UsbGetConfigDesc1_words =
    [0x050C, 0x0008, 0x02D0, 0x0001, 0x0013, 0x0514,
     0x0680, 0x0200, 0x0000, 0x0009,
     0x0544, 0x0008, 0x0290, 0x0041, 0x0013, 0x0520,
     0x054c, 0x0001, 0x0290, 0x0001, 0x0013, 0x052c,
     0x0000, 0x0000, 0x0210, 0x0041, 0x0013, 0x0000]"

definition UsbGetConfigDesc2_words :: "u32 list" where
  "UsbGetConfigDesc2_words =
    [0x050C, 0x0008, 0x02D0, 0x0001, 0x0013, 0x0514,
     0x0680, 0x0200, 0x0000, 0x00FF,
     0x055c, 0x0008, 0x0290, 0x0041, 0x0013, 0x0520,
     0x0564, 0x0008, 0x0290, 0x0001, 0x0013, 0x052c,
     0x056c, 0x0008, 0x0290, 0x0041, 0x0013, 0x0538,
     0x0574, 0x0008, 0x0290, 0x0001, 0x0013, 0x0544,
     0x057c, 0x0002, 0x0290, 0x0041, 0x0013, 0x0550,
     0x0000, 0x0000, 0x0210, 0x0041, 0x0013, 0x0000]"

definition UsbSetConfig_words :: "u32 list" where
  "UsbSetConfig_words =
    [0x050C, 0x0008, 0x02D0, 0x0001, 0x0013, 0x0514,
     0x0900, 0x0001, 0x0000, 0x0000,
     0x0000, 0x0000, 0x0290, 0x0041, 0x0013, 0x0000]"

definition UsbClassRequest_words :: "u32 list" where
  "UsbClassRequest_words =
    [0x050C, 0x0008, 0x02D0, 0x0001, 0x0013, 0x0514,
     0x0A21, 0x0000, 0x0000, 0x0000,
     0x0000, 0x0000, 0x0290, 0x0041, 0x0013, 0x0000]"

definition UsbGetHidDesc_words :: "u32 list" where
  "UsbGetHidDesc_words =
    [0x050C, 0x0008, 0x02D0, 0x0001, 0x0013, 0x0514,
     0x0681, 0x2100, 0x0000, 0x007B,
     0x0544, 0x0008, 0x0290, 0x0041, 0x0013, 0x0520,
     0x0000, 0x0000, 0x0210, 0x0041, 0x0013, 0x0000]"

definition UsbGetReportDesc_words :: "u32 list" where
  "UsbGetReportDesc_words =
    [0x050C, 0x0008, 0x02D0, 0x0001, 0x0013, 0x0514,
     0x0681, 0x2200, 0x0000, 0x007B,
     0x0580, 0x0008, 0x0290, 0x0041, 0x0013, 0x0520,
     0x0588, 0x0008, 0x0290, 0x0001, 0x0013, 0x052c,
     0x0590, 0x0008, 0x0290, 0x0041, 0x0013, 0x0538,
     0x0598, 0x0008, 0x0290, 0x0001, 0x0013, 0x0544,
     0x05a0, 0x0008, 0x0290, 0x0041, 0x0013, 0x0550,
     0x05a8, 0x0008, 0x0290, 0x0001, 0x0013, 0x055c,
     0x05b0, 0x0008, 0x0290, 0x0041, 0x0013, 0x0568,
     0x05b8, 0x0003, 0x0290, 0x0001, 0x0013, 0x0574,
     0x0000, 0x0000, 0x0210, 0x0041, 0x0013, 0x0000]"

text \<open>Every request function has the same shape: point HPI at 0x0500, write the words,
  and hand the list to the controller by writing its start to the current-TD pointer.\<close>

definition submit_td_list :: "'d bus \<Rightarrow> u32 list \<Rightarrow> 'd world \<Rightarrow> 'd world" where
  "submit_td_list b ws w =
     UsbWrite b HUSB_SIE1_pCurrentTDPtr 0x0500
       (hpi_data_writes b ws (IOWR b CY7C67200_BASE HPI_ADDR 0x0500 w))"

definition UsbSetAddress :: "'d bus \<Rightarrow> 'd world \<Rightarrow> 'd world" where
  "UsbSetAddress b = submit_td_list b UsbSetAddress_words"
definition UsbGetDeviceDesc1 :: "'d bus \<Rightarrow> 'd world \<Rightarrow> 'd world" where
  "UsbGetDeviceDesc1 b = submit_td_list b UsbGetDeviceDesc1_words"
definition UsbGetDeviceDesc2 :: "'d bus \<Rightarrow> 'd world \<Rightarrow> 'd world" where
  "UsbGetDeviceDesc2 b = submit_td_list b UsbGetDeviceDesc2_words"
definition UsbGetConfigDesc1 :: "'d bus \<Rightarrow> 'd world \<Rightarrow> 'd world" where
  "UsbGetConfigDesc1 b = submit_td_list b UsbGetConfigDesc1_words"
definition UsbGetConfigDesc2 :: "'d bus \<Rightarrow> 'd world \<Rightarrow> 'd world" where
  "UsbGetConfigDesc2 b = submit_td_list b UsbGetConfigDesc2_words"
definition UsbSetConfig :: "'d bus \<Rightarrow> 'd world \<Rightarrow> 'd world" where
  "UsbSetConfig b = submit_td_list b UsbSetConfig_words"
definition UsbClassRequest :: "'d bus \<Rightarrow> 'd world \<Rightarrow> 'd world" where
  "UsbClassRequest b = submit_td_list b UsbClassRequest_words"
definition UsbGetHidDesc :: "'d bus \<Rightarrow> 'd world \<Rightarrow> 'd world" where
  "UsbGetHidDesc b = submit_td_list b UsbGetHidDesc_words"
definition UsbGetReportDesc :: "'d bus \<Rightarrow> 'd world \<Rightarrow> 'd world" where
  "UsbGetReportDesc b = submit_td_list b UsbGetReportDesc_words"

subsection \<open>Waiting for the controller\<close>

text \<open>\<open>None\<close>: the loop never ends, because the device never gives the awaited value.\<close>

partial_function (option) UsbWaitTDListDone_loop ::
  "'d bus \<Rightarrow> u16 \<Rightarrow> 'd world \<Rightarrow> (u16 \<times> 'd world) option" where
  "UsbWaitTDListDone_loop b usb_ctl_val w =
     (if usb_ctl_val \<noteq> HUSB_TDListDone
      then (let w = (if usb_ctl_val = 0 then w else printf (Msg_sie1_msg usb_ctl_val) w);
                (usb_ctl_val, w) = UsbRead b HPI_SIE1_MSG_ADR w;
                w = UsbWrite b HPI_SIE1_MSG_ADR 0 w
            in UsbWaitTDListDone_loop b usb_ctl_val w)
      else Some (usb_ctl_val, w))"

definition UsbWaitTDListDone :: "'d bus \<Rightarrow> 'd world \<Rightarrow> (u16 \<times> 'd world) option" where
  "UsbWaitTDListDone b w =
     (let (usb_ctl_val, w) = UsbRead b HPI_SIE1_MSG_ADR w;
          w = UsbWrite b HPI_SIE1_MSG_ADR 0 w
      in UsbWaitTDListDone_loop b usb_ctl_val w)"

text \<open>\<open>while (!(IORD(CY7C67200_BASE,HPI_STATUS) & HPI_STATUS_SIE1msg_FLAG)) { }\<close>\<close>

partial_function (option) wait_sie1_msg :: "'d bus \<Rightarrow> 'd world \<Rightarrow> 'd world option" where
  "wait_sie1_msg b w =
     (let (v, w) = IORD b CY7C67200_BASE HPI_STATUS w
      in if v AND HPI_STATUS_SIE1msg_FLAG = 0 then wait_sie1_msg b w else Some w)"

definition UsbGetRetryCnt :: "'d bus \<Rightarrow> 'd world \<Rightarrow> (u16 \<times> 'd world) option" where
  "UsbGetRetryCnt b w =
     (let (_, w) = IORD b CY7C67200_BASE HPI_STATUS w;
          (m, w) = UsbRead b HPI_SIE1_MSG_ADR w
      in Option.bind
           (if m = HUSB_TDListDone
            then wait_sie1_msg b (UsbWrite b HPI_SIE1_MSG_ADR 0 w) else Some w)
           (\<lambda>w. let (v, w) = IORD b CY7C67200_BASE HPI_DATA
                               (IOWR b CY7C67200_BASE HPI_ADDR 0x0508 w)
                in Some (ucast v, w)))"

text \<open>\<open>for (i = 0; i <= 200; i += 2)\<close>: the counter \<open>i\<close> and what is left of the loop.\<close>

function UsbPrintMem_loop :: "'d bus \<Rightarrow> nat \<Rightarrow> 'd world \<Rightarrow> 'd world" where
  "UsbPrintMem_loop b i w =
     (if i \<le> 200
      then (let (code, w) = IORD b CY7C67200_BASE HPI_DATA w;
                w = printf (Msg_mem (of_nat (0x0500 + i)) code) w
            in UsbPrintMem_loop b (i + 2) w)
      else w)"
  by pat_completeness auto
termination
  by (relation "measure (\<lambda>(b, i, w). 202 - i)") auto

declare UsbPrintMem_loop.simps [simp del]

definition UsbPrintMem :: "'d bus \<Rightarrow> 'd world \<Rightarrow> 'd world" where
  "UsbPrintMem b w = UsbPrintMem_loop b 0 (IOWR b CY7C67200_BASE HPI_ADDR 0x0500 w)"

end
