(* ===== verification/UsbTransfers.thy ===== *)
theory UsbTransfers
  imports UsbHpi
begin

text \<open>
  What the nine request functions of \<open>usb.c\<close> are for. The HPI port holds an address that
  advances by two with every data access (the comments of \<open>usb.c\<close> annotate each data word
  with the address it lands at); \<open>hpi_image\<close> replays a log under that rule. In the image, the
  list at 0x0500 is read back as transaction descriptors and checked against the format of
  a USB control transfer: a SETUP stage, IN data stages with alternating toggles and
  contiguous buffers that do not touch the list, and a status stage of the opposite
  direction.
\<close>

subsection \<open>The memory image of a log\<close>

record hpi_view =
  hpi_ptr :: u16
  hpi_mem :: "u16 \<Rightarrow> u16 option"

fun hpi_event :: "io_event \<Rightarrow> hpi_view \<Rightarrow> hpi_view" where
  "hpi_event (IoWr a v) m =
     (if a = CY7C67200_BASE + HPI_ADDR * 4 then m\<lparr>hpi_ptr := ucast v\<rparr>
      else if a = CY7C67200_BASE + HPI_DATA * 4
      then m\<lparr>hpi_mem := (hpi_mem m)(hpi_ptr m \<mapsto> ucast v), hpi_ptr := hpi_ptr m + 2\<rparr>
      else m)"
| "hpi_event (IoRd a v) m =
     (if a = CY7C67200_BASE + HPI_DATA * 4 then m\<lparr>hpi_ptr := hpi_ptr m + 2\<rparr> else m)"
| "hpi_event (Usleep t) m = m"
| "hpi_event (Print c) m = m"

definition hpi_image :: "io_event list \<Rightarrow> hpi_view" where
  "hpi_image es = fold hpi_event es \<lparr>hpi_ptr = 0, hpi_mem = Map.empty\<rparr>"

text \<open>The events a call added to the log.\<close>

definition new_events :: "'d world \<Rightarrow> 'd world \<Rightarrow> io_event list" where
  "new_events w w' = drop (length (log w)) (log w')"

subsection \<open>Transaction descriptors\<close>

record td =
  td_base :: u16
  td_len :: u16
  td_dev :: u16
  td_pid :: u16
  td_ep :: u16
  td_toggle :: bool
  td_armed :: bool
  td_next :: u16

definition read_td :: "(u16 \<Rightarrow> u16 option) \<Rightarrow> u16 \<Rightarrow> td option" where
  "read_td m a =
     (case (m a, m (a + 2), m (a + 4), m (a + 6), m (a + 10)) of
        (Some base, Some pl, Some pd, Some ctl, Some nxt) \<Rightarrow>
          Some \<lparr>td_base = base, td_len = pl AND 0x03FF, td_dev = drop_bit 8 pd,
                td_pid = drop_bit 4 pd AND 0x0F, td_ep = pd AND 0x0F,
                td_toggle = bit ctl 6, td_armed = bit ctl 0, td_next = nxt\<rparr>
      | _ \<Rightarrow> None)"

text \<open>Follow the next pointers from \<open>a\<close> until the null pointer; \<open>None\<close> when a descriptor is
  missing or \<open>n\<close> descriptors do not reach the end. With each descriptor its address.\<close>

fun td_chain :: "nat \<Rightarrow> (u16 \<Rightarrow> u16 option) \<Rightarrow> u16 \<Rightarrow> (u16 \<times> td) list option" where
  "td_chain 0 m a = (if a = 0 then Some [] else None)"
| "td_chain (Suc n) m a =
     (if a = 0 then Some []
      else case read_td m a of
             None \<Rightarrow> None
           | Some t \<Rightarrow> map_option (\<lambda>ts. (a, t) # ts) (td_chain n m (td_next t)))"

record setup_packet =
  bmRequestType :: u16
  bRequest :: u16
  wValue :: u16
  wIndex :: u16
  wLength :: u16

definition read_setup :: "(u16 \<Rightarrow> u16 option) \<Rightarrow> u16 \<Rightarrow> setup_packet option" where
  "read_setup m a =
     (case (m a, m (a + 2), m (a + 4), m (a + 6)) of
        (Some w0, Some w1, Some w2, Some w3) \<Rightarrow>
          Some \<lparr>bmRequestType = w0 AND 0xFF, bRequest = drop_bit 8 w0,
                wValue = w1, wIndex = w2, wLength = w3\<rparr>
      | _ \<Rightarrow> None)"

definition PID_SETUP :: u16 where "PID_SETUP = 0x0D"
definition PID_IN :: u16 where "PID_IN = 0x09"
definition PID_OUT :: u16 where "PID_OUT = 0x01"

text \<open>Toggles alternate, starting with \<open>t\<close>.\<close>

fun toggles_alternate :: "bool \<Rightarrow> td list \<Rightarrow> bool" where
  "toggles_alternate t [] = True"
| "toggles_alternate t (d # ds) = (td_toggle d = t \<and> toggles_alternate (\<not> t) ds)"

text \<open>Each buffer starts where the previous one ends.\<close>

fun buffers_contiguous :: "nat \<Rightarrow> td list \<Rightarrow> bool" where
  "buffers_contiguous a [] = True"
| "buffers_contiguous a (d # ds) =
     (unat (td_base d) = a \<and> buffers_contiguous (a + unat (td_len d)) ds)"

text \<open>The byte intervals that the list itself occupies: its descriptors and the setup packet.\<close>

definition list_regions :: "(u16 \<times> td) list \<Rightarrow> (nat \<times> nat) list" where
  "list_regions ts =
     (unat (td_base (snd (hd ts))), 8) # map (\<lambda>(a, _). (unat a, 12)) ts"

fun regions_disjoint :: "(nat \<times> nat) list \<Rightarrow> bool" where
  "regions_disjoint [] = True"
| "regions_disjoint ((a, n) # rs) =
     (list_all (\<lambda>(b, k). a + n \<le> b \<or> b + k \<le> a) rs \<and> regions_disjoint rs)"

definition control_transfer_ok :: "(u16 \<Rightarrow> u16 option) \<Rightarrow> u16 \<Rightarrow> setup_packet \<Rightarrow> bool" where
  "control_transfer_ok m d req =
     (case td_chain 16 m 0x0500 of
        Some ((a0, s) # ts) \<Rightarrow>
          ts \<noteq> [] \<and>
          (let stat = snd (last ts); dat = map snd (butlast ts)
           in td_pid s = PID_SETUP \<and> td_len s = 8 \<and> \<not> td_toggle s
            \<and> read_setup m (td_base s) = Some req
            \<and> list_all (\<lambda>t. td_dev t = d \<and> td_ep t = 0 \<and> td_armed t) (s # map snd ts)
            \<and> list_all (\<lambda>t. td_pid t = PID_IN \<and> td_len t \<noteq> 0) dat
            \<and> toggles_alternate True dat
            \<and> td_len stat = 0 \<and> td_toggle stat
            \<and> td_pid stat = (if dat = [] then PID_IN else PID_OUT)
            \<and> bit (bmRequestType req) 7 = (dat \<noteq> [])
            \<and> sum_list (map (unat o td_len) dat) \<le> unat (wLength req)
            \<and> (case dat of [] \<Rightarrow> wLength req = 0
                | t # _ \<Rightarrow> buffers_contiguous (unat (td_base t)) dat)
            \<and> regions_disjoint
                (map (\<lambda>t. (unat (td_base t), unat (td_len t))) dat @ list_regions ((a0, s) # ts)))
      | _ \<Rightarrow> False)"

subsection \<open>The nine requests\<close>

text \<open>The stages of the enumeration, in the order \<open>main.c\<close> goes through them, with the
  function each one calls.\<close>

datatype stage =
    SetAddress | DeviceDesc1 | DeviceDesc2 | ConfigDesc1 | ConfigDesc2
  | SetConfig | ClassRequest | HidDesc | ReportDesc

fun stage_request :: "stage \<Rightarrow> 'd bus \<Rightarrow> 'd world \<Rightarrow> 'd world" where
  "stage_request SetAddress = UsbSetAddress"
| "stage_request DeviceDesc1 = UsbGetDeviceDesc1"
| "stage_request DeviceDesc2 = UsbGetDeviceDesc2"
| "stage_request ConfigDesc1 = UsbGetConfigDesc1"
| "stage_request ConfigDesc2 = UsbGetConfigDesc2"
| "stage_request SetConfig = UsbSetConfig"
| "stage_request ClassRequest = UsbClassRequest"
| "stage_request HidDesc = UsbGetHidDesc"
| "stage_request ReportDesc = UsbGetReportDesc"

text \<open>The requests meant, from the USB and HID specifications: SET_ADDRESS 2; GET_DESCRIPTOR of
  the device (first 8 bytes, then all 18) and of the configuration (9 bytes, then up to
  255); SET_CONFIGURATION 1; SET_IDLE; GET_DESCRIPTOR of the HID and report descriptors.\<close>

fun stage_setup :: "stage \<Rightarrow> setup_packet" where
  "stage_setup SetAddress = \<lparr>bmRequestType = 0x00, bRequest = 5, wValue = 2, wIndex = 0, wLength = 0\<rparr>"
| "stage_setup DeviceDesc1 = \<lparr>bmRequestType = 0x80, bRequest = 6, wValue = 0x0100, wIndex = 0, wLength = 8\<rparr>"
| "stage_setup DeviceDesc2 = \<lparr>bmRequestType = 0x80, bRequest = 6, wValue = 0x0100, wIndex = 0, wLength = 18\<rparr>"
| "stage_setup ConfigDesc1 = \<lparr>bmRequestType = 0x80, bRequest = 6, wValue = 0x0200, wIndex = 0, wLength = 9\<rparr>"
| "stage_setup ConfigDesc2 = \<lparr>bmRequestType = 0x80, bRequest = 6, wValue = 0x0200, wIndex = 0, wLength = 255\<rparr>"
| "stage_setup SetConfig = \<lparr>bmRequestType = 0x00, bRequest = 9, wValue = 1, wIndex = 0, wLength = 0\<rparr>"
| "stage_setup ClassRequest = \<lparr>bmRequestType = 0x21, bRequest = 0x0A, wValue = 0, wIndex = 0, wLength = 0\<rparr>"
| "stage_setup HidDesc = \<lparr>bmRequestType = 0x81, bRequest = 6, wValue = 0x2100, wIndex = 0, wLength = 123\<rparr>"
| "stage_setup ReportDesc = \<lparr>bmRequestType = 0x81, bRequest = 6, wValue = 0x2200, wIndex = 0, wLength = 123\<rparr>"

text \<open>The new address is used by every request after SET_ADDRESS itself.\<close>

definition stage_address :: "stage \<Rightarrow> u16" where
  "stage_address st = (if st = SetAddress then 0 else wValue (stage_setup SetAddress))"

fun stage_words :: "stage \<Rightarrow> u32 list" where
  "stage_words SetAddress = UsbSetAddress_words"
| "stage_words DeviceDesc1 = UsbGetDeviceDesc1_words"
| "stage_words DeviceDesc2 = UsbGetDeviceDesc2_words"
| "stage_words ConfigDesc1 = UsbGetConfigDesc1_words"
| "stage_words ConfigDesc2 = UsbGetConfigDesc2_words"
| "stage_words SetConfig = UsbSetConfig_words"
| "stage_words ClassRequest = UsbClassRequest_words"
| "stage_words HidDesc = UsbGetHidDesc_words"
| "stage_words ReportDesc = UsbGetReportDesc_words"

lemmas request_defs = UsbSetAddress_def UsbGetDeviceDesc1_def UsbGetDeviceDesc2_def
  UsbGetConfigDesc1_def UsbGetConfigDesc2_def UsbSetConfig_def UsbClassRequest_def
  UsbGetHidDesc_def UsbGetReportDesc_def

lemma stage_request_submit: "stage_request st b w = submit_td_list b (stage_words st) w"
  by (cases st) (simp_all add: request_defs)

subsection \<open>What a request writes\<close>

definition submit_events :: "u32 list \<Rightarrow> io_event list" where
  "submit_events ws =
     IoWr 0x10000008 0x0500 # map (IoWr 0x10000000) ws
       @ [IoWr 0x10000008 0x01B0, IoWr 0x10000000 0x0500]"

lemma log_hpi_data_writes:
  "log (hpi_data_writes b ws w) = log w @ map (IoWr 0x10000000) ws"
  by (induction ws arbitrary: w) (simp_all add: log_IOWR hpi_regs)

lemma log_UsbWrite [hal_simps]:
  "log (UsbWrite b a v w) = log w @ [IoWr 0x10000008 (ucast a), IoWr 0x10000000 (ucast v)]"
  by (simp add: UsbWrite_def log_IOWR hpi_regs)

lemma log_submit_td_list [hal_simps]: "log (submit_td_list b ws w) = log w @ submit_events ws"
  by (simp add: submit_td_list_def submit_events_def log_UsbWrite log_hpi_data_writes log_IOWR
      hpi_regs HUSB_SIE1_pCurrentTDPtr_def)

lemma new_events_request: "new_events w (stage_request st b w) = submit_events (stage_words st)"
  by (simp add: new_events_def stage_request_submit log_submit_td_list)

text \<open>The nine lists, checked one by one by evaluation.\<close>

definition stage_ok :: "stage \<Rightarrow> bool" where
  "stage_ok st =
     (let m = hpi_mem (hpi_image (submit_events (stage_words st)))
      in control_transfer_ok m (stage_address st) (stage_setup st)
       \<and> m HUSB_SIE1_pCurrentTDPtr = Some 0x0500)"

lemma stage_ok_SetAddress: "stage_ok SetAddress"
  by code_simp

lemma stage_ok_DeviceDesc1: "stage_ok DeviceDesc1"
  by code_simp

lemma stage_ok_DeviceDesc2: "stage_ok DeviceDesc2"
  by code_simp

lemma stage_ok_ConfigDesc1: "stage_ok ConfigDesc1"
  by code_simp

lemma stage_ok_ConfigDesc2: "stage_ok ConfigDesc2"
  by code_simp

lemma stage_ok_SetConfig: "stage_ok SetConfig"
  by code_simp

lemma stage_ok_ClassRequest: "stage_ok ClassRequest"
  by code_simp

lemma stage_ok_HidDesc: "stage_ok HidDesc"
  by code_simp

lemma stage_ok_ReportDesc: "stage_ok ReportDesc"
  by code_simp

lemma stage_ok_all: "stage_ok st"
  by (cases st) (simp_all add: stage_ok_SetAddress stage_ok_DeviceDesc1 stage_ok_DeviceDesc2 stage_ok_ConfigDesc1 stage_ok_ConfigDesc2 stage_ok_SetConfig stage_ok_ClassRequest stage_ok_HidDesc stage_ok_ReportDesc)

text \<open>C1. Whatever the state of the program and of the device, the data words that a request
  function of usb.c writes form, in the chip's memory, a well-formed USB control transfer
  for the request it is meant to make: the descriptor chain from 0x0500 ends, its SETUP
  packet is the right one, every descriptor is armed and goes to endpoint 0 of the right
  device address, the IN data stages alternate their toggles starting with DATA1, fill
  contiguous buffers of at most wLength bytes that overlap neither each other nor the list,
  the status stage is an empty DATA1 transaction in the opposite direction; and the list is
  handed to the controller.\<close>

theorem requests_are_control_transfers:
  "control_transfer_ok (hpi_mem (hpi_image (new_events w (stage_request st b w))))
     (stage_address st) (stage_setup st)
   \<and> hpi_mem (hpi_image (new_events w (stage_request st b w))) HUSB_SIE1_pCurrentTDPtr = Some 0x0500"
  using stage_ok_all [of st] by (simp add: new_events_request stage_ok_def Let_def)

end
