(* ===== verification/UsbMain.thy ===== *)
theory UsbMain
  imports UsbTransfers
begin

text \<open>
  The USB keyboard program, \<open>software/usb_kb/main.c\<close>. \<open>main\<close> is a graph of program points
  joined by loops and \<open>goto USB_HOT_PLUG\<close>; the model has one \<open>label\<close> per loop head or
  join point and \<open>main_step\<close> runs the code from one label to the next. A loop that polls the
  hardware takes one step per iteration, so a run is any number of steps. A step is \<open>None\<close>
  only where a waiting function of \<open>usb.c\<close> never returns.
\<close>

subsection \<open>Constants (cy7c67200.h, lcp_cmd.h, lcp_data.h)\<close>

definition HUSB_pEOT :: u16 where "HUSB_pEOT = 0x01B4"
definition SOFEOP1_TO_CPU_EN :: u16 where "SOFEOP1_TO_CPU_EN = 0x0400"
definition RESUME1_TO_HPI_EN :: u16 where "RESUME1_TO_HPI_EN = 0x0040"
definition HPI_IRQ_ROUTING_REG :: u16 where "HPI_IRQ_ROUTING_REG = 0x0142"
definition A_CHG_IRQ_EN :: u16 where "A_CHG_IRQ_EN = 0x0010"
definition SOF_EOP_IRQ_EN :: u16 where "SOF_EOP_IRQ_EN = 0x0200"
definition HOST1_IRQ_EN_REG :: u16 where "HOST1_IRQ_EN_REG = 0xC08C"
definition USB1_CTL_REG :: u16 where "USB1_CTL_REG = 0xC08A"
definition A_DP_STAT :: u16 where "A_DP_STAT = 0x2000"
definition A_DM_STAT :: u16 where "A_DM_STAT = 0x1000"
definition HUSB_SIE1_INIT_INT :: u16 where "HUSB_SIE1_INIT_INT = 0x0072"
definition HUSB_RESET_INT :: u16 where "HUSB_RESET_INT = 0x0074"
definition COMM_INT_NUM :: u16 where "COMM_INT_NUM = 0x01C2"

text \<open>\<open>COMM_R0\<close> to \<open>COMM_R13\<close>.\<close>

definition COMM_R :: "u16 list" where
  "COMM_R = [0x01C4, 0x01C6, 0x01C8, 0x01CA, 0x01CC, 0x01CE, 0x01D0, 0x01D2,
             0x01D4, 0x01D6, 0x01D8, 0x01DA, 0x01DC, 0x01DE]"

subsection \<open>Program points and variables\<close>

datatype label =
    Setup
  | HotPlug
  | WaitInit
  | CheckInitAck
  | HusbReset
  | DetectDevice
  | WaitInsert
  | Submit stage
  | WaitMsg stage
  | CheckTD stage
  | DeviceInfo
  | StartPoll
  | KbPoll
  | KbWaitMsg
  | KbReport
  | KbRemoved

record 'd main_state =
  pc :: label
  usb_ctl_val :: u16
  ctl_reg :: u16
  no_device :: u16
  fs_device :: u16
  keycode :: u32
  toggle :: u8
  data_size :: u8
  wd :: "'d world"

definition main_init :: "'d \<Rightarrow> 'd main_state" where
  "main_init d = \<lparr>pc = Setup, usb_ctl_val = 0, ctl_reg = 0, no_device = 0, fs_device = 0,
     keycode = 0, toggle = 0, data_size = 0, wd = \<lparr>dev = d, log = []\<rparr>\<rparr>"

subsection \<open>Controller initialisation: steps 1 and 2\<close>

definition setup_step :: "'d main_state \<Rightarrow> 'd main_state" where
  "setup_step s = s\<lparr>pc := HotPlug, wd := printf Msg_setup (wd s)\<rparr>"

text \<open>The register blocks: \<open>UsbWrite(COMM_R0,r0); UsbWrite(COMM_R1,0); ...\<close>\<close>

fun write_regs :: "'d bus \<Rightarrow> u16 list \<Rightarrow> u16 \<Rightarrow> 'd world \<Rightarrow> 'd world" where
  "write_regs b [] v w = w"
| "write_regs b (r # rs) v w = write_regs b rs v (UsbWrite b r v w)"

definition hot_plug_step :: "'d bus \<Rightarrow> 'd main_state \<Rightarrow> 'd main_state" where
  "hot_plug_step b s =
     (let w = UsbSoftReset b (wd s);
          w = UsbWrite b HPI_SIE1_MSG_ADR 0 w;
          w = UsbWrite b HOST1_STAT_REG 0xFFFF w;
          w = UsbWrite b HUSB_pEOT 600 w;
          v = SOFEOP1_TO_CPU_EN OR RESUME1_TO_HPI_EN;
          w = UsbWrite b HPI_IRQ_ROUTING_REG v w;
          intStat = A_CHG_IRQ_EN OR SOF_EOP_IRQ_EN;
          w = UsbWrite b HOST1_IRQ_EN_REG intStat w;
          w = write_regs b COMM_R 0 w;
          w = UsbWrite b COMM_INT_NUM HUSB_SIE1_INIT_INT w;
          w = IOWR b CY7C67200_BASE HPI_MAILBOX COMM_EXEC_INT w
      in s\<lparr>pc := WaitInit, usb_ctl_val := v, wd := w\<rparr>)"

definition wait_init_step :: "'d bus \<Rightarrow> 'd main_state \<Rightarrow> 'd main_state" where
  "wait_init_step b s =
     (let (v, w) = IORD b CY7C67200_BASE HPI_STATUS (wd s)
      in if v AND 0xFFFF = 0 then s\<lparr>wd := w\<rparr> else s\<lparr>pc := CheckInitAck, wd := w\<rparr>)"

text \<open>\<open>while (IORD(...HPI_MAILBOX) != COMM_ACK) { printf(...); goto USB_HOT_PLUG; }\<close>\<close>

definition check_ack :: "'d bus \<Rightarrow> label \<Rightarrow> 'd main_state \<Rightarrow> 'd main_state" where
  "check_ack b next s =
     (let (v, w) = IORD b CY7C67200_BASE HPI_MAILBOX (wd s)
      in if v \<noteq> COMM_ACK
         then (let (v', w) = IORD b CY7C67200_BASE HPI_MAILBOX w
               in s\<lparr>pc := HotPlug, wd := printf (Msg_mailbox_error v') w\<rparr>)
         else s\<lparr>pc := next, wd := w\<rparr>)"

definition husb_reset_step :: "'d bus \<Rightarrow> 'd main_state \<Rightarrow> 'd main_state" where
  "husb_reset_step b s =
     (let w = UsbWrite b COMM_INT_NUM HUSB_RESET_INT (wd s);
          w = UsbWrite b (hd COMM_R) 0x003c w;
          w = write_regs b (tl COMM_R) 0 w;
          w = IOWR b CY7C67200_BASE HPI_MAILBOX COMM_EXEC_INT w
      in check_ack b DetectDevice (s\<lparr>wd := w\<rparr>))"

subsection \<open>Device detection\<close>

text \<open>\<open>for(...; hot_plug_count < n; ...) { usleep(5*1000); usb_ctl_val = UsbRead(ctl_reg);
  if(usb_ctl_val & no_device) break; }\<close>\<close>

fun poll_present :: "'d bus \<Rightarrow> u16 \<Rightarrow> u16 \<Rightarrow> nat \<Rightarrow> u16 \<Rightarrow> 'd world \<Rightarrow> u16 \<times> 'd world" where
  "poll_present b ctl present 0 v w = (v, w)"
| "poll_present b ctl present (Suc n) v w =
     (let w = usleep b (5 * 1000) w;
          (v, w) = UsbRead b ctl w
      in if v AND present \<noteq> 0 then (v, w) else poll_present b ctl present n v w)"

definition detect_step :: "'d bus \<Rightarrow> 'd main_state \<Rightarrow> 'd main_state" where
  "detect_step b s =
     (let creg = USB1_CTL_REG; nodev = A_DP_STAT OR A_DM_STAT; fs = A_DP_STAT;
          s = s\<lparr>ctl_reg := creg, no_device := nodev, fs_device := fs\<rparr>;
          (v, w) = UsbRead b creg (wd s)
      in if v AND nodev = 0
         then (let (v, w) = poll_present b creg nodev 5 v w
               in if v AND nodev = 0
                  then s\<lparr>pc := WaitInsert, usb_ctl_val := v,
                         wd := printf Msg_insert_keyboard (printf Msg_no_device w)\<rparr>
                  else s\<lparr>pc := Submit SetAddress, usb_ctl_val := v, wd := w\<rparr>)
         else s\<lparr>pc := Submit SetAddress, usb_ctl_val := v,
                wd := printf (if v AND fs \<noteq> 0 then Msg_full_speed else Msg_low_speed) w\<rparr>)"

definition wait_insert_step :: "'d bus \<Rightarrow> 'd main_state \<Rightarrow> 'd main_state" where
  "wait_insert_step b s =
     (let (v, w) = UsbRead b (ctl_reg s) (wd s)
      in if v AND no_device s \<noteq> 0 then s\<lparr>pc := HotPlug, usb_ctl_val := v, wd := w\<rparr>
         else s\<lparr>usb_ctl_val := v, wd := usleep b 2000 w\<rparr>)"

subsection \<open>The enumeration: steps 3 to 9\<close>

text \<open>The step number in the messages of each stage.\<close>

fun stage_number :: "stage \<Rightarrow> nat" where
  "stage_number SetAddress = 3"
| "stage_number DeviceDesc1 = 4"
| "stage_number DeviceDesc2 = 4"
| "stage_number ConfigDesc1 = 5"
| "stage_number ConfigDesc2 = 6"
| "stage_number SetConfig = 7"
| "stage_number ClassRequest = 8"
| "stage_number HidDesc = 8"
| "stage_number ReportDesc = 9"

text \<open>Where each stage continues.\<close>

fun next_label :: "stage \<Rightarrow> label" where
  "next_label SetAddress = Submit DeviceDesc1"
| "next_label DeviceDesc1 = Submit DeviceDesc2"
| "next_label DeviceDesc2 = Submit ConfigDesc1"
| "next_label ConfigDesc1 = Submit ConfigDesc2"
| "next_label ConfigDesc2 = DeviceInfo"
| "next_label SetConfig = Submit ClassRequest"
| "next_label ClassRequest = Submit HidDesc"
| "next_label HidDesc = Submit ReportDesc"
| "next_label ReportDesc = StartPoll"

definition submit_step :: "'d bus \<Rightarrow> stage \<Rightarrow> 'd main_state \<Rightarrow> 'd main_state" where
  "submit_step b st s =
     (let w = stage_request st b (wd s);
          w = (if st = ConfigDesc2 then usleep b (100 * 1000) w else w)
      in s\<lparr>pc := WaitMsg st, wd := w\<rparr>)"

text \<open>One iteration of the loop that waits for the SIE1 message flag; when the flag is there,
  wait for the list to be done and read the first descriptor's status and control bytes.\<close>

definition wait_msg_step :: "'d bus \<Rightarrow> stage \<Rightarrow> 'd main_state \<Rightarrow> 'd main_state option" where
  "wait_msg_step b st s =
     (let (v, w) = IORD b CY7C67200_BASE HPI_STATUS (wd s)
      in if v AND HPI_STATUS_SIE1msg_FLAG = 0
         then Some (s\<lparr>wd := usleep b (10 * 1000) (stage_request st b w)\<rparr>)
         else (case UsbWaitTDListDone b w of
                 None \<Rightarrow> None
               | Some (_, w) \<Rightarrow>
                   (let (x, w) = IORD b CY7C67200_BASE HPI_DATA
                                   (IOWR b CY7C67200_BASE HPI_ADDR 0x0506 w);
                        w = printf (Msg_td_status (stage_number st) x) w;
                        (y, w) = IORD b CY7C67200_BASE HPI_DATA
                                   (IOWR b CY7C67200_BASE HPI_ADDR 0x0508 w);
                        w = printf (Msg_td_control (stage_number st) (ucast y)) w
                    in Some (s\<lparr>pc := CheckTD st, usb_ctl_val := ucast y, wd := w\<rparr>))))"

text \<open>\<open>while (usb_ctl_val != 0x03) { usb_ctl_val = UsbGetRetryCnt(); }\<close>; after the retry count
  of SET_ADDRESS comes \<open>goto USB_HOT_PLUG\<close>.\<close>

definition check_td_step :: "'d bus \<Rightarrow> stage \<Rightarrow> 'd main_state \<Rightarrow> 'd main_state option" where
  "check_td_step b st s =
     (if usb_ctl_val s \<noteq> 0x03
      then (case UsbGetRetryCnt b (wd s) of
              None \<Rightarrow> None
            | Some (v, w) \<Rightarrow>
                Some (s\<lparr>pc := (if st = SetAddress then HotPlug else CheckTD st),
                        usb_ctl_val := v, wd := w\<rparr>))
      else Some (s\<lparr>pc := next_label st, wd := printf (Msg_stage_done (stage_number st)) (wd s)\<rparr>))"

definition device_info_step :: "'d bus \<Rightarrow> 'd main_state \<Rightarrow> 'd main_state" where
  "device_info_step b s =
     (let w = UsbPrintMem b (wd s);
          (v, w) = IORD b CY7C67200_BASE HPI_DATA (IOWR b CY7C67200_BASE HPI_ADDR 0x056C w);
          w = printf (Msg_code (ucast v)) w;
          code = (ucast v :: u16) AND 0x0ff;
          w = (if code = 0x01 then printf Msg_keyboard_detected w
               else printf Msg_keyboard_not_detected (printf (Msg_value code) w));
          w = IOWR b CY7C67200_BASE HPI_ADDR 0x057B w;
          w = printf (Msg_packet_size 0x08) w
      in s\<lparr>pc := Submit SetConfig, data_size := 0x08, wd := w\<rparr>)"

definition start_poll_step :: "'d bus \<Rightarrow> 'd main_state \<Rightarrow> 'd main_state" where
  "start_poll_step b s = s\<lparr>pc := KbPoll, wd := usleep b 10000 (wd s)\<rparr>"

subsection \<open>Polling the keyboard\<close>

text \<open>The IN transaction on endpoint 1: one descriptor, its toggle from the poll counter.\<close>

definition kb_words :: "u8 \<Rightarrow> u8 \<Rightarrow> u32 list" where
  "kb_words tog dsize =
     [0x051c, 0x000f AND ucast dsize, 0x0291, if tog mod 2 \<noteq> 0 then 0x0001 else 0x0041,
      0x0013, 0x0000]"

definition kb_poll_step :: "'d bus \<Rightarrow> 'd main_state \<Rightarrow> 'd main_state" where
  "kb_poll_step b s =
     (let t = toggle s + 1
      in s\<lparr>pc := KbWaitMsg, toggle := t, wd := submit_td_list b (kb_words t (data_size s)) (wd s)\<rparr>)"

definition kb_wait_msg_step :: "'d bus \<Rightarrow> 'd main_state \<Rightarrow> 'd main_state option" where
  "kb_wait_msg_step b s =
     (let (v, w) = IORD b CY7C67200_BASE HPI_STATUS (wd s)
      in if v AND HPI_STATUS_SIE1msg_FLAG = 0
         then Some (s\<lparr>wd := usleep b (10 * 1000)
                              (submit_td_list b (kb_words (toggle s) (data_size s)) w)\<rparr>)
         else (case UsbWaitTDListDone b w of
                 None \<Rightarrow> None
               | Some (v, w) \<Rightarrow> Some (s\<lparr>pc := KbReport, usb_ctl_val := v, wd := w\<rparr>)))"

definition kb_report_step :: "'d bus \<Rightarrow> 'd main_state \<Rightarrow> 'd main_state" where
  "kb_report_step b s =
     (let (k, w) = IORD b CY7C67200_BASE HPI_DATA (IOWR b CY7C67200_BASE HPI_ADDR 0x051E (wd s));
          w = printf (Msg_keycodes k) w;
          w = IOWR b KEYCODE_BASE 0 (k AND 0xff) w;
          w = usleep b 200 w;
          (v, w) = UsbRead b (ctl_reg s) w;
          s = s\<lparr>keycode := k\<rparr>
      in if v AND no_device s = 0
         then (let (v, w) = poll_present b (ctl_reg s) (no_device s) 7 v w
               in if v AND no_device s = 0
                  then s\<lparr>pc := KbRemoved, usb_ctl_val := v,
                         wd := printf Msg_insert_again (printf Msg_keyboard_removed w)\<rparr>
                  else s\<lparr>pc := KbPoll, usb_ctl_val := v, wd := w\<rparr>)
         else s\<lparr>pc := KbPoll, usb_ctl_val := v, wd := w\<rparr>)"

definition kb_removed_step :: "'d bus \<Rightarrow> 'd main_state \<Rightarrow> 'd main_state" where
  "kb_removed_step b s =
     (let (_, w) = UsbRead b (ctl_reg s) (wd s);
          w = usleep b (5 * 1000) w;
          (_, w) = UsbRead b (ctl_reg s) w;
          w = usleep b (5 * 1000) w;
          (v, w) = UsbRead b (ctl_reg s) w;
          w = usleep b (5 * 1000) w
      in if v AND no_device s \<noteq> 0 then s\<lparr>pc := HotPlug, usb_ctl_val := v, wd := w\<rparr>
         else s\<lparr>usb_ctl_val := v, wd := usleep b 200 w\<rparr>)"

subsection \<open>The program\<close>

definition main_step :: "'d bus \<Rightarrow> 'd main_state \<Rightarrow> 'd main_state option" where
  "main_step b s =
     (case pc s of
        Setup \<Rightarrow> Some (setup_step s)
      | HotPlug \<Rightarrow> Some (hot_plug_step b s)
      | WaitInit \<Rightarrow> Some (wait_init_step b s)
      | CheckInitAck \<Rightarrow> Some (check_ack b HusbReset s)
      | HusbReset \<Rightarrow> Some (husb_reset_step b s)
      | DetectDevice \<Rightarrow> Some (detect_step b s)
      | WaitInsert \<Rightarrow> Some (wait_insert_step b s)
      | Submit st \<Rightarrow> Some (submit_step b st s)
      | WaitMsg st \<Rightarrow> wait_msg_step b st s
      | CheckTD st \<Rightarrow> check_td_step b st s
      | DeviceInfo \<Rightarrow> Some (device_info_step b s)
      | StartPoll \<Rightarrow> Some (start_poll_step b s)
      | KbPoll \<Rightarrow> Some (kb_poll_step b s)
      | KbWaitMsg \<Rightarrow> kb_wait_msg_step b s
      | KbReport \<Rightarrow> Some (kb_report_step b s)
      | KbRemoved \<Rightarrow> Some (kb_removed_step b s))"

text \<open>The first \<open>n\<close> steps of the program.\<close>

fun main_run :: "'d bus \<Rightarrow> nat \<Rightarrow> 'd main_state \<Rightarrow> 'd main_state option" where
  "main_run b 0 s = Some s"
| "main_run b (Suc n) s = Option.bind (main_step b s) (main_run b n)"

end
