(* ===== verification/UsbWait.thy ===== *)
theory UsbWait
  imports UsbMain
begin

text \<open>
  The waiting loops of \<open>usb.c\<close> and \<open>main.c\<close>: when they return, with what, and what they do
  to the bus meanwhile. \<open>UsbWaitTDListDone\<close> is characterised by the device alone: one round
  of the loop is a function on device states, and the call returns iff some round reads
  \<open>HUSB_TDListDone\<close>.
\<close>

subsection \<open>Events the drivers may cause\<close>

text \<open>The accesses the program makes: data and address writes of the HPI port, mailbox writes of
  the two commands, byte values to the keycode port; reads of data, mailbox and status.\<close>

definition reset_event :: io_event where
  "reset_event = IoWr 0x10000004 COMM_RESET"

fun bus_event_ok :: "io_event \<Rightarrow> bool" where
  "bus_event_ok (IoWr a v) =
     (a = 0x10000000 \<or> a = 0x10000008 \<or> (a = 0x10000004 \<and> (v = COMM_RESET \<or> v = COMM_EXEC_INT))
      \<or> (a = 0x11001020 \<and> v \<le> 0xFF))"
| "bus_event_ok (IoRd a v) = (a = 0x10000000 \<or> a = 0x10000004 \<or> a = 0x1000000C)"
| "bus_event_ok (Usleep t) = True"
| "bus_event_ok (Print c) = True"

text \<open>The same, for the code of one label: only \<open>HotPlug\<close> resets the chip, only \<open>KbReport\<close>
  publishes a keycode.\<close>

fun quiet_event :: "io_event \<Rightarrow> bool" where
  "quiet_event (IoWr a v) = (a = 0x10000000 \<or> a = 0x10000008 \<or> (a = 0x10000004 \<and> v = COMM_EXEC_INT))"
| "quiet_event (IoRd a v) = (a = 0x10000000 \<or> a = 0x10000004 \<or> a = 0x1000000C)"
| "quiet_event (Usleep t) = True"
| "quiet_event (Print c) = True"

definition step_event_ok :: "label \<Rightarrow> io_event \<Rightarrow> bool" where
  "step_event_ok l e \<longleftrightarrow>
     bus_event_ok e \<and> (e = reset_event \<longrightarrow> l = HotPlug) \<and>
     (\<forall>v. e = IoWr 0x11001020 v \<longrightarrow> l = KbReport)"

lemma quiet_step_event [intro]: "quiet_event e \<Longrightarrow> step_event_ok l e"
  by (cases e) (auto simp: step_event_ok_def reset_event_def COMM_EXEC_INT_def COMM_RESET_def)

lemma quiet_log_adds: "log_adds quiet_event w w' \<Longrightarrow> log_adds (step_event_ok l) w w'"
  by (erule log_adds_mono) auto

text \<open>The call-by-call equations for \<open>auto\<close>: with \<open>log_IORD\<close> as a destruction rule they
  expose the log of a straight-line piece of code.\<close>

lemma log_UsbRead:
  "UsbRead b a w = (v, w') \<Longrightarrow>
     \<exists>x. v = ucast x \<and> log w' = log w @ [IoWr 0x10000008 (ucast a), IoRd 0x10000000 x]"
  by (auto simp: UsbRead_def hpi_regs hal_simps dest!: log_IORD split: prod.splits)

lemma log_adds_UsbRead: "UsbRead b a w = (v, w') \<Longrightarrow> log_adds quiet_event w w'"
  by (auto dest!: log_UsbRead simp: log_adds_def)

lemma log_adds_UsbWrite [hal_intros]: "log_adds quiet_event w (UsbWrite b a v w)"
  by (rule log_addsI) (auto simp: hal_simps)

lemma log_adds_usleep [hal_intros]: "log_adds quiet_event w (usleep b t w)"
  by (rule log_addsI) (auto simp: hal_simps)

lemma log_adds_printf [hal_intros]: "log_adds quiet_event w (printf m w)"
  by (rule log_addsI) (auto simp: hal_simps)

lemma submit_events_quiet [simp]: "list_all quiet_event (submit_events ws)"
  by (simp add: submit_events_def list_all_iff)

lemma log_adds_submit [hal_intros]: "log_adds quiet_event w (submit_td_list b ws w)"
  by (rule log_addsI) (auto simp: hal_simps)

text \<open>The same as introduction rules that peel the last operation off.\<close>

lemma quiet_steps [intro!]:
  "log_adds quiet_event u w \<Longrightarrow> log_adds quiet_event u (UsbWrite b a v w)"
  "log_adds quiet_event u w \<Longrightarrow> log_adds quiet_event u (usleep b t w)"
  "log_adds quiet_event u w \<Longrightarrow> log_adds quiet_event u (printf m w)"
  "log_adds quiet_event u w \<Longrightarrow> log_adds quiet_event u (submit_td_list b ws w)"
  "log_adds quiet_event u w \<Longrightarrow> log_adds quiet_event u (IOWR b CY7C67200_BASE HPI_DATA x w)"
  "log_adds quiet_event u w \<Longrightarrow> log_adds quiet_event u (IOWR b CY7C67200_BASE HPI_ADDR x w)"
  "log_adds quiet_event u w \<Longrightarrow>
     log_adds quiet_event u (IOWR b CY7C67200_BASE HPI_MAILBOX COMM_EXEC_INT w)"
  by (erule log_adds_trans; auto intro: hal_intros simp: log_adds_def hal_simps hpi_regs)+

lemma quiet_reads:
  "IORD b CY7C67200_BASE HPI_DATA w = (x, w') \<Longrightarrow> log_adds quiet_event w w'"
  "IORD b CY7C67200_BASE HPI_MAILBOX w = (x, w') \<Longrightarrow> log_adds quiet_event w w'"
  "IORD b CY7C67200_BASE HPI_STATUS w = (x, w') \<Longrightarrow> log_adds quiet_event w w'"
  "UsbRead b a w = (v, w') \<Longrightarrow> log_adds quiet_event w w'"
  by (auto dest!: log_IORD log_UsbRead simp: log_adds_def hpi_regs)

subsection \<open>Waiting for the list to be done\<close>

text \<open>One round seen from the device: read the SIE1 message, then clear it.\<close>

definition sie1_round :: "'d bus \<Rightarrow> 'd \<Rightarrow> u16 \<times> 'd" where
  "sie1_round b d =
     (let (x, d) = bus_rd b (bus_wr b d 0x10000008 0x0144) 0x10000000
      in (ucast x, bus_wr b (bus_wr b d 0x10000008 0x0144) 0x10000000 0))"

fun sie1_msg :: "'d bus \<Rightarrow> nat \<Rightarrow> 'd \<Rightarrow> u16" where
  "sie1_msg b 0 d = fst (sie1_round b d)"
| "sie1_msg b (Suc n) d = sie1_msg b n (snd (sie1_round b d))"

text \<open>The program's round does to the device what \<open>sie1_round\<close> says, and adds four events.\<close>

definition read_clear_msg :: "'d bus \<Rightarrow> 'd world \<Rightarrow> u16 \<times> 'd world" where
  "read_clear_msg b w =
     (let (v, w) = UsbRead b HPI_SIE1_MSG_ADR w in (v, UsbWrite b HPI_SIE1_MSG_ADR 0 w))"

lemma read_clear_msg_dev:
  "read_clear_msg b w = (v, w') \<Longrightarrow> sie1_round b (dev w) = (v, dev w')"
  by (auto simp: read_clear_msg_def UsbRead_def UsbWrite_def IORD_conv sie1_round_def hal_simps
      hpi_regs HPI_SIE1_MSG_ADR_def Let_def split: prod.splits)

lemma read_clear_msg_log:
  "read_clear_msg b w = (v, w') \<Longrightarrow>
     \<exists>x. v = ucast x \<and> log w' = log w @ [IoWr 0x10000008 0x0144, IoRd 0x10000000 x,
                                        IoWr 0x10000008 0x0144, IoWr 0x10000000 0]"
  by (auto simp: read_clear_msg_def HPI_SIE1_MSG_ADR_def hal_simps dest!: log_UsbRead
      split: prod.splits)

lemma wait_loop_unfold:
  "UsbWaitTDListDone_loop b v w =
     (if v = HUSB_TDListDone then Some (v, w)
      else (case read_clear_msg b (if v = 0 then w else printf (Msg_sie1_msg v) w) of
              (v, w) \<Rightarrow> UsbWaitTDListDone_loop b v w))"
  by (subst UsbWaitTDListDone_loop.simps) (simp add: read_clear_msg_def Let_def split: prod.split)

lemma wait_loop_done: "UsbWaitTDListDone_loop b HUSB_TDListDone w = Some (HUSB_TDListDone, w)"
  by (subst wait_loop_unfold) simp

lemma wait_unfold:
  "UsbWaitTDListDone b w = (case read_clear_msg b w of (v, w) \<Rightarrow> UsbWaitTDListDone_loop b v w)"
  by (simp add: UsbWaitTDListDone_def read_clear_msg_def Let_def split: prod.split)

lemma wait_loop_returns:
  "sie1_msg b n (dev w) = HUSB_TDListDone \<Longrightarrow>
     \<exists>r. UsbWaitTDListDone_loop b v w = Some r"
proof (induction n arbitrary: v w)
  case 0
  obtain v' w' where r: "read_clear_msg b (if v = 0 then w else printf (Msg_sie1_msg v) w) = (v', w')"
    by fastforce
  have "v' = HUSB_TDListDone"
    using 0 read_clear_msg_dev [OF r] by (simp add: hal_simps split: if_splits)
  then show ?case
    by (subst wait_loop_unfold) (simp add: r wait_loop_done)
next
  case (Suc n)
  obtain v' w' where r: "read_clear_msg b (if v = 0 then w else printf (Msg_sie1_msg v) w) = (v', w')"
    by fastforce
  have "sie1_msg b n (dev w') = HUSB_TDListDone"
    using Suc.prems read_clear_msg_dev [OF r] by (simp add: hal_simps split: if_splits)
  from Suc.IH [OF this] show ?case
    by (subst wait_loop_unfold) (simp add: r)
qed

text \<open>Partial correctness by fixpoint induction: what a returning call has done.\<close>

lemmas wait_loop_induct =
  UsbWaitTDListDone_loop.raw_induct [rotated, consumes 1, case_names step]

lemma wait_loop_result:
  "UsbWaitTDListDone_loop b v w = Some rw \<Longrightarrow>
     fst rw = HUSB_TDListDone \<and>
     (v = HUSB_TDListDone \<and> snd rw = w \<or>
       (\<exists>n x w1. sie1_msg b n (dev w) = HUSB_TDListDone \<and> log_adds quiet_event w w1 \<and>
         ucast x = HUSB_TDListDone \<and>
         log (snd rw) = log w1 @ [IoWr 0x10000008 0x0144, IoRd 0x10000000 x,
                                  IoWr 0x10000008 0x0144, IoWr 0x10000000 0]))"
proof (induction rule: wait_loop_induct)
  case (step self b v w rw)
  define w0 where "w0 = (if v = 0 then w else printf (Msg_sie1_msg v) w)"
  have w0: "log_adds quiet_event w w0" "dev w0 = dev w"
    by (auto simp: w0_def hal_simps intro: hal_intros)
  show ?case
  proof (cases "v = HUSB_TDListDone")
    case True
    with step(2) show ?thesis by auto
  next
    case False
    obtain v' w' where r: "read_clear_msg b w0 = (v', w')"
      by fastforce
    from step(2) False r have s: "self b v' w' = Some rw"
      by (auto simp: read_clear_msg_def w0_def Let_def split: prod.splits)
    from read_clear_msg_dev [OF r] have d: "sie1_round b (dev w) = (v', dev w')"
      by (simp add: w0)
    from read_clear_msg_log [OF r] obtain x where x: "v' = ucast x"
      "log w' = log w0 @ [IoWr 0x10000008 0x0144, IoRd 0x10000000 x,
                          IoWr 0x10000008 0x0144, IoWr 0x10000000 0]"
      by blast
    have w': "log_adds quiet_event w w'"
      by (rule log_adds_trans [OF w0(1)], rule log_addsI [OF x(2)]) simp
    from step(1) [OF s] show ?thesis
    proof (elim conjE disjE exE)
      assume "fst rw = HUSB_TDListDone" "v' = HUSB_TDListDone" "snd rw = w'"
      then show ?thesis
        using x w0 by (intro conjI disjI2 exI [of _ "0::nat"] exI [of _ x] exI [of _ w0])
          (auto simp: d)
    next
      fix n y w1
      assume "fst rw = HUSB_TDListDone" "sie1_msg b n (dev w') = HUSB_TDListDone"
        "log_adds quiet_event w' w1" "ucast y = HUSB_TDListDone"
        "log (snd rw) = log w1 @ [IoWr 0x10000008 0x0144, IoRd 0x10000000 y,
                                  IoWr 0x10000008 0x0144, IoWr 0x10000000 0]"
      then show ?thesis
        using log_adds_trans [OF w'] d
        by (intro conjI disjI2 exI [of _ "Suc n"] exI [of _ y] exI [of _ w1])
          (auto simp: d)
    qed
  qed
qed

lemma wait_result:
  assumes "UsbWaitTDListDone b w = Some (v, w')"
  obtains n x w1 where "v = HUSB_TDListDone" "sie1_msg b n (dev w) = HUSB_TDListDone"
    "log_adds quiet_event w w1" "ucast x = HUSB_TDListDone"
    "log w' = log w1 @ [IoWr 0x10000008 0x0144, IoRd 0x10000000 x,
                        IoWr 0x10000008 0x0144, IoWr 0x10000000 0]"
proof -
  obtain v0 w0 where r: "read_clear_msg b w = (v0, w0)"
    by fastforce
  from read_clear_msg_log [OF r] obtain x where x: "v0 = ucast x"
    "log w0 = log w @ [IoWr 0x10000008 0x0144, IoRd 0x10000000 x,
                       IoWr 0x10000008 0x0144, IoWr 0x10000000 0]"
    by blast
  then have a: "log_adds quiet_event w w0"
    by (auto intro: log_addsI)
  have d: "sie1_msg b 0 (dev w) = v0" "\<And>n. sie1_msg b (Suc n) (dev w) = sie1_msg b n (dev w0)"
    using read_clear_msg_dev [OF r] by simp_all
  from assms r have "UsbWaitTDListDone_loop b v0 w0 = Some (v, w')"
    by (simp add: wait_unfold)
  from wait_loop_result [OF this] show ?thesis
  proof (elim conjE disjE exE)
    fix n y w1
    assume "fst (v, w') = HUSB_TDListDone" "sie1_msg b n (dev w0) = HUSB_TDListDone"
      "log_adds quiet_event w0 w1" "ucast y = HUSB_TDListDone"
      "log (snd (v, w')) = log w1 @ [IoWr 0x10000008 0x0144, IoRd 0x10000000 y,
                                     IoWr 0x10000008 0x0144, IoWr 0x10000000 0]"
    then show ?thesis
      using d(2) log_adds_trans [OF a] by (intro that [of "Suc n" w1 y]) auto
  qed (use x d(1) that [of 0 w x] in auto)
qed

text \<open>C6. UsbWaitTDListDone returns if and only if the device, polled as the function polls it,
  posts HUSB_TDListDone in some round; it never returns another value, and when it returns the
  last thing it did was to read that message and clear the message register.\<close>

theorem UsbWaitTDListDone_returns_iff:
  "(\<exists>v w'. UsbWaitTDListDone b w = Some (v, w')) \<longleftrightarrow> (\<exists>n. sie1_msg b n (dev w) = HUSB_TDListDone)"
proof
  assume "\<exists>v w'. UsbWaitTDListDone b w = Some (v, w')"
  then show "\<exists>n. sie1_msg b n (dev w) = HUSB_TDListDone"
    by (blast elim: wait_result)
next
  assume "\<exists>n. sie1_msg b n (dev w) = HUSB_TDListDone"
  then obtain n where n: "sie1_msg b n (dev w) = HUSB_TDListDone" ..
  obtain v0 w0 where r: "read_clear_msg b w = (v0, w0)"
    by fastforce
  show "\<exists>v w'. UsbWaitTDListDone b w = Some (v, w')"
  proof (cases n)
    case 0
    with n read_clear_msg_dev [OF r] have "v0 = HUSB_TDListDone"
      by simp
    then show ?thesis
      by (simp add: wait_unfold r wait_loop_done)
  next
    case (Suc m)
    with n read_clear_msg_dev [OF r] have "sie1_msg b m (dev w0) = HUSB_TDListDone"
      by simp
    from wait_loop_returns [OF this] show ?thesis
      by (auto simp: wait_unfold r)
  qed
qed

subsection \<open>The other waiting calls\<close>

lemma wait_sie1_msg_log: "wait_sie1_msg b w = Some w' \<Longrightarrow> log_adds quiet_event w w'"
proof (induction rule: wait_sie1_msg.raw_induct [rotated, consumes 1, case_names step])
  case (step self b w w')
  obtain v w1 where r: "IORD b CY7C67200_BASE HPI_STATUS w = (v, w1)"
    by fastforce
  have a: "log_adds quiet_event w w1"
    by (rule log_addsI [OF log_IORD [OF r]]) (simp add: hpi_regs)
  show ?case
  proof (cases "v AND HPI_STATUS_SIE1msg_FLAG = 0")
    case True
    with step(2) r have "self b w1 = Some w'"
      by simp
    with step(1) log_adds_trans [OF a] show ?thesis
      by blast
  qed (use step(2) r a in auto)
qed

lemma retry_result:
  assumes "UsbGetRetryCnt b w = Some (v, w')"
  obtains x w1 where "v = ucast x" "log_adds quiet_event w w1"
    "log w' = log w1 @ [IoWr 0x10000008 0x0508, IoRd 0x10000000 x]"
proof -
  obtain s w1 where r1: "IORD b CY7C67200_BASE HPI_STATUS w = (s, w1)"
    by fastforce
  obtain m w2 where r2: "UsbRead b HPI_SIE1_MSG_ADR w1 = (m, w2)"
    by fastforce
  have a: "log_adds quiet_event w w2"
    using log_IORD [OF r1] log_UsbRead [OF r2] by (auto simp: log_adds_def hpi_regs)
  from assms obtain w3 where
    m: "(if m = HUSB_TDListDone then wait_sie1_msg b (UsbWrite b HPI_SIE1_MSG_ADR 0 w2)
         else Some w2) = Some w3" and
    l: "(case IORD b CY7C67200_BASE HPI_DATA (IOWR b CY7C67200_BASE HPI_ADDR 0x0508 w3) of
           (v, w) \<Rightarrow> Some (ucast v, w)) = Some (v, w')"
    by (auto simp: UsbGetRetryCnt_def r1 r2 bind_eq_Some_conv)
  from m a have a3: "log_adds quiet_event w w3"
    by (auto split: if_splits dest!: wait_sie1_msg_log
        intro: log_adds_trans [OF log_adds_trans [OF _ log_adds_UsbWrite]])
  from l obtain x where "v = ucast x"
    "IORD b CY7C67200_BASE HPI_DATA (IOWR b CY7C67200_BASE HPI_ADDR 0x0508 w3) = (x, w')"
    by (auto split: prod.splits)
  with a3 show ?thesis
    by (intro that [of x w3]) (auto dest!: log_IORD simp: hal_simps hpi_regs)
qed

lemma print_mem_loop_log: "log_adds quiet_event w (UsbPrintMem_loop b i w)"
proof (induction b i w rule: UsbPrintMem_loop.induct)
  case (1 b i w)
  obtain x w1 where r: "IORD b CY7C67200_BASE HPI_DATA w = (x, w1)"
    by fastforce
  have a: "log_adds quiet_event w (printf (Msg_mem (of_nat (0x0500 + i)) x) w1)"
    using log_IORD [OF r] by (auto simp: log_adds_def hal_simps hpi_regs)
  show ?case
  proof (cases "i \<le> 200")
    case True
    with 1 [OF True r [symmetric] refl refl] a r show ?thesis
      by (subst UsbPrintMem_loop.simps) (auto intro: log_adds_trans)
  qed (subst UsbPrintMem_loop.simps, simp)
qed

lemma log_adds_UsbPrintMem: "log_adds quiet_event w (UsbPrintMem b w)"
  unfolding UsbPrintMem_def
  by (rule log_adds_trans [OF _ print_mem_loop_log]) (auto simp: log_adds_def hal_simps hpi_regs)

lemma poll_present_log:
  "poll_present b ctl m n v w = (v', w') \<Longrightarrow> log_adds quiet_event w w'"
proof (induction n arbitrary: v w)
  case (Suc n)
  obtain x w1 where r: "UsbRead b ctl (usleep b (5 * 1000) w) = (x, w1)"
    by fastforce
  have "log_adds quiet_event w w1"
    by (rule log_adds_trans [OF log_adds_usleep log_adds_UsbRead [OF r]])
  with Suc r show ?case
    by (auto split: if_splits intro: log_adds_trans)
qed simp

lemma write_regs_log [intro!]:
  "log_adds quiet_event u w \<Longrightarrow> log_adds quiet_event u (write_regs b rs v w)"
  by (induction rs arbitrary: w) auto

end
