(* ===== verification/UsbProps.thy ===== *)
theory UsbProps
  imports UsbWait
begin

text \<open>
  The keyboard program as a whole: what any run, of any length, on any device, does to the
  bus, and what a cooperative device leads it to. The invariants are stated over the log, so
  that they speak of the order of the accesses; each is preserved by \<open>main_step\<close>.
\<close>

subsection \<open>What one step adds to the log\<close>

lemma log_adds_stepI [intro]: "log_adds quiet_event w w' \<Longrightarrow> log_adds (step_event_ok l) w w'"
  by (rule quiet_log_adds)

lemma log_UsbSoftReset:
  "\<exists>es. log (UsbSoftReset b w) = log w @ reset_event # es \<and> list_all quiet_event es"
  by (auto simp: UsbSoftReset_def reset_event_def hal_simps hpi_regs
      dest!: log_IORD log_UsbRead split: prod.splits)

lemma hot_plug_log:
  "\<exists>es. log (wd (hot_plug_step b s)) = log (wd s) @ reset_event # es \<and> list_all quiet_event es"
proof -
  obtain es where es: "log (UsbSoftReset b (wd s)) = log (wd s) @ reset_event # es"
    "list_all quiet_event es"
    using log_UsbSoftReset by blast
  define w where "w = UsbSoftReset b (wd s)"
  have q: "log_adds quiet_event w (wd (hot_plug_step b s))"
    unfolding hot_plug_step_def Let_def w_def [symmetric] by auto
  then show ?thesis
    using es by (auto simp: w_def elim!: log_addsE)
qed

lemma check_ack_log: "log_adds quiet_event (wd s) (wd (check_ack b l s))"
  by (auto simp: check_ack_def log_adds_def hal_simps hpi_regs dest!: log_IORD split: prod.splits)

lemma husb_reset_log: "log_adds quiet_event (wd s) (wd (husb_reset_step b s))"
  unfolding husb_reset_step_def Let_def by (rule log_adds_trans [OF _ check_ack_log]) auto

lemma wait_init_log: "log_adds quiet_event (wd s) (wd (wait_init_step b s))"
  by (auto simp: wait_init_step_def dest!: quiet_reads split: prod.splits)

lemma detect_log: "log_adds quiet_event (wd s) (wd (detect_step b s))"
  by (auto simp: detect_step_def Let_def dest!: quiet_reads poll_present_log
      split: prod.splits if_splits intro: log_adds_trans)

lemma wait_insert_log: "log_adds quiet_event (wd s) (wd (wait_insert_step b s))"
  by (auto simp: wait_insert_step_def dest!: quiet_reads split: prod.splits)

lemma submit_log:
  "\<exists>es. log (wd (submit_step b st s)) = log (wd s) @ submit_events (stage_words st) @ es
     \<and> list_all quiet_event es"
  by (auto simp: submit_step_def stage_request_submit hal_simps Let_def)

text \<open>The wait loop of a stage: still waiting, or the done message was read.\<close>

lemma wait_msg_log:
  assumes "wait_msg_step b st s = Some s'"
  shows "log_adds quiet_event (wd s) (wd s') \<and>
    (pc s' = pc s \<and> usb_ctl_val s' = usb_ctl_val s \<or>
     (\<exists>es x y. pc s' = CheckTD st \<and> usb_ctl_val s' = ucast y \<and> ucast x = HUSB_TDListDone \<and>
        (\<exists>m. log (wd s') = log (wd s) @ es @ [IoWr 0x10000008 0x0144, IoRd 0x10000000 x] @ m @
           [IoWr 0x10000008 0x0508, IoRd 0x10000000 y, Print (Msg_td_control (stage_number st) (ucast y))])))"
proof -
  obtain v w where r: "IORD b CY7C67200_BASE HPI_STATUS (wd s) = (v, w)"
    by fastforce
  show ?thesis
  proof (cases "v AND HPI_STATUS_SIE1msg_FLAG = 0")
    case True
    with assms r show ?thesis
      by (auto simp: wait_msg_step_def stage_request_submit dest!: quiet_reads)
  next
    case False
    with assms r obtain q w1 where q: "UsbWaitTDListDone b w = Some (q, w1)"
      by (auto simp: wait_msg_step_def split: option.splits)
    then obtain x w0 where w1: "log_adds quiet_event w w0" "ucast x = HUSB_TDListDone"
      "log w1 = log w0 @ [IoWr 0x10000008 0x0144, IoRd 0x10000000 x,
                          IoWr 0x10000008 0x0144, IoWr 0x10000000 0]"
      by (blast elim: wait_result)
    from w1(1) quiet_reads(3) [OF r] obtain es where
      es: "log w0 = log (wd s) @ es" "list_all quiet_event es"
      by (auto elim!: log_addsE)
    obtain x1 w2 where r2: "IORD b CY7C67200_BASE HPI_DATA (IOWR b CY7C67200_BASE HPI_ADDR 0x0506 w1) = (x1, w2)"
      by fastforce
    define w3 where "w3 = printf (Msg_td_status (stage_number st) x1) w2"
    obtain y w4 where r4: "IORD b CY7C67200_BASE HPI_DATA (IOWR b CY7C67200_BASE HPI_ADDR 0x0508 w3) = (y, w4)"
      by fastforce
    have s': "s' = s\<lparr>pc := CheckTD st, usb_ctl_val := ucast y,
                    wd := printf (Msg_td_control (stage_number st) (ucast y)) w4\<rparr>"
      using assms r False q r2 r4 by (simp add: wait_msg_step_def w3_def)
    show ?thesis
      using w1(2,3) es log_IORD [OF r2] log_IORD [OF r4]
      by (intro conjI disjI2 exI [of _ es] exI [of _ x] exI [of _ y]
            exI [of _ "[IoWr 0x10000008 0x0144, IoWr 0x10000000 0, IoWr 0x10000008 0x0506,
                        IoRd 0x10000000 x1, Print (Msg_td_status (stage_number st) x1)]"])
         (auto simp: s' w3_def log_adds_def hal_simps hpi_regs)
  qed
qed

lemma check_td_log:
  assumes "check_td_step b st s = Some s'"
  shows "log_adds quiet_event (wd s) (wd s') \<and>
    (if usb_ctl_val s = 3 then pc s' = next_label st
     else pc s' = (if st = SetAddress then HotPlug else CheckTD st) \<and>
       (\<exists>es y. usb_ctl_val s' = ucast y \<and>
          log (wd s') = log (wd s) @ es @ [IoWr 0x10000008 0x0508, IoRd 0x10000000 y]))"
proof (cases "usb_ctl_val s = 3")
  case True
  with assms show ?thesis by (auto simp: check_td_step_def)
next
  case False
  with assms obtain v w where r: "UsbGetRetryCnt b (wd s) = Some (v, w)"
    by (auto simp: check_td_step_def split: option.splits)
  then obtain y w1 where "v = ucast y" "log_adds quiet_event (wd s) w1"
    "log w = log w1 @ [IoWr 0x10000008 0x0508, IoRd 0x10000000 y]"
    by (blast elim: retry_result)
  with False assms r show ?thesis
    by (auto simp: check_td_step_def log_adds_def)
qed

lemma device_info_log:
  "log_adds quiet_event (wd s) (wd (device_info_step b s)) \<and> pc (device_info_step b s) = Submit SetConfig
   \<and> data_size (device_info_step b s) = 8"
proof -
  define w1 where "w1 = IOWR b CY7C67200_BASE HPI_ADDR 0x056C (UsbPrintMem b (wd s))"
  obtain v w2 where r: "IORD b CY7C67200_BASE HPI_DATA w1 = (v, w2)"
    by fastforce
  have "log_adds quiet_event (wd s) w1"
    unfolding w1_def by (auto intro: log_adds_UsbPrintMem)
  from log_adds_trans [OF this quiet_reads(1) [OF r]]
  show ?thesis
    by (auto simp: device_info_step_def Let_def w1_def [symmetric] r split: if_splits)
qed

lemma wait_log:
  assumes "UsbWaitTDListDone b w = Some (v, w')"
  shows "log_adds quiet_event w w'"
proof (rule wait_result [OF assms])
  fix n x w1
  assume "log_adds quiet_event w w1"
    and "log w' = log w1 @ [IoWr 0x10000008 0x0144, IoRd 0x10000000 x,
                            IoWr 0x10000008 0x0144, IoWr 0x10000000 0]"
  then show ?thesis
    by (rule log_adds_trans [OF _ log_addsI]) simp
qed

lemma kb_wait_log:
  assumes "kb_wait_msg_step b s = Some s'"
  shows "log_adds quiet_event (wd s) (wd s') \<and>
    (pc s' = pc s \<or> (pc s' = KbReport \<and> usb_ctl_val s' = HUSB_TDListDone))"
proof -
  obtain v w where r: "IORD b CY7C67200_BASE HPI_STATUS (wd s) = (v, w)"
    by fastforce
  note q = quiet_reads(3) [OF r]
  show ?thesis
  proof (cases "v AND HPI_STATUS_SIE1msg_FLAG = 0")
    case True
    with assms r q show ?thesis
      by (auto simp: kb_wait_msg_step_def)
  next
    case False
    with assms r obtain x w1 where x: "UsbWaitTDListDone b w = Some (x, w1)"
      and s': "s' = s\<lparr>pc := KbReport, usb_ctl_val := x, wd := w1\<rparr>"
      by (auto simp: kb_wait_msg_step_def split: option.splits)
    have "x = HUSB_TDListDone"
      by (rule wait_result [OF x])
    with s' log_adds_trans [OF q wait_log [OF x]] show ?thesis
      by simp
  qed
qed

lemma quiet_after_usleep: "log_adds quiet_event (usleep b t w) w' \<Longrightarrow> log_adds quiet_event w w'"
  by (rule log_adds_trans [OF log_adds_usleep])

lemma kb_removed_log: "log_adds quiet_event (wd s) (wd (kb_removed_step b s))"
  by (auto simp: kb_removed_step_def Let_def dest!: quiet_reads quiet_after_usleep
      split: prod.splits intro: log_adds_trans)

text \<open>A report: its keycode word is read at 0x051E and its low byte published, at once.\<close>

lemma kb_report_log:
  "\<exists>k es. log (wd (kb_report_step b s)) = log (wd s) @
       [IoWr 0x10000008 0x051E, IoRd 0x10000000 k, Print (Msg_keycodes k),
        IoWr 0x11001020 (k AND 0xFF)] @ es \<and> list_all quiet_event es"
proof -
  obtain k w1 where r1: "IORD b CY7C67200_BASE HPI_DATA (IOWR b CY7C67200_BASE HPI_ADDR 0x051E (wd s)) = (k, w1)"
    by fastforce
  define w2 where "w2 = IOWR b KEYCODE_BASE 0 (k AND 0xff) (printf (Msg_keycodes k) w1)"
  have w2: "log w2 = log (wd s) @ [IoWr 0x10000008 0x051E, IoRd 0x10000000 k,
      Print (Msg_keycodes k), IoWr 0x11001020 (k AND 0xFF)]"
    using log_IORD [OF r1] by (simp add: w2_def hal_simps hpi_regs KEYCODE_BASE_def)
  have "log_adds quiet_event w2 (wd (kb_report_step b s))"
    by (auto simp: kb_report_step_def Let_def r1 w2_def [symmetric]
        dest!: quiet_reads poll_present_log quiet_after_usleep
        split: prod.splits intro: log_adds_trans)
  then show ?thesis
    using w2 by (auto elim!: log_addsE)
qed

lemma main_step_adds:
  assumes "main_step b s = Some s'"
  shows "log_adds (step_event_ok (pc s)) (wd s) (wd s')"
proof (cases "pc s = HotPlug \<or> pc s = KbReport")
  case False
  have "log_adds quiet_event (wd s) (wd s')"
    using assms False wait_init_log [of s b] check_ack_log [of s b HusbReset] husb_reset_log [of s b]
      detect_log [of s b] wait_insert_log [of s b] device_info_log [of s b] kb_wait_log [of b s s']
      kb_removed_log [of s b] wait_msg_log [of b _ s s'] check_td_log [of b _ s s']
    by (auto simp: main_step_def setup_step_def start_poll_step_def kb_poll_step_def
        submit_step_def stage_request_submit Let_def split: label.splits if_splits)
  then show ?thesis ..
next
  case True
  then show ?thesis
  proof
    assume pc: "pc s = HotPlug"
    obtain es where "log (wd (hot_plug_step b s)) = log (wd s) @ reset_event # es"
      "list_all quiet_event es"
      using hot_plug_log by blast
    with assms pc show ?thesis
      by (auto simp: main_step_def log_adds_def list_all_iff)
         (simp add: step_event_ok_def reset_event_def)
  next
    assume pc: "pc s = KbReport"
    obtain k es where "log (wd (kb_report_step b s)) = log (wd s) @
       [IoWr 0x10000008 0x051E, IoRd 0x10000000 k, Print (Msg_keycodes k),
        IoWr 0x11001020 (k AND 0xFF)] @ es" "list_all quiet_event es"
      using kb_report_log by blast
    with assms pc word_and_le1 [of k "0xFF"] show ?thesis
      by (auto simp: main_step_def log_adds_def list_all_iff)
         (auto simp: step_event_ok_def reset_event_def)
  qed
qed

text \<open>Runs: an invariant of every step holds after any number of steps.\<close>

lemma main_run_invariant:
  assumes "\<And>s s'. main_step b s = Some s' \<Longrightarrow> I s \<Longrightarrow> I s'"
  shows "main_run b n s = Some s' \<Longrightarrow> I s \<Longrightarrow> I s'"
  by (induction n arbitrary: s) (auto simp: bind_eq_Some_conv dest: assms)

subsection \<open>The bus discipline\<close>

definition null_bus :: "unit bus" where
  "null_bus = \<lparr>bus_rd = \<lambda>_ _. (0, ()), bus_wr = \<lambda>_ _ _. (), bus_sleep = \<lambda>_ _. ()\<rparr>"

text \<open>In any run, from any state, on any device, the program writes only the data, mailbox
  and address registers of the HPI port and the keycode port, gives the mailbox only the
  commands COMM_RESET and COMM_EXEC_INT, publishes only values below 256, and reads only the
  data, mailbox and status registers.\<close>

theorem bus_discipline:
  assumes "main_run b n s = Some s'"
  shows "log_adds bus_event_ok (wd s) (wd s')"
proof -
  have "log_adds bus_event_ok (wd s) (wd t')"
    if "main_step b t = Some t'" "log_adds bus_event_ok (wd s) (wd t)" for t t'
    using that(2) main_step_adds [OF that(1)]
    by (blast intro: log_adds_trans log_adds_mono [where P = "step_event_ok (pc t)"]
        dest: step_event_ok_def [THEN iffD1])
  from main_run_invariant [of b "\<lambda>t. log_adds bus_event_ok (wd s) (wd t)", OF this assms]
  show ?thesis by simp
qed

lemma bus_discipline_witness:
  "log_adds bus_event_ok (wd (main_init ())) (wd (the (main_run null_bus 2 (main_init ()))))"
  by (rule bus_discipline [of null_bus 2])
     (simp add: numeral_2_eq_2 main_step_def main_init_def setup_step_def hot_plug_step_def Let_def)

subsection \<open>The enumeration order\<close>

definition stages :: "stage list" where
  "stages = [SetAddress, DeviceDesc1, DeviceDesc2, ConfigDesc1, ConfigDesc2, SetConfig,
             ClassRequest, HidDesc, ReportDesc]"

text \<open>Reads compare by the 16 bits of the chip's registers.\<close>

fun ev16 :: "io_event \<Rightarrow> io_event" where
  "ev16 (IoRd a v) = IoRd a (v AND 0xFFFF)"
| "ev16 e = e"

text \<open>What a completed stage leaves in the log: its list submitted, the done message read, and a
  control word of 3 read from its first descriptor.\<close>

definition stage_blocks :: "stage \<Rightarrow> io_event list list" where
  "stage_blocks st =
     [submit_events (stage_words st),
      [IoWr 0x10000008 0x0144, IoRd 0x10000000 0x1000],
      [IoWr 0x10000008 0x0508, IoRd 0x10000000 3]]"

text \<open>The blocks occur in the list in this order, without overlap.\<close>

primrec blocks_in_order :: "'a list list \<Rightarrow> 'a list \<Rightarrow> bool" where
  "blocks_in_order [] es = True"
| "blocks_in_order (b # bs) es = (\<exists>pre post. es = pre @ b @ post \<and> blocks_in_order bs post)"

text \<open>The log since the chip was last reset.\<close>

definition since_reset :: "io_event list \<Rightarrow> io_event list" where
  "since_reset es = rev (takeWhile (\<lambda>e. e \<noteq> reset_event) (rev es))"

definition enumerated :: "io_event list \<Rightarrow> bool" where
  "enumerated es = blocks_in_order (concat (map stage_blocks stages)) (map ev16 (since_reset es))"

lemma blocksI: "es = pre @ c @ post \<Longrightarrow> blocks_in_order cs post \<Longrightarrow> blocks_in_order (c # cs) es"
  by auto

lemma blocks_prepend: "blocks_in_order bs es \<Longrightarrow> blocks_in_order bs (xs @ es)"
proof (induction bs)
  case (Cons c cs)
  then obtain pre post where "es = pre @ c @ post" "blocks_in_order cs post"
    by auto
  then show ?case
    by (intro blocksI [of _ "xs @ pre" c post]) simp_all
qed simp

lemma blocks_append:
  "blocks_in_order bs es \<Longrightarrow> blocks_in_order cs fs \<Longrightarrow> blocks_in_order (bs @ cs) (es @ fs)"
proof (induction bs arbitrary: es)
  case Nil
  then show ?case by (simp add: blocks_prepend)
next
  case (Cons c bs)
  then obtain pre post where "es = pre @ c @ post" "blocks_in_order bs post"
    by auto
  with Cons show ?case
    by (subst append_Cons, intro blocksI [of _ pre c "post @ fs"]) auto
qed

lemma since_reset_append:
  "reset_event \<notin> set es \<Longrightarrow> since_reset (l @ es) = since_reset l @ es"
  by (subst since_reset_def, subst rev_append, subst takeWhile_append2)
     (auto simp: since_reset_def)

text \<open>How far a label is.\<close>

definition stages_before :: "stage \<Rightarrow> stage list" where
  "stages_before st = takeWhile (\<lambda>t. t \<noteq> st) stages"

fun progress :: "label \<Rightarrow> u16 \<Rightarrow> io_event list list" where
  "progress (Submit st) v = concat (map stage_blocks (stages_before st))"
| "progress (WaitMsg st) v =
     concat (map stage_blocks (stages_before st)) @ take 1 (stage_blocks st)"
| "progress (CheckTD st) v =
     concat (map stage_blocks (stages_before st))
       @ (if v = 3 then stage_blocks st else take 2 (stage_blocks st))"
| "progress DeviceInfo v = concat (map stage_blocks (stages_before SetConfig))"
| "progress StartPoll v = concat (map stage_blocks stages)"
| "progress KbPoll v = concat (map stage_blocks stages)"
| "progress KbWaitMsg v = concat (map stage_blocks stages)"
| "progress KbReport v = concat (map stage_blocks stages)"
| "progress KbRemoved v = concat (map stage_blocks stages)"
| "progress _ v = []"

definition progress_inv :: "'d main_state \<Rightarrow> bool" where
  "progress_inv s \<longleftrightarrow>
     blocks_in_order (progress (pc s) (usb_ctl_val s)) (map ev16 (since_reset (log (wd s))))"

lemma progress_next: "progress (next_label st) v = progress (CheckTD st) 3"
  by (cases st) (simp_all add: stages_before_def stages_def)

text \<open>The one way the proof goes from label to label: the step adds events without a reset that
  contain the blocks by which the new label is ahead.\<close>

lemma progress_step:
  assumes "progress_inv s" "log (wd s') = log (wd s) @ es" "reset_event \<notin> set es"
    and "progress (pc s') (usb_ctl_val s') = progress (pc s) (usb_ctl_val s) @ cs"
    and "blocks_in_order cs (map ev16 es)"
  shows "progress_inv s'"
  using assms blocks_append [OF assms(1) [unfolded progress_inv_def] assms(5)]
  by (simp add: progress_inv_def since_reset_append)

lemma progress_same:
  assumes "progress_inv s" "main_step b s = Some s'" "pc s \<noteq> HotPlug"
    and "progress (pc s') (usb_ctl_val s') = progress (pc s) (usb_ctl_val s)"
  shows "progress_inv s'"
proof -
  from main_step_adds [OF assms(2)] obtain es where
    "log (wd s') = log (wd s) @ es" "list_all (step_event_ok (pc s)) es"
    by (rule log_addsE)
  with assms show ?thesis
    by (intro progress_step [of s s' es "[]"]) (auto simp: list_all_iff step_event_ok_def)
qed

lemma progress_trivial: "progress (pc s) (usb_ctl_val s) = [] \<Longrightarrow> progress_inv s"
  by (simp add: progress_inv_def)

text \<open>Each kind of step of the enumeration.\<close>

lemma submit_inv:
  assumes "progress_inv s" "main_step b s = Some s'" "pc s = Submit st"
  shows "progress_inv s'"
proof -
  from assms(2,3) have s': "s' = submit_step b st s"
    by (simp add: main_step_def)
  obtain es where es: "log (wd s') = log (wd s) @ submit_events (stage_words st) @ es"
    "list_all quiet_event es"
    unfolding s' using submit_log by blast
  have "ev16 e = e" if "e \<in> set (submit_events ws)" for e ws
    using that by (auto simp: submit_events_def)
  then have "map ev16 (submit_events (stage_words st)) = submit_events (stage_words st)"
    by (simp add: map_idI)
  moreover have "reset_event \<notin> set (submit_events (stage_words st) @ es)"
    using es(2) submit_events_quiet [of "stage_words st"]
    by (auto simp: list_all_iff reset_event_def COMM_RESET_def COMM_EXEC_INT_def)
  ultimately show ?thesis
    using assms es s'
    by (intro progress_step [of s s' "submit_events (stage_words st) @ es" "take 1 (stage_blocks st)"])
       (auto simp: stage_blocks_def submit_step_def Let_def intro: blocksI [of _ "[]"])
qed

lemma ucast_mask16: "ucast (ucast (x :: u32) :: u16) = x AND 0xFFFF"
proof -
  have "(0xFFFF :: u32) = mask 16"
    by (simp add: mask_eq_exp_minus_1)
  then show ?thesis
    by (simp add: unsigned_ucast_eq take_bit_eq_mask)
qed

lemma mask16_eq:
  fixes x :: u32
  assumes "ucast x = (c :: u16)"
  shows "x AND 0xFFFF = ucast c"
  using ucast_mask16 [of x] assms by simp

lemma no_reset_added:
  assumes "main_step b s = Some s'" "pc s \<noteq> HotPlug" "log (wd s') = log (wd s) @ es"
  shows "reset_event \<notin> set es"
  using main_step_adds [OF assms(1)] assms(2,3)
  by (auto simp: log_adds_def list_all_iff step_event_ok_def)

lemma wait_msg_inv:
  assumes "progress_inv s" "main_step b s = Some s'" "pc s = WaitMsg st"
  shows "progress_inv s'"
proof -
  from assms(2,3) have "wait_msg_step b st s = Some s'"
    by (simp add: main_step_def)
  from wait_msg_log [OF this] show ?thesis
  proof (elim conjE disjE exE)
    assume "pc s' = pc s" "usb_ctl_val s' = usb_ctl_val s"
    with assms show ?thesis
      by (intro progress_same [of s b s']) auto
  next
    fix es x y m
    assume d: "pc s' = CheckTD st" "usb_ctl_val s' = ucast y" "ucast x = HUSB_TDListDone"
      "log (wd s') = log (wd s) @ es @ [IoWr 0x10000008 0x0144, IoRd 0x10000000 x] @ m @
         [IoWr 0x10000008 0x0508, IoRd 0x10000000 y, Print (Msg_td_control (stage_number st) (ucast y))]"
    let ?es = "es @ [IoWr 0x10000008 0x0144, IoRd 0x10000000 x] @ m @
         [IoWr 0x10000008 0x0508, IoRd 0x10000000 y, Print (Msg_td_control (stage_number st) (ucast y))]"
    let ?cs = "drop 1 (if usb_ctl_val s' = 3 then stage_blocks st else take 2 (stage_blocks st))"
    have x: "x AND 0xFFFF = 0x1000"
      using mask16_eq [OF d(3)] by (simp add: HUSB_TDListDone_def)
    have "blocks_in_order ?cs (map ev16 ?es)"
    proof (cases "usb_ctl_val s' = 3")
      case True
      with d(2) mask16_eq [of y 3] have y: "y AND 0xFFFF = 3"
        by simp
      show ?thesis
        using True x y
        by (auto simp: stage_blocks_def intro!: blocksI [of _ "map ev16 es"] blocksI [of _ "map ev16 m"])
    next
      case False
      then show ?thesis
        using x by (auto simp: stage_blocks_def intro!: blocksI [of _ "map ev16 es"])
    qed
    then show ?thesis
      using assms d no_reset_added [OF assms(2) _ d(4)]
      by (intro progress_step [of s s' ?es ?cs]) (auto simp: stage_blocks_def)
  qed
qed

lemma check_td_inv:
  assumes "progress_inv s" "main_step b s = Some s'" "pc s = CheckTD st"
  shows "progress_inv s'"
proof -
  from assms(2,3) have "check_td_step b st s = Some s'"
    by (simp add: main_step_def)
  note l = check_td_log [OF this]
  show ?thesis
  proof (cases "usb_ctl_val s = 3")
    case True
    with l assms show ?thesis
      by (intro progress_same [of s b s']) (auto simp: progress_next)
  next
    case False
    with l obtain es y where s': "pc s' = (if st = SetAddress then HotPlug else CheckTD st)"
      "usb_ctl_val s' = ucast y"
      "log (wd s') = log (wd s) @ es @ [IoWr 0x10000008 0x0508, IoRd 0x10000000 y]"
      by auto
    show ?thesis
    proof (cases "st = SetAddress \<or> usb_ctl_val s' \<noteq> 3")
      case True
      show ?thesis
      proof (cases "st = SetAddress")
        case True
        with s' show ?thesis by (auto intro: progress_trivial)
      next
        case False
        with True s' \<open>usb_ctl_val s \<noteq> 3\<close> assms show ?thesis
          by (intro progress_same [of s b s']) auto
      qed
    next
      case False
      let ?es = "es @ [IoWr 0x10000008 0x0508, IoRd 0x10000000 y]"
      from False s'(2) mask16_eq [of y 3] have y: "y AND 0xFFFF = 3"
        by simp
      have "blocks_in_order (drop 2 (stage_blocks st)) (map ev16 ?es)"
        using y by (auto simp: stage_blocks_def intro!: blocksI [of _ "map ev16 es"])
      then show ?thesis
        using assms s' False \<open>usb_ctl_val s \<noteq> 3\<close> no_reset_added [OF assms(2) _ s'(3)]
        by (intro progress_step [of s s' ?es "drop 2 (stage_blocks st)"])
           (auto simp: stage_blocks_def)
    qed
  qed
qed

lemma stages_before_first [simp]: "stages_before SetAddress = []"
  by (simp add: stages_before_def stages_def)

lemma progress_inv_step:
  assumes "main_step b s = Some s'" "progress_inv s"
  shows "progress_inv s'"
proof (cases "pc s")
  case (Submit st)
  with assms show ?thesis by (blast intro: submit_inv)
next
  case (WaitMsg st)
  with assms show ?thesis by (blast intro: wait_msg_inv)
next
  case (CheckTD st)
  with assms show ?thesis by (blast intro: check_td_inv)
next
  case DeviceInfo
  with assms device_info_log [of s b] show ?thesis
    by (intro progress_same [of s b s']) (auto simp: main_step_def)
next
  case StartPoll
  with assms show ?thesis
    by (intro progress_same [of s b s']) (auto simp: main_step_def start_poll_step_def)
next
  case KbPoll
  with assms show ?thesis
    by (intro progress_same [of s b s']) (auto simp: main_step_def kb_poll_step_def Let_def)
next
  case KbWaitMsg
  with assms kb_wait_log [of b s s'] show ?thesis
    by (intro progress_same [of s b s']) (auto simp: main_step_def)
next
  case KbReport
  with assms show ?thesis
    by (intro progress_same [of s b s'])
       (auto simp: main_step_def kb_report_step_def Let_def split: prod.splits)
next
  case KbRemoved
  then have "pc s' = HotPlug \<or> pc s' = KbRemoved"
    using assms by (auto simp: main_step_def kb_removed_step_def Let_def split: prod.splits if_splits)
  with KbRemoved assms show ?thesis
    by (auto intro: progress_trivial progress_same [of s b s'])
qed (use assms in \<open>auto simp: main_step_def setup_step_def hot_plug_step_def wait_init_step_def
    check_ack_def husb_reset_step_def detect_step_def wait_insert_step_def start_poll_step_def
    kb_poll_step_def Let_def split: prod.splits if_splits intro!: progress_trivial progress_same [of s b s']\<close>)

lemma progress_inv_run: "main_run b n (main_init d) = Some s \<Longrightarrow> progress_inv s"
  by (rule main_run_invariant [where I = progress_inv])
     (auto intro: progress_inv_step progress_trivial simp: main_init_def)

definition polling :: "label \<Rightarrow> bool" where
  "polling l \<longleftrightarrow> l \<in> {StartPoll, KbPoll, KbWaitMsg, KbReport, KbRemoved}"

lemma polling_enumerated: "progress_inv s \<Longrightarrow> polling (pc s) \<Longrightarrow> enumerated (log (wd s))"
  by (auto simp: progress_inv_def polling_def enumerated_def)

subsection \<open>The variables of the program\<close>

text \<open>The labels at which the packet size is set, and how a step changes the variables.\<close>

definition configured :: "label \<Rightarrow> bool" where
  "configured l \<longleftrightarrow> polling l \<or>
     (\<exists>st \<in> {SetConfig, ClassRequest, HidDesc, ReportDesc}. l \<in> {Submit st, WaitMsg st, CheckTD st})"

definition detected :: "label \<Rightarrow> bool" where
  "detected l \<longleftrightarrow> l \<notin> {Setup, HotPlug, WaitInit, CheckInitAck, HusbReset, DetectDevice}"

lemma main_step_toggle:
  "main_step b s = Some s' \<Longrightarrow> toggle s' = (if pc s = KbPoll then toggle s + 1 else toggle s)"
  by (auto simp: main_step_def setup_step_def hot_plug_step_def wait_init_step_def check_ack_def
      husb_reset_step_def detect_step_def wait_insert_step_def submit_step_def wait_msg_step_def
      check_td_step_def device_info_step_def start_poll_step_def kb_poll_step_def
      kb_wait_msg_step_def kb_report_step_def kb_removed_step_def Let_def
      split: label.splits prod.splits if_splits option.splits)

lemma main_step_data_size:
  "main_step b s = Some s' \<Longrightarrow> data_size s' = (if pc s = DeviceInfo then 8 else data_size s)"
  by (auto simp: main_step_def setup_step_def hot_plug_step_def wait_init_step_def check_ack_def
      husb_reset_step_def detect_step_def wait_insert_step_def submit_step_def wait_msg_step_def
      check_td_step_def device_info_step_def start_poll_step_def kb_poll_step_def
      kb_wait_msg_step_def kb_report_step_def kb_removed_step_def Let_def
      split: label.splits prod.splits if_splits option.splits)

lemma main_step_port:
  "main_step b s = Some s' \<Longrightarrow>
     (if pc s = DetectDevice then ctl_reg s' = USB1_CTL_REG \<and> no_device s' = A_DP_STAT OR A_DM_STAT
      else ctl_reg s' = ctl_reg s \<and> no_device s' = no_device s)"
  by (auto simp: main_step_def setup_step_def hot_plug_step_def wait_init_step_def check_ack_def
      husb_reset_step_def detect_step_def wait_insert_step_def submit_step_def wait_msg_step_def
      check_td_step_def device_info_step_def start_poll_step_def kb_poll_step_def
      kb_wait_msg_step_def kb_report_step_def kb_removed_step_def Let_def
      split: label.splits prod.splits if_splits option.splits)

lemma next_label_cases: "next_label st \<in> range Submit \<union> {DeviceInfo, StartPoll}"
  by (cases st) auto

lemma configured_next: "configured (next_label st) \<Longrightarrow> configured (CheckTD st)"
  by (cases st) (auto simp: configured_def polling_def)

text \<open>The control flow graph.\<close>

fun successors :: "label \<Rightarrow> label set" where
  "successors Setup = {HotPlug}"
| "successors HotPlug = {WaitInit}"
| "successors WaitInit = {WaitInit, CheckInitAck}"
| "successors CheckInitAck = {HotPlug, HusbReset}"
| "successors HusbReset = {HotPlug, DetectDevice}"
| "successors DetectDevice = {WaitInsert, Submit SetAddress}"
| "successors WaitInsert = {WaitInsert, HotPlug}"
| "successors (Submit st) = {WaitMsg st}"
| "successors (WaitMsg st) = {WaitMsg st, CheckTD st}"
| "successors (CheckTD st) = {next_label st, if st = SetAddress then HotPlug else CheckTD st}"
| "successors DeviceInfo = {Submit SetConfig}"
| "successors StartPoll = {KbPoll}"
| "successors KbPoll = {KbWaitMsg}"
| "successors KbWaitMsg = {KbWaitMsg, KbReport}"
| "successors KbReport = {KbPoll, KbRemoved}"
| "successors KbRemoved = {KbRemoved, HotPlug}"

lemma main_step_pc:
  assumes "main_step b s = Some s'"
  shows "pc s' \<in> successors (pc s)"
proof (cases "pc s")
  case (WaitMsg st)
  with assms wait_msg_log [of b st s s'] show ?thesis
    by (auto simp: main_step_def)
next
  case (CheckTD st)
  with assms check_td_log [of b st s s'] show ?thesis
    by (auto simp: main_step_def split: if_splits)
next
  case KbWaitMsg
  with assms kb_wait_log [of b s s'] show ?thesis
    by (auto simp: main_step_def)
next
  case KbReport
  with assms show ?thesis
    by (auto simp: main_step_def kb_report_step_def Let_def split: prod.splits)
next
  case KbRemoved
  with assms show ?thesis
    by (auto simp: main_step_def kb_removed_step_def Let_def split: prod.splits if_splits)
next
  case DetectDevice
  with assms show ?thesis
    by (auto simp: main_step_def detect_step_def Let_def split: prod.splits if_splits)
qed (use assms in \<open>auto simp: main_step_def setup_step_def hot_plug_step_def wait_init_step_def
      check_ack_def husb_reset_step_def wait_insert_step_def submit_step_def
      device_info_step_def start_poll_step_def kb_poll_step_def Let_def
      split: prod.splits if_splits\<close>)

lemma configured_pred: "configured l' \<Longrightarrow> l' \<in> successors l \<Longrightarrow> configured l \<or> l = DeviceInfo"
  by (cases l) (auto simp: configured_next split: if_splits, auto simp: configured_def polling_def)

lemma main_step_configured:
  "main_step b s = Some s' \<Longrightarrow> configured (pc s') \<Longrightarrow> configured (pc s) \<or> pc s = DeviceInfo"
  by (rule configured_pred [OF _ main_step_pc])

lemma detected_pred: "detected l' \<Longrightarrow> l' \<in> successors l \<Longrightarrow> detected l \<or> l = DetectDevice"
  by (cases l) (auto simp: detected_def)

definition size_inv :: "'d main_state \<Rightarrow> bool" where
  "size_inv s \<longleftrightarrow> (configured (pc s) \<longrightarrow> data_size s = 8)"

lemma size_inv_step: "main_step b s = Some s' \<Longrightarrow> size_inv s \<Longrightarrow> size_inv s'"
  using main_step_data_size [of b s s'] main_step_configured [of b s s']
  by (auto simp: size_inv_def)

lemma size_inv_run:
  assumes "main_run b n (main_init d) = Some s"
  shows "size_inv s"
  by (rule main_run_invariant [where I = size_inv, OF size_inv_step assms])
     (simp_all add: size_inv_def main_init_def configured_def polling_def)

definition port_inv :: "'d main_state \<Rightarrow> bool" where
  "port_inv s \<longleftrightarrow>
     (detected (pc s) \<longrightarrow> ctl_reg s = USB1_CTL_REG \<and> no_device s = A_DP_STAT OR A_DM_STAT)"

lemma port_inv_step: "main_step b s = Some s' \<Longrightarrow> port_inv s \<Longrightarrow> port_inv s'"
  using main_step_port [of b s s'] detected_pred [OF _ main_step_pc [of b s s']]
  by (auto simp: port_inv_def split: if_splits)

subsection \<open>The polls and the data toggle\<close>

text \<open>How many times the program has started a poll of the keyboard in its first \<open>n\<close> steps.\<close>

fun polls :: "'d bus \<Rightarrow> nat \<Rightarrow> 'd main_state \<Rightarrow> nat" where
  "polls b 0 s = 0"
| "polls b (Suc n) s =
     (if pc s = KbPoll then 1 else 0)
       + (case main_step b s of None \<Rightarrow> 0 | Some s' \<Rightarrow> polls b n s')"

lemma toggle_run:
  "main_run b n s = Some s' \<Longrightarrow> toggle s' = toggle s + of_nat (polls b n s)"
proof (induction n arbitrary: s)
  case (Suc n)
  then obtain s1 where "main_step b s = Some s1" "main_run b n s1 = Some s'"
    by (auto simp: bind_eq_Some_conv)
  with Suc.IH [of s1] main_step_toggle [of b s s1] show ?case
    by auto
qed simp

text \<open>The descriptor of a poll, read back from the chip's memory.\<close>

definition kb_td :: "bool \<Rightarrow> td" where
  "kb_td tog = \<lparr>td_base = 0x051C, td_len = 8, td_dev = 2, td_pid = PID_IN, td_ep = 1,
                td_toggle = tog, td_armed = True, td_next = 0\<rparr>"

definition td_list :: "io_event list \<Rightarrow> (u16 \<times> td) list option" where
  "td_list es = td_chain 16 (hpi_mem (hpi_image es)) 0x0500"

lemma kb_words_td0:
  "td_list (submit_events [0x051c, 0x0008, 0x0291, 0x0001, 0x0013, 0x0000]) = Some [(0x0500, kb_td False)]"
  by code_simp

lemma kb_words_td1:
  "td_list (submit_events [0x051c, 0x0008, 0x0291, 0x0041, 0x0013, 0x0000]) = Some [(0x0500, kb_td True)]"
  by code_simp

lemma word8_odd: "(of_nat k + 1 :: u8) mod 2 \<noteq> 0 \<longleftrightarrow> even k"
proof -
  have "(x :: u8) mod 2 \<noteq> 0 \<longleftrightarrow> odd x" for x
    by (simp add: odd_iff_mod_2_eq_one)
  then show ?thesis by simp
qed

lemma kb_poll_td:
  assumes "main_run b n (main_init d) = Some s" "pc s = KbPoll"
  shows "td_list (new_events (wd s) (wd (kb_poll_step b s))) = Some [(0x0500, kb_td (odd (polls b n (main_init d))))]"
proof -
  let ?k = "polls b n (main_init d)"
  have ds: "data_size s = 8"
    using size_inv_run [OF assms(1)] assms(2) by (simp add: size_inv_def configured_def polling_def)
  have tg: "toggle s = of_nat ?k"
    using toggle_run [OF assms(1)] by (simp add: main_init_def)
  have ev: "new_events (wd s) (wd (kb_poll_step b s)) = submit_events (kb_words (of_nat ?k + 1) 8)"
    by (simp add: kb_poll_step_def Let_def new_events_def hal_simps ds tg)
  have kw: "kb_words (of_nat ?k + 1) 8 =
      [0x051c, 0x0008, 0x0291, if even ?k then 0x0001 else 0x0041, 0x0013, 0x0000]"
    unfolding kb_words_def word8_odd by simp
  show ?thesis
    unfolding ev kw using kb_words_td0 kb_words_td1 by (cases "even ?k") simp_all
qed

subsection \<open>A keyboard that answers\<close>

text \<open>What the program sees of a CY7C67200 that works and has a keyboard attached: the address latch, which
  moves on with every access to the data register; the words of its memory that the program uses
  (the SIE1 message and the 16 KB from 0x0500 where descriptors and buffers lie); the list of
  transaction descriptors it is serving, if any: its address and what the memory held when it was handed
  over; whether a mailbox command is pending or has been acknowledged; and how many lists have
  been done since the chip was reset. The state of the real device has more to it; \<open>V\<close> is its
  view.\<close>

datatype reply = Silent | Pending | Acked

record chip =
  latch :: u16
  ram :: "u16 \<Rightarrow> u16"
  serving :: "(u16 \<times> (u16 \<Rightarrow> u16)) option"
  reply :: reply
  finished :: nat

definition in_ram :: "u16 \<Rightarrow> bool" where
  "in_ram a \<longleftrightarrow> a = HPI_SIE1_MSG_ADR \<or> 0x0500 \<le> a \<and> a < 0x4000"

definition same :: "chip \<Rightarrow> chip \<Rightarrow> bool" where
  "same c c' \<longleftrightarrow> (\<forall>a. in_ram a \<longrightarrow> ram c' a = ram c a) \<and> serving c' = serving c \<and> reply c' = reply c
     \<and> finished c' = finished c"

text \<open>Writing the address register sets the latch. Writing the data register stores the word; at the
  current-TD pointer it hands over a list.\<close>

definition addr_written :: "u16 \<Rightarrow> chip \<Rightarrow> chip \<Rightarrow> bool" where
  "addr_written v c c' \<longleftrightarrow> latch c' = v \<and> same c c'"

definition data_written :: "u16 \<Rightarrow> chip \<Rightarrow> chip \<Rightarrow> bool" where
  "data_written v c c' \<longleftrightarrow> latch c' = latch c + 2
     \<and> (\<forall>a. in_ram a \<longrightarrow> ram c' a = (if a = latch c then v else ram c a))
     \<and> serving c' = (if latch c = HUSB_SIE1_pCurrentTDPtr then Some (v, ram c) else serving c)
     \<and> reply c' = reply c \<and> finished c' = finished c"

text \<open>Reading the data register gives the word at the latch if no list is being served (while
  one is, the controller changes its descriptors), and at the control register of the port that a device
  is attached.\<close>

definition data_read :: "u16 \<Rightarrow> chip \<Rightarrow> chip \<Rightarrow> bool" where
  "data_read v c c' \<longleftrightarrow> latch c' = latch c + 2 \<and> same c c'
     \<and> (serving c = None \<and> in_ram (latch c) \<longrightarrow> v = ram c (latch c))
     \<and> (latch c = USB1_CTL_REG \<longrightarrow> v AND (A_DP_STAT OR A_DM_STAT) \<noteq> 0)"

text \<open>The mailbox: a reset stops everything; a command is pending until it is acknowledged, and the
  acknowledgement stays readable.\<close>

definition mail_written :: "u32 \<Rightarrow> chip \<Rightarrow> chip \<Rightarrow> bool" where
  "mail_written v c c' \<longleftrightarrow> (v = COMM_RESET \<longrightarrow> serving c' = None \<and> reply c' = Silent \<and> finished c' = 0)
     \<and> (v = COMM_EXEC_INT \<and> finished c = 0 \<longrightarrow> serving c' = serving c \<and> finished c' = 0
          \<and> reply c' = (if reply c = Silent then Pending else reply c))"

definition mail_read :: "u32 \<Rightarrow> chip \<Rightarrow> chip \<Rightarrow> bool" where
  "mail_read v c c' \<longleftrightarrow> serving c' = serving c \<and> reply c' = reply c \<and> finished c' = finished c
     \<and> (reply c = Acked \<longrightarrow> v = COMM_ACK)"

text \<open>A keyboard answers the requests in the order in which it must get them: after a reset the nine lists of the
  enumeration, then one IN transaction after the other on its endpoint, with alternating toggle
  from DATA0. The controller is serving what is \<open>due\<close> if that is the list which it was handed at 0x0500.\<close>

definition expected :: "nat \<Rightarrow> u32 list" where
  "expected n = (if n < 9 then stage_words (stages ! n) else kb_words (of_nat (n - 8)) 8)"

definition holds :: "(u16 \<Rightarrow> u16) \<Rightarrow> u32 list \<Rightarrow> bool" where
  "holds m ws \<longleftrightarrow> (\<forall>i < length ws. m (0x0500 + of_nat (2 * i)) = ucast (ws ! i))"

definition due :: "chip \<Rightarrow> bool" where
  "due c \<longleftrightarrow> (\<exists>m. serving c = Some (0x0500, m) \<and> holds m (expected (finished c)))"

text \<open>The status register. While the list that is due is served it shows the SIE1 message flag when that is
  done: then the message is \<open>HUSB_TDListDone\<close>, and the control word of the first descriptor is as
  it was handed over except for its active bit (0x10), which is clear: no transaction had to be
  retried. While a command is pending and no list is served it is 0 until the acknowledgement is
  there.\<close>

definition status_read :: "u32 \<Rightarrow> chip \<Rightarrow> chip \<Rightarrow> bool" where
  "status_read v c c' \<longleftrightarrow>
     (case serving c of
        Some (p, m) \<Rightarrow> due c \<longrightarrow>
          (if v AND HPI_STATUS_SIE1msg_FLAG = 0 then serving c' = serving c \<and> finished c' = finished c
           else serving c' = None \<and> finished c' = Suc (finished c)
             \<and> ram c' HPI_SIE1_MSG_ADR = HUSB_TDListDone \<and> ram c' (p + 8) = m (p + 8) AND NOT 0x0010)
      | None \<Rightarrow> serving c' = None \<and> finished c' = finished c
          \<and> reply c' = (if reply c = Pending \<and> v AND 0xFFFF \<noteq> 0 then Acked else reply c))"

text \<open>The accesses that submit a list.\<close>

definition submission :: "u32 list \<Rightarrow> (u32 \<times> u32) list" where
  "submission ws = (0x10000008, 0x0500) # map (Pair 0x10000000) ws @ [(0x10000008, 0x01B0), (0x10000000, 0x0500)]"

definition hpi_writes :: "'d bus \<Rightarrow> (u32 \<times> u32) list \<Rightarrow> 'd \<Rightarrow> 'd" where
  "hpi_writes b xs d = fold (\<lambda>(a, v) d. bus_wr b d a v) xs d"

text \<open>A controller with a keyboard that answers. Besides the laws of its registers it is live: \<open>rank\<close> bounds how
  often the program can still look at the status register in vain. While a command is pending,
  reading 0 lowers it. While the list that is due is served, reading no flag, submitting this list
  again and sleeping 10 ms together lower it. (The keycode port is another device.)\<close>

definition answers :: "'d bus \<Rightarrow> ('d \<Rightarrow> chip) \<Rightarrow> ('d \<Rightarrow> nat) \<Rightarrow> bool" where
  "answers b V rank \<longleftrightarrow>
     (\<forall>d v. addr_written (ucast v) (V d) (V (bus_wr b d 0x10000008 v)))
   \<and> (\<forall>d v. data_written (ucast v) (V d) (V (bus_wr b d 0x10000000 v)))
   \<and> (\<forall>d v d'. bus_rd b d 0x10000000 = (v, d') \<longrightarrow> data_read (ucast v) (V d) (V d'))
   \<and> (\<forall>d v. mail_written v (V d) (V (bus_wr b d 0x10000004 v)))
   \<and> (\<forall>d v d'. bus_rd b d 0x10000004 = (v, d') \<longrightarrow> mail_read v (V d) (V d'))
   \<and> (\<forall>d v d'. bus_rd b d 0x1000000C = (v, d') \<longrightarrow> status_read v (V d) (V d'))
   \<and> (\<forall>d t. serving (V (bus_sleep b d t)) = serving (V d) \<and> reply (V (bus_sleep b d t)) = reply (V d)
          \<and> finished (V (bus_sleep b d t)) = finished (V d))
   \<and> (\<forall>d v. finished (V (bus_wr b d 0x11001020 v)) = finished (V d))
   \<and> (\<forall>d v d'. bus_rd b d 0x1000000C = (v, d') \<and> serving (V d) = None \<and> reply (V d) = Pending
        \<and> v AND 0xFFFF = 0 \<longrightarrow> rank d' < rank d)
   \<and> (\<forall>d v d'. bus_rd b d 0x1000000C = (v, d') \<and> due (V d) \<and> v AND HPI_STATUS_SIE1msg_FLAG = 0
        \<longrightarrow> rank (bus_sleep b (hpi_writes b (submission (expected (finished (V d)))) d') 10000) < rank d)"

lemma answersD:
  assumes "answers b V rank"
  shows "addr_written (ucast v) (V d) (V (bus_wr b d 0x10000008 v))"
    and "data_written (ucast v) (V d) (V (bus_wr b d 0x10000000 v))"
    and "bus_rd b d 0x10000000 = (v, d') \<Longrightarrow> data_read (ucast v) (V d) (V d')"
    and "mail_written v (V d) (V (bus_wr b d 0x10000004 v))"
    and "bus_rd b d 0x10000004 = (v, d') \<Longrightarrow> mail_read v (V d) (V d')"
    and "bus_rd b d 0x1000000C = (v, d') \<Longrightarrow> status_read v (V d) (V d')"
    and "serving (V (bus_sleep b d t)) = serving (V d)" "reply (V (bus_sleep b d t)) = reply (V d)"
      "finished (V (bus_sleep b d t)) = finished (V d)" "finished (V (bus_wr b d 0x11001020 v)) = finished (V d)"
    and "bus_rd b d 0x1000000C = (v, d') \<Longrightarrow> serving (V d) = None \<Longrightarrow> reply (V d) = Pending \<Longrightarrow> v AND 0xFFFF = 0
      \<Longrightarrow> rank d' < rank d"
    and "bus_rd b d 0x1000000C = (v, d') \<Longrightarrow> due (V d) \<Longrightarrow> v AND HPI_STATUS_SIE1msg_FLAG = 0
      \<Longrightarrow> rank (bus_sleep b (hpi_writes b (submission (expected (finished (V d)))) d') 10000) < rank d"
  using assms unfolding answers_def by meson+

lemma ucast_u16 [simp]: "ucast (ucast (a :: u16) :: u32) = a"
  by (rule bit_word_eqI) (simp add: bit_simps)

text \<open>The operations of the program on the view.\<close>

lemma addr_chip: "answers b V rank \<Longrightarrow> addr_written (ucast v) (V (dev w)) (V (dev (IOWR b CY7C67200_BASE HPI_ADDR v w)))"
  using answersD(1) by (simp add: hal_simps hpi_regs)

lemma data_chip: "answers b V rank \<Longrightarrow> data_written (ucast v) (V (dev w)) (V (dev (IOWR b CY7C67200_BASE HPI_DATA v w)))"
  using answersD(2) by (simp add: hal_simps hpi_regs)

lemma mail_chip: "answers b V rank \<Longrightarrow> mail_written v (V (dev w)) (V (dev (IOWR b CY7C67200_BASE HPI_MAILBOX v w)))"
  using answersD(4) by (simp add: hal_simps hpi_regs)

lemma read_chip: "answers b V rank \<Longrightarrow> IORD b CY7C67200_BASE HPI_DATA w = (v, w') \<Longrightarrow> data_read (ucast v) (V (dev w)) (V (dev w'))"
  by (drule dev_IORD) (simp add: hpi_regs answersD(3))

lemma ack_chip: "answers b V rank \<Longrightarrow> IORD b CY7C67200_BASE HPI_MAILBOX w = (v, w') \<Longrightarrow> mail_read v (V (dev w)) (V (dev w'))"
  by (drule dev_IORD) (simp add: hpi_regs answersD(5))

lemma status_chip: "answers b V rank \<Longrightarrow> IORD b CY7C67200_BASE HPI_STATUS w = (v, w') \<Longrightarrow> status_read v (V (dev w)) (V (dev w'))"
  by (drule dev_IORD) (simp add: hpi_regs answersD(6))

lemma sleep_chip: "answers b V rank \<Longrightarrow> serving (V (dev (usleep b t w))) = serving (V (dev w))"
  "answers b V rank \<Longrightarrow> reply (V (dev (usleep b t w))) = reply (V (dev w))"
  "answers b V rank \<Longrightarrow> finished (V (dev (usleep b t w))) = finished (V (dev w))"
  "answers b V rank \<Longrightarrow> due (V (dev (usleep b t w))) = due (V (dev w))"
  using answersD(7-9) [of b V rank "dev w" t] by (simp_all add: usleep_def due_def)

lemma keycode_chip: "answers b V rank \<Longrightarrow> finished (V (dev (IOWR b KEYCODE_BASE 0 v w))) = finished (V (dev w))"
  using answersD(10) by (simp add: hal_simps hpi_regs)

text \<open>What a write to a register other than the current-TD pointer, and a read, leave alone.\<close>

lemma UsbWrite_chip:
  assumes "answers b V rank"
  shows "reply (V (dev (UsbWrite b a v w))) = reply (V (dev w))"
    and "a \<noteq> HUSB_SIE1_pCurrentTDPtr \<Longrightarrow> serving (V (dev (UsbWrite b a v w))) = serving (V (dev w))"
    and "in_ram a' \<Longrightarrow> a' \<noteq> a \<Longrightarrow> ram (V (dev (UsbWrite b a v w))) a' = ram (V (dev w)) a'"
    and "finished (V (dev (UsbWrite b a v w))) = finished (V (dev w))"
    and "\<exists>m. serving (V (dev (UsbWrite b HUSB_SIE1_pCurrentTDPtr v w))) = Some (v, m) \<and> (\<forall>a. in_ram a \<longrightarrow> m a = ram (V (dev w)) a)"
  using addr_chip [OF assms, of "ucast a" w] data_chip [OF assms, of "ucast v" "IOWR b CY7C67200_BASE HPI_ADDR (ucast a) w"]
    addr_chip [OF assms, of "ucast HUSB_SIE1_pCurrentTDPtr" w]
    data_chip [OF assms, of "ucast v" "IOWR b CY7C67200_BASE HPI_ADDR (ucast HUSB_SIE1_pCurrentTDPtr) w"]
  by (simp_all add: UsbWrite_def addr_written_def data_written_def same_def)

lemma UsbRead_chip:
  assumes "answers b V rank" "UsbRead b a w = (v, w')"
  shows "same (V (dev w)) (V (dev w'))"
    and "serving (V (dev w)) = None \<Longrightarrow> in_ram a \<Longrightarrow> v = ram (V (dev w)) a"
    and "a = USB1_CTL_REG \<Longrightarrow> v AND (A_DP_STAT OR A_DM_STAT) \<noteq> 0"
proof -
  obtain x where x: "IORD b CY7C67200_BASE HPI_DATA (IOWR b CY7C67200_BASE HPI_ADDR (ucast a) w) = (x, w')" "v = ucast x"
    using assms(2) by (auto simp: UsbRead_def split: prod.splits)
  note l = addr_chip [OF assms(1), of "ucast a" w] read_chip [OF assms(1) x(1)]
  show "same (V (dev w)) (V (dev w'))"
    "serving (V (dev w)) = None \<Longrightarrow> in_ram a \<Longrightarrow> v = ram (V (dev w)) a"
    "a = USB1_CTL_REG \<Longrightarrow> v AND (A_DP_STAT OR A_DM_STAT) \<noteq> 0"
    using l x(2) by (simp_all add: addr_written_def data_read_def same_def)
qed

lemma write_regs_chip:
  assumes "answers b V rank"
  shows "reply (V (dev (write_regs b rs v w))) = reply (V (dev w))"
    and "finished (V (dev (write_regs b rs v w))) = finished (V (dev w))"
    and "HUSB_SIE1_pCurrentTDPtr \<notin> set rs \<Longrightarrow> serving (V (dev (write_regs b rs v w))) = serving (V (dev w))"
  by (induction rs arbitrary: w) (auto simp: UsbWrite_chip [OF assms])

text \<open>A list handed over.\<close>

lemma stages_nth: "length (stages_before st) < 9" "stages ! length (stages_before st) = st"
  by (cases st; simp add: stages_before_def stages_def)+

lemma expected_stage: "expected (length (stages_before st)) = stage_words st"
  by (simp add: expected_def stages_nth)

lemma expected_poll: "9 \<le> n \<Longrightarrow> expected n = kb_words (of_nat (n - 8)) 8"
  by (simp add: expected_def)

lemma stage_shape: "4 < length (stage_words st) \<and> length (stage_words st) \<le> 100 \<and> stage_words st ! 4 = 0x0013"
  by (cases st) (simp_all add: UsbSetAddress_words_def UsbGetDeviceDesc1_words_def
    UsbGetDeviceDesc2_words_def UsbGetConfigDesc1_words_def UsbGetConfigDesc2_words_def UsbSetConfig_words_def
    UsbClassRequest_words_def UsbGetHidDesc_words_def UsbGetReportDesc_words_def)

lemma expected_shape: "4 < length (expected n)" "length (expected n) \<le> 100" "expected n ! 4 = 0x0013"
  using stage_shape by (simp_all add: expected_def kb_words_def)

lemma later_writes:
  assumes "answers b V rank" "in_ram a"
  shows "unat a < unat (latch (V (dev w))) \<Longrightarrow> unat (latch (V (dev w))) + 2 * length ws < 65536
    \<Longrightarrow> ram (V (dev (hpi_data_writes b ws w))) a = ram (V (dev w)) a"
proof (induction ws arbitrary: w)
  case (Cons v ws)
  let ?w = "IOWR b CY7C67200_BASE HPI_DATA v w"
  have d: "latch (V (dev ?w)) = latch (V (dev w)) + 2" "ram (V (dev ?w)) a = ram (V (dev w)) a"
    using data_chip [OF assms(1), of v w] assms(2) Cons.prems(1) by (auto simp: data_written_def)
  then have "unat (latch (V (dev ?w))) = unat (latch (V (dev w))) + 2"
    using Cons.prems(2) by (simp add: unat_word_ariths)
  with Cons.IH [of ?w] Cons.prems d(2) show ?case by simp
qed simp

lemma writes_finished:
  "answers b V rank \<Longrightarrow> finished (V (dev (hpi_data_writes b ws w))) = finished (V (dev w))"
proof (induction ws arbitrary: w)
  case (Cons v ws)
  then show ?case using data_chip [of b V rank v w] by (simp add: data_written_def)
qed simp

lemma writes_hold:
  assumes "answers b V rank"
  shows "latch (V (dev w)) = a \<Longrightarrow> 0x0500 \<le> unat a \<Longrightarrow> unat a + 2 * length ws < 0x4000 \<Longrightarrow> i < length ws
    \<Longrightarrow> ram (V (dev (hpi_data_writes b ws w))) (a + of_nat (2 * i)) = ucast (ws ! i)"
proof (induction ws arbitrary: w a i)
  case (Cons v ws)
  let ?w = "IOWR b CY7C67200_BASE HPI_DATA v w"
  have u: "unat (a + 2) = unat a + 2" using Cons.prems(3) by (simp add: unat_word_ariths)
  have a: "in_ram a" using Cons.prems(2,3) by (simp add: in_ram_def word_le_nat_alt word_less_nat_alt)
  have d: "latch (V (dev ?w)) = a + 2" "ram (V (dev ?w)) a = ucast v"
    using data_chip [OF assms, of v w] a Cons.prems(1) by (simp_all add: data_written_def)
  show ?case
  proof (cases i)
    case 0
    have "ram (V (dev (hpi_data_writes b ws ?w))) a = ram (V (dev ?w)) a"
      using Cons.prems(3) by (intro later_writes [OF assms a]) (simp_all add: d(1) u)
    with 0 d(2) show ?thesis by simp
  next
    case (Suc j)
    have "ram (V (dev (hpi_data_writes b ws ?w))) (a + 2 + of_nat (2 * j)) = ucast (ws ! j)"
      using Cons.prems Suc by (intro Cons.IH [OF d(1)]) (simp_all add: u)
    with Suc show ?thesis by (simp add: algebra_simps)
  qed
qed simp

lemma submit_chip:
  assumes "answers b V rank" "length ws \<le> 100"
  obtains m where "serving (V (dev (submit_td_list b ws w))) = Some (0x0500, m)" "holds m ws"
    "finished (V (dev (submit_td_list b ws w))) = finished (V (dev w))"
proof -
  define w0 where "w0 = IOWR b CY7C67200_BASE HPI_ADDR 0x0500 w"
  have l0: "latch (V (dev w0)) = 0x0500" "finished (V (dev w0)) = finished (V (dev w))"
    using addr_chip [OF assms(1), of "0x0500" w] by (simp_all add: w0_def addr_written_def same_def)
  have e: "submit_td_list b ws w = UsbWrite b HUSB_SIE1_pCurrentTDPtr 0x0500 (hpi_data_writes b ws w0)"
    by (simp add: submit_td_list_def w0_def)
  obtain m where m: "serving (V (dev (submit_td_list b ws w))) = Some (0x0500, m)"
    "\<forall>a. in_ram a \<longrightarrow> m a = ram (V (dev (hpi_data_writes b ws w0))) a"
    using UsbWrite_chip(5) [OF assms(1)] unfolding e by blast
  have "holds m ws"
    unfolding holds_def
  proof (intro allI impI)
    fix i
    assume i: "i < length ws"
    then have "unat (0x0500 + of_nat (2 * i) :: u16) = 0x0500 + 2 * i"
      using assms(2) by (simp add: unat_word_ariths unat_of_nat)
    then have "in_ram (0x0500 + of_nat (2 * i))"
      using i assms(2) by (simp add: in_ram_def word_le_nat_alt word_less_nat_alt)
    with m(2) writes_hold [OF assms(1) l0(1), of ws i] i assms(2)
    show "m (0x0500 + of_nat (2 * i)) = ucast (ws ! i)" by simp
  qed
  with m(1) that show thesis
    by (simp add: e UsbWrite_chip(4) [OF assms(1)] writes_finished [OF assms(1)] l0(2))
qed

lemma hpi_data_writes_dev: "dev (hpi_data_writes b ws w) = hpi_writes b (map (Pair 0x10000000) ws) (dev w)"
  by (induction ws arbitrary: w) (simp_all add: hpi_writes_def hal_simps hpi_regs)

lemma submit_dev: "dev (submit_td_list b ws w) = hpi_writes b (submission ws) (dev w)"
  by (simp add: submit_td_list_def UsbWrite_def hpi_data_writes_dev hpi_writes_def submission_def hal_simps hpi_regs
      HUSB_SIE1_pCurrentTDPtr_def)

text \<open>A turn of a waiting loop that has seen no flag.\<close>

lemma retry_rank:
  assumes "answers b V rank" "IORD b CY7C67200_BASE HPI_STATUS w = (v, w')" "due (V (dev w))" "v AND 0x10 = 0"
    "ws = expected (finished (V (dev w)))"
  shows "rank (dev (usleep b (10 * 1000) (submit_td_list b ws w'))) < rank (dev w)"
proof -
  have "bus_rd b (dev w) 0x1000000C = (v, dev w')" using dev_IORD [OF assms(2)] by (simp add: hpi_regs)
  from answersD(12) [OF assms(1) this assms(3)] assms(4) show ?thesis
    by (simp add: usleep_def submit_dev assms(5) HPI_STATUS_SIE1msg_FLAG_def)
qed

lemma retry_chip:
  assumes "answers b V rank" "IORD b CY7C67200_BASE HPI_STATUS w = (v, w')" "due (V (dev w))" "v AND 0x10 = 0"
    "ws = expected (finished (V (dev w)))"
  shows "due (V (dev (usleep b t (submit_td_list b ws w'))))"
    "finished (V (dev (usleep b t (submit_td_list b ws w')))) = finished (V (dev w))"
proof -
  have f: "finished (V (dev w')) = finished (V (dev w))"
    using status_chip [OF assms(1,2)] assms(3,4) by (auto simp: status_read_def due_def HPI_STATUS_SIE1msg_FLAG_def)
  obtain m where "serving (V (dev (submit_td_list b ws w'))) = Some (0x0500, m)" "holds m ws"
    "finished (V (dev (submit_td_list b ws w'))) = finished (V (dev w'))"
    using submit_chip [OF assms(1), of ws w'] expected_shape(2) assms(5) by metis
  with f show "due (V (dev (usleep b t (submit_td_list b ws w'))))"
    "finished (V (dev (usleep b t (submit_td_list b ws w')))) = finished (V (dev w))"
    by (simp_all add: due_def sleep_chip [OF assms(1)] assms(5))
qed

lemma submit_due:
  assumes "answers b V rank" "ws = expected (finished (V (dev w)))"
  shows "due (V (dev (submit_td_list b ws w)))" "finished (V (dev (submit_td_list b ws w))) = finished (V (dev w))"
proof -
  obtain m where "serving (V (dev (submit_td_list b ws w))) = Some (0x0500, m)" "holds m ws"
    "finished (V (dev (submit_td_list b ws w))) = finished (V (dev w))"
    using submit_chip [OF assms(1), of ws w] expected_shape(2) assms(2) by metis
  then show "due (V (dev (submit_td_list b ws w)))" "finished (V (dev (submit_td_list b ws w))) = finished (V (dev w))"
    by (simp_all add: due_def assms(2))
qed

text \<open>After the flag the wait for the message ends at once, and the first descriptor is still there.\<close>

lemma wait_answers:
  assumes "answers b V rank" "serving (V (dev w)) = None" "ram (V (dev w)) HPI_SIE1_MSG_ADR = HUSB_TDListDone"
  obtains w' where "UsbWaitTDListDone b w = Some (HUSB_TDListDone, w')" "serving (V (dev w')) = None"
    "ram (V (dev w')) 0x0508 = ram (V (dev w)) 0x0508" "finished (V (dev w')) = finished (V (dev w))"
proof -
  obtain v w1 where r: "UsbRead b HPI_SIE1_MSG_ADR w = (v, w1)" by fastforce
  have ok: "in_ram HPI_SIE1_MSG_ADR" "in_ram 0x0508" "0x0508 \<noteq> HPI_SIE1_MSG_ADR" "HPI_SIE1_MSG_ADR \<noteq> HUSB_SIE1_pCurrentTDPtr"
    by (simp_all add: in_ram_def HPI_SIE1_MSG_ADR_def HUSB_SIE1_pCurrentTDPtr_def)
  note c = UsbRead_chip [OF assms(1) r]
  have v: "v = HUSB_TDListDone" using c(2) [OF assms(2) ok(1)] assms(3) by simp
  have s: "serving (V (dev w1)) = None" "ram (V (dev w1)) 0x0508 = ram (V (dev w)) 0x0508"
    "finished (V (dev w1)) = finished (V (dev w))"
    using c(1) assms(2) ok(2) by (simp_all add: same_def)
  let ?w = "UsbWrite b HPI_SIE1_MSG_ADR 0 w1"
  have "UsbWaitTDListDone b w = Some (HUSB_TDListDone, ?w)"
    using r v by (simp add: wait_unfold read_clear_msg_def wait_loop_done)
  then show thesis
    using that UsbWrite_chip(2,3,4) [OF assms(1)] ok s by metis
qed

text \<open>\<open>leads b p s Q\<close>: some run from \<open>s\<close> starts \<open>p\<close> polls and ends in a state that
  satisfies \<open>Q\<close>.\<close>

definition leads :: "'d bus \<Rightarrow> nat \<Rightarrow> 'd main_state \<Rightarrow> ('d main_state \<Rightarrow> bool) \<Rightarrow> bool" where
  "leads b p s Q \<longleftrightarrow> (\<exists>n s'. main_run b n s = Some s' \<and> polls b n s = p \<and> Q s')"

lemma leads_refl: "Q s \<Longrightarrow> leads b 0 s Q"
  by (auto simp: leads_def intro!: exI [of _ "0::nat"])

lemma leads_step:
  assumes "main_step b s = Some s'" "leads b p s' Q" "q = p + (if pc s = KbPoll then 1 else 0)"
  shows "leads b q s Q"
proof -
  from assms(2) obtain n t where "main_run b n s' = Some t" "polls b n s' = p" "Q t"
    by (auto simp: leads_def)
  with assms(1,3) show ?thesis
    by (auto simp: leads_def intro!: exI [of _ "Suc n"])
qed

lemma leads_trans:
  assumes "leads b p s R" "\<And>t. R t \<Longrightarrow> leads b q t Q"
  shows "leads b (p + q) s Q"
proof -
  from assms(1) obtain n t where "main_run b n s = Some t" "polls b n s = p" "R t"
    by (auto simp: leads_def)
  then show ?thesis
  proof (induction n arbitrary: s p)
    case 0
    with assms(2) show ?case by auto
  next
    case (Suc n)
    then obtain s1 where "main_step b s = Some s1" "main_run b n s1 = Some t"
      by (auto simp: bind_eq_Some_conv)
    with Suc show ?case
      by (intro leads_step [of b s s1 "polls b n s1 + q"]) auto
  qed
qed

lemma leads_seq:
  assumes "leads b p s R" "\<And>t. R t \<Longrightarrow> leads b 0 t Q"
  shows "leads b p s Q"
  using leads_trans [OF assms(1), of 0 Q] assms(2) by simp

text \<open>What holds of the chip at each label on the way, and one leg of the journey: from one label to the
  next.\<close>

fun chip_at :: "label \<Rightarrow> u8 \<Rightarrow> chip \<Rightarrow> bool" where
  "chip_at WaitInit t c \<longleftrightarrow> serving c = None \<and> reply c = Pending \<and> finished c = 0 \<and> t = 0"
| "chip_at CheckInitAck t c \<longleftrightarrow> reply c = Acked \<and> finished c = 0 \<and> t = 0"
| "chip_at HusbReset t c \<longleftrightarrow> reply c = Acked \<and> finished c = 0 \<and> t = 0"
| "chip_at DetectDevice t c \<longleftrightarrow> finished c = 0 \<and> t = 0"
| "chip_at (Submit st) t c \<longleftrightarrow> finished c = length (stages_before st) \<and> t = 0"
| "chip_at (WaitMsg st) t c \<longleftrightarrow> finished c = length (stages_before st) \<and> due c \<and> t = 0"
| "chip_at (CheckTD st) t c \<longleftrightarrow> finished c = Suc (length (stages_before st)) \<and> t = 0"
| "chip_at DeviceInfo t c \<longleftrightarrow> finished c = 5 \<and> t = 0"
| "chip_at StartPoll t c \<longleftrightarrow> finished c = 9 \<and> t = 0"
| "chip_at KbPoll t c \<longleftrightarrow> 9 \<le> finished c \<and> t = of_nat (finished c - 9)"
| "chip_at KbWaitMsg t c \<longleftrightarrow> 9 \<le> finished c \<and> due c \<and> t = of_nat (finished c - 8)"
| "chip_at KbReport t c \<longleftrightarrow> 9 \<le> finished c \<and> t = of_nat (finished c - 9)"
| "chip_at _ t c \<longleftrightarrow> t = 0"

definition at :: "('d \<Rightarrow> chip) \<Rightarrow> label \<Rightarrow> 'd main_state \<Rightarrow> bool" where
  "at V l s \<longleftrightarrow> pc s = l \<and> port_inv s \<and> size_inv s \<and> chip_at l (toggle s) (V (dev (wd s)))"

lemma at_stepped:
  assumes "at V l s" "main_step b s = Some s'" "pc s' = l'"
    "chip_at l' (if l = KbPoll then toggle s + 1 else toggle s) (V (dev (wd s')))"
  shows "at V l' s'"
  using assms port_inv_step [OF assms(2)] size_inv_step [OF assms(2)] main_step_toggle [OF assms(2)]
  by (simp add: at_def)

lemma at_step:
  assumes "at V l s" "main_step b s = Some s'" "pc s' = l'"
    "chip_at l' (if l = KbPoll then toggle s + 1 else toggle s) (V (dev (wd s')))"
  shows "leads b (if l = KbPoll then 1 else 0) s (at V l')"
  using assms(1) by (intro leads_step [OF assms(2) leads_refl] at_stepped [OF assms]) (simp add: at_def)

text \<open>The reset of the chip and the first command.\<close>

lemma soft_reset_chip:
  assumes "answers b V rank"
  shows "serving (V (dev (UsbSoftReset b w))) = None \<and> reply (V (dev (UsbSoftReset b w))) = Silent
    \<and> finished (V (dev (UsbSoftReset b w))) = 0"
proof -
  let ?c = "\<lambda>w. serving (V (dev w)) = None \<and> reply (V (dev w)) = Silent \<and> finished (V (dev w)) = 0"
  have ok: "HPI_SIE1_MSG_ADR \<noteq> HUSB_SIE1_pCurrentTDPtr" "HPI_SIE2_MSG_ADR \<noteq> HUSB_SIE1_pCurrentTDPtr"
    "HOST1_STAT_REG \<noteq> HUSB_SIE1_pCurrentTDPtr" "HOST2_STAT_REG \<noteq> HUSB_SIE1_pCurrentTDPtr"
    by (simp_all add: HPI_SIE1_MSG_ADR_def HPI_SIE2_MSG_ADR_def HOST1_STAT_REG_def HOST2_STAT_REG_def
        HUSB_SIE1_pCurrentTDPtr_def)
  define w1 where "w1 = printf Msg_clear_interrupt (usleep b 500000 (printf Msg_reset_finished
      (usleep b 100000 (IOWR b CY7C67200_BASE HPI_MAILBOX COMM_RESET w))))"
  have 1: "?c w1"
    using mail_chip [OF assms, of COMM_RESET w] by (simp add: w1_def sleep_chip [OF assms] hal_simps mail_written_def)
  obtain v2 w2 where r2: "IORD b CY7C67200_BASE HPI_MAILBOX w1 = (v2, w2)" by fastforce
  have 2: "?c w2" using ack_chip [OF assms r2] 1 by (simp add: mail_read_def)
  obtain v3 w3 where r3: "IORD b CY7C67200_BASE HPI_STATUS w2 = (v3, w3)" by fastforce
  have 3: "?c w3" using status_chip [OF assms r3] 2 by (simp add: status_read_def)
  obtain v4 w4 where r4: "UsbRead b HPI_SIE1_MSG_ADR w3 = (v4, w4)" by fastforce
  have 4: "?c (UsbWrite b HPI_SIE1_MSG_ADR 0 w4)"
    using UsbRead_chip(1) [OF assms r4] 3 by (simp add: same_def UsbWrite_chip [OF assms] ok)
  obtain v5 w5 where r5: "UsbRead b HPI_SIE2_MSG_ADR (UsbWrite b HPI_SIE1_MSG_ADR 0 w4) = (v5, w5)" by fastforce
  have "?c w5" using UsbRead_chip(1) [OF assms r5] 4 by (simp add: same_def)
  moreover have "UsbSoftReset b w = UsbWrite b HOST2_STAT_REG 0xFFFF (UsbWrite b HOST1_STAT_REG 0xFFFF
      (UsbWrite b HPI_SIE2_MSG_ADR 0 w5))"
    using r2 r3 r4 r5 by (simp add: UsbSoftReset_def w1_def [symmetric] Let_def)
  ultimately show ?thesis by (simp add: UsbWrite_chip [OF assms] ok)
qed

lemma hot_plug_leads:
  assumes ans: "answers b V rank" and "at V HotPlug s"
  shows "leads b 0 s (at V WaitInit)"
proof -
  have ne: "HPI_SIE1_MSG_ADR \<noteq> HUSB_SIE1_pCurrentTDPtr" "HOST1_STAT_REG \<noteq> HUSB_SIE1_pCurrentTDPtr"
    "HUSB_pEOT \<noteq> HUSB_SIE1_pCurrentTDPtr" "HPI_IRQ_ROUTING_REG \<noteq> HUSB_SIE1_pCurrentTDPtr"
    "HOST1_IRQ_EN_REG \<noteq> HUSB_SIE1_pCurrentTDPtr" "HUSB_SIE1_pCurrentTDPtr \<notin> set COMM_R"
    "COMM_INT_NUM \<noteq> HUSB_SIE1_pCurrentTDPtr"
    by (simp_all add: HPI_SIE1_MSG_ADR_def HOST1_STAT_REG_def HUSB_pEOT_def HPI_IRQ_ROUTING_REG_def HOST1_IRQ_EN_REG_def
        COMM_INT_NUM_def HUSB_SIE1_pCurrentTDPtr_def COMM_R_def)
  have "chip_at WaitInit (toggle s) (V (dev (wd (hot_plug_step b s))))"
    using assms(2) soft_reset_chip [OF ans, of "wd s"] mail_chip [OF ans, of COMM_EXEC_INT]
    by (simp add: at_def hot_plug_step_def Let_def mail_written_def UsbWrite_chip [OF ans] write_regs_chip [OF ans] ne
        COMM_EXEC_INT_def COMM_RESET_def)
  with at_step [OF assms(2), of b "hot_plug_step b s" WaitInit] assms(2) show ?thesis
    by (simp add: main_step_def at_def hot_plug_step_def Let_def)
qed

lemma wait_init_leads:
  assumes ans: "answers b V rank"
  shows "at V WaitInit s \<Longrightarrow> leads b 0 s (at V CheckInitAck)"
proof (induction "rank (dev (wd s))" arbitrary: s rule: less_induct)
  case less
  obtain v w where r: "IORD b CY7C67200_BASE HPI_STATUS (wd s) = (v, w)"
    by fastforce
  have s: "pc s = WaitInit" "serving (V (dev (wd s))) = None" "reply (V (dev (wd s))) = Pending"
    "finished (V (dev (wd s))) = 0" "toggle s = 0"
    using less.prems by (simp_all add: at_def)
  note c = status_chip [OF ans r, unfolded status_read_def s(2) option.case]
  show ?case
  proof (cases "v AND 0xFFFF = 0")
    case False
    then have "main_step b s = Some (s\<lparr>pc := CheckInitAck, wd := w\<rparr>)"
      using s(1) r by (simp add: main_step_def wait_init_step_def)
    from at_step [OF less.prems this] c s(3-5) False show ?thesis by simp
  next
    case True
    have "bus_rd b (dev (wd s)) 0x1000000C = (v, dev w)" using dev_IORD [OF r] by (simp add: hpi_regs)
    from answersD(11) [OF ans this s(2,3) True] have rank: "rank (dev w) < rank (dev (wd s))" .
    from True have st: "main_step b s = Some (s\<lparr>wd := w\<rparr>)"
      using s(1) r by (simp add: main_step_def wait_init_step_def)
    have "at V WaitInit (s\<lparr>wd := w\<rparr>)"
      using at_stepped [OF less.prems st, of WaitInit] s c True by simp
    from less.hyps [OF _ this] rank leads_step [OF st] s(1) show ?thesis
      by simp
  qed
qed

lemma flag_seen:
  assumes "answers b V rank" "IORD b CY7C67200_BASE HPI_STATUS w = (v, w')" "due (V (dev w))" "v AND 0x10 \<noteq> 0"
  obtains w1 where "UsbWaitTDListDone b w' = Some (HUSB_TDListDone, w1)" "serving (V (dev w1)) = None"
    "ram (V (dev w1)) 0x0508 = 3" "finished (V (dev w1)) = Suc (finished (V (dev w)))"
proof -
  obtain m where m: "serving (V (dev w)) = Some (0x0500, m)" "holds m (expected (finished (V (dev w))))"
    using assms(3) by (auto simp: due_def)
  have "m 0x0508 = 0x0013"
    using m(2) expected_shape [of "finished (V (dev w))"] by (auto simp: holds_def dest: spec [of _ 4])
  then have "serving (V (dev w')) = None" "ram (V (dev w')) HPI_SIE1_MSG_ADR = HUSB_TDListDone" "ram (V (dev w')) 0x0508 = 3"
    "finished (V (dev w')) = Suc (finished (V (dev w)))"
    using status_chip [OF assms(1,2)] assms(3,4) m(1) by (simp_all add: status_read_def HPI_STATUS_SIE1msg_FLAG_def)
  then show thesis using that wait_answers [OF assms(1)] by metis
qed

lemma ram_read:
  assumes "answers b V rank" "IORD b CY7C67200_BASE HPI_DATA (IOWR b CY7C67200_BASE HPI_ADDR a w) = (v, w')"
    "serving (V (dev w)) = None"
  shows "same (V (dev w)) (V (dev w'))" "in_ram (ucast a) \<Longrightarrow> ucast v = ram (V (dev w)) (ucast a)"
  using addr_chip [OF assms(1), of a w] read_chip [OF assms(1,2)] assms(3)
  by (simp_all add: addr_written_def data_read_def same_def)

lemma wait_msg_leads:
  assumes ans: "answers b V rank"
  shows "at V (WaitMsg st) s \<Longrightarrow> leads b 0 s (\<lambda>s'. at V (CheckTD st) s' \<and> usb_ctl_val s' = 3)"
proof (induction "rank (dev (wd s))" arbitrary: s rule: less_induct)
  case less
  obtain v w where r: "IORD b CY7C67200_BASE HPI_STATUS (wd s) = (v, w)"
    by fastforce
  have s: "pc s = WaitMsg st" "due (V (dev (wd s)))" "finished (V (dev (wd s))) = length (stages_before st)" "toggle s = 0"
    using less.prems by (simp_all add: at_def)
  show ?case
  proof (cases "v AND 0x10 = 0")
    case True
    let ?w = "usleep b (10 * 1000) (stage_request st b w)"
    have st: "main_step b s = Some (s\<lparr>wd := ?w\<rparr>)"
      using s(1) r True by (simp add: main_step_def wait_msg_step_def HPI_STATUS_SIE1msg_FLAG_def)
    have e: "stage_words st = expected (finished (V (dev (wd s))))" by (simp add: s(3) expected_stage)
    have rank: "rank (dev ?w) < rank (dev (wd s))"
      using retry_rank [OF ans r s(2) True e] by (simp add: stage_request_submit)
    have "at V (WaitMsg st) (s\<lparr>wd := ?w\<rparr>)"
      using at_stepped [OF less.prems st, of "WaitMsg st"] s retry_chip [OF ans r s(2) True e]
      by (simp add: stage_request_submit)
    from less.hyps [OF _ this] rank leads_step [OF st] s(1) show ?thesis
      by simp
  next
    case False
    obtain w1 where q: "UsbWaitTDListDone b w = Some (HUSB_TDListDone, w1)" "serving (V (dev w1)) = None"
      "ram (V (dev w1)) 0x0508 = 3" "finished (V (dev w1)) = Suc (finished (V (dev (wd s))))"
      using flag_seen [OF ans r s(2) False] .
    obtain x1 w2 where r2: "IORD b CY7C67200_BASE HPI_DATA (IOWR b CY7C67200_BASE HPI_ADDR 0x0506 w1) = (x1, w2)"
      by fastforce
    have s2: "same (V (dev w1)) (V (dev w2))" by (rule ram_read(1) [OF ans r2 q(2)])
    let ?w2 = "printf (Msg_td_status (stage_number st) x1) w2"
    obtain y w4 where r4: "IORD b CY7C67200_BASE HPI_DATA (IOWR b CY7C67200_BASE HPI_ADDR 0x0508 ?w2) = (y, w4)"
      by fastforce
    have i: "in_ram 0x0508" by (simp add: in_ram_def)
    then have d2: "serving (V (dev ?w2)) = None" "ram (V (dev ?w2)) 0x0508 = 3"
      using s2 q(2,3) by (simp_all add: same_def hal_simps)
    have y: "ucast y = (3 :: u16)"
      using ram_read(2) [OF ans r4 d2(1)] i d2(2) by simp
    have f: "finished (V (dev w4)) = Suc (length (stages_before st))"
      using ram_read(1) [OF ans r4 d2(1)] s2 q(4) s(3) by (simp add: same_def hal_simps)
    let ?s = "s\<lparr>pc := CheckTD st, usb_ctl_val := ucast y,
                  wd := printf (Msg_td_control (stage_number st) (ucast y)) w4\<rparr>"
    have st: "main_step b s = Some ?s"
      using s(1) r False q(1) r2 r4 by (simp add: main_step_def wait_msg_step_def HPI_STATUS_SIE1msg_FLAG_def)
    have "at V (CheckTD st) ?s \<and> usb_ctl_val ?s = 3"
      using at_stepped [OF less.prems st, of "CheckTD st"] y f s(4) by (simp add: hal_simps)
    with s(1) show ?thesis
      by (intro leads_step [OF st, where p = 0] leads_refl) (assumption, simp)
  qed
qed

lemma next_chip:
  "finished c = Suc (length (stages_before st)) \<Longrightarrow> chip_at (next_label st) 0 c"
  by (cases st) (simp_all add: stages_before_def stages_def)

lemma submit_leads:
  assumes ans: "answers b V rank" and "at V (Submit st) s"
  shows "leads b 0 s (at V (next_label st))"
proof (rule leads_seq)
  have s: "pc s = Submit st" "finished (V (dev (wd s))) = length (stages_before st)" "toggle s = 0"
    using assms(2) by (simp_all add: at_def)
  note c = submit_due [OF ans, of "stage_words st" "wd s", unfolded s(2) expected_stage, OF refl]
  have "chip_at (WaitMsg st) 0 (V (dev (wd (submit_step b st s))))"
    using c by (auto simp: submit_step_def Let_def stage_request_submit sleep_chip [OF ans] simp del: stage_words.simps)
  with at_step [OF assms(2), of b "submit_step b st s" "WaitMsg st"] s
  show "leads b 0 s (at V (WaitMsg st))"
    by (simp add: main_step_def) (simp add: submit_step_def Let_def)
next
  fix t :: "'a main_state"
  assume "at V (WaitMsg st) t"
  from wait_msg_leads [OF ans this] show "leads b 0 t (at V (next_label st))"
  proof (rule leads_seq)
    fix u :: "'a main_state"
    assume u: "at V (CheckTD st) u \<and> usb_ctl_val u = 3"
    then have "check_td_step b st u =
        Some (u\<lparr>pc := next_label st, wd := printf (Msg_stage_done (stage_number st)) (wd u)\<rparr>)"
      by (simp add: check_td_step_def)
    then show "leads b 0 u (at V (next_label st))"
      using u at_step [of V "CheckTD st" u b _ "next_label st"] next_chip [of "V (dev (wd u))" st]
      by (simp add: main_step_def at_def hal_simps)
  qed
qed

lemma print_mem_chip:
  "answers b V rank \<Longrightarrow> finished (V (dev (UsbPrintMem_loop b i w))) = finished (V (dev w))"
proof (induction b i w rule: UsbPrintMem_loop.induct)
  case (1 b i w)
  show ?case
  proof (cases "i \<le> 200")
    case True
    obtain v w1 where r: "IORD b CY7C67200_BASE HPI_DATA w = (v, w1)" by fastforce
    have "finished (V (dev w1)) = finished (V (dev w))"
      using read_chip [OF 1(2) r] by (simp add: data_read_def same_def)
    with 1(1) [OF True r [symmetric] refl refl 1(2)] True r show ?thesis
      by (subst UsbPrintMem_loop.simps) (simp add: Let_def hal_simps)
  next
    case False
    then show ?thesis by (subst UsbPrintMem_loop.simps) simp
  qed
qed

lemma device_info_leads:
  assumes ans: "answers b V rank" and "at V DeviceInfo s"
  shows "leads b 0 s (at V (Submit SetConfig))"
proof -
  let ?w = "UsbPrintMem b (wd s)"
  obtain v w where r: "IORD b CY7C67200_BASE HPI_DATA (IOWR b CY7C67200_BASE HPI_ADDR 0x056C ?w) = (v, w)" by fastforce
  have addr: "finished (V (dev (IOWR b CY7C67200_BASE HPI_ADDR a w))) = finished (V (dev w))" for a w
    using addr_chip [OF ans, of a w] by (simp add: addr_written_def same_def)
  have s: "pc s = DeviceInfo" "finished (V (dev (wd s))) = 5" "toggle s = 0" using assms(2) by (simp_all add: at_def)
  have "finished (V (dev w)) = 5"
    using read_chip [OF ans r] s(2) by (simp add: data_read_def same_def addr UsbPrintMem_def print_mem_chip [OF ans])
  then have "finished (V (dev (wd (device_info_step b s)))) = 5"
    using r by (simp add: device_info_step_def Let_def dev_printf addr)
  with at_step [OF assms(2), of b "device_info_step b s" "Submit SetConfig"] s show ?thesis
    by (simp add: main_step_def stages_before_def stages_def) (simp add: device_info_step_def Let_def split: prod.splits)
qed

text \<open>The straight-line labels.\<close>

lemma simple_leads:
  assumes "at V l s" "l \<in> {Setup, StartPoll}" "answers b V rank"
  shows "leads b 0 s (at V (the_elem (successors l)))"
proof -
  have "\<exists>s'. main_step b s = Some s'"
    using assms by (auto simp: at_def main_step_def)
  then obtain s' where s': "main_step b s = Some s'" ..
  have "chip_at (pc s') (toggle s) (V (dev (wd s')))"
    using assms s' by (auto simp: at_def main_step_def setup_step_def start_poll_step_def sleep_chip [OF assms(3)])
  with at_step [OF assms(1) s' refl] main_step_pc [OF s'] assms(1,2) show ?thesis
    by (auto simp: at_def)
qed

lemma check_ack_chip:
  assumes ans: "answers b V rank" and "reply (V (dev (wd s))) = Acked"
  shows "pc (check_ack b l s) = l" "reply (V (dev (wd (check_ack b l s)))) = Acked"
    "finished (V (dev (wd (check_ack b l s)))) = finished (V (dev (wd s)))"
proof -
  obtain v w where r: "IORD b CY7C67200_BASE HPI_MAILBOX (wd s) = (v, w)" by fastforce
  from ack_chip [OF ans r] assms(2) r show "pc (check_ack b l s) = l" "reply (V (dev (wd (check_ack b l s)))) = Acked"
    "finished (V (dev (wd (check_ack b l s)))) = finished (V (dev (wd s)))"
    by (simp_all add: check_ack_def mail_read_def)
qed

lemma check_init_leads:
  assumes ans: "answers b V rank" and "at V CheckInitAck s"
  shows "leads b 0 s (at V HusbReset)"
  using at_step [OF assms(2), of b "check_ack b HusbReset s" HusbReset] assms(2) check_ack_chip [OF ans, of s HusbReset]
  by (simp add: main_step_def at_def)

lemma husb_reset_leads:
  assumes ans: "answers b V rank" and "at V HusbReset s"
  shows "leads b 0 s (at V DetectDevice)"
proof -
  let ?w = "IOWR b CY7C67200_BASE HPI_MAILBOX COMM_EXEC_INT (write_regs b (tl COMM_R) 0
      (UsbWrite b (hd COMM_R) 0x003c (UsbWrite b COMM_INT_NUM HUSB_RESET_INT (wd s))))"
  have "reply (V (dev ?w)) = Acked \<and> finished (V (dev ?w)) = 0"
    using assms(2) mail_chip [OF ans, of COMM_EXEC_INT]
    by (simp add: at_def mail_written_def write_regs_chip [OF ans] UsbWrite_chip [OF ans])
  then have "pc (husb_reset_step b s) = DetectDevice" "finished (V (dev (wd (husb_reset_step b s)))) = 0"
    using check_ack_chip(1,3) [OF ans, of "s\<lparr>wd := ?w\<rparr>"] by (simp_all add: husb_reset_step_def Let_def)
  with at_step [OF assms(2), of b "husb_reset_step b s" DetectDevice] assms(2) show ?thesis
    by (simp add: main_step_def at_def)
qed

lemma detect_leads:
  assumes ans: "answers b V rank" and "at V DetectDevice s"
  shows "leads b 0 s (at V (Submit SetAddress))"
proof -
  obtain v w where r: "UsbRead b USB1_CTL_REG (wd s) = (v, w)" by fastforce
  have s: "pc s = DetectDevice" "finished (V (dev (wd s))) = 0" "toggle s = 0" using assms(2) by (simp_all add: at_def)
  have "pc (detect_step b s) = Submit SetAddress" "finished (V (dev (wd (detect_step b s)))) = 0"
    using UsbRead_chip(1,3) [OF ans r] r s(2) by (simp_all add: detect_step_def Let_def hal_simps same_def)
  with at_step [OF assms(2), of b "detect_step b s" "Submit SetAddress"] s show ?thesis
    by (simp add: main_step_def stages_before_def stages_def)
qed

lemma enumeration_leads:
  assumes ans: "answers b V rank" and "at V Setup s"
  shows "leads b 0 s (at V KbPoll)"
proof -
  have sub: "leads b 0 s (at V (next_label st))" if "leads b 0 s (at V (Submit st))" for st
    by (rule leads_seq [OF that]) (rule submit_leads [OF ans])
  have "leads b 0 s (at V HotPlug)"
    using simple_leads [OF assms(2) _ ans] by simp
  then have "leads b 0 s (at V WaitInit)"
    by (rule leads_seq) (rule hot_plug_leads [OF ans])
  then have "leads b 0 s (at V CheckInitAck)"
    by (rule leads_seq) (rule wait_init_leads [OF ans])
  then have "leads b 0 s (at V HusbReset)"
    by (rule leads_seq) (rule check_init_leads [OF ans])
  then have "leads b 0 s (at V DetectDevice)"
    by (rule leads_seq) (rule husb_reset_leads [OF ans])
  then have "leads b 0 s (at V (Submit SetAddress))"
    by (rule leads_seq) (rule detect_leads [OF ans])
  then have "leads b 0 s (at V (next_label ConfigDesc2))"
    by (intro sub [of ConfigDesc2] sub [of ConfigDesc1, simplified]
        sub [of DeviceDesc2, simplified] sub [of DeviceDesc1, simplified]
        sub [of SetAddress, simplified])
  then have "leads b 0 s (at V (Submit SetConfig))"
    by (rule leads_seq) (rule device_info_leads [OF ans], simp)
  then have "leads b 0 s (at V (next_label ReportDesc))"
    by (intro sub [of ReportDesc] sub [of HidDesc, simplified]
        sub [of ClassRequest, simplified] sub [of SetConfig, simplified])
  then show ?thesis
    by (rule leads_seq) (use simple_leads [OF _ _ ans, of StartPoll] in simp)
qed

lemma kb_words_expected:
  assumes "at V KbWaitMsg s"
  shows "kb_words (toggle s) (data_size s) = expected (finished (V (dev (wd s))))"
  using assms by (simp add: at_def size_inv_def configured_def polling_def expected_poll)

lemma kb_wait_leads:
  assumes ans: "answers b V rank"
  shows "at V KbWaitMsg s \<Longrightarrow> leads b 0 s (at V KbReport)"
proof (induction "rank (dev (wd s))" arbitrary: s rule: less_induct)
  case less
  obtain v w where r: "IORD b CY7C67200_BASE HPI_STATUS (wd s) = (v, w)"
    by fastforce
  have s: "pc s = KbWaitMsg" "due (V (dev (wd s)))" "9 \<le> finished (V (dev (wd s)))"
    "toggle s = of_nat (finished (V (dev (wd s))) - 8)"
    using less.prems by (simp_all add: at_def)
  show ?case
  proof (cases "v AND 0x10 = 0")
    case True
    let ?w = "usleep b (10 * 1000) (submit_td_list b (kb_words (toggle s) (data_size s)) w)"
    have st: "main_step b s = Some (s\<lparr>wd := ?w\<rparr>)"
      using s(1) r True by (simp add: main_step_def kb_wait_msg_step_def HPI_STATUS_SIE1msg_FLAG_def)
    note e = kb_words_expected [OF less.prems]
    have rank: "rank (dev ?w) < rank (dev (wd s))" by (rule retry_rank [OF ans r s(2) True e])
    have "at V KbWaitMsg (s\<lparr>wd := ?w\<rparr>)"
      using at_stepped [OF less.prems st, of KbWaitMsg] s retry_chip [OF ans r s(2) True e] by simp
    from less.hyps [OF _ this] rank leads_step [OF st] s(1) show ?thesis
      by simp
  next
    case False
    obtain w1 where q: "UsbWaitTDListDone b w = Some (HUSB_TDListDone, w1)"
      "finished (V (dev w1)) = Suc (finished (V (dev (wd s))))"
      using flag_seen [OF ans r s(2) False] .
    have st: "main_step b s = Some (s\<lparr>pc := KbReport, usb_ctl_val := HUSB_TDListDone, wd := w1\<rparr>)"
      using s(1) r False q by (simp add: main_step_def kb_wait_msg_step_def HPI_STATUS_SIE1msg_FLAG_def)
    have "Suc (finished (V (dev (wd s)))) - 9 = finished (V (dev (wd s))) - 8" by simp
    with at_step [OF less.prems st, of KbReport] q(2) s(3,4) show ?thesis by simp
  qed
qed

lemma kb_poll_leads:
  assumes ans: "answers b V rank" and "at V KbPoll s"
  shows "leads b 1 s (at V KbWaitMsg)"
proof -
  let ?n = "finished (V (dev (wd s)))"
  have s: "pc s = KbPoll" "9 \<le> ?n" "toggle s = of_nat (?n - 9)" "data_size s = 8"
    using assms(2) by (simp_all add: at_def size_inv_def configured_def polling_def)
  have "?n - 8 = Suc (?n - 9)" using s(2) by simp
  then have t: "toggle s + 1 = of_nat (?n - 8)" using s(3) by (simp add: add.commute)
  then have e: "kb_words (toggle s + 1) (data_size s) = expected ?n" using s by (simp add: expected_poll)
  have "chip_at KbWaitMsg (if KbPoll = KbPoll then toggle s + 1 else toggle s) (V (dev (wd (kb_poll_step b s))))"
  proof -
    have w: "wd (kb_poll_step b s) = submit_td_list b (kb_words (toggle s + 1) (data_size s)) (wd s)"
      by (simp add: kb_poll_step_def Let_def)
    note c = submit_due [OF ans e]
    show ?thesis unfolding if_P [OF refl] w chip_at.simps c(2) using c(1) s(2) t by (intro conjI)
  qed
  moreover have "main_step b s = Some (kb_poll_step b s)" "pc (kb_poll_step b s) = KbWaitMsg"
    using s(1) by (simp_all add: main_step_def kb_poll_step_def Let_def)
  ultimately have "leads b (if KbPoll = KbPoll then 1 else 0) s (at V KbWaitMsg)" by (intro at_step [OF assms(2)])
  then show ?thesis unfolding if_P [OF refl] .
qed

lemma kb_report_leads:
  assumes ans: "answers b V rank" and "at V KbReport s"
  shows "leads b 0 s (at V KbPoll)"
proof -
  have s: "pc s = KbReport" "ctl_reg s = USB1_CTL_REG" "no_device s = A_DP_STAT OR A_DM_STAT"
    using assms(2) by (auto simp: at_def port_inv_def detected_def)
  obtain k w where k: "IORD b CY7C67200_BASE HPI_DATA (IOWR b CY7C67200_BASE HPI_ADDR 0x051E (wd s)) = (k, w)" by fastforce
  let ?w = "usleep b 200 (IOWR b KEYCODE_BASE 0 (k AND 0xff) (printf (Msg_keycodes k) w))"
  obtain v w1 where r: "UsbRead b USB1_CTL_REG ?w = (v, w1)" by fastforce
  have "finished (V (dev ?w)) = finished (V (dev (wd s)))"
    using addr_chip [OF ans, of "0x051E" "wd s"] read_chip [OF ans k]
    by (simp add: sleep_chip [OF ans] keycode_chip [OF ans] dev_printf addr_written_def data_read_def same_def)
  then have f: "finished (V (dev w1)) = finished (V (dev (wd s)))" using UsbRead_chip(1) [OF ans r] by (simp add: same_def)
  have "pc (kb_report_step b s) = KbPoll" "wd (kb_report_step b s) = w1"
    using UsbRead_chip(3) [OF ans r] k r s by (simp_all add: kb_report_step_def Let_def)
  with at_step [OF assms(2), of b "kb_report_step b s" KbPoll] assms(2) f show ?thesis
    by (simp add: main_step_def at_def)
qed

lemma poll_leads:
  assumes ans: "answers b V rank" and "at V KbPoll s"
  shows "leads b 1 s (at V KbPoll)"
  by (rule leads_seq [OF leads_seq [OF kb_poll_leads [OF assms] kb_wait_leads [OF ans]] kb_report_leads [OF ans]])

lemma polls_lead:
  assumes ans: "answers b V rank" and "at V KbPoll s"
  shows "leads b k s (at V KbPoll)"
proof (induction k)
  case 0
  with assms(2) show ?case by (rule leads_refl)
next
  case (Suc k)
  from leads_trans [OF this poll_leads [OF ans]] show ?case by simp
qed

lemma served:
  assumes ans: "answers b V rank"
  shows "leads b k (main_init d) (at V KbPoll)"
  using leads_trans [OF enumeration_leads [OF ans] polls_lead [OF ans], of "main_init d" k]
  by (simp add: at_def main_init_def port_inv_def detected_def size_inv_def configured_def polling_def)

lemma main_run_Suc:
  "main_run b n s = Some t \<Longrightarrow> main_step b t = Some u \<Longrightarrow> main_run b (Suc n) s = Some u"
  by (induction n arbitrary: s) (auto simp: bind_eq_Some_conv)

subsection \<open>A device that answers\<close>

text \<open>A controller with memory. The number counts down to the acknowledgement of a command, one for each look
  at the status register, and says whether a list is still in work, which takes at most 8 ms. So a list is
  never done when the program looks first, and submitted a second time.\<close>

definition list_us :: u32 where "list_us = 8000"

fun demo_read :: "chip \<times> nat \<Rightarrow> u32 \<Rightarrow> u32 \<times> chip \<times> nat" where
  "demo_read (c, k) a =
     (if a = 0x1000000C
      then (case serving c of
              Some (p, m) \<Rightarrow>
                if k = 0
                then (0x10, c\<lparr>serving := None, finished := Suc (finished c),
                        ram := (ram c)(p + 8 := m (p + 8) AND NOT 0x0010, HPI_SIE1_MSG_ADR := HUSB_TDListDone)\<rparr>, 0)
                else (0, c, k)
            | None \<Rightarrow>
                if reply c = Pending
                then (if k = 0 then (1, c\<lparr>reply := Acked\<rparr>, 0) else (0, c, k - 1))
                else (0, c, k))
      else if a = 0x10000004 then (if reply c = Acked then COMM_ACK else 0, c, k)
      else (if latch c = USB1_CTL_REG then 0x2000 else ucast (ram c (latch c)), c\<lparr>latch := latch c + 2\<rparr>, k))"

fun demo_write :: "chip \<times> nat \<Rightarrow> u32 \<Rightarrow> u32 \<Rightarrow> chip \<times> nat" where
  "demo_write (c, k) a v =
     (if a = 0x10000008 then (c\<lparr>latch := ucast v\<rparr>, k)
      else if a = 0x10000000
      then (if latch c = HUSB_SIE1_pCurrentTDPtr
            then (c\<lparr>latch := latch c + 2, ram := (ram c)(latch c := ucast v), serving := Some (ucast v, ram c)\<rparr>, 1)
            else (c\<lparr>latch := latch c + 2, ram := (ram c)(latch c := ucast v)\<rparr>, k))
      else if a = 0x10000004
      then (if v = COMM_RESET then (c\<lparr>serving := None, reply := Silent, finished := 0\<rparr>, k)
            else if v = COMM_EXEC_INT \<and> reply c = Silent then (c\<lparr>reply := Pending\<rparr>, 2)
            else (c, k))
      else (c, k))"

definition demo_bus :: "(chip \<times> nat) bus" where
  "demo_bus = \<lparr>bus_rd = demo_read, bus_wr = demo_write,
     bus_sleep = \<lambda>(c, k) t. (c, if serving c \<noteq> None \<and> list_us \<le> t then 0 else k)\<rparr>"

definition demo_dev :: "chip \<times> nat" where
  "demo_dev = (\<lparr>latch = 0, ram = \<lambda>a. 0, serving = None, reply = Silent, finished = 0\<rparr>, 0)"

fun demo_rank :: "chip \<times> nat \<Rightarrow> nat" where
  "demo_rank (c, k) = (if serving c = None then k else if k = 0 then 0 else 1)"

lemma demo_keeps_serving:
  "fst ` set xs \<subseteq> {0x10000000, 0x10000008} \<Longrightarrow> serving (fst d) \<noteq> None
    \<Longrightarrow> serving (fst (hpi_writes demo_bus xs d)) \<noteq> None"
proof (induction xs arbitrary: d)
  case (Cons x xs)
  obtain a v c k where x: "x = (a, v)" "d = (c, k)" by fastforce
  then have "serving (fst (demo_write d a v)) \<noteq> None" using Cons.prems by auto
  with Cons x show ?case by (simp add: hpi_writes_def demo_bus_def)
qed (simp add: hpi_writes_def)

lemma demo_answers: "answers demo_bus fst demo_rank"
  unfolding answers_def
proof (intro conjI allI impI)
  fix d :: "chip \<times> nat" and v t :: u32
  obtain c k where d: "d = (c, k)" by fastforce
  show "addr_written (ucast v) (fst d) (fst (bus_wr demo_bus d 0x10000008 v))"
    "data_written (ucast v) (fst d) (fst (bus_wr demo_bus d 0x10000000 v))"
    "mail_written v (fst d) (fst (bus_wr demo_bus d 0x10000004 v))"
    "serving (fst (bus_sleep demo_bus d t)) = serving (fst d)" "reply (fst (bus_sleep demo_bus d t)) = reply (fst d)"
    "finished (fst (bus_sleep demo_bus d t)) = finished (fst d)" "finished (fst (bus_wr demo_bus d 0x11001020 v)) = finished (fst d)"
    by (auto simp: d demo_bus_def addr_written_def data_written_def mail_written_def same_def COMM_RESET_def COMM_EXEC_INT_def)
next
  fix d d' :: "chip \<times> nat" and v :: u32
  obtain c k where d: "d = (c, k)" by fastforce
  show "bus_rd demo_bus d 0x10000000 = (v, d') \<Longrightarrow> data_read (ucast v) (fst d) (fst d')"
    "bus_rd demo_bus d 0x10000004 = (v, d') \<Longrightarrow> mail_read v (fst d) (fst d')"
    "bus_rd demo_bus d 0x1000000C = (v, d') \<Longrightarrow> status_read v (fst d) (fst d')"
    "bus_rd demo_bus d 0x1000000C = (v, d') \<and> serving (fst d) = None \<and> reply (fst d) = Pending \<and> v AND 0xFFFF = 0
      \<Longrightarrow> demo_rank d' < demo_rank d"
    by (auto simp: d demo_bus_def data_read_def mail_read_def status_read_def same_def in_ram_def due_def USB1_CTL_REG_def
        A_DP_STAT_def A_DM_STAT_def HPI_STATUS_SIE1msg_FLAG_def HPI_SIE1_MSG_ADR_def split: option.splits if_splits prod.splits)
next
  fix d d' :: "chip \<times> nat" and v :: u32
  assume a: "bus_rd demo_bus d 0x1000000C = (v, d') \<and> due (fst d) \<and> v AND HPI_STATUS_SIE1msg_FLAG = 0"
  obtain c k where d: "d = (c, k)" by fastforce
  have s: "serving c \<noteq> None" using a by (auto simp: d due_def)
  then have d': "d' = d" "k \<noteq> 0"
    using a by (auto simp: d demo_bus_def HPI_STATUS_SIE1msg_FLAG_def split: option.splits if_splits)
  let ?xs = "submission (expected (finished (fst d)))"
  obtain c2 k2 where h: "hpi_writes demo_bus ?xs d' = (c2, k2)" by fastforce
  have "fst ` set ?xs \<subseteq> {0x10000000, 0x10000008}" by (auto simp: submission_def)
  from demo_keeps_serving [OF this, of d'] s h d'(1) have "serving c2 \<noteq> None" by (simp add: d)
  then show "demo_rank (bus_sleep demo_bus (hpi_writes demo_bus ?xs d') 10000) < demo_rank d"
    using s d'(2) unfolding h by (simp add: d) (simp add: demo_bus_def list_us_def)
qed

lemma demo_reaches: "\<exists>n s. main_run demo_bus n (main_init demo_dev) = Some s \<and> pc s = KbReport
    \<and> polls demo_bus n (main_init demo_dev) = 1"
proof -
  have "at fst KbPoll s \<Longrightarrow> leads demo_bus 1 s (at fst KbReport)" for s
    by (rule leads_seq [OF kb_poll_leads [OF demo_answers] kb_wait_leads [OF demo_answers]])
  from leads_trans [OF served [OF demo_answers, of 0 demo_dev] this] show ?thesis
    by (auto simp: leads_def at_def)
qed

subsection \<open>Properties of the program\<close>

text \<open>C2. The keyboard is polled only after a complete enumeration of the device that is attached:
  in every run, on every device, when the program is at the polling labels, the log since the
  last chip reset contains, in order and without overlap, for each of the nine stages of the
  enumeration, the submission of its descriptor list, the reading of the done message, and the
  reading of control word 3 from its first descriptor.\<close>

theorem enumerated_before_polling:
  assumes "main_run b n (main_init d) = Some s" and "polling (pc s)"
  shows "enumerated (log (wd s))"
  by (rule polling_enumerated [OF progress_inv_run [OF assms(1)] assms(2)])

lemma enumerated_before_polling_witness:
  "\<exists>n s. main_run demo_bus n (main_init demo_dev) = Some s \<and> polling (pc s) \<and> enumerated (log (wd s))"
proof -
  obtain n s where s: "main_run demo_bus n (main_init demo_dev) = Some s" "pc s = KbReport"
    using demo_reaches by blast
  then have "polling (pc s)" by (simp add: polling_def)
  with s(1) enumerated_before_polling [OF s(1)] show ?thesis by blast
qed

text \<open>The log invariant behind the next property.\<close>

definition keycodes_ok :: "io_event list \<Rightarrow> bool" where
  "keycodes_ok es \<longleftrightarrow>
     (\<forall>pre v post. es = pre @ IoWr 0x11001020 v # post \<longrightarrow>
        enumerated pre \<and>
        (\<exists>pre' k. pre = pre' @ [IoWr 0x10000008 0x051E, IoRd 0x10000000 k, Print (Msg_keycodes k)]
           \<and> v = k AND 0xFF))"

lemma occurrence_in_append:
  assumes "es @ fs = pre @ x # post"
  obtains post' where "es = pre @ x # post'" | pre' where "fs = pre' @ x # post" "pre = es @ pre'"
proof -
  from assms consider us where "es = pre @ us" "us @ fs = x # post"
    | us where "pre = es @ us" "fs = us @ x # post"
    by (auto simp: append_eq_append_conv2)
  then show thesis
  proof cases
    case 1
    then show ?thesis
      using that by (cases us) auto
  qed (rule that(2))
qed

lemma keycodes_ok_append:
  assumes "keycodes_ok es" "\<And>v. IoWr 0x11001020 v \<notin> set fs"
  shows "keycodes_ok (es @ fs)"
  unfolding keycodes_ok_def
proof (intro allI impI)
  fix pre v post
  assume "es @ fs = pre @ IoWr 0x11001020 v # post"
  then show "enumerated pre \<and>
        (\<exists>pre' k. pre = pre' @ [IoWr 0x10000008 0x051E, IoRd 0x10000000 k, Print (Msg_keycodes k)]
           \<and> v = k AND 0xFF)"
  proof (rule occurrence_in_append)
    fix post'
    assume "es = pre @ IoWr 0x11001020 v # post'"
    with assms(1) show ?thesis
      unfolding keycodes_ok_def by blast
  next
    fix pre'
    assume "fs = pre' @ IoWr 0x11001020 v # post"
    with assms(2) [of v] show ?thesis by simp
  qed
qed

lemma enumerated_quiet:
  assumes "enumerated es" "reset_event \<notin> set fs"
  shows "enumerated (es @ fs)"
  using assms blocks_append [of _ _ "[]"]
  by (auto simp: enumerated_def since_reset_append)

lemma keycodes_ok_step:
  assumes st: "main_step b s = Some s'" and "progress_inv s" "keycodes_ok (log (wd s))"
  shows "keycodes_ok (log (wd s'))"
proof (cases "pc s = KbReport")
  case False
  from main_step_adds [OF st] obtain es where
    "log (wd s') = log (wd s) @ es" "list_all (step_event_ok (pc s)) es"
    by (rule log_addsE)
  with False assms(3) show ?thesis
    by (auto intro!: keycodes_ok_append simp: list_all_iff step_event_ok_def)
next
  case True
  obtain k es where l: "log (wd (kb_report_step b s)) = log (wd s) @
       [IoWr 0x10000008 0x051E, IoRd 0x10000000 k, Print (Msg_keycodes k),
        IoWr 0x11001020 (k AND 0xFF)] @ es" "list_all quiet_event es"
    using kb_report_log by blast
  let ?pre = "log (wd s) @ [IoWr 0x10000008 0x051E, IoRd 0x10000000 k, Print (Msg_keycodes k)]"
  have "polling (pc s)"
    using True by (simp add: polling_def)
  from enumerated_quiet [OF polling_enumerated [OF assms(2) this]]
  have e: "enumerated ?pre"
    by (simp add: reset_event_def)
  have "keycodes_ok ?pre"
    by (rule keycodes_ok_append [OF assms(3)]) simp
  have "keycodes_ok (?pre @ [IoWr 0x11001020 (k AND 0xFF)])"
    unfolding keycodes_ok_def
  proof (intro allI impI)
    fix pre v post
    assume "?pre @ [IoWr 0x11001020 (k AND 0xFF)] = pre @ IoWr 0x11001020 v # post"
    then show "enumerated pre \<and>
        (\<exists>pre' k. pre = pre' @ [IoWr 0x10000008 0x051E, IoRd 0x10000000 k, Print (Msg_keycodes k)]
           \<and> v = k AND 0xFF)"
    proof (rule occurrence_in_append)
      fix post'
      assume "?pre = pre @ IoWr 0x11001020 v # post'"
      with \<open>keycodes_ok ?pre\<close> show ?thesis
        unfolding keycodes_ok_def by blast
    next
      fix pre'
      assume "[IoWr 0x11001020 (k AND 0xFF)] = pre' @ IoWr 0x11001020 v # post" "pre = ?pre @ pre'"
      with e show ?thesis
        by (auto simp: Cons_eq_append_conv)
    qed
  qed
  then have "keycodes_ok ((?pre @ [IoWr 0x11001020 (k AND 0xFF)]) @ es)"
    by (rule keycodes_ok_append) (use l(2) in \<open>auto simp: list_all_iff\<close>)
  with l(1) st True show ?thesis
    by (simp add: main_step_def)
qed

lemma keycodes_ok_Nil: "keycodes_ok []"
  by (simp add: keycodes_ok_def)

lemma keycodes_ok_run:
  assumes "main_run b n (main_init d) = Some s"
  shows "keycodes_ok (log (wd s))"
proof -
  have "progress_inv s \<and> keycodes_ok (log (wd s))"
    by (rule main_run_invariant [where I = "\<lambda>s. progress_inv s \<and> keycodes_ok (log (wd s))", OF _ assms])
       (auto intro: progress_inv_step keycodes_ok_step keycodes_ok_Nil
          simp: progress_trivial main_init_def)
  then show ?thesis ..
qed

text \<open>C3. Nothing but keycodes of an enumerated keyboard reaches the keycode port: whenever, in a
  run on any device, a value v has been written to it, the program had just addressed the
  report's third byte at 0x051E, read the word k there and shown it, v is the low byte of k,
  and up to that moment the device had been completely enumerated since the last chip reset.\<close>

theorem keycode_port_sound:
  assumes "main_run b n (main_init d) = Some s" and "log (wd s) = pre @ IoWr 0x11001020 v # post"
  shows "enumerated pre \<and>
    (\<exists>pre' k. pre = pre' @ [IoWr 0x10000008 0x051E, IoRd 0x10000000 k, Print (Msg_keycodes k)]
       \<and> v = k AND 0xFF)"
  using keycodes_ok_run [OF assms(1)] assms(2) unfolding keycodes_ok_def by blast

lemma keycode_port_sound_witness:
  "\<exists>n s pre v post. main_run demo_bus n (main_init demo_dev) = Some s
     \<and> log (wd s) = pre @ IoWr 0x11001020 v # post \<and> enumerated pre"
proof -
  obtain n s where s: "main_run demo_bus n (main_init demo_dev) = Some s" "pc s = KbReport"
    using demo_reaches by blast
  then have s': "main_run demo_bus (Suc n) (main_init demo_dev) = Some (kb_report_step demo_bus s)"
    by (intro main_run_Suc [of _ n _ s]) (simp_all add: main_step_def)
  obtain k es where "log (wd (kb_report_step demo_bus s)) =
      (log (wd s) @ [IoWr 0x10000008 0x051E, IoRd 0x10000000 k, Print (Msg_keycodes k)]) @
        IoWr 0x11001020 (k AND 0xFF) # es"
    using kb_report_log [of demo_bus s] by auto
  with s' keycode_port_sound [OF s' this] show ?thesis
    by blast
qed

text \<open>C5. The data toggle of the keyboard's endpoint: in any run, the list submitted by the k-th poll
  since the program started (counting from 0) is one armed 8-byte IN transaction on endpoint 1
  of device 2, into the report buffer at 0x051C, and it carries DATA1 exactly when k is odd.
  The count is not restarted when the keyboard is enumerated again after a hot plug, although
  a device that has just been configured starts at DATA0.\<close>

theorem poll_toggle_counts_since_start:
  assumes "main_run b n (main_init d) = Some s" and "pc s = KbPoll"
  shows "\<exists>s'. main_step b s = Some s' \<and>
    td_list (new_events (wd s) (wd s')) = Some [(0x0500, kb_td (odd (polls b n (main_init d))))]"
  using kb_poll_td [OF assms] assms(2) by (simp add: main_step_def)

lemma poll_toggle_witness:
  "\<exists>n s s'. main_run demo_bus n (main_init demo_dev) = Some s \<and> main_step demo_bus s = Some s' \<and>
     td_list (new_events (wd s) (wd s')) = Some [(0x0500, kb_td True)]"
proof -
  obtain n s where s: "main_run demo_bus n (main_init demo_dev) = Some s" "pc s = KbPoll"
    "polls demo_bus n (main_init demo_dev) = 1"
    using served [OF demo_answers, of 1 demo_dev] by (auto simp: leads_def at_def)
  from poll_toggle_counts_since_start [OF s(1,2)] s(1,3) show ?thesis
    by auto
qed

text \<open>C4. Liveness. Assume a controller with a keyboard that answers (\<open>answers\<close>), that is: its address
  register is a latch that moves on with each access to the data register; its memory from 0x0500 holds
  what is written to it, and can be read back when no list is being served; a reset through the mailbox
  stops what it does, a command is acknowledged in the mailbox, and until then the status register
  is 0; when it is handed the next list of the enumeration, or then the next poll of the keyboard, and
  serves it, the status register shows the message flag when the list is done, the message is then TDListDone,
  and the first descriptor has only lost its active bit, having needed no retry; the port shows a
  device; and it gets done: only finitely many looks at the status register find a
  command unacknowledged, or a list in work that the program then submits again and gives 10 ms.
  Then, from any state of the controller, for every k the program reaches the polling loop and has
  polled the keyboard k times; it is never stuck in the enumeration nor in a wait.\<close>

theorem answering_keyboard_is_polled:
  assumes "answers b V rank"
  shows "\<exists>n s. main_run b n (main_init d) = Some s \<and> pc s = KbPoll \<and> polls b n (main_init d) = k"
  using served [OF assms, of k d] by (auto simp: leads_def at_def)

lemma answering_keyboard_witness:
  "\<exists>n s. main_run demo_bus n (main_init demo_dev) = Some s \<and> pc s = KbPoll
     \<and> polls demo_bus n (main_init demo_dev) = 1000"
  by (rule answering_keyboard_is_polled [OF demo_answers])

end
