(* ===== verification/Llist.thy ===== *)
theory Llist
  imports Prelude
begin

text \<open>
  The intrusive doubly-linked lists of \<open>HAL/inc/sys/alt_llist.h\<close>, on which the HAL keeps its
  alarms, devices and file systems. A node is an address; the two pointers of every node live
  in a heap. \<open>dll h lh xs\<close> says that the list with head \<open>lh\<close> holds the nodes \<open>xs\<close>, from the
  first to the last. The locale \<open>linked_list\<close> is what the users of the lists rely on; the
  heap operations interpret it.
\<close>

type_synonym ptr = u32

record llist_heap =
  next_of :: "ptr \<Rightarrow> ptr"
  previous_of :: "ptr \<Rightarrow> ptr"

definition set_next :: "ptr \<Rightarrow> ptr \<Rightarrow> llist_heap \<Rightarrow> llist_heap" where
  "set_next a v h = h\<lparr>next_of := (next_of h)(a := v)\<rparr>"

definition set_previous :: "ptr \<Rightarrow> ptr \<Rightarrow> llist_heap \<Rightarrow> llist_heap" where
  "set_previous a v h = h\<lparr>previous_of := (previous_of h)(a := v)\<rparr>"

text \<open>\<open>ALT_LLIST_HEAD(head)\<close>: a head that points to itself.\<close>

definition ALT_LLIST_HEAD :: "ptr \<Rightarrow> llist_heap \<Rightarrow> llist_heap" where
  "ALT_LLIST_HEAD lh h = set_previous lh lh (set_next lh lh h)"

definition alt_llist_insert :: "ptr \<Rightarrow> ptr \<Rightarrow> llist_heap \<Rightarrow> llist_heap" where
  "alt_llist_insert list entry h =
     (let h = set_previous entry list h;
          h = set_next entry (next_of h list) h;
          h = set_previous (next_of h list) entry h;
          h = set_next list entry h
      in h)"

definition alt_llist_remove :: "ptr \<Rightarrow> llist_heap \<Rightarrow> llist_heap" where
  "alt_llist_remove entry h =
     (let h = set_previous (next_of h entry) (previous_of h entry) h;
          h = set_next (previous_of h entry) (next_of h entry) h;
          h = set_previous entry entry h;
          h = set_next entry entry h
      in h)"

subsection \<open>The abstraction\<close>

text \<open>\<open>dseg h a xs b\<close>: from \<open>a\<close> the next pointers lead through \<open>xs\<close> to \<open>b\<close>, and the previous
  pointers lead back.\<close>

fun dseg :: "llist_heap \<Rightarrow> ptr \<Rightarrow> ptr list \<Rightarrow> ptr \<Rightarrow> bool" where
  "dseg h a [] b = (next_of h a = b \<and> previous_of h b = a)"
| "dseg h a (x # xs) b = (next_of h a = x \<and> previous_of h x = a \<and> dseg h x xs b)"

definition dll :: "llist_heap \<Rightarrow> ptr \<Rightarrow> ptr list \<Rightarrow> bool" where
  "dll h lh xs \<longleftrightarrow> distinct (lh # xs) \<and> dseg h lh xs lh"

lemma heap_simps [simp]:
  "next_of (set_next a v h) = (next_of h)(a := v)"
  "previous_of (set_next a v h) = previous_of h"
  "next_of (set_previous a v h) = next_of h"
  "previous_of (set_previous a v h) = (previous_of h)(a := v)"
  by (simp_all add: set_next_def set_previous_def)

lemma dseg_append:
  "dseg h a (xs @ x # ys) b \<longleftrightarrow> dseg h a xs x \<and> dseg h x ys b"
  by (induction xs arbitrary: a) auto

text \<open>A segment depends on the next pointers of \<open>a # xs\<close> and the previous pointers of
  \<open>xs @ [b]\<close> only.\<close>

lemma dseg_cong:
  assumes "\<And>p. p \<in> set (a # xs) \<Longrightarrow> next_of h p = next_of h' p"
    and "\<And>p. p \<in> set (xs @ [b]) \<Longrightarrow> previous_of h p = previous_of h' p"
  shows "dseg h a xs b = dseg h' a xs b"
  using assms by (induction xs arbitrary: a) auto

lemma dseg_next: "dseg h a xs b \<Longrightarrow> next_of h a = (case xs of [] \<Rightarrow> b | x # _ \<Rightarrow> x)"
  by (cases xs) auto

lemma dseg_previous: "dseg h a xs b \<Longrightarrow> previous_of h b = (if xs = [] then a else last xs)"
  by (induction xs arbitrary: a) auto

lemma dll_head: "dll (ALT_LLIST_HEAD lh h) lh []"
  by (simp add: dll_def ALT_LLIST_HEAD_def)

lemma dll_insert:
  assumes "dll h lh xs" "e \<notin> set (lh # xs)"
  shows "dll (alt_llist_insert lh e h) lh (e # xs)"
proof -
  let ?h = "alt_llist_insert lh e h"
  from assms have d: "distinct (lh # xs)" "dseg h lh xs lh" "e \<noteq> lh" "e \<notin> set xs"
    by (auto simp: dll_def)
  have "dseg ?h e xs lh"
  proof (cases xs)
    case Nil
    with d show ?thesis by (auto simp: alt_llist_insert_def Let_def)
  next
    case (Cons x ys)
    have "dseg ?h x ys lh = dseg h x ys lh"
      using d Cons by (intro dseg_cong) (auto simp: alt_llist_insert_def Let_def)
    with d Cons show ?thesis by (auto simp: alt_llist_insert_def Let_def)
  qed
  moreover have "next_of ?h lh = e" "previous_of ?h e = lh"
    using d dseg_next [OF d(2)]
    by (auto simp: alt_llist_insert_def Let_def split: list.splits)
  ultimately show ?thesis
    using d by (simp add: dll_def)
qed

lemma dll_remove:
  assumes "dll h lh (xs @ e # ys)"
  shows "dll (alt_llist_remove e h) lh (xs @ ys)"
proof -
  let ?h = "alt_llist_remove e h"
  from assms have d: "distinct (lh # xs @ e # ys)" "dseg h lh xs e" "dseg h e ys lh"
    by (auto simp: dll_def dseg_append)
  define p where "p = (if xs = [] then lh else last xs)"
  define n where "n = (case ys of [] \<Rightarrow> lh | y # _ \<Rightarrow> y)"
  have pn: "previous_of h e = p" "next_of h e = n"
    using dseg_previous [OF d(2)] dseg_next [OF d(3)] by (simp_all add: p_def n_def)
  have pin: "p \<in> set (lh # xs)" "n \<in> set (lh # ys)"
    by (auto simp: p_def n_def split: list.splits)
  then have ne: "p \<noteq> e" "n \<noteq> e" "p \<notin> set ys" "n \<notin> set xs"
    using d(1) by auto
  have h': "next_of ?h = (next_of h)(p := n, e := e)" "previous_of ?h = (previous_of h)(n := p, e := e)"
    using pn ne by (auto simp: alt_llist_remove_def Let_def)
  have tail: "dseg ?h p ys lh"
  proof (cases ys)
    case Nil
    then show ?thesis using h' ne by (simp add: n_def)
  next
    case (Cons y zs)
    have "dseg ?h y zs lh = dseg h y zs lh"
      using d(1) Cons ne by (intro dseg_cong) (auto simp: h' n_def)
    with Cons d(3) h' ne show ?thesis by (simp add: n_def)
  qed
  show ?thesis
  proof (cases xs rule: rev_cases)
    case Nil
    with tail d(1) show ?thesis by (simp add: dll_def p_def)
  next
    case (snoc zs x)
    have "dseg h lh zs x"
      using d(2) snoc by (simp add: dseg_append)
    moreover have "dseg ?h lh zs x = dseg h lh zs x"
      using d(1) snoc ne by (intro dseg_cong) (auto simp: h' p_def)
    ultimately show ?thesis
      using tail d(1) snoc by (auto simp: dll_def dseg_append p_def)
  qed
qed

text \<open>An entry taken out points to itself: removing it again changes nothing.\<close>

lemma remove_self:
  assumes "next_of h e = e" "previous_of h e = e"
  shows "alt_llist_remove e h = h"
  using assms by (simp add: alt_llist_remove_def set_next_def set_previous_def fun_upd_idem)

lemma removed_self:
  "next_of (alt_llist_remove e h) e = e" "previous_of (alt_llist_remove e h) e = e"
  by (simp_all add: alt_llist_remove_def Let_def)

text \<open>Operations on one list leave the others alone.\<close>

lemma dll_frame_insert:
  assumes "dll h lh xs" "dll h lh' ys" "set (lh # xs) \<inter> set (lh' # ys) = {}" "e \<notin> set (lh' # ys)"
  shows "dll (alt_llist_insert lh e h) lh' ys"
proof -
  have "next_of h lh \<in> set (lh # xs)"
    using assms(1) by (auto simp: dll_def dest!: dseg_next split: list.splits)
  with assms(3,4) have "dseg (alt_llist_insert lh e h) lh' ys lh' = dseg h lh' ys lh'"
    by (intro dseg_cong) (auto simp: alt_llist_insert_def Let_def)
  with assms(2) show ?thesis by (simp add: dll_def)
qed

text \<open>The list a heap represents is unique.\<close>

lemma dseg_unique:
  "dseg h a xs b \<Longrightarrow> dseg h a ys b \<Longrightarrow> b \<notin> set xs \<Longrightarrow> b \<notin> set ys \<Longrightarrow> xs = ys"
proof (induction xs arbitrary: a ys)
  case Nil
  then show ?case by (cases ys) auto
next
  case (Cons x xs)
  then show ?case by (cases ys) auto
qed

lemma dll_unique: "dll h lh xs \<Longrightarrow> dll h lh ys \<Longrightarrow> xs = ys"
  by (auto simp: dll_def intro: dseg_unique)

subsection \<open>The interface\<close>

text \<open>What alarms, devices and file systems use of a list: insertion in front, removal of a
  member, and the next pointer to walk it. \<open>lst h lh xs\<close> is the provider's promise that the
  list at \<open>lh\<close> holds \<open>xs\<close>.\<close>

locale linked_list =
  fixes lst :: "'h \<Rightarrow> 'a \<Rightarrow> 'a list \<Rightarrow> bool"
    and ins :: "'a \<Rightarrow> 'a \<Rightarrow> 'h \<Rightarrow> 'h"
    and rem :: "'a \<Rightarrow> 'h \<Rightarrow> 'h"
    and nxt :: "'h \<Rightarrow> 'a \<Rightarrow> 'a"
  assumes lst_distinct: "lst h lh xs \<Longrightarrow> distinct (lh # xs)"
    and lst_ins: "lst h lh xs \<Longrightarrow> e \<notin> set (lh # xs) \<Longrightarrow> lst (ins lh e h) lh (e # xs)"
    and lst_rem: "lst h lh (xs @ e # ys) \<Longrightarrow> lst (rem e h) lh (xs @ ys)"
    and lst_first: "lst h lh xs \<Longrightarrow> nxt h lh = (case xs of [] \<Rightarrow> lh | x # _ \<Rightarrow> x)"
    and lst_next: "lst h lh (xs @ e # ys) \<Longrightarrow> nxt h e = (case ys of [] \<Rightarrow> lh | y # _ \<Rightarrow> y)"
begin

lemma lst_remove1:
  assumes "lst h lh xs" "e \<in> set xs"
  shows "lst (rem e h) lh (remove1 e xs)"
proof -
  from assms(2) obtain ys zs where xs: "xs = ys @ e # zs" "e \<notin> set ys"
    by (meson split_list_first)
  with assms(1) lst_rem [of h lh ys e zs] show ?thesis
    by (simp add: remove1_append)
qed

lemma lst_insert_many:
  assumes "lst h lh xs" "distinct es" "set es \<inter> set (lh # xs) = {}"
  shows "lst (fold (ins lh) es h) lh (rev es @ xs)"
  using assms
proof (induction es arbitrary: h xs)
  case (Cons e es)
  then have "lst (ins lh e h) lh (e # xs)"
    by (intro lst_ins) auto
  with Cons.IH [OF this] Cons.prems show ?case by auto
qed simp

text \<open>Walking the list from the first node visits its nodes in order and ends at the head.\<close>

lemma lst_walk:
  "lst h lh xs \<Longrightarrow> k < length xs \<Longrightarrow> ((nxt h) ^^ Suc k) lh = xs ! k"
proof (induction k)
  case 0
  then show ?case using lst_first [of h lh xs] by (cases xs) auto
next
  case (Suc k)
  then have "((nxt h) ^^ Suc (Suc k)) lh = nxt h (xs ! k)"
    by simp
  also have "xs = take k xs @ xs ! k # drop (Suc k) xs"
    using Suc.prems by (simp add: id_take_nth_drop)
  then have "nxt h (xs ! k) = (case drop (Suc k) xs of [] \<Rightarrow> lh | y # _ \<Rightarrow> y)"
    using Suc.prems(1) lst_next by metis
  also have "drop (Suc k) xs = xs ! Suc k # drop (Suc (Suc k)) xs"
    using Suc.prems(2) by (simp add: Cons_nth_drop_Suc)
  finally show ?case by simp
qed

lemma lst_member: "lst h lh xs \<Longrightarrow> e \<in> set xs \<Longrightarrow> \<exists>k < length xs. ((nxt h) ^^ Suc k) lh = e"
  by (metis in_set_conv_nth lst_walk)

end

interpretation ll: linked_list dll alt_llist_insert alt_llist_remove next_of
proof
  fix h lh xs e ys
  show "dll h lh xs \<Longrightarrow> distinct (lh # xs)"
    by (simp add: dll_def)
  show "dll h lh xs \<Longrightarrow> e \<notin> set (lh # xs) \<Longrightarrow> dll (alt_llist_insert lh e h) lh (e # xs)"
    by (rule dll_insert)
  show "dll h lh (xs @ e # ys) \<Longrightarrow> dll (alt_llist_remove e h) lh (xs @ ys)"
    by (rule dll_remove)
  show "dll h lh xs \<Longrightarrow> next_of h lh = (case xs of [] \<Rightarrow> lh | x # _ \<Rightarrow> x)"
    by (simp add: dll_def dseg_next)
  show "dll h lh (xs @ e # ys) \<Longrightarrow> next_of h e = (case ys of [] \<Rightarrow> lh | y # _ \<Rightarrow> y)"
    by (auto simp: dll_def dseg_append dest: dseg_next)
qed

subsection \<open>Properties\<close>

text \<open>C7. On a well-linked list, alt_llist_insert puts the new entry first and keeps the order of
  the others, alt_llist_remove takes out exactly the given entry wherever it is, and a second
  alt_llist_remove of the same entry changes nothing, as the header promises.\<close>

theorem llist_insert_remove:
  assumes "dll h lh (xs @ y # ys)" and "e \<notin> set (lh # xs @ y # ys)"
  shows "dll (alt_llist_insert lh e h) lh (e # xs @ y # ys)
    \<and> dll (alt_llist_remove y (alt_llist_insert lh e h)) lh (e # xs @ ys)
    \<and> alt_llist_remove y (alt_llist_remove y h) = alt_llist_remove y h"
  using ll.lst_ins [OF assms] ll.lst_rem [of _ lh "e # xs" y ys] remove_self [OF removed_self]
  by simp

lemma llist_insert_remove_witness:
  "\<forall>h. dll (alt_llist_remove 2 (alt_llist_insert 1 3 (alt_llist_insert 1 2 (ALT_LLIST_HEAD 1 h)))) 1 [3]"
proof
  fix h
  have "dll (alt_llist_insert 1 2 (ALT_LLIST_HEAD 1 h)) 1 ([] @ 2 # [])"
    using ll.lst_ins [OF dll_head, of 2 1 h] by simp
  from llist_insert_remove [OF this, of 3]
  show "dll (alt_llist_remove 2 (alt_llist_insert 1 3 (alt_llist_insert 1 2 (ALT_LLIST_HEAD 1 h)))) 1 [3]"
    by simp
qed

end
