(* ===== verification/Irq.thy ===== *)
theory Irq
  imports Prelude
begin

text \<open>
  Interrupts: the status and ienable registers of the processor, the inline functions of
  \<open>HAL/inc/sys/alt_irq.h\<close> and \<open>HAL/inc/priv/alt_legacy_irq.h\<close>, the registries
  \<open>alt_irq_register.c\<close>, \<open>alt_iic_isr_register.c\<close> and \<open>alt_iic.c\<close>, and the dispatcher
  \<open>alt_irq_handler.c\<close>. The system is configured with the internal interrupt controller, the
  enhanced interrupt API, no MMU, MPU or shadow registers and no vector instruction.
  \<open>None\<close> is undefined behaviour (a shift by 32 or more, an index out of the handler table, a
  call of a null handler) or an endless loop.
\<close>

subsection \<open>Processor state\<close>

definition NIOS2_STATUS_PIE_MSK :: u32 where "NIOS2_STATUS_PIE_MSK = 1"
definition ALT_NIRQ :: u32 where "ALT_NIRQ = 32"

text \<open>A handler and its context; handler 0 is the null pointer.\<close>

type_synonym irq_entry = "u32 \<times> u32"

record cpu =
  status :: u32
  ienable :: u32
  irq_active :: u32
  priority_mask :: u32
  irq_table :: "irq_entry list"

definition cpu_init :: cpu where
  "cpu_init = \<lparr>status = 0, ienable = 0, irq_active = 0, priority_mask = -1,
               irq_table = replicate 32 (0, 0)\<rparr>"

definition alt_irq_enabled :: "cpu \<Rightarrow> u32" where
  "alt_irq_enabled c = status c AND NIOS2_STATUS_PIE_MSK"

definition alt_irq_disable_all :: "cpu \<Rightarrow> u32 \<times> cpu" where
  "alt_irq_disable_all c = (status c, c\<lparr>status := status c AND NOT NIOS2_STATUS_PIE_MSK\<rparr>)"

definition alt_irq_enable_all :: "u32 \<Rightarrow> cpu \<Rightarrow> cpu" where
  "alt_irq_enable_all ctxt c = c\<lparr>status := ctxt\<rparr>"

definition alt_irq_cpu_enable_interrupts :: "cpu \<Rightarrow> cpu" where
  "alt_irq_cpu_enable_interrupts c = c\<lparr>status := NIOS2_STATUS_PIE_MSK\<rparr>"

subsection \<open>Individual interrupts\<close>

text \<open>\<open>1 << n\<close>.\<close>

definition shl1 :: "u32 \<Rightarrow> u32 option" where
  "shl1 n = (if n < 32 then Some (push_bit (unat n) 1) else None)"

definition alt_irq_disable :: "u32 \<Rightarrow> cpu \<Rightarrow> (int \<times> cpu) option" where
  "alt_irq_disable irq c =
     (let (st, c) = alt_irq_disable_all c
      in case shl1 irq of
           None \<Rightarrow> None
         | Some m \<Rightarrow>
             (let c = c\<lparr>irq_active := irq_active c AND NOT m\<rparr>;
                  c = c\<lparr>ienable := irq_active c\<rparr>
              in Some (0, alt_irq_enable_all st c)))"

definition alt_irq_enable :: "u32 \<Rightarrow> cpu \<Rightarrow> (int \<times> cpu) option" where
  "alt_irq_enable irq c =
     (let (st, c) = alt_irq_disable_all c
      in case shl1 irq of
           None \<Rightarrow> None
         | Some m \<Rightarrow>
             (let c = c\<lparr>irq_active := irq_active c OR m\<rparr>;
                  c = c\<lparr>ienable := irq_active c\<rparr>
              in Some (0, alt_irq_enable_all st c)))"

definition alt_irq_interruptible :: "u32 \<Rightarrow> cpu \<Rightarrow> (u32 \<times> cpu) option" where
  "alt_irq_interruptible priority c =
     (case shl1 priority of
        None \<Rightarrow> None
      | Some m \<Rightarrow>
          (let old_priority = priority_mask c;
               c = c\<lparr>priority_mask := m - 1\<rparr>;
               c = c\<lparr>ienable := irq_active c AND priority_mask c\<rparr>;
               c = c\<lparr>status := 1\<rparr>
           in Some (old_priority, c)))"

definition alt_irq_non_interruptible :: "u32 \<Rightarrow> cpu \<Rightarrow> cpu" where
  "alt_irq_non_interruptible m c =
     (let c = c\<lparr>status := 0\<rparr>;
          c = c\<lparr>priority_mask := m\<rparr>
      in c\<lparr>ienable := m AND irq_active c\<rparr>)"

subsection \<open>Registering handlers\<close>

text \<open>\<open>alt_irq[id].handler = h; alt_irq[id].context = c;\<close>\<close>

definition set_irq_entry :: "nat \<Rightarrow> u32 \<Rightarrow> u32 \<Rightarrow> cpu \<Rightarrow> cpu" where
  "set_irq_entry i h ctxt c = c\<lparr>irq_table := (irq_table c)[i := (h, ctxt)]\<rparr>"

definition alt_irq_register :: "u32 \<Rightarrow> u32 \<Rightarrow> u32 \<Rightarrow> cpu \<Rightarrow> (int \<times> cpu) option" where
  "alt_irq_register irq ctxt handler c =
     (if irq < ALT_NIRQ
      then (let (st, c) = alt_irq_disable_all c;
                c = set_irq_entry (unat irq) handler ctxt c
            in case (if handler \<noteq> 0 then alt_irq_enable irq c else alt_irq_disable irq c) of
                 None \<Rightarrow> None
               | Some (rc, c) \<Rightarrow> Some (rc, alt_irq_enable_all st c))
      else Some (- EINVAL, c))"

definition alt_ic_irq_enable :: "u32 \<Rightarrow> u32 \<Rightarrow> cpu \<Rightarrow> (int \<times> cpu) option" where
  "alt_ic_irq_enable ic_id irq c = alt_irq_enable irq c"

definition alt_ic_irq_disable :: "u32 \<Rightarrow> u32 \<Rightarrow> cpu \<Rightarrow> (int \<times> cpu) option" where
  "alt_ic_irq_disable ic_id irq c = alt_irq_disable irq c"

definition alt_ic_irq_enabled :: "u32 \<Rightarrow> u32 \<Rightarrow> cpu \<Rightarrow> u32 option" where
  "alt_ic_irq_enabled ic_id irq c =
     map_option (\<lambda>m. if ienable c AND m \<noteq> 0 then 1 else 0) (shl1 irq)"

text \<open>Here the number is a signed \<open>int\<close> when it is compared with \<open>ALT_NIRQ\<close>.\<close>

definition alt_iic_isr_register ::
  "u32 \<Rightarrow> u32 \<Rightarrow> u32 \<Rightarrow> u32 \<Rightarrow> u32 \<Rightarrow> cpu \<Rightarrow> (int \<times> cpu) option" where
  "alt_iic_isr_register ic_id irq isr isr_context flags c =
     (let n = sint irq
      in if n < sint ALT_NIRQ
         then (let (st, c) = alt_irq_disable_all c
               in if n < 0 then None
                  else (let c = set_irq_entry (nat n) isr isr_context c
                        in case (if isr \<noteq> 0 then alt_ic_irq_enable ic_id (word_of_int n) c
                                 else alt_ic_irq_disable ic_id (word_of_int n) c) of
                             None \<Rightarrow> None
                           | Some (rc, c) \<Rightarrow> Some (rc, alt_irq_enable_all st c)))
         else Some (- EINVAL, c))"

definition alt_ic_isr_register ::
  "u32 \<Rightarrow> u32 \<Rightarrow> u32 \<Rightarrow> u32 \<Rightarrow> u32 \<Rightarrow> cpu \<Rightarrow> (int \<times> cpu) option" where
  "alt_ic_isr_register ic_id irq isr isr_context flags c =
     alt_iic_isr_register ic_id irq isr isr_context flags c"

subsection \<open>Dispatch\<close>

text \<open>The inner loop: \<open>do { if (active & mask) ...break; mask <<= 1; i++; } while (1)\<close>.\<close>

partial_function (option) first_active :: "u32 \<Rightarrow> u32 \<Rightarrow> u32 \<Rightarrow> u32 option" where
  "first_active active m i =
     (if active AND m \<noteq> 0 then Some i else first_active active (push_bit 1 m) (i + 1))"

text \<open>The handlers act on a system state \<open>'s\<close> that contains the processor and the interrupting
  hardware: \<open>call\<close> runs a handler on its context, \<open>pending\<close> reads the ipending register.\<close>

record 's isr_env =
  cpu_of :: "'s \<Rightarrow> cpu"
  pending :: "'s \<Rightarrow> u32"
  call :: "u32 \<Rightarrow> u32 \<Rightarrow> 's \<Rightarrow> 's option"

definition alt_irq_pending :: "'s isr_env \<Rightarrow> 's \<Rightarrow> u32" where
  "alt_irq_pending e s = pending e s"

definition dispatch_one :: "'s isr_env \<Rightarrow> u32 \<Rightarrow> 's \<Rightarrow> 's option" where
  "dispatch_one e active s =
     (case first_active active 1 0 of
        None \<Rightarrow> None
      | Some i \<Rightarrow>
          (if unat i < length (irq_table (cpu_of e s))
           then (let (h, ctxt) = irq_table (cpu_of e s) ! unat i
                 in if h = 0 then None else call e h ctxt s)
           else None))"

partial_function (option) irq_handler_loop :: "'s isr_env \<Rightarrow> u32 \<Rightarrow> 's \<Rightarrow> 's option" where
  "irq_handler_loop e active s =
     Option.bind (dispatch_one e active s)
       (\<lambda>s. let active = alt_irq_pending e s
            in if active \<noteq> 0 then irq_handler_loop e active s else Some s)"

definition alt_irq_handler :: "'s isr_env \<Rightarrow> 's \<Rightarrow> 's option" where
  "alt_irq_handler e s = irq_handler_loop e (alt_irq_pending e s) s"

subsection \<open>Critical sections\<close>

text \<open>What the drivers rely on when they bracket code with \<open>alt_irq_disable_all\<close> and
  \<open>alt_irq_enable_all\<close>: inside, interrupts are off; afterwards the state of interrupts is what
  it was, also when sections nest.\<close>

locale critical_section =
  fixes enter :: "'s \<Rightarrow> 'c \<times> 's"
    and leave :: "'c \<Rightarrow> 's \<Rightarrow> 's"
    and irqs_on :: "'s \<Rightarrow> bool"
    and sameb :: "'s \<Rightarrow> 's \<Rightarrow> bool"   \<comment> \<open>same interrupt state\<close>
  assumes enter_off: "enter s = (c, s') \<Longrightarrow> \<not> irqs_on s'"
    and leave_restores: "enter s = (c, s') \<Longrightarrow> sameb (leave c t) s"
    and same_on: "sameb s t \<Longrightarrow> irqs_on s = irqs_on t"
begin

definition section_of :: "('s \<Rightarrow> 's) \<Rightarrow> 's \<Rightarrow> 's" where
  "section_of f s = (case enter s of (c, s') \<Rightarrow> leave c (f s'))"

lemma section_same: "sameb (section_of f s) s"
  by (auto simp: section_of_def intro: leave_restores split: prod.splits)

lemma section_irqs: "irqs_on (section_of f s) = irqs_on s"
  using same_on [OF section_same] .

lemma nested_off: "enter s = (c, s') \<Longrightarrow> \<not> irqs_on (section_of f s')"
  using enter_off section_irqs by metis

end

lemma pie_off: "(x AND NOT NIOS2_STATUS_PIE_MSK) AND NIOS2_STATUS_PIE_MSK = 0"
  by (simp add: NIOS2_STATUS_PIE_MSK_def and.assoc)

interpretation irq_section: critical_section alt_irq_disable_all alt_irq_enable_all
  "\<lambda>c. alt_irq_enabled c \<noteq> 0" "\<lambda>c d. status c = status d"
  by unfold_locales
     (auto simp: alt_irq_disable_all_def alt_irq_enable_all_def alt_irq_enabled_def pie_off)

subsection \<open>Lemmas on single bits\<close>

lemma shl1_Some: "shl1 n = Some m \<longleftrightarrow> n < 32 \<and> m = push_bit (unat n) 1"
  by (auto simp: shl1_def)

lemma bit_one_shift: "bit (push_bit k 1 :: u32) i \<longleftrightarrow> i = k \<and> k < 32"
  by (auto simp: bit_simps)

lemma and_shift_zero: "x AND push_bit k 1 = 0 \<longleftrightarrow> \<not> bit (x :: u32) k"
proof
  assume "x AND push_bit k 1 = 0"
  then have "\<not> bit (x AND push_bit k 1) k" by simp
  then show "\<not> bit x k"
    using bit_imp_le_length [of x k] by (auto simp: bit_simps)
next
  assume "\<not> bit x k"
  then show "x AND push_bit k 1 = 0"
    by (intro bit_word_eqI) (auto simp: bit_simps)
qed

lemma and_exp_zero [simp]: "x AND 2 ^ k = 0 \<longleftrightarrow> \<not> bit (x :: u32) k"
  using and_shift_zero [of x k] by simp

lemma enable_conv:
  "irq < 32 \<Longrightarrow> alt_irq_enable irq c =
     Some (0, c\<lparr>irq_active := irq_active c OR push_bit (unat irq) 1,
                ienable := irq_active c OR push_bit (unat irq) 1\<rparr>)"
  by (simp add: alt_irq_enable_def alt_irq_disable_all_def alt_irq_enable_all_def shl1_def)

lemma disable_conv:
  "irq < 32 \<Longrightarrow> alt_irq_disable irq c =
     Some (0, c\<lparr>irq_active := irq_active c AND NOT (push_bit (unat irq) 1),
                ienable := irq_active c AND NOT (push_bit (unat irq) 1)\<rparr>)"
  by (simp add: alt_irq_disable_def alt_irq_disable_all_def alt_irq_enable_all_def shl1_def)

definition registered :: "u32 \<Rightarrow> u32 \<Rightarrow> u32 \<Rightarrow> cpu \<Rightarrow> cpu" where
  "registered irq isr ctxt c =
     (let m = push_bit (unat irq) 1;
          a = (if isr \<noteq> 0 then irq_active c OR m else irq_active c AND NOT m)
      in c\<lparr>irq_active := a, ienable := a, irq_table := (irq_table c)[unat irq := (isr, ctxt)]\<rparr>)"

lemma register_conv:
  "alt_irq_register irq ctxt isr c =
     Some (if irq < 32 then (0, registered irq isr ctxt c) else (- EINVAL, c))"
  by (simp add: alt_irq_register_def ALT_NIRQ_def alt_irq_disable_all_def set_irq_entry_def
      enable_conv disable_conv alt_irq_enable_all_def registered_def Let_def)

text \<open>The two registries agree below \<open>2 ^ 31\<close>; above, the signed comparison lets the
  number through and the table is indexed below its start.\<close>

lemma iic_conv:
  "alt_iic_isr_register ic irq isr ctxt fl c =
     (if irq < 0x80000000 then alt_irq_register irq ctxt isr c else None)"
proof (cases "irq < 0x80000000")
  case True
  then have s: "sint irq = uint irq"
    by (simp add: sint32_conv)
  have n: "sint ALT_NIRQ = 32"
    by (simp add: ALT_NIRQ_def)
  have "irq < 32 \<longleftrightarrow> uint irq < 32"
    by (simp add: word_less_def)
  then show ?thesis
    using True by (cases "isr = 0")
      (simp_all add: alt_iic_isr_register_def alt_irq_register_def s n ALT_NIRQ_def
        alt_ic_irq_enable_def alt_ic_irq_disable_def Let_def)
next
  case False
  then have "sint irq < 0"
    using uint_bounded [of irq] by (simp add: sint32_conv)
  then show ?thesis
    using False by (simp add: alt_iic_isr_register_def ALT_NIRQ_def alt_irq_disable_all_def)
qed

text \<open>C10. The legacy registry and the enhanced one (alt_ic_isr_register, alt_iic_isr_register) do
  the same exactly for the interrupt numbers below 2^31: numbers from 32 on are refused with
  -EINVAL and the state is unchanged. From 2^31 on the enhanced registry, which converts the
  number to int before it compares it with ALT_NIRQ, writes before the handler table. (The comments of both
  enhanced functions promise -1 for an error; the code returns -EINVAL, which is -22.)\<close>

theorem registries_agree_iff:
  "(alt_ic_isr_register ic irq isr ctxt fl c = alt_irq_register irq ctxt isr c) = (irq < 0x80000000)
   \<and> (alt_ic_isr_register ic irq isr ctxt fl c = None) = (\<not> irq < 0x80000000)
   \<and> (alt_irq_register irq ctxt isr c = Some (- EINVAL, c)) = (\<not> irq < 32) \<and> - EINVAL = - 22"
  by (simp add: alt_ic_isr_register_def iic_conv register_conv EINVAL_def)

text \<open>Registering a handler for an interrupt below 32 succeeds, writes that table entry and
  no other, enables that interrupt if the handler is not null and disables it otherwise,
  leaves every other interrupt as it was, brings the ienable register in line, and gives the
  status register back.\<close>

theorem register_effect:
  assumes "irq < 32"
  shows "\<exists>c'. alt_ic_isr_register ic irq isr ctxt fl c = Some (0, c')
    \<and> irq_table c' = (irq_table c)[unat irq := (isr, ctxt)]
    \<and> (\<forall>i. bit (irq_active c') i = (if i = unat irq then isr \<noteq> 0 else bit (irq_active c) i))
    \<and> ienable c' = irq_active c' \<and> status c' = status c \<and> priority_mask c' = priority_mask c"
proof -
  have "irq < 0x80000000" "unat irq < 32"
    using assms by (auto simp: word_less_nat_alt)
  then show ?thesis
    using assms by (auto simp: alt_ic_isr_register_def iic_conv register_conv registered_def Let_def
        bit_simps bit_one_shift dest: bit_imp_le_length)
qed

lemma register_effect_witness:
  "\<exists>c'. alt_ic_isr_register 0 5 0x1000 0x2000 0 cpu_init = Some (0, c')
     \<and> irq_table c' = (irq_table cpu_init)[5 := (0x1000, 0x2000)]"
  using register_effect [of 5 0 "0x1000" "0x2000" 0 cpu_init] by auto

subsection \<open>No null handler is called\<close>

text \<open>The processor's operations as the drivers use them: an interrupt is only enabled by itself
  when a handler has been registered for it.\<close>

inductive irq_op :: "cpu \<Rightarrow> cpu \<Rightarrow> bool" where
  op_register: "alt_irq_register irq ctxt isr c = Some (rc, c') \<Longrightarrow> irq_op c c'"
| op_ic_register: "alt_ic_isr_register ic irq isr ctxt fl c = Some (rc, c') \<Longrightarrow> irq_op c c'"
| op_enable: "irq < 32 \<Longrightarrow> fst (irq_table c ! unat irq) \<noteq> 0 \<Longrightarrow>
    alt_ic_irq_enable ic irq c = Some (rc, c') \<Longrightarrow> irq_op c c'"
| op_disable: "alt_ic_irq_disable ic irq c = Some (rc, c') \<Longrightarrow> irq_op c c'"
| op_disable_all: "irq_op c (snd (alt_irq_disable_all c))"
| op_enable_all: "irq_op c (alt_irq_enable_all ctxt c)"
| op_cpu_enable: "irq_op c (alt_irq_cpu_enable_interrupts c)"
| op_interruptible: "alt_irq_interruptible p c = Some (old, c') \<Longrightarrow> irq_op c c'"
| op_non_interruptible: "irq_op c (alt_irq_non_interruptible m c)"

inductive_cases irq_opE: "irq_op c c'"

definition irq_inv :: "cpu \<Rightarrow> bool" where
  "irq_inv c \<longleftrightarrow> length (irq_table c) = 32 \<and>
     (\<forall>i. bit (irq_active c) i \<longrightarrow> fst (irq_table c ! i) \<noteq> 0) \<and>
     (\<forall>i. bit (ienable c) i \<longrightarrow> bit (irq_active c) i)"

lemma irq_inv_init: "irq_inv cpu_init"
  by (simp add: irq_inv_def cpu_init_def)

lemma irq_inv_registered: "irq < 32 \<Longrightarrow> irq_inv c \<Longrightarrow> irq_inv (registered irq isr ctxt c)"
  by (auto simp: irq_inv_def registered_def Let_def bit_simps bit_one_shift nth_list_update
      word_less_nat_alt)

lemma irq_inv_enable:
  "alt_irq_enable irq c = Some (rc, c') \<Longrightarrow> fst (irq_table c ! unat irq) \<noteq> 0 \<Longrightarrow> irq_inv c \<Longrightarrow> irq_inv c'"
  by (auto simp: irq_inv_def alt_irq_enable_def alt_irq_disable_all_def alt_irq_enable_all_def
      shl1_Some bit_simps Let_def split: option.splits)

lemma irq_inv_disable:
  "alt_irq_disable irq c = Some (rc, c') \<Longrightarrow> irq_inv c \<Longrightarrow> irq_inv c'"
  by (auto simp: irq_inv_def alt_irq_disable_def alt_irq_disable_all_def alt_irq_enable_all_def
      bit_simps Let_def split: option.splits)

lemma irq_inv_op: "irq_op c c' \<Longrightarrow> irq_inv c \<Longrightarrow> irq_inv c'"
proof (induction rule: irq_op.induct)
  case (op_register irq ctxt isr c rc c')
  then show ?case
    by (auto simp: register_conv irq_inv_registered split: if_splits)
next
  case (op_ic_register ic irq isr ctxt fl c rc c')
  then show ?case
    by (auto simp: alt_ic_isr_register_def iic_conv register_conv irq_inv_registered split: if_splits)
next
  case (op_enable irq c ic rc c')
  then show ?case
    by (auto simp: alt_ic_irq_enable_def intro: irq_inv_enable)
next
  case (op_disable ic irq c rc c')
  then show ?case
    by (auto simp: alt_ic_irq_disable_def intro: irq_inv_disable)
next
  case (op_interruptible p c old c')
  then show ?case
    by (auto simp: irq_inv_def alt_irq_interruptible_def Let_def bit_simps split: option.splits)
qed (auto simp: irq_inv_def alt_irq_disable_all_def alt_irq_enable_all_def
      alt_irq_cpu_enable_interrupts_def alt_irq_non_interruptible_def Let_def bit_simps)

lemma irq_inv_reachable: "irq_op\<^sup>*\<^sup>* cpu_init c \<Longrightarrow> irq_inv c"
  by (induction rule: rtranclp_induct) (auto intro: irq_inv_init irq_inv_op)

subsection \<open>The lowest pending interrupt\<close>

lemma first_active_unfold:
  "first_active a m i = (if a AND m \<noteq> 0 then Some i else first_active a (push_bit 1 m) (i + 1))"
  by (rule first_active.simps)

lemma first_active_None: "first_active 0 m i = None"
proof (rule ccontr)
  assume "first_active 0 m i \<noteq> None"
  then obtain r where "first_active 0 m i = Some r" by auto
  moreover have "first_active a m i = Some r \<Longrightarrow> a \<noteq> 0" for a m i r
    by (induction rule: first_active.raw_induct [rotated, consumes 1, case_names step])
       (auto split: if_splits)
  ultimately show False by blast
qed

lemma first_active_from:
  "bit a k \<Longrightarrow> j \<le> k \<Longrightarrow> \<forall>l<k. j \<le> l \<longrightarrow> \<not> bit a l \<Longrightarrow>
     first_active a (2 ^ j) (of_nat j) = Some (of_nat k)"
proof (induction "k - j" arbitrary: j)
  case 0
  then show ?case
    by (subst first_active_unfold) auto
next
  case (Suc n)
  then have "\<not> bit a j" by auto
  moreover have "first_active a (2 ^ Suc j) (of_nat (Suc j)) = Some (of_nat k)"
    using Suc by (intro Suc.hyps(1)) auto
  ultimately show ?case
    by (subst first_active_unfold) (simp add: ac_simps)
qed

definition lowest :: "u32 \<Rightarrow> nat" where
  "lowest a = (LEAST k. bit a k)"

lemma lowest_bit: "a \<noteq> 0 \<Longrightarrow> bit a (lowest a) \<and> lowest a < 32 \<and> (\<forall>l < lowest a. \<not> bit a l)"
proof -
  assume "a \<noteq> 0"
  then have "\<exists>k. bit a k" by (auto simp: bit_eq_iff)
  then have "bit a (lowest a)"
    unfolding lowest_def by (rule LeastI_ex)
  then show ?thesis
    using bit_imp_le_length [of a "lowest a"] by (auto simp: lowest_def dest: not_less_Least)
qed

lemma first_active_lowest: "a \<noteq> 0 \<Longrightarrow> first_active a 1 0 = Some (of_nat (lowest a))"
  using lowest_bit [of a] first_active_from [of a "lowest a" 0] by simp

lemma dispatch_lowest:
  assumes "a \<noteq> 0" "length (irq_table (cpu_of e s)) = 32"
  shows "dispatch_one e a s =
    (case irq_table (cpu_of e s) ! lowest a of (h, ctxt) \<Rightarrow> if h = 0 then None else call e h ctxt s)"
proof -
  have "unat (of_nat (lowest a) :: u32) = lowest a"
    using lowest_bit [OF assms(1)] by (simp add: unat_of_nat)
  with assms lowest_bit [OF assms(1)] show ?thesis
    by (simp add: dispatch_one_def first_active_lowest)
qed

text \<open>C8. No sequence of the HAL's interrupt operations, in which an interrupt is enabled on its
  own only when it has a handler, leads the dispatcher to a null handler: when the hardware
  shows an enabled interrupt as pending, alt_irq_handler's dispatch calls the registered,
  non-null handler of the lowest-numbered pending interrupt, with its context.\<close>

theorem dispatch_calls_lowest_registered:
  assumes "irq_op\<^sup>*\<^sup>* cpu_init (cpu_of e s)"
    and "pending e s \<noteq> 0" and "pending e s AND NOT (ienable (cpu_of e s)) = 0"
  shows "\<exists>k h ctxt. bit (pending e s) k \<and> (\<forall>l<k. \<not> bit (pending e s) l)
    \<and> irq_table (cpu_of e s) ! k = (h, ctxt) \<and> h \<noteq> 0
    \<and> dispatch_one e (alt_irq_pending e s) s = call e h ctxt s"
proof -
  let ?k = "lowest (pending e s)"
  note inv = irq_inv_reachable [OF assms(1), unfolded irq_inv_def]
  note low = lowest_bit [OF assms(2)]
  have "\<not> bit (pending e s AND NOT (ienable (cpu_of e s))) ?k"
    using assms(3) by simp
  with low have "bit (ienable (cpu_of e s)) ?k"
    by (auto simp: bit_simps)
  with inv have "fst (irq_table (cpu_of e s) ! ?k) \<noteq> 0" by blast
  moreover obtain h ctxt where "irq_table (cpu_of e s) ! ?k = (h, ctxt)"
    by fastforce
  ultimately show ?thesis
    using low inv dispatch_lowest [OF assms(2), of e s]
    by (intro exI [of _ ?k] exI [of _ h] exI [of _ ctxt]) (simp add: alt_irq_pending_def)
qed

text \<open>The system of the witnesses: the processor and the interrupt lines; the handler of
  interrupt \<open>k\<close>, whose context is \<open>k\<close>, lowers line \<open>k\<close>.\<close>

definition demo_env :: "(cpu \<times> u32) isr_env" where
  "demo_env = \<lparr>cpu_of = fst, pending = \<lambda>(c, l). l AND ienable c,
     call = \<lambda>h k (c, l). Some (c, l AND NOT (push_bit (unat k) 1))\<rparr>"

definition demo_cpu :: cpu where
  "demo_cpu = registered 5 0x1000 5 cpu_init"

lemma dispatch_witness:
  "\<exists>k h ctxt. bit (pending demo_env (demo_cpu, 0xFF)) k \<and> irq_table demo_cpu ! k = (h, ctxt) \<and> h \<noteq> 0"
proof -
  have "alt_irq_register 5 5 0x1000 cpu_init = Some (0, demo_cpu)"
    by (simp add: register_conv demo_cpu_def)
  then have "irq_op cpu_init demo_cpu"
    by (rule op_register)
  then have r: "irq_op\<^sup>*\<^sup>* cpu_init (cpu_of demo_env (demo_cpu, 0xFF))"
    by (simp add: demo_env_def)
  have p: "pending demo_env (demo_cpu, 0xFF) = 0x20" "ienable (cpu_of demo_env (demo_cpu, 0xFF)) = 0x20"
    by (simp_all add: demo_env_def demo_cpu_def registered_def cpu_init_def)
  from dispatch_calls_lowest_registered [OF r] show ?thesis
    by (simp add: p) (auto simp: demo_env_def)
qed

subsection \<open>The dispatcher returns\<close>

text \<open>What the registered handlers owe: from a state of \<open>I\<close>, the handler of a pending interrupt
  exists, returns, keeps \<open>I\<close> and lowers its own line and no other.\<close>

definition serves :: "'s isr_env \<Rightarrow> ('s \<Rightarrow> bool) \<Rightarrow> bool" where
  "serves e I \<longleftrightarrow>
     (\<forall>s. I s \<longrightarrow> length (irq_table (cpu_of e s)) = 32 \<and>
       (\<forall>k. bit (pending e s) k \<longrightarrow>
          (case irq_table (cpu_of e s) ! k of (h, ctxt) \<Rightarrow>
             h \<noteq> 0 \<and> (\<exists>s'. call e h ctxt s = Some s' \<and> I s'
                              \<and> pending e s' = pending e s AND NOT (push_bit k 1)))))"

lemma serves_dispatch:
  assumes "serves e I" "I s" "pending e s \<noteq> 0"
  shows "\<exists>s'. dispatch_one e (pending e s) s = Some s' \<and> I s'
    \<and> pending e s' = pending e s AND NOT (push_bit (lowest (pending e s)) 1)"
proof -
  let ?k = "lowest (pending e s)"
  obtain h ctxt where h: "irq_table (cpu_of e s) ! ?k = (h, ctxt)"
    by fastforce
  have len: "length (irq_table (cpu_of e s)) = 32"
    using assms by (simp add: serves_def)
  have "case irq_table (cpu_of e s) ! ?k of (h, ctxt) \<Rightarrow>
      h \<noteq> 0 \<and> (\<exists>s'. call e h ctxt s = Some s' \<and> I s' \<and> pending e s' = pending e s AND NOT (push_bit ?k 1))"
    using assms(1) [unfolded serves_def, rule_format, OF assms(2)] lowest_bit [OF assms(3)]
    by simp
  with h dispatch_lowest [OF assms(3) len] show ?thesis
    by auto
qed

text \<open>Clearing a set bit makes the word smaller.\<close>

lemma clear_less: "bit (a :: u32) k \<Longrightarrow> unat (a AND NOT (push_bit k 1)) < unat a"
proof -
  assume b: "bit a k"
  have "a AND NOT (push_bit k 1) \<le> a"
    by (rule word_and_le2)
  moreover have "a AND NOT (push_bit k 1) \<noteq> a"
    using b bit_imp_le_length [OF b] by (auto simp: bit_eq_iff bit_simps)
  ultimately have "a AND NOT (push_bit k 1) < a"
    by (rule le_neq_trans)
  then show ?thesis
    by (simp only: word_less_nat_alt)
qed

lemma handler_loop_returns:
  assumes "serves e I"
  shows "I s \<Longrightarrow> pending e s \<noteq> 0 \<Longrightarrow>
    \<exists>s'. irq_handler_loop e (pending e s) s = Some s' \<and> I s' \<and> pending e s' = 0"
proof (induction "unat (pending e s)" arbitrary: s rule: less_induct)
  case less
  obtain s1 where s1: "dispatch_one e (pending e s) s = Some s1" "I s1"
    "pending e s1 = pending e s AND NOT (push_bit (lowest (pending e s)) 1)"
    using serves_dispatch [OF assms less.prems] by blast
  show ?case
  proof (cases "pending e s1 = 0")
    case True
    with s1 show ?thesis
      by (subst irq_handler_loop.simps) (simp add: alt_irq_pending_def Let_def)
  next
    case False
    have "unat (pending e s1) < unat (pending e s)"
      using clear_less lowest_bit [OF less.prems(2)] s1(3) by simp
    from less.hyps [OF this s1(2) False] s1(1) False show ?thesis
      by (subst irq_handler_loop.simps) (simp add: alt_irq_pending_def Let_def)
  qed
qed

text \<open>C9. alt_irq_handler returns, with no interrupt left pending, when it is entered with an
  interrupt pending and every handler lowers its own line; entered with nothing pending it
  never returns, because its do-while loop scans for a bit that is not there.\<close>

theorem alt_irq_handler_returns:
  assumes "serves e I" and "I s"
  shows "if pending e s = 0 then alt_irq_handler e s = None
    else \<exists>s'. alt_irq_handler e s = Some s' \<and> I s' \<and> pending e s' = 0"
proof (cases "pending e s = 0")
  case True
  then show ?thesis
    by (subst alt_irq_handler_def, subst irq_handler_loop.simps)
       (simp add: alt_irq_pending_def dispatch_one_def first_active_None)
next
  case False
  with handler_loop_returns [OF assms(1,2)] show ?thesis
    by (simp add: alt_irq_handler_def alt_irq_pending_def)
qed

lemma demo_serves: "serves demo_env (\<lambda>(c, l). c = demo_cpu)"
proof -
  have "bit (32 :: u32) k \<longleftrightarrow> k = 5" for k
    using bit_one_shift [of 5 k] by simp
  moreover have "ienable demo_cpu = 32" "irq_table demo_cpu ! 5 = (0x1000, 5)"
    "length (irq_table demo_cpu) = 32"
    by (simp_all add: demo_cpu_def registered_def cpu_init_def)
  ultimately show ?thesis
    by (auto simp: serves_def demo_env_def bit_simps and.assoc and.commute and.left_commute)
qed

lemma alt_irq_handler_returns_witness:
  "\<exists>s'. alt_irq_handler demo_env (demo_cpu, 0xFF) = Some s' \<and> pending demo_env s' = 0"
  using alt_irq_handler_returns [OF demo_serves, of "(demo_cpu, 0xFF)"]
  by (auto simp: demo_env_def demo_cpu_def registered_def cpu_init_def)

subsection \<open>Interruptible handlers\<close>

text \<open>Between alt_irq_interruptible(p) and the matching alt_irq_non_interruptible, only
  active interrupts of higher priority (a smaller number) than p are enabled and interrupts
  are on; afterwards interrupts are off and the previous priority mask is back, with exactly
  its active interrupts enabled.\<close>

theorem interruptible_nesting:
  assumes "p < 32"
  shows "\<exists>old c1. alt_irq_interruptible p c = Some (old, c1)
    \<and> (\<forall>i. bit (ienable c1) i \<longleftrightarrow> i < unat p \<and> bit (irq_active c) i)
    \<and> alt_irq_enabled c1 \<noteq> 0
    \<and> (let c2 = alt_irq_non_interruptible old c1
       in alt_irq_enabled c2 = 0 \<and> priority_mask c2 = priority_mask c
        \<and> ienable c2 = priority_mask c AND irq_active c \<and> irq_table c2 = irq_table c)"
proof -
  have "(2 :: u32) ^ unat p - 1 = mask (unat p)"
    by (simp add: mask_eq_exp_minus_1)
  then show ?thesis
    using assms by (auto simp: alt_irq_interruptible_def shl1_def Let_def bit_simps alt_irq_enabled_def
        NIOS2_STATUS_PIE_MSK_def alt_irq_non_interruptible_def dest: bit_imp_le_length)
qed

lemma interruptible_nesting_witness:
  "\<exists>old c1. alt_irq_interruptible 3 demo_cpu = Some (old, c1) \<and> alt_irq_enabled c1 \<noteq> 0"
  using interruptible_nesting [of 3 demo_cpu] by auto

end
