(* ===== verification/Alarm.thy ===== *)
theory Alarm
  imports Llist Irq
begin

text \<open>
  The alarm facility: \<open>alt_sysclk_init\<close>, \<open>alt_ticks_per_second\<close> and \<open>alt_nticks\<close> of
  \<open>HAL/inc/sys/alt_alarm.h\<close>, \<open>alt_alarm_start.c\<close>, and \<open>alt_alarm_stop\<close> and \<open>alt_tick\<close> of
  \<open>alt_tick.c\<close>. The alarms are nodes of a linked list; their times are 32-bit tick counts that
  wrap, with a rollover flag. The specification is a list of countdowns: \<open>spec_tick\<close> lowers
  each and calls back those that are due. The callback functions are a parameter; they act on
  the whole system state.
\<close>

subsection \<open>State\<close>

record alarm =
  atime :: u32
  callback :: u32
  rollover :: u8
  acontext :: u32

record 'c sys =
  tick_rate :: u32
  nticks :: u32
  links :: llist_heap
  alarms :: "ptr \<Rightarrow> alarm"
  scpu :: cpu
  app :: 'c

text \<open>The linker's address of the list head and the code behind the callback pointers.\<close>

record 'c alarm_env =
  alt_alarm_list :: ptr
  call_back :: "u32 \<Rightarrow> u32 \<Rightarrow> 'c sys \<Rightarrow> u32 \<times> 'c sys"

definition alt_sysclk_init :: "u32 \<Rightarrow> 'c sys \<Rightarrow> int \<times> 'c sys" where
  "alt_sysclk_init n s = (if tick_rate s = 0 then (0, s\<lparr>tick_rate := n\<rparr>) else (- 1, s))"

definition alt_ticks_per_second :: "'c sys \<Rightarrow> u32" where
  "alt_ticks_per_second s = tick_rate s"

definition alt_nticks :: "'c sys \<Rightarrow> u32" where
  "alt_nticks s = nticks s"

definition upd_alarm :: "ptr \<Rightarrow> (alarm \<Rightarrow> alarm) \<Rightarrow> 'c sys \<Rightarrow> 'c sys" where
  "upd_alarm p f s = s\<lparr>alarms := (alarms s)(p := f (alarms s p))\<rparr>"

definition alt_alarm_start ::
  "'c alarm_env \<Rightarrow> ptr \<Rightarrow> u32 \<Rightarrow> u32 \<Rightarrow> u32 \<Rightarrow> 'c sys \<Rightarrow> int \<times> 'c sys" where
  "alt_alarm_start e alarm n f ctxt s =
     (if alt_ticks_per_second s \<noteq> 0
      then (if alarm \<noteq> 0
            then (let s = upd_alarm alarm (\<lambda>a. a\<lparr>callback := f, acontext := ctxt\<rparr>) s;
                      (irq_context, c) = alt_irq_disable_all (scpu s);
                      s = s\<lparr>scpu := c\<rparr>;
                      current_nticks = alt_nticks s;
                      s = upd_alarm alarm (\<lambda>a. a\<lparr>atime := n + current_nticks + 1\<rparr>) s;
                      s = upd_alarm alarm
                            (\<lambda>a. a\<lparr>rollover := if atime a < current_nticks then 1 else 0\<rparr>) s;
                      s = s\<lparr>links := alt_llist_insert (alt_alarm_list e) alarm (links s)\<rparr>;
                      s = s\<lparr>scpu := alt_irq_enable_all irq_context (scpu s)\<rparr>
                  in (0, s))
            else (- EINVAL, s))
      else (- ENOTSUP, s))"

definition alt_alarm_stop :: "ptr \<Rightarrow> 'c sys \<Rightarrow> 'c sys" where
  "alt_alarm_stop alarm s =
     (let (irq_context, c) = alt_irq_disable_all (scpu s);
          s = s\<lparr>scpu := c\<rparr>;
          s = s\<lparr>links := alt_llist_remove alarm (links s)\<rparr>
      in s\<lparr>scpu := alt_irq_enable_all irq_context (scpu s)\<rparr>)"

text \<open>The body of the loop of \<open>alt_tick\<close> for one alarm.\<close>

definition alarm_body :: "'c alarm_env \<Rightarrow> ptr \<Rightarrow> 'c sys \<Rightarrow> 'c sys" where
  "alarm_body e alarm s =
     (let s = (if rollover (alarms s alarm) \<noteq> 0 \<and> nticks s = 0
               then upd_alarm alarm (\<lambda>a. a\<lparr>rollover := 0\<rparr>) s else s)
      in if atime (alarms s alarm) \<le> nticks s \<and> rollover (alarms s alarm) = 0
         then (let (next_callback, s) =
                     call_back e (callback (alarms s alarm)) (acontext (alarms s alarm)) s
               in if next_callback = 0 then alt_alarm_stop alarm s
                  else (let s = upd_alarm alarm (\<lambda>a. a\<lparr>atime := atime a + next_callback\<rparr>) s
                        in if atime (alarms s alarm) < nticks s
                           then upd_alarm alarm (\<lambda>a. a\<lparr>rollover := 1\<rparr>) s else s))
         else s)"

text \<open>\<open>None\<close>: the walk never comes back to the head, which only happens if a callback has
  corrupted the list.\<close>

partial_function (option) tick_loop :: "'c alarm_env \<Rightarrow> ptr \<Rightarrow> 'c sys \<Rightarrow> 'c sys option" where
  "tick_loop e alarm s =
     (if alarm \<noteq> alt_alarm_list e
      then (let next = next_of (links s) alarm
            in tick_loop e next (alarm_body e alarm s))
      else Some s)"

definition alt_tick :: "'c alarm_env \<Rightarrow> 'c sys \<Rightarrow> 'c sys option" where
  "alt_tick e s =
     (let alarm = next_of (links s) (alt_alarm_list e);
          s = s\<lparr>nticks := nticks s + 1\<rparr>
      in tick_loop e alarm s)"

subsection \<open>The specification\<close>

text \<open>A registered alarm: its node, the ticks until it is due, its callback and context. The
  callbacks considered do not touch the alarm facility itself.\<close>

type_synonym entry = "ptr \<times> nat \<times> u32 \<times> u32"

fun spec_tick :: "(u32 \<Rightarrow> u32 \<Rightarrow> 'c \<Rightarrow> u32 \<times> 'c) \<Rightarrow> entry list \<Rightarrow> 'c \<Rightarrow> entry list \<times> 'c" where
  "spec_tick cb [] a = ([], a)"
| "spec_tick cb ((p, k, f, c) # es) a =
     (if k > 1
      then (let (es', a') = spec_tick cb es a in ((p, k - 1, f, c) # es', a'))
      else (let (r, a1) = cb f c a;
                (es', a') = spec_tick cb es a1
            in (if r = 0 then es' else (p, unat r, f, c) # es', a')))"

definition callbacks_are ::
  "'c alarm_env \<Rightarrow> (u32 \<Rightarrow> u32 \<Rightarrow> 'c \<Rightarrow> u32 \<times> 'c) \<Rightarrow> bool" where
  "callbacks_are e cb \<longleftrightarrow>
     (\<forall>f c s. call_back e f c s = (fst (cb f c (app s)), s\<lparr>app := snd (cb f c (app s))\<rparr>))"

text \<open>An alarm record that is due in \<open>k\<close> ticks from \<open>now\<close>.\<close>

definition due_in :: "u32 \<Rightarrow> alarm \<Rightarrow> nat \<Rightarrow> bool" where
  "due_in now a k \<longleftrightarrow>
     0 < k \<and> k < 2 ^ 32 \<and>
     (rollover a = 0 \<and> unat (atime a) = unat now + k
      \<or> rollover a = 1 \<and> unat (atime a) + 2 ^ 32 = unat now + k)"

definition entry_ok :: "u32 \<Rightarrow> (ptr \<Rightarrow> alarm) \<Rightarrow> entry \<Rightarrow> bool" where
  "entry_ok now m = (\<lambda>(p, k, f, c). due_in now (m p) k \<and> callback (m p) = f \<and> acontext (m p) = c)"

definition alarms_rep :: "'c alarm_env \<Rightarrow> 'c sys \<Rightarrow> entry list \<Rightarrow> bool" where
  "alarms_rep e s es \<longleftrightarrow>
     dll (links s) (alt_alarm_list e) (map fst es) \<and> list_all (entry_ok (nticks s) (alarms s)) es"

subsection \<open>The arithmetic of wrapping times\<close>

lemma unat_add_wrap:
  fixes a b :: u32
  shows "unat (a + b) =
    (if unat a + unat b < 4294967296 then unat a + unat b else unat a + unat b - 4294967296)"
proof -
  have eq: "unat (a + b) = (unat a + unat b) mod 4294967296"
    by (simp add: unat_word_ariths)
  have "unat a < 4294967296" "unat b < 4294967296"
    by (rule unat_lt_2p)+
  then show ?thesis
    unfolding eq by (auto simp: le_mod_geq)
qed

lemma due_in_set:
  assumes "0 < unat r"
  shows "due_in now (a\<lparr>atime := now + r, rollover := if now + r < now then 1 else 0\<rparr>) (unat r)"
proof -
  have "unat now < 4294967296" "unat r < 4294967296"
    by (rule unat_lt_2p)+
  with assms unat_add_wrap [of now r] show ?thesis
    by (auto simp: due_in_def word_less_nat_alt split: if_splits)
qed

text \<open>The tick that brings the counter to \<open>now\<close>, seen from the tick before.\<close>

lemma unat_minus_one32: "unat (now - 1 :: u32) = (if now = 0 then 4294967295 else unat now - 1)"
proof (cases "now = 0")
  case True
  have "unat (- 1 :: u32) = 4294967295" by (simp add: unsigned_minus_1_eq_mask mask_eq_exp_minus_1)
  with True show ?thesis by simp
qed (simp add: unat_minus_one)

lemma due_in_wait:
  assumes "due_in (now - 1) a k" "k > 1"
  shows "due_in now (if rollover a \<noteq> 0 \<and> now = 0 then a\<lparr>rollover := 0\<rparr> else a) (k - 1)
    \<and> \<not> (atime a \<le> now \<and> (rollover a = 0 \<or> now = 0))"
proof -
  have "unat (atime a) < 4294967296" "unat now < 4294967296" "now \<noteq> 0 \<Longrightarrow> 0 < unat now"
    by (rule unat_lt_2p, rule unat_lt_2p, simp add: unat_gt_0)
  with assms show ?thesis
    by (auto simp: due_in_def word_le_nat_alt unat_minus_one32 split: if_splits)
qed

lemma due_in_fire:
  assumes "due_in (now - 1) a 1"
  shows "atime a = now \<and> (rollover a = 0 \<or> now = 0)"
proof -
  have "unat (atime a) < 4294967296" "unat now < 4294967296" "now \<noteq> 0 \<Longrightarrow> 0 < unat now"
    by (rule unat_lt_2p, rule unat_lt_2p, simp add: unat_gt_0)
  with assms have "unat (atime a) = unat now \<and> (rollover a = 0 \<or> now = 0)"
    by (auto simp: due_in_def unat_minus_one32 split: if_splits)
  then show ?thesis by (simp add: word_unat_eq_iff)
qed

subsection \<open>The loop body\<close>

lemma upd_alarm_simps [simp]:
  "links (upd_alarm p f s) = links s" "nticks (upd_alarm p f s) = nticks s"
  "app (upd_alarm p f s) = app s" "scpu (upd_alarm p f s) = scpu s"
  "tick_rate (upd_alarm p f s) = tick_rate s"
  "alarms (upd_alarm p f s) = (alarms s)(p := f (alarms s p))"
  by (simp_all add: upd_alarm_def)

lemma alarm_stop_simps [simp]:
  "links (alt_alarm_stop p s) = alt_llist_remove p (links s)" "nticks (alt_alarm_stop p s) = nticks s"
  "app (alt_alarm_stop p s) = app s" "alarms (alt_alarm_stop p s) = alarms s"
  "tick_rate (alt_alarm_stop p s) = tick_rate s"
  "scpu (alt_alarm_stop p s) = scpu s"
  by (simp_all add: alt_alarm_stop_def alt_irq_disable_all_def alt_irq_enable_all_def)

text \<open>What a pass over one alarm leaves alone: everything but that alarm's record, the links
  and the application.\<close>

definition same_others :: "ptr \<Rightarrow> 'c sys \<Rightarrow> 'c sys \<Rightarrow> bool" where
  "same_others p s s' \<longleftrightarrow> nticks s' = nticks s \<and> tick_rate s' = tick_rate s \<and> scpu s' = scpu s
     \<and> (\<forall>q. q \<noteq> p \<longrightarrow> alarms s' q = alarms s q)"

lemma body_wait:
  assumes "entry_ok (nticks s - 1) (alarms s) (p, k, f, c)" "k > 1" "alarm_body e p s = s'"
  shows "links s' = links s \<and> app s' = app s \<and> same_others p s s'
    \<and> entry_ok (nticks s') (alarms s') (p, k - 1, f, c)"
proof -
  let ?a = "alarms s p"
  from assms(1) have "due_in (nticks s - 1) ?a k"
    by (simp add: entry_ok_def)
  from due_in_wait [OF this assms(2)]
  have w: "due_in (nticks s) (if rollover ?a \<noteq> 0 \<and> nticks s = 0 then ?a\<lparr>rollover := 0\<rparr> else ?a) (k - 1)"
    "\<not> (atime ?a \<le> nticks s \<and> (rollover ?a = 0 \<or> nticks s = 0))"
    by blast+
  then have s': "s' = (if rollover ?a \<noteq> 0 \<and> nticks s = 0 then upd_alarm p (\<lambda>a. a\<lparr>rollover := 0\<rparr>) s else s)"
    using assms(3) by (auto simp: alarm_body_def Let_def)
  with w(1) assms(1) show ?thesis
    by (auto simp: entry_ok_def same_others_def)
qed

lemma body_fire:
  assumes cb: "callbacks_are e cb" and en: "entry_ok (nticks s - 1) (alarms s) (p, 1, f, c)"
    and r: "cb f c (app s) = (r, a1)" and body: "alarm_body e p s = s'"
  shows "app s' = a1 \<and> same_others p s s'
    \<and> links s' = (if r = 0 then alt_llist_remove p (links s) else links s)
    \<and> (r \<noteq> 0 \<longrightarrow> entry_ok (nticks s') (alarms s') (p, unat r, f, c))"
proof -
  let ?a = "alarms s p"
  define s0 where "s0 = (if rollover ?a \<noteq> 0 \<and> nticks s = 0 then upd_alarm p (\<lambda>a. a\<lparr>rollover := 0\<rparr>) s else s)"
  from en have due: "due_in (nticks s - 1) ?a 1" and f: "callback ?a = f" "acontext ?a = c"
    by (simp_all add: entry_ok_def)
  note now = due_in_fire [OF due]
  have s0: "alarms s0 p = ?a\<lparr>rollover := 0\<rparr>" "app s0 = app s" "same_others p s s0" "links s0 = links s"
    "nticks s0 = nticks s"
    using now by (auto simp: s0_def same_others_def)
  have c0: "call_back e f c s0 = (r, s0\<lparr>app := a1\<rparr>)"
    using cb r by (simp add: callbacks_are_def s0(2))
  have s': "s' = (if r = 0 then alt_alarm_stop p (s0\<lparr>app := a1\<rparr>)
      else (let s = upd_alarm p (\<lambda>a. a\<lparr>atime := atime a + r\<rparr>) (s0\<lparr>app := a1\<rparr>)
            in if atime (alarms s p) < nticks s then upd_alarm p (\<lambda>a. a\<lparr>rollover := 1\<rparr>) s else s))"
    using body now s0 f c0 unfolding alarm_body_def s0_def [symmetric]
    by (simp add: Let_def)
  have "due_in (nticks s) (alarms s' p) (unat r)" if "r \<noteq> 0"
  proof -
    have "alarms s' p = ?a\<lparr>atime := nticks s + r, rollover := if nticks s + r < nticks s then 1 else 0\<rparr>"
      using that now s0 by (simp add: s' Let_def)
    with due_in_set [of r "nticks s" ?a] that show ?thesis
      by (simp add: unat_gt_0)
  qed
  moreover have "callback (alarms s' p) = f" "acontext (alarms s' p) = c"
    using f s0 by (simp_all add: s' Let_def)
  moreover have "nticks s' = nticks s" "app s' = a1" "same_others p s s'"
    "links s' = (if r = 0 then alt_llist_remove p (links s) else links s)"
    using s0 by (simp_all add: s' Let_def same_others_def)
  ultimately show ?thesis
    by (simp add: entry_ok_def)
qed

subsection \<open>The walk over the list\<close>

lemma entries_other:
  assumes "same_others p s s'" "p \<notin> fst ` set es" "list_all (entry_ok now (alarms s)) es"
  shows "list_all (entry_ok now (alarms s')) es"
  using assms by (force simp: list_all_iff entry_ok_def same_others_def)

lemma tick_loop_done: "tick_loop e (alt_alarm_list e) s = Some s"
  by (subst tick_loop.simps) simp

lemma tick_loop_next:
  "p \<noteq> alt_alarm_list e \<Longrightarrow> tick_loop e p s = tick_loop e (next_of (links s) p) (alarm_body e p s)"
  by (subst tick_loop.simps) (simp add: Let_def)

text \<open>One pass keeps the walk's invariant: what becomes of the alarm (nothing, itself with one tick
  less, itself with its new time) takes its place.\<close>

lemma body_step:
  assumes cb: "callbacks_are e cb" and en: "entry_ok (nticks s - 1) (alarms s) (p, k, f, c)"
    and dll: "dll (links s) lh (map fst ds @ p # map fst es)"
  shows "\<exists>new a1. spec_tick cb ((p, k, f, c) # es) (app s) = (new @ fst (spec_tick cb es a1), snd (spec_tick cb es a1))
    \<and> app (alarm_body e p s) = a1 \<and> same_others p s (alarm_body e p s)
    \<and> list_all (entry_ok (nticks s) (alarms (alarm_body e p s))) new
    \<and> dll (links (alarm_body e p s)) lh (map fst (ds @ new @ es))"
proof (cases "k > 1")
  case True
  with body_wait [OF en True refl, of e] dll show ?thesis
    by (intro exI [of _ "[(p, k - 1, f, c)]"] exI [of _ "app s"])
       (auto simp: same_others_def split: prod.splits)
next
  case False
  with en have k: "k = 1" by (auto simp: entry_ok_def due_in_def)
  obtain r a1 where r: "cb f c (app s) = (r, a1)" by fastforce
  from body_fire [OF cb en [unfolded k] r refl] dll ll.lst_rem [OF dll] r k show ?thesis
    by (intro exI [of _ "if r = 0 then [] else [(p, unat r, f, c)]"] exI [of _ a1])
       (auto simp: same_others_def split: prod.splits)
qed

lemma tick_loop_spec:
  assumes cb: "callbacks_are e cb"
  shows "dll (links s) (alt_alarm_list e) (map fst (ds @ es)) \<Longrightarrow>
    list_all (entry_ok (nticks s) (alarms s)) ds \<Longrightarrow>
    list_all (entry_ok (nticks s - 1) (alarms s)) es \<Longrightarrow>
    a = (case es of [] \<Rightarrow> alt_alarm_list e | x # _ \<Rightarrow> fst x) \<Longrightarrow>
    \<exists>s'. tick_loop e a s = Some s' \<and> alarms_rep e s' (ds @ fst (spec_tick cb es (app s)))
      \<and> app s' = snd (spec_tick cb es (app s)) \<and> nticks s' = nticks s
      \<and> tick_rate s' = tick_rate s \<and> scpu s' = scpu s"
proof (induction es arbitrary: ds s a)
  case Nil
  then show ?case by (simp add: tick_loop_done alarms_rep_def)
next
  case (Cons x es)
  obtain p k f c where x: "x = (p, k, f, c)" by (metis surj_pair)
  let ?s = "alarm_body e p s" and ?lh = "alt_alarm_list e"
  have dll: "dll (links s) ?lh (map fst ds @ p # map fst es)"
    using Cons.prems(1) x by simp
  have neq: "p \<noteq> ?lh" "p \<notin> fst ` set ds" "p \<notin> fst ` set es"
    using ll.lst_distinct [OF dll] by auto
  have nx: "next_of (links s) p = (case es of [] \<Rightarrow> ?lh | x # _ \<Rightarrow> fst x)"
    using ll.lst_next [OF dll] by (cases es) auto
  have en: "entry_ok (nticks s - 1) (alarms s) (p, k, f, c)" using Cons.prems(3) x by simp
  obtain new a1 where b: "spec_tick cb (x # es) (app s) = (new @ fst (spec_tick cb es a1), snd (spec_tick cb es a1))"
    "app ?s = a1" "same_others p s ?s" "list_all (entry_ok (nticks s) (alarms ?s)) new"
    "dll (links ?s) ?lh (map fst (ds @ new @ es))"
    using body_step [OF cb en dll] unfolding x by blast
  have n: "nticks ?s = nticks s" using b(3) by (simp add: same_others_def)
  have "\<exists>s'. tick_loop e (case es of [] \<Rightarrow> ?lh | x # _ \<Rightarrow> fst x) ?s = Some s'
    \<and> alarms_rep e s' ((ds @ new) @ fst (spec_tick cb es (app ?s))) \<and> app s' = snd (spec_tick cb es (app ?s))
    \<and> nticks s' = nticks ?s \<and> tick_rate s' = tick_rate ?s \<and> scpu s' = scpu ?s"
  proof (rule Cons.IH)
    show "list_all (entry_ok (nticks ?s) (alarms ?s)) (ds @ new)"
      using b(4) n entries_other [OF b(3) neq(2) Cons.prems(2)] by simp
    show "list_all (entry_ok (nticks ?s - 1) (alarms ?s)) es"
      using n entries_other [OF b(3) neq(3), of "nticks s - 1"] Cons.prems(3) by simp
  qed (use b(5) in simp_all)
  then show ?case
    using b(1-3) Cons.prems(4) neq(1) x nx by (auto simp: tick_loop_next same_others_def)
qed

subsection \<open>Properties of the operations\<close>

lemma tick_refines:
  assumes "callbacks_are e cb" "alarms_rep e s es"
  shows "\<exists>s'. alt_tick e s = Some s' \<and> alarms_rep e s' (fst (spec_tick cb es (app s)))
    \<and> app s' = snd (spec_tick cb es (app s)) \<and> nticks s' = nticks s + 1
    \<and> tick_rate s' = tick_rate s \<and> scpu s' = scpu s"
proof -
  let ?s = "s\<lparr>nticks := nticks s + 1\<rparr>"
  have d: "dll (links s) (alt_alarm_list e) (map fst es)"
    using assms(2) by (simp add: alarms_rep_def)
  have "next_of (links s) (alt_alarm_list e) = (case es of [] \<Rightarrow> alt_alarm_list e | x # _ \<Rightarrow> fst x)"
    using ll.lst_first [OF d] by (cases es) auto
  then show ?thesis
    using tick_loop_spec [OF assms(1), of ?s "[]" es] assms(2)
    by (auto simp: alt_tick_def alarms_rep_def)
qed

lemma start_result:
  assumes "tick_rate s \<noteq> 0" "p \<noteq> 0"
  shows "alt_alarm_start e p n f c s =
    (0, s\<lparr>alarms := (alarms s)(p := (alarms s p)\<lparr>callback := f, acontext := c, atime := n + nticks s + 1,
             rollover := if n + nticks s + 1 < nticks s then 1 else 0\<rparr>),
          links := alt_llist_insert (alt_alarm_list e) p (links s)\<rparr>)"
  using assms
  by (simp add: alt_alarm_start_def alt_ticks_per_second_def alt_nticks_def upd_alarm_def
      alt_irq_disable_all_def alt_irq_enable_all_def Let_def)

lemma start_registers:
  assumes "alarms_rep e s es" "tick_rate s \<noteq> 0" "p \<noteq> 0" "p \<noteq> alt_alarm_list e" "p \<notin> fst ` set es"
    "n \<noteq> -1"
  shows "\<exists>s'. alt_alarm_start e p n f c s = (0, s') \<and> alarms_rep e s' ((p, unat n + 1, f, c) # es)
    \<and> app s' = app s \<and> nticks s' = nticks s \<and> scpu s' = scpu s"
proof -
  let ?s = "snd (alt_alarm_start e p n f c s)"
  have d: "dll (links s) (alt_alarm_list e) (map fst es)"
    using assms(1) by (simp add: alarms_rep_def)
  have "unat n \<noteq> 4294967295"
    using assms(6) unat_minus_one32 [of 0] by (metis diff_0 word_unat_eq_iff)
  then have n1: "unat (n + 1) = unat n + 1"
    using unat_add_wrap [of n 1] unat_lt_2p [of n] by simp
  then have "0 < unat (n + 1)" by simp
  from due_in_set [OF this, of "nticks s" "alarms s p\<lparr>callback := f, acontext := c\<rparr>"]
  have "due_in (nticks s) (alarms ?s p) (unat (n + 1))"
    by (simp add: start_result [OF assms(2,3)] ac_simps)
  then have due: "due_in (nticks s) (alarms ?s p) (unat n + 1)"
    by (simp only: n1)
  have "dll (links ?s) (alt_alarm_list e) (p # map fst es)"
    using ll.lst_ins [OF d, of p] assms(4,5) by (simp add: start_result [OF assms(2,3)])
  moreover have "list_all (entry_ok (nticks s) (alarms ?s)) es"
  proof (rule entries_other [OF _ assms(5)])
    show "same_others p s ?s"
      by (simp add: start_result [OF assms(2,3)] same_others_def)
    show "list_all (entry_ok (nticks s) (alarms s)) es"
      using assms(1) by (simp add: alarms_rep_def)
  qed
  moreover have "entry_ok (nticks s) (alarms ?s) (p, unat n + 1, f, c)"
  proof -
    have "callback (alarms ?s p) = f" "acontext (alarms ?s p) = c"
      by (simp_all add: start_result [OF assms(2,3)])
    with due show ?thesis by (simp add: entry_ok_def)
  qed
  moreover have "fst (alt_alarm_start e p n f c s) = 0" "app ?s = app s" "nticks ?s = nticks s"
    "scpu ?s = scpu s"
    by (simp_all add: start_result [OF assms(2,3)])
  ultimately have "alt_alarm_start e p n f c s = (0, ?s) \<and> alarms_rep e ?s ((p, unat n + 1, f, c) # es)
    \<and> app ?s = app s \<and> nticks ?s = nticks s \<and> scpu ?s = scpu s"
    by (simp add: alarms_rep_def prod_eq_iff)
  then show ?thesis by blast
qed

lemma stop_unregisters:
  assumes "alarms_rep e s es" "x \<in> set es" "fst x = p"
  shows "alarms_rep e (alt_alarm_stop p s) (filter (\<lambda>y. fst y \<noteq> p) es)"
proof -
  from assms(2,3) obtain ys zs where es: "es = ys @ x # zs"
    by (meson split_list)
  have d: "dll (links s) (alt_alarm_list e) (map fst ys @ p # map fst zs)"
    using assms(1,3) es by (simp add: alarms_rep_def)
  have "p \<notin> fst ` set ys" "p \<notin> fst ` set zs"
    using ll.lst_distinct [OF d] by auto
  then have "filter (\<lambda>y. fst y \<noteq> p) ys = ys" "filter (\<lambda>y. fst y \<noteq> p) zs = zs"
    by (auto intro!: filter_True)
  then have f: "filter (\<lambda>y. fst y \<noteq> p) es = ys @ zs"
    using es assms(3) by simp
  show ?thesis
    unfolding f using ll.lst_rem [OF d] assms(1) es by (simp add: alarms_rep_def)
qed






text \<open>C11. One system tick does exactly what the specification says: on a well-formed alarm list,
  whatever the tick counter and however often it wraps, alt_tick ends, every registered alarm
  whose countdown is above one only counts down, every alarm that is due is called back once,
  with its own callback and context, in list order; it stays registered for the returned
  number of ticks, or leaves the list when that is zero; the interrupt state is unchanged.\<close>

theorem alt_tick_refines_countdowns:
  assumes "callbacks_are e cb" and "alarms_rep e s es"
  shows "\<exists>s'. alt_tick e s = Some s' \<and> alarms_rep e s' (fst (spec_tick cb es (app s)))
    \<and> app s' = snd (spec_tick cb es (app s)) \<and> nticks s' = nticks s + 1 \<and> scpu s' = scpu s"
  using tick_refines [OF assms] by blast

text \<open>A concrete system: the list head at 0x100, callbacks that count their calls and ask to be
  called again after two ticks.\<close>

definition demo_alarm_env :: "nat alarm_env" where
  "demo_alarm_env = \<lparr>alt_alarm_list = 0x100, call_back = \<lambda>f c s. (2, s\<lparr>app := Suc (app s)\<rparr>)\<rparr>"

definition demo_sys :: "nat sys" where
  "demo_sys = \<lparr>tick_rate = 100, nticks = 0xFFFFFFFE,
     links = ALT_LLIST_HEAD 0x100 \<lparr>next_of = \<lambda>_. 0, previous_of = \<lambda>_. 0\<rparr>,
     alarms = \<lambda>_. \<lparr>atime = 0, callback = 0, rollover = 0, acontext = 0\<rparr>, scpu = cpu_init, app = 0\<rparr>"

lemma demo_callbacks: "callbacks_are demo_alarm_env (\<lambda>f c a. (2, Suc a))"
  by (simp add: callbacks_are_def demo_alarm_env_def)

lemma demo_rep: "alarms_rep demo_alarm_env demo_sys []"
  by (simp add: alarms_rep_def demo_sys_def demo_alarm_env_def dll_head)

lemma alt_tick_refines_witness:
  "\<exists>s'. alt_tick demo_alarm_env (snd (alt_alarm_start demo_alarm_env 0x200 0 7 9 demo_sys)) = Some s'
     \<and> app s' = 1"
proof -
  obtain s1 where s1: "alt_alarm_start demo_alarm_env 0x200 0 7 9 demo_sys = (0, s1)"
    "alarms_rep demo_alarm_env s1 [(0x200, 1, 7, 9)]" "app s1 = 0"
    using start_registers [OF demo_rep, of "0x200" 0 7 9] by (auto simp: demo_sys_def demo_alarm_env_def)
  from alt_tick_refines_countdowns [OF demo_callbacks s1(2)] s1 show ?thesis
    by auto
qed

text \<open>alt_alarm_start registers the alarm in front of the others with a countdown of nticks + 1
  and gives the interrupt state back, and alt_alarm_stop takes exactly it out again; without a
  system clock it fails with -ENOTSUP, for a null alarm with -EINVAL, and changes nothing.\<close>

theorem alarm_start_stop:
  assumes "alarms_rep e s es" and "p \<noteq> alt_alarm_list e" and "p \<notin> fst ` set es" and "n \<noteq> -1"
  shows "if tick_rate s = 0 then alt_alarm_start e p n f c s = (- ENOTSUP, s)
    else if p = 0 then alt_alarm_start e p n f c s = (- EINVAL, s)
    else \<exists>s'. alt_alarm_start e p n f c s = (0, s') \<and> alarms_rep e s' ((p, unat n + 1, f, c) # es)
      \<and> scpu s' = scpu s \<and> app s' = app s
      \<and> alarms_rep e (alt_alarm_stop p s') es \<and> scpu (alt_alarm_stop p s') = scpu s"
proof (cases "tick_rate s = 0 \<or> p = 0")
  case True
  then show ?thesis
    by (auto simp: alt_alarm_start_def alt_ticks_per_second_def)
next
  case False
  then obtain s' where s': "alt_alarm_start e p n f c s = (0, s')"
    "alarms_rep e s' ((p, unat n + 1, f, c) # es)" "app s' = app s" "scpu s' = scpu s"
    using start_registers [OF assms(1) _ _ assms(2,3,4)] by blast
  have "filter (\<lambda>y. fst y \<noteq> p) es = es"
    using assms(3) by (force simp: filter_id_conv)
  with stop_unregisters [OF s'(2), of "(p, unat n + 1, f, c)" p] s' False show ?thesis
    by simp
qed

lemma alarm_start_stop_witness:
  "\<exists>s'. alt_alarm_start demo_alarm_env 0x200 5 7 9 demo_sys = (0, s')
     \<and> alarms_rep demo_alarm_env (alt_alarm_stop 0x200 s') []"
  using alarm_start_stop [OF demo_rep, of "0x200" 5 7 9]
  by (auto simp: demo_sys_def demo_alarm_env_def)



text \<open>At the largest interval the rollover flag is missed: an alarm started with
  nticks = 2^32 - 1 is called at the very next tick, unless the counter just wraps there.\<close>

theorem longest_alarm_fires_at_once:
  assumes "callbacks_are e cb" and "alarms_rep e s []" and "tick_rate s \<noteq> 0" and "p \<noteq> 0"
    and "p \<noteq> alt_alarm_list e" and "nticks s \<noteq> -1"
  shows "\<exists>s'. alt_tick e (snd (alt_alarm_start e p (-1) f c s)) = Some s' \<and> app s' = snd (cb f c (app s))"
proof -
  let ?s = "snd (alt_alarm_start e p (-1) f c s)" and ?lh = "alt_alarm_list e"
  note st = start_result [OF assms(3,4)]
  obtain r a1 where r: "cb f c (app s) = (r, a1)" by fastforce
  have d: "dll (links ?s) ?lh [p]"
    using ll.lst_ins [of "links s" ?lh "[]" p] assms(2,5) by (simp add: alarms_rep_def st)
  have nx: "next_of (links ?s) ?lh = p" "next_of (links ?s) p = ?lh"
    using ll.lst_first [OF d] ll.lst_next [of "links ?s" ?lh "[]" p "[]"] d by simp_all
  have "unat (nticks s) \<noteq> 4294967295"
    using assms(6) unat_minus_one32 [of 0] by (metis diff_0 word_unat_eq_iff)
  then have "nticks s \<le> nticks s + 1"
    using unat_add_wrap [of "nticks s" 1] unat_lt_2p [of "nticks s"] by (simp add: word_le_nat_alt)
  then have "app (alarm_body e p (?s\<lparr>nticks := nticks ?s + 1\<rparr>)) = a1"
    using assms(1) r by (simp add: alarm_body_def st callbacks_are_def Let_def)
  then show ?thesis
    using nx assms(5) r by (simp add: alt_tick_def tick_loop_next tick_loop_done Let_def)
qed

lemma longest_alarm_witness:
  "\<exists>s'. alt_tick demo_alarm_env (snd (alt_alarm_start demo_alarm_env 0x200 (-1) 7 9 demo_sys)) = Some s'
     \<and> app s' = 1"
proof -
  have "nticks demo_sys \<noteq> -1" by (simp add: demo_sys_def)
  with longest_alarm_fires_at_once [OF demo_callbacks demo_rep, of "0x200" 7 9] show ?thesis
    by (simp add: demo_sys_def demo_alarm_env_def)
qed

end
