(* ===== verification/TimeOfDay.thy ===== *)
theory TimeOfDay
  imports Alarm
begin

text \<open>
  Wall-clock time from the tick counter: \<open>settimeofday\<close>, \<open>gettimeofday\<close> and \<open>times\<close>
  (\<open>alt_settod.c\<close>, \<open>alt_gettod.c\<close>, \<open>alt_times.c\<close>). The fields of \<open>struct timeval\<close> are signed
  32-bit words; the mixed arithmetic of the code is unsigned and wraps. The globals
  \<open>alt_resettime\<close>, \<open>alt_timezone\<close> and \<open>errno\<close> are a record of their own beside the
  clock state of \<open>Alarm\<close>, which is only read.
\<close>

definition ALT_US :: u32 where "ALT_US = 1000000"

record timeval =
  tv_sec :: u32
  tv_usec :: u32

record timezone =
  tz_minuteswest :: u32
  tz_dsttime :: u32

record tod =
  alt_resettime :: timeval
  alt_timezone :: timezone
  tod_errno :: int

definition tod_init :: tod where
  "tod_init = \<lparr>alt_resettime = \<lparr>tv_sec = 0, tv_usec = 0\<rparr>,
     alt_timezone = \<lparr>tz_minuteswest = 0, tz_dsttime = 0\<rparr>, tod_errno = 0\<rparr>"

definition settimeofday :: "'c sys \<Rightarrow> timeval \<Rightarrow> timezone \<Rightarrow> tod \<Rightarrow> int \<times> tod" where
  "settimeofday s t tz g =
     (let n = alt_nticks s; rate = alt_ticks_per_second s
      in if rate \<noteq> 0
         then (0, g\<lparr>alt_resettime := \<lparr>tv_sec = tv_sec t - n div rate,
                     tv_usec = tv_usec t - (n * (ALT_US div rate)) mod ALT_US\<rparr>,
                   alt_timezone := \<lparr>tz_minuteswest = tz_minuteswest tz, tz_dsttime = tz_dsttime tz\<rparr>\<rparr>)
         else (- 1, g\<lparr>tod_errno := ENOSYS\<rparr>))"

text \<open>The two normalisation loops of \<open>gettimeofday\<close>.\<close>

function borrow_usec :: "timeval \<Rightarrow> timeval" where
  "borrow_usec t =
     (if sint (tv_usec t) < 0
      then (if sint (tv_sec t) \<le> 0 then \<lparr>tv_sec = 0, tv_usec = 0\<rparr>
            else borrow_usec \<lparr>tv_sec = tv_sec t - 1, tv_usec = tv_usec t + ALT_US\<rparr>)
      else t)"
  by pat_completeness auto

function carry_usec :: "timeval \<Rightarrow> timeval" where
  "carry_usec t =
     (if sint (tv_usec t) \<ge> sint ALT_US
      then carry_usec \<lparr>tv_sec = tv_sec t + 1, tv_usec = tv_usec t - ALT_US\<rparr>
      else t)"
  by pat_completeness auto

lemma sint_plus:
  fixes a b :: u32
  assumes "- 2147483648 \<le> sint a + sint b" "sint a + sint b < 2147483648"
  shows "sint (a + b) = sint a + sint b"
  using assms by (simp add: sint_word_ariths signed_take_bit_int_eq_self)

lemma sint_minus:
  fixes a b :: u32
  assumes "- 2147483648 \<le> sint a - sint b" "sint a - sint b < 2147483648"
  shows "sint (a - b) = sint a - sint b"
  using assms by (simp add: sint_word_ariths signed_take_bit_int_eq_self)

lemma sint_range: "- 2147483648 \<le> sint (a :: u32)" "sint (a :: u32) < 2147483648"
  using sint_greater_eq [of a] sint_less [of a] by simp_all

lemma sint_ALT_US: "sint ALT_US = 1000000"
  by (simp add: ALT_US_def)

lemma sint_borrow: "sint x < 0 \<Longrightarrow> sint (x + ALT_US) = sint x + 1000000"
  using sint_range [of x] by (simp add: sint_plus sint_ALT_US)

lemma sint_carry: "sint x \<ge> 1000000 \<Longrightarrow> sint (x - ALT_US) = sint x - 1000000"
  using sint_range [of x] by (simp add: sint_minus sint_ALT_US)

termination borrow_usec
  by (relation "measure (\<lambda>t. nat (- sint (tv_usec t)))") (auto simp: sint_borrow)

termination carry_usec
  by (relation "measure (\<lambda>t. nat (sint (tv_usec t)))") (auto simp: sint_ALT_US sint_carry)

declare borrow_usec.simps [simp del] carry_usec.simps [simp del]

text \<open>\<open>ptz\<close>: whether a timezone is asked for. The result is \<open>None\<close> in the first component when
  the structures are not written.\<close>

definition gettimeofday :: "'c sys \<Rightarrow> bool \<Rightarrow> tod \<Rightarrow> int \<times> timeval option \<times> timezone option" where
  "gettimeofday s ptz g =
     (let n = alt_nticks s; rate = alt_ticks_per_second s
      in if rate \<noteq> 0
         then (let t = \<lparr>tv_sec = tv_sec (alt_resettime g) + n div rate,
                 tv_usec = tv_usec (alt_resettime g)
                   + ucast ((ucast n * ucast (ALT_US div rate)) mod (ucast ALT_US :: u64))\<rparr>;
                   t = borrow_usec t;
                   t = carry_usec t
               in (0, Some t, if ptz then Some (alt_timezone g) else None))
         else (- ENOTSUP, None, None))"

record tms =
  tms_utime :: u32
  tms_stime :: u32
  tms_cutime :: u32
  tms_cstime :: u32

definition alt_times :: "'c sys \<Rightarrow> tms \<Rightarrow> tod \<Rightarrow> u32 \<times> tms \<times> tod" where
  "alt_times s buf g =
     (let ticks = alt_nticks s
      in if alt_ticks_per_second s = 0 then (0, buf, g\<lparr>tod_errno := ENOSYS\<rparr>)
         else (ticks, \<lparr>tms_utime = 0, tms_stime = ticks, tms_cutime = 0, tms_cstime = 0\<rparr>, g))"

subsection \<open>Normalisation\<close>

text \<open>The time in microseconds.\<close>

definition usecs :: "timeval \<Rightarrow> int" where
  "usecs t = sint (tv_sec t) * 1000000 + sint (tv_usec t)"

lemma carry_range: "0 \<le> sint (tv_usec t) \<Longrightarrow>
    0 \<le> sint (tv_usec (carry_usec t)) \<and> sint (tv_usec (carry_usec t)) < 1000000"
proof (induction t rule: carry_usec.induct)
  case (1 t)
  then show ?case
    by (subst (1 2) carry_usec.simps) (auto simp: sint_ALT_US sint_carry)
qed

lemma borrow_nonneg: "0 \<le> sint (tv_usec (borrow_usec t))"
proof (induction t rule: borrow_usec.induct)
  case (1 t)
  then show ?case
    by (subst borrow_usec.simps) auto
qed

lemma usecs_borrow: "0 \<le> usecs t \<Longrightarrow> usecs (borrow_usec t) = usecs t"
proof (induction t rule: borrow_usec.induct)
  case (1 t)
  show ?case
  proof (cases "sint (tv_usec t) < 0")
    case True
    with 1(2) have s: "\<not> sint (tv_sec t) \<le> 0"
      by (auto simp: usecs_def)
    then have "sint (tv_sec t - 1) = sint (tv_sec t) - 1"
      using sint_range [of "tv_sec t"] by (simp add: sint_minus)
    with True have "usecs \<lparr>tv_sec = tv_sec t - 1, tv_usec = tv_usec t + ALT_US\<rparr> = usecs t"
      by (simp add: usecs_def sint_borrow)
    with 1 True s show ?thesis
      by (subst borrow_usec.simps) simp
  qed (subst borrow_usec.simps, simp)
qed

lemma usecs_carry:
  "0 \<le> usecs t \<Longrightarrow> usecs t < 2147483648 * 1000000 \<Longrightarrow> 0 \<le> sint (tv_usec t) \<Longrightarrow>
     usecs (carry_usec t) = usecs t"
proof (induction t rule: carry_usec.induct)
  case (1 t)
  show ?case
  proof (cases "sint (tv_usec t) \<ge> 1000000")
    case True
    with 1(3) have "sint (tv_sec t) + 1 < 2147483648"
      by (simp add: usecs_def)
    then have "sint (tv_sec t + 1) = sint (tv_sec t) + 1"
      using sint_range [of "tv_sec t"] by (simp add: sint_plus)
    with True have "usecs \<lparr>tv_sec = tv_sec t + 1, tv_usec = tv_usec t - ALT_US\<rparr> = usecs t"
      "0 \<le> sint (tv_usec t - ALT_US)"
      by (simp_all add: usecs_def sint_carry)
    with 1 True show ?thesis
      by (subst carry_usec.simps) (simp add: sint_ALT_US)
  qed (subst carry_usec.simps, simp add: sint_ALT_US)
qed

text \<open>Already normalised times stay as they are.\<close>

lemma normal_id:
  "0 \<le> sint (tv_usec t) \<Longrightarrow> sint (tv_usec t) < 1000000 \<Longrightarrow> carry_usec (borrow_usec t) = t"
  by (subst borrow_usec.simps, subst carry_usec.simps) (simp add: sint_ALT_US)

subsection \<open>The words of the two calls as numbers\<close>

lemma unat_ALT_US: "unat ALT_US = 1000000"
  by (simp add: ALT_US_def)

lemma unat_per_tick: "unat (ALT_US div rate) = 1000000 div unat rate"
  by (simp add: unat_div unat_ALT_US)

lemma unat_mult32: "unat (a * b :: u32) = unat a * unat b mod 4294967296"
  by (simp add: unat_word_ariths)

lemma unat_set_usec:
  "unat ((n * (ALT_US div rate)) mod ALT_US) =
     (unat n * (1000000 div unat rate) mod 4294967296) mod 1000000"
  by (simp only: unat_mod unat_mult32 unat_per_tick unat_ALT_US)

lemma unat_get_usec:
  fixes n rate :: u32
  shows "unat (ucast ((ucast n * ucast (ALT_US div rate)) mod (ucast ALT_US :: u64)) :: u32) =
    (unat n * (1000000 div unat rate)) mod 1000000"
proof -
  let ?k = "1000000 div unat rate"
  have k: "?k \<le> 1000000" by simp
  have "unat n * ?k \<le> 4294967296 * 1000000"
    using unat_lt_2p [of n] k by (intro mult_le_mono) simp_all
  then have small: "unat n * ?k < 18446744073709551616" by simp
  have a: "unat (ucast n :: u64) = unat n" "unat (ucast (ALT_US div rate) :: u64) = ?k"
    "unat (ucast ALT_US :: u64) = 1000000"
    using unat_lt_2p [of n] le_less_trans [OF k, of "2 ^ 64"]
    by (simp_all add: unsigned_ucast_eq unat_per_tick unat_ALT_US take_bit_nat_eq_self)
  have "unat ((ucast n * ucast (ALT_US div rate)) mod (ucast ALT_US :: u64)) = (unat n * ?k) mod 1000000"
    using small by (simp add: unat_mod unat_word_ariths(2) a)
  moreover have "(unat n * ?k) mod 1000000 < 4294967296"
    by (rule order.strict_trans [of _ 1000000]) simp_all
  ultimately show ?thesis
    by (simp add: unsigned_ucast_eq take_bit_nat_eq_self)
qed

definition set_usec :: "u32 \<Rightarrow> u32 \<Rightarrow> u32" where
  "set_usec n rate = (n * (ALT_US div rate)) mod ALT_US"

definition get_usec :: "u32 \<Rightarrow> u32 \<Rightarrow> u32" where
  "get_usec n rate = ucast ((ucast n * ucast (ALT_US div rate)) mod (ucast ALT_US :: u64))"

lemma set_get_usec:
  "unat n * (1000000 div unat rate) < 4294967296 \<Longrightarrow> set_usec n rate = get_usec n rate"
  by (simp add: set_usec_def get_usec_def word_unat_eq_iff unat_set_usec unat_get_usec)

lemma sint_get_usec: "sint (get_usec n rate) = int ((unat n * (1000000 div unat rate)) mod 1000000)"
proof -
  let ?x = "(unat n * (1000000 div unat rate)) mod 1000000"
  have "unat (get_usec n rate) = ?x"
    by (simp only: get_usec_def unat_get_usec)
  moreover have "?x < 1000000" by simp
  ultimately have "get_usec n rate < 0x80000000" "unat (get_usec n rate) = ?x"
    by (simp_all only: word_less_nat_alt) simp_all
  then show ?thesis
    by (simp only: sint32_conv) simp
qed

lemma get_after_set:
  assumes "tick_rate s \<noteq> 0" "tick_rate s' = tick_rate s"
  shows "gettimeofday s' True (snd (settimeofday s t tz g)) =
    (0, Some (carry_usec (borrow_usec
       \<lparr>tv_sec = tv_sec t + (nticks s' div tick_rate s - nticks s div tick_rate s),
        tv_usec = tv_usec t + (get_usec (nticks s') (tick_rate s) - set_usec (nticks s) (tick_rate s))\<rparr>)),
     Some tz)"
  using assms
  by (simp add: gettimeofday_def settimeofday_def alt_nticks_def alt_ticks_per_second_def Let_def
      set_usec_def get_usec_def algebra_simps)

subsection \<open>Properties\<close>

text \<open>gettimeofday always gives a normalised time: with a system clock it returns 0 and a number
  of microseconds from 0 to 999999, whatever was set before; without one it fails with
  -ENOTSUP and writes nothing.\<close>

theorem gettimeofday_normalised:
  "if tick_rate s = 0 then gettimeofday s ptz g = (- ENOTSUP, None, None)
   else \<exists>t z. gettimeofday s ptz g = (0, Some t, z) \<and> 0 \<le> sint (tv_usec t) \<and> sint (tv_usec t) < 1000000"
  using carry_range [OF borrow_nonneg]
  by (simp add: gettimeofday_def alt_ticks_per_second_def Let_def)

text \<open>C13. settimeofday calibrates the clock: as long as the microseconds of all ticks since reset,
  nticks * (1000000 / rate), fit in 32 bits when it is called, an immediate gettimeofday
  returns exactly the time and the time zone that were set.\<close>

theorem set_then_get:
  assumes "tick_rate s \<noteq> 0" and "0 \<le> sint (tv_usec t)" and "sint (tv_usec t) < 1000000"
    and "unat (nticks s) * (1000000 div unat (tick_rate s)) < 4294967296"
  shows "fst (settimeofday s t tz g) = 0
    \<and> gettimeofday s True (snd (settimeofday s t tz g)) = (0, Some t, Some tz)"
  using get_after_set [OF assms(1) refl, of t tz g] normal_id [OF assms(2,3)] set_get_usec [OF assms(4)] assms(1)
  by (cases t) (simp add: settimeofday_def alt_ticks_per_second_def Let_def)

definition demo_clock :: "u32 \<Rightarrow> nat sys" where
  "demo_clock n = demo_sys\<lparr>tick_rate := 100, nticks := n\<rparr>"

lemma set_then_get_witness:
  "gettimeofday (demo_clock 12345) True
     (snd (settimeofday (demo_clock 12345) \<lparr>tv_sec = 1000, tv_usec = 250000\<rparr>
        \<lparr>tz_minuteswest = 60, tz_dsttime = 0\<rparr> tod_init)) =
   (0, Some \<lparr>tv_sec = 1000, tv_usec = 250000\<rparr>, Some \<lparr>tz_minuteswest = 60, tz_dsttime = 0\<rparr>)"
  by (rule set_then_get [THEN conjunct2]) (simp_all add: demo_clock_def)

lemma sint_of_int32:
  "- 2147483648 \<le> x \<Longrightarrow> x < 2147483648 \<Longrightarrow> sint (word_of_int x :: u32) = x"
  by (simp add: int_word_sint)

lemma word_sum_int:
  "a + (b - c :: u32) = word_of_int (sint a + int (unat b) - int (unat c))"
  by simp

lemma mod_usec: "r dvd (1000000 :: nat) \<Longrightarrow> (n * (1000000 div r)) mod 1000000 = (n mod r) * (1000000 div r)"
  by (metis dvd_mult_div_cancel mult.commute mod_mult_mult1)

text \<open>Ticks of \<open>k\<close> microseconds, \<open>r\<close> to the second.\<close>

lemma ticks_split:
  assumes "r * k = (1000000 :: nat)"
  shows "int (n * k) = int (n div r) * 1000000 + int ((n mod r) * k)"
proof -
  have "n * k = (n div r * r + n mod r) * k" by (simp only: div_mult_mod_eq)
  also have "\<dots> = (n div r) * (r * k) + (n mod r) * k" by (simp only: distrib_right mult.assoc)
  finally show ?thesis by (simp add: assms)
qed

lemma ticks_rest:
  assumes "r * k = (1000000 :: nat)"
  shows "int ((n mod r) * k) < 1000000"
proof -
  have "0 < r" "0 < k" using assms by (auto intro: Nat.gr0I)
  then have "(n mod r) * k < r * k" by (intro mult_strict_right_mono) simp_all
  then have "(n mod r) * k < 1000000" by (simp only: assms)
  then show ?thesis by (metis of_nat_less_iff of_nat_numeral)
qed

lemma sint_plus_minus: "- 2147483648 \<le> sint y - sint z \<Longrightarrow> sint y - sint z < 2147483648 \<Longrightarrow>
    - 2147483648 \<le> sint x + sint y - sint z \<Longrightarrow> sint x + sint y - sint z < 2147483648 \<Longrightarrow>
    sint (x + (y - z)) = sint x + sint y - sint z" for x y z :: u32
  using sint_minus [of y z] by (simp add: sint_plus)

text \<open>The difference of two readings of the tick counter, added to a time in seconds and microseconds.\<close>

lemma elapsed:
  fixes t :: timeval
  assumes "r * k = 1000000" "r = unat rate" "u0 \<le> u1" "0 \<le> sint (tv_usec t)" "sint (tv_usec t) < 1000000"
    "sint g0 = int ((unat u0 mod r) * k)" "sint g1 = int ((unat u1 mod r) * k)"
    "0 \<le> sint (tv_sec t)" "usecs t + int ((unat u1 - unat u0) * k) < 2147483647 * 1000000"
  shows "usecs \<lparr>tv_sec = tv_sec t + (u1 div rate - u0 div rate), tv_usec = tv_usec t + (g1 - g0)\<rparr>
    = usecs t + int ((unat u1 - unat u0) * k)"
proof -
  define sec where "sec = sint (tv_sec t) + int (unat u1 div r) - int (unat u0 div r)"
  define usec where "usec = sint (tv_usec t) + sint g1 - sint g0"
  have le: "unat u0 \<le> unat u1" using assms(3) by (simp add: word_le_nat_alt)
  have u: "0 \<le> sint g0" "sint g0 < 1000000" "0 \<le> sint g1" "sint g1 < 1000000"
    using ticks_rest [OF assms(1)] by (simp_all only: assms(6,7) of_nat_0_le_iff)
  then have us: "- 1000000 < usec" "usec < 2000000" using assms(4,5) by (auto simp: usec_def)
  have total: "sec * 1000000 + usec = usecs t + int ((unat u1 - unat u0) * k)"
    using ticks_split [OF assms(1), of "unat u1"] ticks_split [OF assms(1), of "unat u0"] le
    by (simp add: sec_def usec_def assms(6,7) usecs_def algebra_simps of_nat_diff diff_mult_distrib)
  moreover have "0 \<le> usecs t" using assms(4,8) by (simp add: usecs_def)
  ultimately have "- 2147483648 \<le> sec" "sec < 2147483648" using assms(9) us by linarith+
  from sint_of_int32 [OF this] have "sint (tv_sec t + (u1 div rate - u0 div rate)) = sec"
    by (simp add: word_sum_int sec_def assms(2) unat_div)
  moreover have "sint (tv_usec t + (g1 - g0)) = usec"
    unfolding usec_def using u us [unfolded usec_def] by (intro sint_plus_minus) linarith+
  ultimately show ?thesis using total by (simp add: usecs_def)
qed

text \<open>Elapsed time: at a tick rate that divides a million, if a time is set while the product of
  settimeofday fits in 32 bits, gettimeofday later returns exactly that time plus the elapsed
  ticks, with the time zone that was set, as long as the tick counter has not wrapped in
  between and the seconds stay below 2^31 - 1.\<close>

theorem time_advances:
  assumes "tick_rate s \<noteq> 0" and "unat (tick_rate s) dvd 1000000" and "tick_rate s' = tick_rate s"
    and "0 \<le> sint (tv_sec t)" and "0 \<le> sint (tv_usec t)" and "sint (tv_usec t) < 1000000"
    and "unat (nticks s) * (1000000 div unat (tick_rate s)) < 4294967296"
    and "nticks s \<le> nticks s'"
    and "usecs t + int ((unat (nticks s') - unat (nticks s)) * (1000000 div unat (tick_rate s)))
           < 2147483647 * 1000000"
  shows "\<exists>t'. gettimeofday s' True (snd (settimeofday s t tz g)) = (0, Some t', Some tz)
    \<and> usecs t' = usecs t + int ((unat (nticks s') - unat (nticks s)) * (1000000 div unat (tick_rate s)))"
proof -
  let ?r = "unat (tick_rate s)" and ?k = "1000000 div unat (tick_rate s)"
  let ?ticks = "int ((unat (nticks s') - unat (nticks s)) * ?k)"
  let ?t = "\<lparr>tv_sec = tv_sec t + (nticks s' div tick_rate s - nticks s div tick_rate s),
    tv_usec = tv_usec t + (get_usec (nticks s') (tick_rate s) - set_usec (nticks s) (tick_rate s))\<rparr>"
  have rk: "?r * ?k = 1000000" using assms(2) by simp
  have g: "sint (get_usec n (tick_rate s)) = int ((unat n mod ?r) * ?k)" for n
    by (simp only: sint_get_usec mod_usec [OF assms(2)])
  have "set_usec (nticks s) (tick_rate s) = get_usec (nticks s) (tick_rate s)" by (rule set_get_usec [OF assms(7)])
  then have ut: "usecs ?t = usecs t + ?ticks"
    using elapsed [OF rk refl assms(8,5,6) g g assms(4,9)] by simp
  moreover have "0 \<le> usecs t" using assms(4,5) by (simp add: usecs_def)
  ultimately have "usecs (carry_usec (borrow_usec ?t)) = usecs t + ?ticks"
    using assms(9) usecs_borrow [of ?t] usecs_carry [OF _ _ borrow_nonneg, of ?t] by simp
  then show ?thesis using get_after_set [OF assms(1,3)] by simp
qed

lemma time_advances_witness:
  "\<exists>t'. gettimeofday (demo_clock 500) True
       (snd (settimeofday (demo_clock 0) \<lparr>tv_sec = 1000, tv_usec = 250000\<rparr>
          \<lparr>tz_minuteswest = 60, tz_dsttime = 0\<rparr> tod_init)) =
     (0, Some t', Some \<lparr>tz_minuteswest = 60, tz_dsttime = 0\<rparr>) \<and> usecs t' = 1005250000"
proof -
  have c: "tick_rate (demo_clock n) = 100" "nticks (demo_clock n) = n" for n
    by (simp_all add: demo_clock_def)
  have "\<exists>t'. gettimeofday (demo_clock 500) True
       (snd (settimeofday (demo_clock 0) \<lparr>tv_sec = 1000, tv_usec = 250000\<rparr>
          \<lparr>tz_minuteswest = 60, tz_dsttime = 0\<rparr> tod_init)) =
     (0, Some t', Some \<lparr>tz_minuteswest = 60, tz_dsttime = 0\<rparr>)
     \<and> usecs t' = usecs \<lparr>tv_sec = 1000, tv_usec = 250000\<rparr>
         + int ((unat (nticks (demo_clock 500)) - unat (nticks (demo_clock 0))) *
                (1000000 div unat (tick_rate (demo_clock 0))))"
    by (rule time_advances) (simp_all add: c usecs_def)
  then show ?thesis
    by (simp add: c usecs_def)
qed

text \<open>When the product overflows, settimeofday loses time: at 100 ticks per second, 4294.97
  seconds after reset, setting the time to 1000 s and reading it back at once gives 967296
  microseconds too many, because settimeofday multiplies in 32 bits what gettimeofday
  multiplies in 64.\<close>

theorem settimeofday_overflow:
  "gettimeofday (demo_clock 429497) True
     (snd (settimeofday (demo_clock 429497) \<lparr>tv_sec = 1000, tv_usec = 0\<rparr> tz tod_init))
   = (0, Some \<lparr>tv_sec = 1000, tv_usec = 967296\<rparr>, Some tz)"
proof -
  have c: "tick_rate (demo_clock n) = 100" "nticks (demo_clock n) = n" for n
    by (simp_all add: demo_clock_def)
  have "get_usec 429497 100 - set_usec 429497 100 = 967296"
    by code_simp
  moreover have "carry_usec (borrow_usec \<lparr>tv_sec = 1000, tv_usec = 967296\<rparr>)
      = \<lparr>tv_sec = 1000, tv_usec = 967296\<rparr>"
    by (rule normal_id) simp_all
  ultimately show ?thesis
    using get_after_set [of "demo_clock 429497" "demo_clock 429497" "\<lparr>tv_sec = 1000, tv_usec = 0\<rparr>" tz tod_init]
    by (simp add: c)
qed

end
