(* ===== verification/BusySleep.thy ===== *)
theory BusySleep
  imports Prelude
begin

text \<open>
  The calibrated delay behind \<open>usleep\<close>: \<open>alt_usleep.c\<close> and \<open>alt_busy_sleep.c\<close>. The effect of a
  delay is the time it takes, so the model counts the iterations of its assembler loops: an
  iteration is one \<open>addi\<close> and one branch.
\<close>

definition NIOS2_CPU_IMPLEMENTATION :: string where "NIOS2_CPU_IMPLEMENTATION = ''tiny''"
definition ALT_CPU_FREQ :: u32 where "ALT_CPU_FREQ = 50000000"

text \<open>\<open>0: addi %0,%0,-1; bne %0,zero,0b\<close>: the iterations for an initial register value.\<close>

function bne_iters :: "u32 \<Rightarrow> nat" where
  "bne_iters r = (let r = r - 1 in if r \<noteq> 0 then Suc (bne_iters r) else 1)"
  by pat_completeness auto
termination
  by (relation "measure (\<lambda>r. unat (r - 1))")
     (use measure_unat in fastforce)+

text \<open>\<open>0: addi %0,%0,-1; bgt %0,zero,0b\<close>, a signed comparison.\<close>

function bgt_iters :: "u32 \<Rightarrow> nat" where
  "bgt_iters r = (let r = r - 1 in if sint r > 0 then Suc (bgt_iters r) else 1)"
  by pat_completeness auto
termination
proof (relation "measure (\<lambda>r. unat (r - 1))")
  fix r x :: u32
  assume "x = r - 1" "0 < sint x"
  then have "r - 1 \<noteq> 0" by auto
  from measure_unat [OF this] \<open>x = r - 1\<close> show "(x, r) \<in> measure (\<lambda>r. unat (r - 1))"
    by simp
qed simp

declare bne_iters.simps [simp del] bgt_iters.simps [simp del]

text \<open>\<open>for(i=0;i<big_loops;i++) { asm; us -= ...; }\<close>: the iterations so far and what is left of
  \<open>us\<close>.\<close>

fun big_delay :: "nat \<Rightarrow> u32 \<Rightarrow> u32 \<Rightarrow> nat \<times> u32" where
  "big_delay 0 d us = (0, us)"
| "big_delay (Suc i) d us =
     (let k = bne_iters INT_MAX; (n, us) = big_delay i d (us - d) in (k + n, us))"

definition cycles_per_loop :: u32 where
  "cycles_per_loop = (if NIOS2_CPU_IMPLEMENTATION = ''tiny'' then 9 else 3)"

definition alt_busy_sleep :: "u32 \<Rightarrow> u32 \<times> nat" where
  "alt_busy_sleep us =
     (let per_us = ALT_CPU_FREQ div (cycles_per_loop * 1000000);
          big_loops = us div (INT_MAX div per_us)
      in if big_loops \<noteq> 0
         then (let (n, us) = big_delay (unat big_loops) (INT_MAX div per_us) us
               in (0, n + bne_iters (us * per_us)))
         else (0, bgt_iters (us * per_us)))"

definition usleep_hal :: "u32 \<Rightarrow> u32 \<times> nat" where
  "usleep_hal us = alt_busy_sleep us"

subsection \<open>How long the loops run\<close>

lemma bne_iters_conv: "bne_iters r = unat (r - 1) + 1"
proof (induction r rule: bne_iters.induct)
  case (1 r)
  show ?case
  proof (cases "r - 1 = 0")
    case True
    then show ?thesis
      by (subst bne_iters.simps) (simp add: Let_def)
  next
    case False
    with 1 [OF refl] have "bne_iters (r - 1) = unat (r - 1 - 1) + 1" by simp
    with False unat_minus_one [OF False] show ?thesis
      by (subst bne_iters.simps) (simp add: Let_def unat_gt_0)
  qed
qed

lemma bgt_iters_conv: "r \<le> 0x7FFFFFFF \<Longrightarrow> bgt_iters r = (if r = 0 then 1 else unat r)"
proof (induction r rule: bgt_iters.induct)
  case (1 r)
  show ?case
  proof (cases "r = 0")
    case True
    then show ?thesis
      by (subst bgt_iters.simps) (simp add: Let_def)
  next
    case False
    have r: "unat (r - 1) = unat r - 1" "unat r \<le> 2147483647" "0 < unat r"
      using False 1(2) by (simp_all add: unat_minus_one word_le_nat_alt unat_gt_0)
    have "r - 1 < 0x80000000"
      using r by (simp add: word_less_nat_alt)
    then have "sint (r - 1) = int (unat (r - 1))"
      by (simp add: sint32_conv)
    then have pos: "0 < sint (r - 1) \<longleftrightarrow> unat r \<noteq> 1"
      using r by presburger
    show ?thesis
    proof (cases "unat r = 1")
      case True
      with pos show ?thesis
        by (subst bgt_iters.simps) (simp add: Let_def False)
    next
      case ne: False
      then have "r - 1 \<noteq> 0" "r - 1 \<le> 0x7FFFFFFF"
        using r by (auto simp: word_le_nat_alt unat_eq_0 [symmetric] simp del: unat_eq_0)
      with 1(1) [OF refl] pos ne have "bgt_iters (r - 1) = unat (r - 1)" by simp
      with ne pos r False show ?thesis
        by (subst bgt_iters.simps) (simp add: Let_def)
    qed
  qed
qed

lemma big_delay_conv: "big_delay i d us = (i * 2147483647, us - of_nat i * d)"
proof (induction i arbitrary: us)
  case (Suc i)
  have "bne_iters INT_MAX = 2147483647"
    by (simp add: bne_iters_conv INT_MAX_def)
  with Suc show ?case
    by (simp add: Let_def algebra_simps)
qed simp

lemma per_us: "ALT_CPU_FREQ div (cycles_per_loop * 1000000) = 5"
  by (simp add: cycles_per_loop_def NIOS2_CPU_IMPLEMENTATION_def ALT_CPU_FREQ_def)

text \<open>The delay of one turn of the outer loop, in microseconds.\<close>

definition turn_us :: nat where "turn_us = 429496729"

lemma bne_iters_of_nat:
  assumes "m < turn_us"
  shows "bne_iters (of_nat m * 5) = (if m = 0 then 4294967296 else 5 * m)"
proof (cases "m = 0")
  case True
  then show ?thesis
    by (simp add: bne_iters_conv unsigned_minus_1_eq_mask mask_eq_exp_minus_1)
next
  case False
  define x where "x = (of_nat m * 5 :: u32)"
  have "x = of_nat (m * 5)"
    by (simp add: x_def)
  moreover have "m * 5 < 4294967296"
    using assms by (simp add: turn_us_def)
  ultimately have x: "unat x = m * 5"
    by (simp only: unat_of_nat) simp
  with False have "x \<noteq> 0"
    by (metis mult_is_0 unat_0 zero_neq_numeral)
  from unat_minus_one [OF this] x False show ?thesis
    by (simp add: bne_iters_conv x_def [symmetric])
qed

lemma busy_sleep_short:
  assumes "unat us < turn_us"
  shows "alt_busy_sleep us = (0, if us = 0 then 1 else 5 * unat us)"
proof -
  have x: "unat (us * 5) = unat us * 5"
    using assms by (simp add: unat_word_ariths(2) turn_us_def)
  then have "us * 5 \<le> 0x7FFFFFFF"
    using assms by (simp add: word_le_nat_alt turn_us_def)
  moreover have "us * 5 = 0 \<longleftrightarrow> us = 0"
    using x by (metis mult_is_0 unat_eq_0 zero_neq_numeral)
  moreover have "unat (us div 429496729) = 0"
    using assms by (simp add: unat_div turn_us_def)
  then have "us div 429496729 = 0"
    by (simp only: unat_eq_0)
  ultimately show ?thesis
    using x by (simp add: alt_busy_sleep_def per_us Let_def bgt_iters_conv INT_MAX_def)
qed

lemma busy_sleep_long:
  assumes "\<not> unat us < turn_us" and "unat us = q * turn_us + m" and "m < turn_us"
  shows "alt_busy_sleep us = (0, q * 2147483647 + (if m = 0 then 4294967296 else 5 * m))"
proof -
  have q: "unat us div turn_us = q"
    using assms(2,3) by (simp add: div_mult_self3)
  then have "unat (us div 429496729) = q"
    by (simp add: unat_div turn_us_def)
  moreover have "q \<noteq> 0"
    using assms by (cases "q = 0") simp_all
  ultimately have nz: "us div 429496729 \<noteq> 0" "unat (us div 429496729) = q"
    by auto
  have "us = of_nat (q * turn_us + m)"
    by (simp only: assms(2) [symmetric]) simp
  then have "us = of_nat q * of_nat turn_us + of_nat m"
    by (simp only: of_nat_add of_nat_mult)
  then have rest: "us - of_nat q * 429496729 = of_nat m"
    by (simp add: turn_us_def)
  have "alt_busy_sleep us = (0, q * 2147483647 + bne_iters ((us - of_nat q * 429496729) * 5))"
    using nz by (simp add: alt_busy_sleep_def per_us Let_def INT_MAX_def big_delay_conv)
  then show ?thesis
    by (simp only: rest bne_iters_of_nat [OF assms(3)])
qed

text \<open>C14. usleep returns 0 for every argument, and the number of iterations of its loops is exactly
  this. Let q and m be the quotient and the remainder of the delay by 429496729 us. For q = 0 it
  is 5 for each microsecond, and 1 for a delay of 0. For q > 0 it is 5 for each microsecond and 2 for each turn
  of the outer loop, which counts from INT_MAX = 5 * 429496729 + 2; and if in addition m = 0, the final
  loop is entered with the count 0, which it decrements before testing, and runs 2^32 more
  iterations. (On this processor the code reckons with 9 cycles for an iteration at 50 MHz; the
  comment at the head of alt_busy_sleep.c speaks of us * (ALT_CPU_FREQ/3) iterations of three
  cycles.)\<close>

theorem usleep_iterations:
  assumes "unat us = q * turn_us + m" and "m < turn_us"
  shows "fst (usleep_hal us) = 0 \<and> snd (usleep_hal us) =
   (if q = 0 then (if us = 0 then 1 else 5 * unat us)
    else 5 * unat us + 2 * q + (if m = 0 then 4294967296 else 0))"
proof (cases "q = 0")
  case True
  with assms busy_sleep_short [of us] show ?thesis
    by (simp add: usleep_hal_def)
next
  case False
  then have "turn_us \<le> q * turn_us" by simp
  then have "\<not> unat us < turn_us"
    using assms(1) by linarith
  from busy_sleep_long [OF this assms]
  have s: "usleep_hal us = (0, q * 2147483647 + (if m = 0 then 4294967296 else 5 * m))"
    by (simp add: usleep_hal_def)
  have five: "5 * unat us + 2 * q = q * 2147483647 + 5 * m"
    by (simp add: assms(1) turn_us_def)
  with False show ?thesis
    by (simp add: s)
qed

lemma usleep_iterations_witness:
  "snd (usleep_hal 10000) = 50000 \<and> snd (usleep_hal 429496729) = 5 * 429496729 + 2 + 4294967296
   \<and> snd (usleep_hal 1000000000) = 5 * 1000000000 + 4"
  using usleep_iterations [of 10000 0 10000] usleep_iterations [of 429496729 1 0]
    usleep_iterations [of 1000000000 2 141006542]
  by (simp add: turn_us_def)

text \<open>By the calibration constants of the code itself (9 cycles per iteration on this processor,
  50 cycles per microsecond) every delay from 1 to 429496728 us ends after nine tenths of the
  requested time: the division of the frequency by the cycles per loop rounds 5.55 down to 5.\<close>

theorem usleep_is_short:
  assumes "us \<noteq> 0" and "unat us < turn_us"
  shows "10 * (unat cycles_per_loop * snd (usleep_hal us)) = 9 * (unat us * (unat ALT_CPU_FREQ div 1000000))"
  using assms(1) busy_sleep_short [OF assms(2)]
  by (simp add: usleep_hal_def cycles_per_loop_def NIOS2_CPU_IMPLEMENTATION_def
      ALT_CPU_FREQ_def)

lemma usleep_is_short_witness:
  "10 * (unat cycles_per_loop * snd (usleep_hal 10000)) = 9 * (unat (10000 :: u32) * (unat ALT_CPU_FREQ div 1000000))"
  by (rule usleep_is_short) (simp_all add: turn_us_def)

end
