(* ===== verification/DevList.thy ===== *)
theory DevList
  imports Llist
begin

text \<open>
  Devices and file systems: the structures of \<open>HAL/inc/sys/alt_dev.h\<close>, the state of
  \<open>alt_dev.c\<close>, registration (\<open>alt_dev_llist_insert.c\<close>, \<open>alt_dev_reg\<close>, \<open>alt_fs_reg.c\<close>) and the
  searches by name (\<open>alt_find_dev.c\<close>, \<open>alt_find_file.c\<close>). The drivers behind the function
  pointers are a parameter. C strings are HOL strings; what lies in memory behind the
  terminating null byte is a parameter too, since \<open>alt_find_file\<close> and the \<open>memcmp\<close> of
  \<open>alt_find_dev\<close> look there. \<open>None\<close> is undefined behaviour or a walk that does not end.
\<close>

subsection \<open>State\<close>

record alt_fd =
  fd_dev :: ptr
  fd_priv :: u32
  fd_flags :: u32

text \<open>Function pointers; 0 is \<open>NULL\<close>. A null name is \<open>None\<close>.\<close>

record alt_dev =
  dname :: "string option"
  dopen :: u32
  dclose :: u32
  dread :: u32
  dwrite :: u32
  dlseek :: u32
  dfstat :: u32
  dioctl :: u32

record 'd hal =
  fd_list :: "alt_fd list"
  alt_max_fd :: int
  errno :: int
  dlinks :: llist_heap
  devs :: "ptr \<Rightarrow> alt_dev"
  drv :: 'd

text \<open>The environment: the addresses of the two list heads, the bytes behind the names, and the
  drivers. A driver function gets its own address, the index of the file descriptor structure
  and its arguments.\<close>

record 'd hal_env =
  alt_dev_list :: ptr
  alt_fs_list :: ptr
  dev_tail :: "ptr \<Rightarrow> nat \<Rightarrow> char"
  arg_tail :: "nat \<Rightarrow> char"
  drv_open :: "u32 \<Rightarrow> nat \<Rightarrow> string \<Rightarrow> u32 \<Rightarrow> u32 \<Rightarrow> 'd hal \<Rightarrow> int \<times> 'd hal"
  drv_close :: "u32 \<Rightarrow> nat \<Rightarrow> 'd hal \<Rightarrow> int \<times> 'd hal"
  drv_read :: "u32 \<Rightarrow> nat \<Rightarrow> nat \<Rightarrow> 'd hal \<Rightarrow> int \<times> string \<times> 'd hal"
  drv_write :: "u32 \<Rightarrow> nat \<Rightarrow> string \<Rightarrow> 'd hal \<Rightarrow> int \<times> 'd hal"
  drv_lseek :: "u32 \<Rightarrow> nat \<Rightarrow> int \<Rightarrow> int \<Rightarrow> 'd hal \<Rightarrow> int \<times> 'd hal"
  drv_fstat :: "u32 \<Rightarrow> nat \<Rightarrow> 'd hal \<Rightarrow> int \<times> u32 \<times> 'd hal"
  drv_ioctl :: "u32 \<Rightarrow> nat \<Rightarrow> u32 \<Rightarrow> u32 \<Rightarrow> 'd hal \<Rightarrow> int \<times> 'd hal"

text \<open>\<open>alt_dev_null\<close>, at address \<open>null_dev\<close>, whose write function is at \<open>null_write\<close>.\<close>

definition alt_dev_null :: "u32 \<Rightarrow> alt_dev" where
  "alt_dev_null null_write = \<lparr>dname = Some ''/dev/null'', dopen = 0, dclose = 0, dread = 0,
     dwrite = null_write, dlseek = 0, dfstat = 0, dioctl = 0\<rparr>"

definition alt_dev_null_write :: "string \<Rightarrow> int" where
  "alt_dev_null_write buf = int (length buf)"

text \<open>The state before \<open>alt_sys_init\<close>: the null device is the only one, and the three standard
  descriptors refer to it.\<close>

definition hal_init :: "'d hal_env \<Rightarrow> ptr \<Rightarrow> u32 \<Rightarrow> (ptr \<Rightarrow> alt_dev) \<Rightarrow> 'd \<Rightarrow> 'd hal" where
  "hal_init e null_dev null_write ds x =
     \<lparr>fd_list = replicate 3 \<lparr>fd_dev = null_dev, fd_priv = 0, fd_flags = 0\<rparr>
                @ replicate 29 \<lparr>fd_dev = 0, fd_priv = 0, fd_flags = 0\<rparr>,
      alt_max_fd = - 1, errno = 0,
      dlinks = alt_llist_insert (alt_dev_list e) null_dev
                 (ALT_LLIST_HEAD (alt_dev_list e)
                   (ALT_LLIST_HEAD (alt_fs_list e) \<lparr>next_of = \<lambda>_. 0, previous_of = \<lambda>_. 0\<rparr>)),
      devs = ds(null_dev := alt_dev_null null_write), drv = x\<rparr>"

subsection \<open>Registration\<close>

definition alt_dev_llist_insert :: "ptr \<Rightarrow> ptr \<Rightarrow> 'd hal \<Rightarrow> int \<times> 'd hal" where
  "alt_dev_llist_insert dev lh s =
     (if dev = 0 \<or> dname (devs s dev) = None then (- EINVAL, s\<lparr>errno := EINVAL\<rparr>)
      else (0, s\<lparr>dlinks := alt_llist_insert lh dev (dlinks s)\<rparr>))"

definition alt_dev_reg :: "'d hal_env \<Rightarrow> ptr \<Rightarrow> 'd hal \<Rightarrow> int \<times> 'd hal" where
  "alt_dev_reg e dev s = alt_dev_llist_insert dev (alt_dev_list e) s"

definition alt_fs_reg :: "'d hal_env \<Rightarrow> ptr \<Rightarrow> 'd hal \<Rightarrow> int \<times> 'd hal" where
  "alt_fs_reg e dev s =
     (if dname (devs s dev) = None then (- ENODEV, s)
      else (0, s\<lparr>dlinks := alt_llist_insert (alt_fs_list e) dev (dlinks s)\<rparr>))"

subsection \<open>Searching\<close>

text \<open>The bytes from a string's address on.\<close>

definition cbytes :: "string \<Rightarrow> (nat \<Rightarrow> char) \<Rightarrow> nat \<Rightarrow> char" where
  "cbytes s tail i =
     (if i < length s then s ! i else if i = length s then CHR 0x00 else tail (i - length s - 1))"

definition memcmp_eq :: "(nat \<Rightarrow> char) \<Rightarrow> (nat \<Rightarrow> char) \<Rightarrow> nat \<Rightarrow> bool" where
  "memcmp_eq f g n = list_all (\<lambda>i. f i = g i) [0..<n]"

partial_function (option) find_dev_loop ::
  "'d hal_env \<Rightarrow> string \<Rightarrow> ptr \<Rightarrow> ptr \<Rightarrow> 'd hal \<Rightarrow> ptr option" where
  "find_dev_loop e name lh next s =
     (if next \<noteq> lh
      then (case dname (devs s next) of
              None \<Rightarrow> None
            | Some dn \<Rightarrow>
                if memcmp_eq (cbytes dn (dev_tail e next)) (cbytes name (arg_tail e)) (length name + 1)
                then Some next
                else find_dev_loop e name lh (next_of (dlinks s) next) s)
      else Some 0)"

definition alt_find_dev :: "'d hal_env \<Rightarrow> string \<Rightarrow> ptr \<Rightarrow> 'd hal \<Rightarrow> ptr option" where
  "alt_find_dev e name lh s = find_dev_loop e name lh (next_of (dlinks s) lh) s"

text \<open>The condition of \<open>alt_find_file\<close> for one file system: its name, without a final slash, is a
  prefix of the file name and followed there by a slash or the end.\<close>

definition mount_match :: "'d hal_env \<Rightarrow> ptr \<Rightarrow> string \<Rightarrow> string \<Rightarrow> bool" where
  "mount_match e p dn name =
     (let len = length dn;
          len = (if dn ! (len - 1) = CHR ''/'' then len - 1 else len);
          c = cbytes name (arg_tail e) len
      in (c = CHR ''/'' \<or> c = CHR 0x00)
         \<and> memcmp_eq (cbytes dn (dev_tail e p)) (cbytes name (arg_tail e)) len)"

text \<open>For an empty file system name the code reads the byte before the name: undefined.\<close>

partial_function (option) find_file_loop ::
  "'d hal_env \<Rightarrow> string \<Rightarrow> ptr \<Rightarrow> 'd hal \<Rightarrow> ptr option" where
  "find_file_loop e name next s =
     (if next \<noteq> alt_fs_list e
      then (case dname (devs s next) of
              None \<Rightarrow> None
            | Some dn \<Rightarrow>
                if dn = [] then None
                else if mount_match e next dn name then Some next
                else find_file_loop e name (next_of (dlinks s) next) s)
      else Some 0)"

definition alt_find_file :: "'d hal_env \<Rightarrow> string \<Rightarrow> 'd hal \<Rightarrow> ptr option" where
  "alt_find_file e name s = find_file_loop e name (next_of (dlinks s) (alt_fs_list e)) s"

subsection \<open>What the searches find\<close>

definition c_string :: "string \<Rightarrow> bool" where
  "c_string s = (CHR 0x00 \<notin> set s)"

lemma memcmp_eq_iff: "memcmp_eq f g n \<longleftrightarrow> (\<forall>i<n. f i = g i)"
  by (auto simp: memcmp_eq_def list_all_iff)

text \<open>\<open>memcmp\<close> over the terminator compares the strings, whatever lies behind them.\<close>

lemma memcmp_name:
  assumes "c_string a" "c_string b"
  shows "memcmp_eq (cbytes a t) (cbytes b u) (length b + 1) \<longleftrightarrow> a = b"
proof
  assume m: "memcmp_eq (cbytes a t) (cbytes b u) (length b + 1)"
  then have eq: "cbytes a t i = cbytes b u i" if "i \<le> length b" for i
    using that by (simp add: memcmp_eq_iff)
  have len: "length a = length b"
  proof (rule linorder_cases [of "length a" "length b"])
    assume l: "length a < length b"
    with eq [of "length a"] have "b ! length a = CHR 0x00"
      by (simp add: cbytes_def)
    with l assms(2) show ?thesis
      by (metis c_string_def nth_mem)
  next
    assume l: "length b < length a"
    with eq [of "length b"] have "a ! length b = CHR 0x00"
      by (simp add: cbytes_def)
    with l assms(1) show ?thesis
      by (metis c_string_def nth_mem)
  qed simp
  show "a = b"
  proof (rule nth_equalityI [OF len])
    fix i
    assume "i < length a"
    with eq [of i] len show "a ! i = b ! i"
      by (simp add: cbytes_def)
  qed
next
  assume "a = b"
  then show "memcmp_eq (cbytes a t) (cbytes b u) (length b + 1)"
    by (auto simp: memcmp_eq_iff cbytes_def)
qed

text \<open>The mount point of a file system name: the name without a final slash.\<close>

definition mount_point :: "string \<Rightarrow> string" where
  "mount_point dn = (if last dn = CHR ''/'' then butlast dn else dn)"

definition owns :: "string \<Rightarrow> string \<Rightarrow> bool" where
  "owns dn name \<longleftrightarrow> (\<exists>rest. name = mount_point dn @ rest \<and> (rest = [] \<or> hd rest = CHR ''/''))"

lemma mount_len:
  "dn \<noteq> [] \<Longrightarrow> (if dn ! (length dn - 1) = CHR ''/'' then length dn - 1 else length dn) = length (mount_point dn)"
  by (simp add: mount_point_def last_conv_nth)

lemma mount_bytes: "i < length (mount_point dn) \<Longrightarrow> cbytes dn t i = mount_point dn ! i"
  by (auto simp: cbytes_def mount_point_def nth_butlast split: if_splits)

lemma mount_no_nul: "c_string dn \<Longrightarrow> c_string (mount_point dn)"
  by (auto simp: c_string_def mount_point_def dest: in_set_butlastD)

lemma mount_match_bytes:
  assumes "dn \<noteq> []"
  shows "mount_match e p dn name \<longleftrightarrow>
    (let n = length (mount_point dn); c = cbytes name (arg_tail e) n
     in (c = CHR ''/'' \<or> c = CHR 0x00) \<and> (\<forall>i<n. mount_point dn ! i = cbytes name (arg_tail e) i))"
  unfolding mount_match_def Let_def mount_len [OF assms] memcmp_eq_iff
  by (simp add: mount_bytes)

lemma bytes_prefix:
  assumes "c_string m" "\<forall>i<length m. m ! i = cbytes name t i"
  shows "\<exists>rest. name = m @ rest"
proof -
  have le: "length m \<le> length name"
  proof (rule ccontr)
    assume "\<not> length m \<le> length name"
    then have "m ! length name = CHR 0x00" "length name < length m"
      using assms(2) by (simp_all add: cbytes_def)
    with assms(1) show False
      unfolding c_string_def by (metis nth_mem)
  qed
  have "take (length m) name = m"
  proof (rule nth_equalityI)
    fix i
    assume "i < length (take (length m) name)"
    with le assms(2) show "take (length m) name ! i = m ! i"
      by (simp add: cbytes_def)
  qed (use le in simp)
  then show ?thesis
    by (metis append_take_drop_id)
qed

lemma mount_match_owns:
  assumes "dn \<noteq> []" "c_string dn" "c_string name"
  shows "mount_match e p dn name = owns dn name"
proof
  let ?m = "mount_point dn"
  assume "mount_match e p dn name"
  then have c: "cbytes name (arg_tail e) (length ?m) \<in> {CHR ''/'', CHR 0x00}"
    and m: "\<forall>i<length ?m. ?m ! i = cbytes name (arg_tail e) i"
    unfolding mount_match_bytes [OF assms(1)] Let_def by auto
  from bytes_prefix [OF mount_no_nul [OF assms(2)] m] obtain rest where r: "name = ?m @ rest" ..
  have "rest = [] \<or> hd rest = CHR ''/''"
  proof (cases rest)
    case (Cons x xs)
    have "x \<in> set name"
      using r Cons by simp
    then have "x \<noteq> CHR 0x00"
      using assms(3) by (auto simp: c_string_def)
    moreover have "cbytes name (arg_tail e) (length ?m) = x"
      using r Cons by (simp add: cbytes_def nth_append)
    ultimately show ?thesis
      using c Cons by simp
  qed simp
  with r show "owns dn name"
    unfolding owns_def by blast
next
  let ?m = "mount_point dn"
  assume "owns dn name"
  then obtain rest where r: "name = ?m @ rest" "rest = [] \<or> hd rest = CHR ''/''"
    unfolding owns_def by blast
  have "cbytes name (arg_tail e) (length ?m) \<in> {CHR ''/'', CHR 0x00}"
  proof (cases rest)
    case Nil
    then have "length name = length ?m" using r(1) by simp
    then show ?thesis by (simp add: cbytes_def)
  next
    case (Cons x xs)
    have "name ! length ?m = x" "length ?m < length name"
      using r(1) Cons arg_cong [OF r(1), of length] by (metis nth_append_length, simp)
    then show ?thesis using r(2) Cons by (simp add: cbytes_def)
  qed
  moreover have "?m ! i = cbytes name (arg_tail e) i" if "i < length ?m" for i
  proof -
    have "i < length name" "name ! i = ?m ! i"
      using that arg_cong [OF r(1), of length] by (simp, subst r(1), simp add: nth_append)
    then show ?thesis by (simp add: cbytes_def)
  qed
  ultimately show "mount_match e p dn name"
    unfolding mount_match_bytes [OF assms(1)] Let_def by auto
qed

subsection \<open>The walks\<close>

text \<open>A list of devices as the registration functions build it: linked, every entry named.\<close>

definition named_list :: "'d hal \<Rightarrow> ptr \<Rightarrow> ptr list \<Rightarrow> bool" where
  "named_list s lh ps \<longleftrightarrow> dll (dlinks s) lh ps \<and>
     (\<forall>p \<in> set ps. p \<noteq> 0 \<and> (\<exists>dn. dname (devs s p) = Some dn \<and> dn \<noteq> [] \<and> c_string dn))"

definition first_or_null :: "('a \<Rightarrow> bool) \<Rightarrow> (ptr \<times> 'a) list \<Rightarrow> ptr" where
  "first_or_null P ps = (case find (\<lambda>(p, x). P x) ps of None \<Rightarrow> 0 | Some (p, _) \<Rightarrow> p)"

definition with_names :: "'d hal \<Rightarrow> ptr list \<Rightarrow> (ptr \<times> string) list" where
  "with_names s ps = map (\<lambda>p. (p, the (dname (devs s p)))) ps"

lemma next_after:
  "dll h lh (pre @ p # ps) \<Longrightarrow> p \<noteq> lh \<and> next_of h p = (case ps of [] \<Rightarrow> lh | x # _ \<Rightarrow> x)"
  using ll.lst_next [of h lh pre p ps] ll.lst_distinct [of h lh "pre @ p # ps"] by auto

lemma find_dev_loop_spec:
  assumes "c_string nm"
  shows "named_list s lh (pre @ ps) \<Longrightarrow>
    find_dev_loop e nm lh (case ps of [] \<Rightarrow> lh | x # _ \<Rightarrow> x) s =
      Some (first_or_null (\<lambda>dn. dn = nm) (with_names s ps))"
proof (induction ps arbitrary: pre)
  case Nil
  show ?case
    by (subst find_dev_loop.simps) (simp add: first_or_null_def with_names_def)
next
  case (Cons p ps)
  from Cons.prems have d: "dll (dlinks s) lh (pre @ p # ps)"
    by (simp add: named_list_def)
  from Cons.prems obtain dn where dn: "dname (devs s p) = Some dn" "c_string dn"
    by (auto simp: named_list_def)
  have "find_dev_loop e nm lh (case ps of [] \<Rightarrow> lh | x # _ \<Rightarrow> x) s =
      Some (first_or_null (\<lambda>dn. dn = nm) (with_names s ps))"
    by (rule Cons.IH [of "pre @ [p]"]) (use Cons.prems in simp)
  with next_after [OF d] dn memcmp_name [OF dn(2) assms] show ?case
    by (subst find_dev_loop.simps) (simp add: first_or_null_def with_names_def)
qed

lemma find_file_loop_spec:
  assumes "c_string nm"
  shows "named_list s (alt_fs_list e) (pre @ ps) \<Longrightarrow>
    find_file_loop e nm (case ps of [] \<Rightarrow> alt_fs_list e | x # _ \<Rightarrow> x) s =
      Some (first_or_null (\<lambda>dn. owns dn nm) (with_names s ps))"
proof (induction ps arbitrary: pre)
  case Nil
  show ?case
    by (subst find_file_loop.simps) (simp add: first_or_null_def with_names_def)
next
  case (Cons p ps)
  from Cons.prems have d: "dll (dlinks s) (alt_fs_list e) (pre @ p # ps)"
    by (simp add: named_list_def)
  from Cons.prems obtain dn where dn: "dname (devs s p) = Some dn" "dn \<noteq> []" "c_string dn"
    by (auto simp: named_list_def)
  have "find_file_loop e nm (case ps of [] \<Rightarrow> alt_fs_list e | x # _ \<Rightarrow> x) s =
      Some (first_or_null (\<lambda>dn. owns dn nm) (with_names s ps))"
    by (rule Cons.IH [of "pre @ [p]"]) (use Cons.prems in simp)
  with next_after [OF d] dn mount_match_owns [OF dn(2,3) assms, of e p] show ?case
    by (subst find_file_loop.simps) (simp add: first_or_null_def with_names_def)
qed

lemma find_dev_spec:
  assumes "named_list s lh ps" "c_string nm"
  shows "alt_find_dev e nm lh s = Some (first_or_null (\<lambda>dn. dn = nm) (with_names s ps))"
  using find_dev_loop_spec [OF assms(2), of s lh "[]" ps e] assms(1)
    ll.lst_first [of "dlinks s" lh ps]
  by (simp add: alt_find_dev_def named_list_def)

lemma find_file_spec:
  assumes "named_list s (alt_fs_list e) ps" "c_string nm"
  shows "alt_find_file e nm s = Some (first_or_null (\<lambda>dn. owns dn nm) (with_names s ps))"
  using find_file_loop_spec [OF assms(2), of s e "[]" ps] assms(1)
    ll.lst_first [of "dlinks s" "alt_fs_list e" ps]
  by (simp add: alt_find_file_def named_list_def)

text \<open>Registration puts the new entry first.\<close>

lemma reg_named:
  assumes "named_list s lh ps" "p \<noteq> 0" "p \<noteq> lh" "p \<notin> set ps"
    "dname (devs s p) = Some dn" "dn \<noteq> []" "c_string dn"
  shows "named_list (s\<lparr>dlinks := alt_llist_insert lh p (dlinks s)\<rparr>) lh (p # ps)"
  using assms ll.lst_ins [of "dlinks s" lh ps p] by (auto simp: named_list_def)

text \<open>C15. Searching by name: on a list built by registration, alt_find_dev returns the most recently
  registered device whose name is exactly the given one, and alt_find_file the most recently
  registered file system whose mount point (its name without a final slash) is the file name or
  a prefix of it ending at a slash; null if there is none. The bytes that happen to lie in
  memory behind the strings never matter, although both functions may look at them.\<close>

theorem find_by_name:
  assumes "named_list s (alt_dev_list e) ps" and "named_list s (alt_fs_list e) qs" and "c_string nm"
  shows "alt_find_dev e nm (alt_dev_list e) s = Some (first_or_null (\<lambda>dn. dn = nm) (with_names s ps))
    \<and> alt_find_file e nm s = Some (first_or_null (\<lambda>dn. owns dn nm) (with_names s qs))"
  using find_dev_spec [OF assms(1,3)] find_file_spec [OF assms(2,3)] by simp

text \<open>A system with the null device and one file system, for the witnesses. Its only driver
  counts the calls it gets.\<close>

definition demo_hal_env :: "nat hal_env" where
  "demo_hal_env = \<lparr>alt_dev_list = 0x10, alt_fs_list = 0x20, dev_tail = \<lambda>_ _. CHR ''x'',
     arg_tail = \<lambda>_. CHR ''/'',
     drv_open = \<lambda>_ _ _ _ _ s. (0, s\<lparr>drv := drv s + 1\<rparr>), drv_close = \<lambda>_ _ s. (0, s\<lparr>drv := drv s + 1\<rparr>),
     drv_read = \<lambda>_ _ _ s. (0, [], s\<lparr>drv := drv s + 1\<rparr>),
     drv_write = \<lambda>_ _ b s. (alt_dev_null_write b, s\<lparr>drv := drv s + 1\<rparr>),
     drv_lseek = \<lambda>_ _ _ _ s. (0, s\<lparr>drv := drv s + 1\<rparr>),
     drv_fstat = \<lambda>_ _ s. (0, 0, s\<lparr>drv := drv s + 1\<rparr>),
     drv_ioctl = \<lambda>_ _ _ _ s. (0, s\<lparr>drv := drv s + 1\<rparr>)\<rparr>"

definition demo_devs :: "ptr \<Rightarrow> alt_dev" where
  "demo_devs = (\<lambda>_. \<lparr>dname = None, dopen = 0, dclose = 0, dread = 0, dwrite = 0, dlseek = 0,
     dfstat = 0, dioctl = 0\<rparr>)
     (0x40 := \<lparr>dname = Some ''/mnt/'', dopen = 1, dclose = 1, dread = 1, dwrite = 1, dlseek = 1,
       dfstat = 1, dioctl = 1\<rparr>,
      0x50 := \<lparr>dname = Some ''/dev/tty'', dopen = 1, dclose = 1, dread = 1, dwrite = 1, dlseek = 0,
       dfstat = 0, dioctl = 1\<rparr>)"

definition demo_hal :: "nat hal" where
  "demo_hal = (let s = hal_init demo_hal_env 0x30 9 demo_devs 0
     in snd (alt_dev_reg demo_hal_env 0x50 (snd (alt_fs_reg demo_hal_env 0x40 s))))"

lemma demo_named:
  "named_list demo_hal 0x10 [0x50, 0x30] \<and> named_list demo_hal 0x20 [0x40]"
proof -
  let ?h0 = "ALT_LLIST_HEAD 0x20 \<lparr>next_of = \<lambda>_. 0, previous_of = \<lambda>_. 0\<rparr>"
  let ?h1 = "ALT_LLIST_HEAD 0x10 ?h0"
  have f1: "dll ?h1 0x20 []"
    by (simp add: dll_def ALT_LLIST_HEAD_def)
  have d1: "dll ?h1 0x10 []"
    by (rule dll_head)
  let ?h2 = "alt_llist_insert 0x10 0x30 ?h1"
  have d2: "dll ?h2 0x10 [0x30]" and f2: "dll ?h2 0x20 []"
    using ll.lst_ins [OF d1, of "0x30"] dll_frame_insert [OF d1 f1, of "0x30"] by simp_all
  let ?h3 = "alt_llist_insert 0x20 0x40 ?h2"
  have f3: "dll ?h3 0x20 [0x40]" and d3: "dll ?h3 0x10 [0x30]"
    using ll.lst_ins [OF f2, of "0x40"] dll_frame_insert [OF f2 d2, of "0x40"] by simp_all
  let ?h4 = "alt_llist_insert 0x10 0x50 ?h3"
  have d4: "dll ?h4 0x10 [0x50, 0x30]" and f4: "dll ?h4 0x20 [0x40]"
    using ll.lst_ins [OF d3, of "0x50"] dll_frame_insert [OF d3 f3, of "0x50"] by simp_all
  have "dlinks demo_hal = ?h4" "devs demo_hal = demo_devs(0x30 := alt_dev_null 9)"
    by (simp_all add: demo_hal_def hal_init_def alt_fs_reg_def alt_dev_reg_def
        alt_dev_llist_insert_def demo_hal_env_def demo_devs_def alt_dev_null_def)
  with d4 f4 show ?thesis
    by (simp add: named_list_def demo_devs_def alt_dev_null_def c_string_def)
qed

lemma find_by_name_witness:
  "alt_find_dev demo_hal_env ''/dev/tty'' 0x10 demo_hal = Some 0x50
   \<and> alt_find_file demo_hal_env ''/mnt/a'' demo_hal = Some 0x40"
proof -
  have n: "named_list demo_hal (alt_dev_list demo_hal_env) [0x50, 0x30]"
    "named_list demo_hal (alt_fs_list demo_hal_env) [0x40]"
    using demo_named by (simp_all add: demo_hal_env_def)
  have w: "with_names demo_hal [0x50, 0x30] = [(0x50, ''/dev/tty''), (0x30, ''/dev/null'')]"
    "with_names demo_hal [0x40] = [(0x40, ''/mnt/'')]"
    by (simp_all add: with_names_def demo_hal_def hal_init_def alt_fs_reg_def alt_dev_reg_def
        alt_dev_llist_insert_def demo_devs_def alt_dev_null_def)
  have o: "owns ''/mnt/'' ''/mnt/a''"
    by (auto simp: owns_def mount_point_def)
  show ?thesis
    using find_by_name [OF n, of "''/dev/tty''"] find_by_name [OF n, of "''/mnt/a''"]
    by (simp add: w o first_or_null_def c_string_def demo_hal_env_def)
qed

end
