(* ===== verification/JtagUart.thy ===== *)
theory JtagUart
  imports HalIo Alarm DevList "HOL-Library.Monad_Syntax"
begin

text \<open>
  The JTAG UART driver, \<open>drivers/src/altera_avalon_jtag_uart_*.c\<close>: the interrupt-driven
  driver with its two ring buffers, its interrupt routine, its host-presence timer, \<open>read\<close>,
  \<open>write\<close>, \<open>close\<close> and \<open>ioctl\<close>, and the polled ("small") \<open>read\<close> and \<open>write\<close>. The core behind
  the registers is the parameter \<open>'d bus\<close>.

  The interrupt routine runs between the instructions of \<open>read\<close>, \<open>write\<close> and \<open>close\<close>. Their
  models take a schedule, consumed at every access to the shared part of the state and in every
  round of a waiting loop: each element says whether nothing, the UART's interrupt or the
  timer's interrupt happens there, and interrupts are taken only while the processor has them
  enabled. The copying of a chunk is one step: the interrupt routine works on the other part of
  the buffer. \<open>None\<close>: the schedule is used up before the call returns, or an interrupt routine
  never does.

  Buffer indices are natural numbers: they stay below 2048 (\<open>jinv\<close>), so no operation on
  them wraps.
\<close>

subsection \<open>Registers and state\<close>

definition JTAG_DATA_MSK :: u32 where "JTAG_DATA_MSK = 0xFF"
definition JTAG_RVALID_MSK :: u32 where "JTAG_RVALID_MSK = 0x8000"
definition JTAG_RAVAIL_MSK :: u32 where "JTAG_RAVAIL_MSK = 0xFFFF0000"
definition JTAG_RE_MSK :: u32 where "JTAG_RE_MSK = 1"
definition JTAG_WE_MSK :: u32 where "JTAG_WE_MSK = 2"
definition JTAG_RI_MSK :: u32 where "JTAG_RI_MSK = 0x100"
definition JTAG_WI_MSK :: u32 where "JTAG_WI_MSK = 0x200"
definition JTAG_AC_MSK :: u32 where "JTAG_AC_MSK = 0x400"
definition JTAG_WSPACE_MSK :: u32 where "JTAG_WSPACE_MSK = 0xFFFF0000"
definition JTAG_BUF_LEN :: nat where "JTAG_BUF_LEN = 2048"
definition JTAG_DEFAULT_TIMEOUT :: u32 where "JTAG_DEFAULT_TIMEOUT = 10"
definition TIOCSTIMEOUT :: u32 where "TIOCSTIMEOUT = 0x6a01"
definition TIOCGCONNECTED :: u32 where "TIOCGCONNECTED = 0x6a02"
definition JTAG_O_NONBLOCK :: u32 where "JTAG_O_NONBLOCK = 0x4000"

record jtag_state =
  jbase :: u32
  timeout :: u32
  irq_enable :: u32
  host_inactive :: u32
  rx_in :: nat
  rx_out :: nat
  tx_in :: nat
  tx_out :: nat
  rx_buf :: "u8 list"
  tx_buf :: "u8 list"

text \<open>The driver's state and the world, inside the state of the alarm facility.\<close>

record 'd uart =
  sp :: jtag_state
  jw :: "'d world"

type_synonym 'd usys = "'d uart sys"

abbreviation jsp :: "'d usys \<Rightarrow> jtag_state" where
  "jsp s \<equiv> sp (app s)"

abbreviation jlog :: "'d usys \<Rightarrow> io_event list" where
  "jlog s \<equiv> log (jw (app s))"

definition upd_sp :: "(jtag_state \<Rightarrow> jtag_state) \<Rightarrow> 'd usys \<Rightarrow> 'd usys" where
  "upd_sp f s = s\<lparr>app := (app s)\<lparr>sp := f (jsp s)\<rparr>\<rparr>"

definition set_cpu :: "cpu \<Rightarrow> 'd usys \<Rightarrow> 'd usys" where
  "set_cpu c s = s\<lparr>scpu := c\<rparr>"

definition rd_reg :: "'d bus \<Rightarrow> u32 \<Rightarrow> 'd usys \<Rightarrow> u32 \<times> 'd usys" where
  "rd_reg b r s = (let (v, w) = IORD b (jbase (jsp s)) r (jw (app s)) in (v, s\<lparr>app := (app s)\<lparr>jw := w\<rparr>\<rparr>))"

definition wr_reg :: "'d bus \<Rightarrow> u32 \<Rightarrow> u32 \<Rightarrow> 'd usys \<Rightarrow> 'd usys" where
  "wr_reg b r v s = s\<lparr>app := (app s)\<lparr>jw := IOWR b (jbase (jsp s)) r v (jw (app s))\<rparr>\<rparr>"

text \<open>The static initial value (\<open>ALTERA_AVALON_JTAG_UART_DEV_INSTANCE\<close>): all but the base and the
  timeout is zero.\<close>

definition jtag_instance :: "u32 \<Rightarrow> jtag_state" where
  "jtag_instance bs = \<lparr>jbase = bs, timeout = JTAG_DEFAULT_TIMEOUT, irq_enable = 0, host_inactive = 0,
     rx_in = 0, rx_out = 0, tx_in = 0, tx_out = 0,
     rx_buf = replicate JTAG_BUF_LEN 0, tx_buf = replicate JTAG_BUF_LEN 0\<rparr>"

subsection \<open>Initialisation and the timer\<close>

text \<open>The addresses of the interrupt routine, the timer routine, the state and its alarm are
  arguments. \<open>None\<close>: the interrupt number is outside the handler table.\<close>

definition jtag_uart_init ::
  "'d uart alarm_env \<Rightarrow> 'd bus \<Rightarrow> u32 \<Rightarrow> u32 \<Rightarrow> u32 \<Rightarrow> ptr \<Rightarrow> u32 \<Rightarrow> u32 \<Rightarrow> 'd usys \<Rightarrow> 'd usys option" where
  "jtag_uart_init e b isr_addr timeout_addr sp_addr alarm_addr irq_controller_id irq s =
     (let s = upd_sp (\<lambda>j. j\<lparr>irq_enable := JTAG_RE_MSK\<rparr>) s;
          s = wr_reg b 1 (irq_enable (jsp s)) s
      in case alt_ic_isr_register irq_controller_id irq isr_addr sp_addr 0 (scpu s) of
           None \<Rightarrow> None
         | Some (rc, c) \<Rightarrow>
             (let s = set_cpu c s;
                  s = upd_sp (\<lambda>j. j\<lparr>host_inactive := 0\<rparr>) s;
                  (rc, s) = alt_alarm_start e alarm_addr (alt_ticks_per_second s) timeout_addr sp_addr s
              in Some (if rc < 0 then upd_sp (\<lambda>j. j\<lparr>timeout := INT_MAX\<rparr>) s else s)))"

text \<open>The timer routine. Its last action posts a flag, which does nothing without an operating
  system.\<close>

definition jtag_uart_timeout :: "'d bus \<Rightarrow> 'd usys \<Rightarrow> u32 \<times> 'd usys" where
  "jtag_uart_timeout b s =
     (let (control, s) = rd_reg b 1 s;
          s = (if control AND JTAG_AC_MSK \<noteq> 0
               then upd_sp (\<lambda>j. j\<lparr>host_inactive := 0\<rparr>)
                      (wr_reg b 1 (irq_enable (jsp s) OR JTAG_AC_MSK) s)
               else if host_inactive (jsp s) < INT_MAX - 2
               then upd_sp (\<lambda>j. j\<lparr>host_inactive := host_inactive j + 1\<rparr>) s
               else s)
      in (alt_ticks_per_second s, s))"

subsection \<open>The interrupt routine\<close>

definition rx_store :: "u8 \<Rightarrow> jtag_state \<Rightarrow> jtag_state" where
  "rx_store c j = j\<lparr>rx_buf := (rx_buf j)[rx_in j := c], rx_in := (rx_in j + 1) mod JTAG_BUF_LEN\<rparr>"

text \<open>The inner loop of the read part: empties the receive FIFO as far as there is room.\<close>

partial_function (option) isr_rx :: "'d bus \<Rightarrow> u32 \<Rightarrow> 'd usys \<Rightarrow> (u32 \<times> 'd usys) option" where
  "isr_rx b data s =
     (if (rx_in (jsp s) + 1) mod JTAG_BUF_LEN = rx_out (jsp s) then Some (data, s)
      else (let (data, s) = rd_reg b 0 s
            in if data AND JTAG_RVALID_MSK = 0 then Some (data, s)
               else isr_rx b data (upd_sp (rx_store (ucast (data AND JTAG_DATA_MSK))) s)))"

definition irq_off :: "'d bus \<Rightarrow> u32 \<Rightarrow> 'd usys \<Rightarrow> 'd usys" where
  "irq_off b m s =
     (let s = upd_sp (\<lambda>j. j\<lparr>irq_enable := irq_enable j AND NOT m\<rparr>) s;
          s = wr_reg b 1 (irq_enable (jsp s)) s
      in snd (rd_reg b 1 s))"

definition isr_read :: "'d bus \<Rightarrow> 'd usys \<Rightarrow> 'd usys option" where
  "isr_read b s = do {
     (data, s) \<leftarrow> isr_rx b (push_bit 16 1) s;
     Some (if data AND JTAG_RAVAIL_MSK \<noteq> 0 then irq_off b JTAG_RE_MSK s else s) }"

text \<open>The loop of the write part. A \<open>char\<close> is signed.\<close>

fun isr_tx :: "'d bus \<Rightarrow> nat \<Rightarrow> 'd usys \<Rightarrow> nat \<times> 'd usys" where
  "isr_tx b 0 s = (0, s)"
| "isr_tx b (Suc space) s =
     (if tx_out (jsp s) \<noteq> tx_in (jsp s)
      then (let s = wr_reg b 0 (scast (tx_buf (jsp s) ! tx_out (jsp s))) s;
                s = upd_sp (\<lambda>j. j\<lparr>tx_out := (tx_out j + 1) mod JTAG_BUF_LEN\<rparr>) s
            in isr_tx b space s)
      else (Suc space, s))"

definition isr_write :: "'d bus \<Rightarrow> u32 \<Rightarrow> 'd usys \<Rightarrow> 'd usys" where
  "isr_write b control s =
     (let (space, s) = isr_tx b (unat (drop_bit 16 (control AND JTAG_WSPACE_MSK))) s
      in if space > 0 then irq_off b JTAG_WE_MSK s else s)"

partial_function (option) jtag_uart_irq :: "'d bus \<Rightarrow> 'd usys \<Rightarrow> 'd usys option" where
  "jtag_uart_irq b s =
     (let (control, s) = rd_reg b 1 s
      in if control AND (JTAG_RI_MSK OR JTAG_WI_MSK) = 0 then Some s
         else do {
           s \<leftarrow> (if control AND JTAG_RI_MSK \<noteq> 0 then isr_read b s else Some s);
           jtag_uart_irq b (if control AND JTAG_WI_MSK \<noteq> 0 then isr_write b control s else s) })"

subsection \<open>Schedules\<close>

datatype preempt = Run | Uart_irq | Timer_irq

fun interrupt :: "'d bus \<Rightarrow> preempt \<Rightarrow> 'd usys \<Rightarrow> 'd usys option" where
  "interrupt b Run s = Some s"
| "interrupt b Uart_irq s = jtag_uart_irq b s"
| "interrupt b Timer_irq s = Some (snd (jtag_uart_timeout b s))"

fun pt :: "'d bus \<Rightarrow> preempt list \<Rightarrow> 'd usys \<Rightarrow> (preempt list \<times> 'd usys) option" where
  "pt b [] s = None"
| "pt b (x # xs) s =
     map_option (Pair xs) (if alt_irq_enabled (scpu s) \<noteq> 0 then interrupt b x s else Some s)"

text \<open>The critical section at the end of \<open>read\<close> and in \<open>write\<close>: set a bit of the control register.\<close>

definition irq_on ::
  "'d bus \<Rightarrow> u32 \<Rightarrow> preempt list \<Rightarrow> 'd usys \<Rightarrow> (preempt list \<times> 'd usys) option" where
  "irq_on b m xs s = do {
     (xs, s) \<leftarrow> pt b xs s;
     let (ctxt, c) = alt_irq_disable_all (scpu s);
     let s = set_cpu c s;
     (xs, s) \<leftarrow> pt b xs s;
     let s = upd_sp (\<lambda>j. j\<lparr>irq_enable := irq_enable j OR m\<rparr>) s;
     (xs, s) \<leftarrow> pt b xs s;
     let s = wr_reg b 1 (irq_enable (jsp s)) s;
     (xs, s) \<leftarrow> pt b xs s;
     Some (xs, set_cpu (alt_irq_enable_all ctxt (scpu s)) s) }"

subsection \<open>read\<close>

text \<open>The \<open>do ... while (space > 0)\<close> loop, which returns the last \<open>in\<close>. \<open>ptr\<close> is what has been
  copied.\<close>

partial_function (option) read_copy ::
  "'d bus \<Rightarrow> nat \<Rightarrow> u8 list \<Rightarrow> preempt list \<Rightarrow> 'd usys \<Rightarrow> (nat \<times> nat \<times> u8 list \<times> preempt list \<times> 'd usys) option" where
  "read_copy b space ptr xs s = do {
     (xs, s) \<leftarrow> pt b xs s;
     let inn = rx_in (jsp s);
     (xs, s) \<leftarrow> pt b xs s;
     let out = rx_out (jsp s);
     let n = (if inn \<ge> out then inn - out else JTAG_BUF_LEN - out);
     if n = 0 then Some (inn, space, ptr, xs, s)
     else do {
       let n = (if n > space then space else n);
       (xs, s) \<leftarrow> pt b xs s;
       let ptr = ptr @ take n (drop out (rx_buf (jsp s)));
       let space = space - n;
       (xs, s) \<leftarrow> pt b xs s;
       let s = upd_sp (\<lambda>j. j\<lparr>rx_out := (out + n) mod JTAG_BUF_LEN\<rparr>) s;
       if space > 0 then read_copy b space ptr xs s else Some (inn, space, ptr, xs, s) } }"

text \<open>\<open>while (in == sp->rx_in && sp->host_inactive < sp->timeout);\<close>\<close>

partial_function (option) read_spin ::
  "'d bus \<Rightarrow> nat \<Rightarrow> preempt list \<Rightarrow> 'd usys \<Rightarrow> (preempt list \<times> 'd usys) option" where
  "read_spin b inn xs s = do {
     (xs, s) \<leftarrow> pt b xs s;
     if inn \<noteq> rx_in (jsp s) then Some (xs, s)
     else do {
       (xs, s) \<leftarrow> pt b xs s;
       if host_inactive (jsp s) < timeout (jsp s) then read_spin b inn xs s else Some (xs, s) } }"

partial_function (option) read_loop ::
  "'d bus \<Rightarrow> u32 \<Rightarrow> nat \<Rightarrow> u8 list \<Rightarrow> preempt list \<Rightarrow> 'd usys \<Rightarrow> (u8 list \<times> preempt list \<times> 'd usys) option" where
  "read_loop b flags space ptr xs s =
     (if space > 0
      then do {
        (inn, space, ptr, xs, s) \<leftarrow> read_copy b space ptr xs s;
        if ptr \<noteq> [] then Some (ptr, xs, s)
        else if flags AND JTAG_O_NONBLOCK \<noteq> 0 then Some (ptr, xs, s)
        else do {
          (xs, s) \<leftarrow> read_spin b inn xs s;
          (xs, s) \<leftarrow> pt b xs s;
          if inn = rx_in (jsp s) then Some (ptr, xs, s)
          else read_loop b flags space ptr xs s } }
      else Some (ptr, xs, s))"

definition jtag_uart_read ::
  "'d bus \<Rightarrow> int \<Rightarrow> u32 \<Rightarrow> preempt list \<Rightarrow> 'd usys \<Rightarrow> (int \<times> u8 list \<times> preempt list \<times> 'd usys) option" where
  "jtag_uart_read b space flags xs s = do {
     (ptr, xs, s) \<leftarrow> read_loop b flags (nat space) [] xs s;
     (xs, s) \<leftarrow> (if ptr \<noteq> [] then irq_on b JTAG_RE_MSK xs s else Some (xs, s));
     Some (if ptr \<noteq> [] then int (length ptr)
           else if flags AND JTAG_O_NONBLOCK \<noteq> 0 then - EWOULDBLOCK
           else - EIO, ptr, xs, s) }"

subsection \<open>write\<close>

text \<open>The copying loop; \<open>ptr\<close> is what remains of the data, \<open>count\<close> its length. Returns the last
  \<open>out\<close>.\<close>

partial_function (option) write_copy ::
  "'d bus \<Rightarrow> nat \<Rightarrow> u8 list \<Rightarrow> preempt list \<Rightarrow> 'd usys \<Rightarrow> (nat \<times> u8 list \<times> preempt list \<times> 'd usys) option" where
  "write_copy b out ptr xs s =
     (if length ptr > 0
      then do {
        (xs, s) \<leftarrow> pt b xs s;
        let inn = tx_in (jsp s);
        (xs, s) \<leftarrow> pt b xs s;
        let out = tx_out (jsp s);
        let n = (if inn < out then out - 1 - inn
                 else if out > 0 then JTAG_BUF_LEN - inn
                 else JTAG_BUF_LEN - 1 - inn);
        if n = 0 then Some (out, ptr, xs, s)
        else do {
          let n = (if n > length ptr then length ptr else n);
          (xs, s) \<leftarrow> pt b xs s;
          let s = upd_sp (\<lambda>j. j\<lparr>tx_buf := take inn (tx_buf j) @ take n ptr @ drop (inn + n) (tx_buf j)\<rparr>) s;
          let ptr = drop n ptr;
          (xs, s) \<leftarrow> pt b xs s;
          let s = upd_sp (\<lambda>j. j\<lparr>tx_in := (inn + n) mod JTAG_BUF_LEN\<rparr>) s;
          write_copy b out ptr xs s } }
      else Some (out, ptr, xs, s))"

partial_function (option) write_spin ::
  "'d bus \<Rightarrow> nat \<Rightarrow> preempt list \<Rightarrow> 'd usys \<Rightarrow> (preempt list \<times> 'd usys) option" where
  "write_spin b out xs s = do {
     (xs, s) \<leftarrow> pt b xs s;
     if out \<noteq> tx_out (jsp s) then Some (xs, s)
     else do {
       (xs, s) \<leftarrow> pt b xs s;
       if host_inactive (jsp s) < timeout (jsp s) then write_spin b out xs s else Some (xs, s) } }"

partial_function (option) write_loop ::
  "'d bus \<Rightarrow> u32 \<Rightarrow> nat \<Rightarrow> u8 list \<Rightarrow> preempt list \<Rightarrow> 'd usys \<Rightarrow> (u8 list \<times> preempt list \<times> 'd usys) option" where
  "write_loop b flags out ptr xs s = do {
     (out, ptr, xs, s) \<leftarrow> write_copy b out ptr xs s;
     (xs, s) \<leftarrow> irq_on b JTAG_WE_MSK xs s;
     if length ptr > 0
     then if flags AND JTAG_O_NONBLOCK \<noteq> 0 then Some (ptr, xs, s)
          else do {
            (xs, s) \<leftarrow> write_spin b out xs s;
            (xs, s) \<leftarrow> pt b xs s;
            if host_inactive (jsp s) \<noteq> 0 then Some (ptr, xs, s)
            else write_loop b flags out ptr xs s }
     else Some (ptr, xs, s) }"

definition jtag_uart_write ::
  "'d bus \<Rightarrow> u8 list \<Rightarrow> u32 \<Rightarrow> preempt list \<Rightarrow> 'd usys \<Rightarrow> (int \<times> preempt list \<times> 'd usys) option" where
  "jtag_uart_write b data flags xs s = do {
     (ptr, xs, s) \<leftarrow> write_loop b flags 0 data xs s;
     Some (if length ptr \<noteq> length data then int (length data - length ptr)
           else if flags AND JTAG_O_NONBLOCK \<noteq> 0 then - EWOULDBLOCK
           else - EIO, xs, s) }"

subsection \<open>close, ioctl and the file descriptor wrappers\<close>

partial_function (option) jtag_uart_close ::
  "'d bus \<Rightarrow> u32 \<Rightarrow> preempt list \<Rightarrow> 'd usys \<Rightarrow> (int \<times> preempt list \<times> 'd usys) option" where
  "jtag_uart_close b flags xs s = do {
     (xs, s) \<leftarrow> pt b xs s;
     if tx_out (jsp s) \<noteq> tx_in (jsp s)
     then do {
       (xs, s) \<leftarrow> pt b xs s;
       if host_inactive (jsp s) < timeout (jsp s)
       then if flags AND JTAG_O_NONBLOCK \<noteq> 0 then Some (- EWOULDBLOCK, xs, s)
            else jtag_uart_close b flags xs s
       else Some (0, xs, s) }
     else Some (0, xs, s) }"

text \<open>The argument points to an \<open>int\<close>: its value goes in, and what is stored there comes out.\<close>

definition jtag_uart_ioctl :: "u32 \<Rightarrow> u32 \<Rightarrow> 'd usys \<Rightarrow> int \<times> u32 option \<times> 'd usys" where
  "jtag_uart_ioctl req arg s =
     (if req = TIOCSTIMEOUT
      then (if timeout (jsp s) \<noteq> INT_MAX
            then (0, None, upd_sp (\<lambda>j. j\<lparr>timeout :=
                     (if sint arg \<ge> 2 \<and> sint arg < sint INT_MAX then arg else INT_MAX - 1)\<rparr>) s)
            else (- ENOTTY, None, s))
      else if req = TIOCGCONNECTED
      then (if timeout (jsp s) \<noteq> INT_MAX
            then (0, Some (if host_inactive (jsp s) < timeout (jsp s) then 1 else 0), s)
            else (- ENOTTY, None, s))
      else (- ENOTTY, None, s))"

definition jtag_uart_read_fd ::
  "'d bus \<Rightarrow> alt_fd \<Rightarrow> int \<Rightarrow> preempt list \<Rightarrow> 'd usys \<Rightarrow> (int \<times> u8 list \<times> preempt list \<times> 'd usys) option" where
  "jtag_uart_read_fd b fd space = jtag_uart_read b space (fd_flags fd)"

definition jtag_uart_write_fd ::
  "'d bus \<Rightarrow> alt_fd \<Rightarrow> u8 list \<Rightarrow> preempt list \<Rightarrow> 'd usys \<Rightarrow> (int \<times> preempt list \<times> 'd usys) option" where
  "jtag_uart_write_fd b fd data = jtag_uart_write b data (fd_flags fd)"

definition jtag_uart_close_fd ::
  "'d bus \<Rightarrow> alt_fd \<Rightarrow> preempt list \<Rightarrow> 'd usys \<Rightarrow> (int \<times> preempt list \<times> 'd usys) option" where
  "jtag_uart_close_fd b fd = jtag_uart_close b (fd_flags fd)"

definition jtag_uart_ioctl_fd :: "alt_fd \<Rightarrow> u32 \<Rightarrow> u32 \<Rightarrow> 'd usys \<Rightarrow> int \<times> u32 option \<times> 'd usys" where
  "jtag_uart_ioctl_fd fd req arg = jtag_uart_ioctl req arg"

subsection \<open>The polled driver\<close>

text \<open>With \<open>ALTERA_AVALON_JTAG_UART_SMALL\<close> there is no buffer and no interrupt; \<open>None\<close> is a loop that
  does not end.\<close>

partial_function (option) small_read_loop ::
  "'d bus \<Rightarrow> u32 \<Rightarrow> int \<Rightarrow> u32 \<Rightarrow> u8 list \<Rightarrow> 'd world \<Rightarrow> (u8 list \<times> 'd world) option" where
  "small_read_loop b bs space flags ptr w =
     (if int (length ptr) < space
      then (let (data, w) = IORD b bs 0 w
            in if data AND JTAG_RVALID_MSK \<noteq> 0
               then small_read_loop b bs space flags (ptr @ [ucast (data AND JTAG_DATA_MSK)]) w
               else if ptr \<noteq> [] then Some (ptr, w)
               else if flags AND JTAG_O_NONBLOCK \<noteq> 0 then Some (ptr, w)
               else small_read_loop b bs space flags ptr w)
      else Some (ptr, w))"

definition small_read :: "'d bus \<Rightarrow> u32 \<Rightarrow> int \<Rightarrow> u32 \<Rightarrow> 'd world \<Rightarrow> (int \<times> u8 list \<times> 'd world) option" where
  "small_read b bs space flags w =
     map_option (\<lambda>(ptr, w). (if ptr \<noteq> [] then int (length ptr)
         else if flags AND JTAG_O_NONBLOCK \<noteq> 0 then - EWOULDBLOCK else - EIO, ptr, w))
       (small_read_loop b bs space flags [] w)"

partial_function (option) small_write_loop :: "'d bus \<Rightarrow> u32 \<Rightarrow> u8 list \<Rightarrow> 'd world \<Rightarrow> 'd world option" where
  "small_write_loop b bs ptr w =
     (case ptr of
        [] \<Rightarrow> Some w
      | c # cs \<Rightarrow>
          (let (control, w) = IORD b bs 1 w
           in if control AND JTAG_WSPACE_MSK \<noteq> 0 then small_write_loop b bs cs (IOWR b bs 0 (scast c) w)
              else small_write_loop b bs ptr w))"

definition small_write :: "'d bus \<Rightarrow> u32 \<Rightarrow> u8 list \<Rightarrow> u32 \<Rightarrow> 'd world \<Rightarrow> (int \<times> 'd world) option" where
  "small_write b bs data flags w =
     map_option (Pair (int (length data))) (small_write_loop b bs data w)"

text \<open>The equations of the loops are code equations, for evaluation.\<close>

declare isr_rx.simps [code] jtag_uart_irq.simps [code] read_copy.simps [code] read_spin.simps [code]
  read_loop.simps [code] write_copy.simps [code] write_spin.simps [code] write_loop.simps [code]
  jtag_uart_close.simps [code] small_read_loop.simps [code] small_write_loop.simps [code]

end
