(* ===== verification/Ring.thy ===== *)
theory Ring
  imports Prelude
begin

text \<open>
  Ring buffers in general: a buffer of \<open>N\<close> slots of which one is always left empty, with the
  index of the next slot to fill and of the next slot to empty. \<open>ring_queue\<close> is the queue a
  ring holds; chunks are put in and taken out without passing the end of the buffer. The
  locale \<open>fifo\<close> is the contract of such a buffer, over any representation.
\<close>

definition ring_ok :: "nat \<Rightarrow> 'a list \<Rightarrow> nat \<Rightarrow> nat \<Rightarrow> bool" where
  "ring_ok N buf out inn \<longleftrightarrow> length buf = N \<and> out < N \<and> inn < N"

definition ring_queue :: "'a list \<Rightarrow> nat \<Rightarrow> nat \<Rightarrow> 'a list" where
  "ring_queue buf out inn =
     (if out \<le> inn then take (inn - out) (drop out buf) else drop out buf @ take inn buf)"

definition splice_at :: "nat \<Rightarrow> 'a list \<Rightarrow> 'a list \<Rightarrow> 'a list" where
  "splice_at i xs buf = take i buf @ xs @ drop (i + length xs) buf"

lemma splice_one: "i < length buf \<Longrightarrow> splice_at i [x] buf = buf[i := x]"
  by (simp add: splice_at_def upd_conv_take_nth_drop)

lemma splice_length: "i + length xs \<le> length buf \<Longrightarrow> length (splice_at i xs buf) = length buf"
  by (simp add: splice_at_def)

lemma splice_take: "i + length xs \<le> length buf \<Longrightarrow> take (i + length xs) (splice_at i xs buf) = take i buf @ xs"
  by (simp add: splice_at_def)

lemma splice_drop: "i + length xs \<le> k \<Longrightarrow> i \<le> length buf \<Longrightarrow> drop k (splice_at i xs buf) = drop k buf"
  by (simp add: splice_at_def)

text \<open>The free and the filled slots that follow without a wrap.\<close>

definition free_run :: "nat \<Rightarrow> nat \<Rightarrow> nat \<Rightarrow> nat" where
  "free_run N out inn =
     (if inn < out then out - 1 - inn else if out > 0 then N - inn else N - 1 - inn)"

definition full_run :: "nat \<Rightarrow> nat \<Rightarrow> nat \<Rightarrow> nat" where
  "full_run N out inn = (if inn \<ge> out then inn - out else N - out)"

lemma mod_ring: "a + n \<le> N \<Longrightarrow> a < N \<Longrightarrow> (a + n) mod N = (if a + n = N then 0 else a + n)" for a n N :: nat
  by simp

lemma ring_put:
  assumes ok: "ring_ok N buf out inn" and n: "length xs \<le> free_run N out inn"
  shows "ring_ok N (splice_at inn xs buf) out ((inn + length xs) mod N)
    \<and> ring_queue (splice_at inn xs buf) out ((inn + length xs) mod N) = ring_queue buf out inn @ xs"
proof -
  from ok have l: "length buf = N" "out < N" "inn < N" by (simp_all add: ring_ok_def)
  have le: "inn + length xs \<le> N"
    using n l by (auto simp: free_run_def split: if_splits)
  note m = mod_ring [OF le l(3)]
  have len: "length (splice_at inn xs buf) = N"
    using le l by (simp add: splice_length)
  have in_N: "(inn + length xs) mod N < N" using l by simp
  have q: "ring_queue (splice_at inn xs buf) out ((inn + length xs) mod N) = ring_queue buf out inn @ xs"
  proof (cases "inn < out")
    case True
    then have lt: "inn + length xs < out" using n by (simp add: free_run_def)
    with m l have "(inn + length xs) mod N = inn + length xs" by simp
    with lt True le l show ?thesis
      by (simp add: ring_queue_def splice_drop splice_take)
  next
    case False
    have tk: "take (inn + length xs) (splice_at inn xs buf) = take inn buf @ xs"
      using le l by (simp add: splice_take)
    show ?thesis
    proof (cases "inn + length xs = N")
      case True
      then have "0 < out" using n False l by (simp add: free_run_def split: if_splits)
      moreover have "splice_at inn xs buf = take inn buf @ xs"
        using True l by (simp add: splice_at_def)
      ultimately show ?thesis
        using True m False l by (simp add: ring_queue_def drop_take)
    next
      case ne: False
      have "take (inn + length xs - out) (drop out (splice_at inn xs buf)) = drop out (take inn buf @ xs)"
        unfolding tk [symmetric] by (simp add: drop_take)
      with ne m False l show ?thesis
        by (simp add: ring_queue_def drop_take)
    qed
  qed
  with len in_N l show ?thesis by (simp add: ring_ok_def)
qed

lemma ring_get:
  assumes ok: "ring_ok N buf out inn" and n: "n \<le> full_run N out inn"
  shows "ring_ok N buf ((out + n) mod N) inn
    \<and> take n (drop out buf) @ ring_queue buf ((out + n) mod N) inn = ring_queue buf out inn"
proof -
  from ok have l: "length buf = N" "out < N" "inn < N" by (simp_all add: ring_ok_def)
  have le: "out + n \<le> N" using n l by (auto simp: full_run_def split: if_splits)
  note m = mod_ring [OF le l(2)]
  have "take n (drop out buf) @ ring_queue buf ((out + n) mod N) inn = ring_queue buf out inn"
  proof (cases "out \<le> inn")
    case True
    with n have "out + n \<le> inn" by (simp add: full_run_def)
    moreover from this have "take (inn - out) (drop out buf) = take n (drop out buf) @ take (inn - (out + n)) (drop (out + n) buf)"
      by (simp add: take_add [symmetric] add.commute drop_drop [symmetric] del: drop_drop)
    ultimately show ?thesis using True m l by (simp add: ring_queue_def)
  next
    case False
    show ?thesis
    proof (cases "out + n = N")
      case True
      with m have "(out + n) mod N = 0" by simp
      with True False l show ?thesis by (simp add: ring_queue_def)
    next
      case ne: False
      have "take n (drop out buf) @ drop (out + n) buf = drop out buf"
        by (metis add.commute append_take_drop_id drop_drop)
      with ne m False l show ?thesis by (simp add: ring_queue_def)
    qed
  qed
  with l show ?thesis by (simp add: ring_ok_def)
qed

lemma ring_queue_length:
  "ring_ok N buf out inn \<Longrightarrow> length (ring_queue buf out inn) = (if out \<le> inn then inn - out else N - out + inn)"
  by (auto simp: ring_queue_def ring_ok_def)

lemma ring_queue_bound: "ring_ok N buf out inn \<Longrightarrow> length (ring_queue buf out inn) < N"
  using ring_queue_length [of N buf out inn] by (auto simp: ring_ok_def)

lemma ring_empty: "ring_ok N buf out inn \<Longrightarrow> ring_queue buf out inn = [] \<longleftrightarrow> inn = out"
  using ring_queue_length [of N buf out inn] by (auto simp: ring_ok_def split: if_splits)

lemma full_run_empty: "ring_ok N buf out inn \<Longrightarrow> full_run N out inn = 0 \<longleftrightarrow> inn = out"
  by (auto simp: full_run_def ring_ok_def)

lemma full_run_min: "ring_ok N buf out inn \<Longrightarrow> full_run N out inn = min (length (ring_queue buf out inn)) (N - out)"
  by (simp add: ring_queue_length) (auto simp: full_run_def ring_ok_def)

lemma free_run_min: "ring_ok N buf out inn \<Longrightarrow>
    free_run N out inn = min (N - 1 - length (ring_queue buf out inn)) (N - inn)"
  by (simp add: ring_queue_length) (auto simp: free_run_def ring_ok_def)

lemma ring_full: "ring_ok N buf out inn \<Longrightarrow> 1 < N \<Longrightarrow> (inn + 1) mod N = out \<longleftrightarrow> free_run N out inn = 0"
  using mod_ring [of inn 1 N] by (auto simp: free_run_def ring_ok_def)

subsection \<open>The contract\<close>

text \<open>A buffer with a bounded number of items that can go in (\<open>room\<close>) and come out (\<open>avail\<close>) at once.
  \<open>put\<close> takes an argument that stands for the items \<open>items x\<close>.\<close>

locale fifo =
  fixes ok :: "'s \<Rightarrow> bool"
    and content :: "'s \<Rightarrow> 'a list"
    and items :: "'x \<Rightarrow> 'a list"
    and room avail :: "'s \<Rightarrow> nat"
    and put :: "'x \<Rightarrow> 's \<Rightarrow> 's"
    and front :: "nat \<Rightarrow> 's \<Rightarrow> 'a list"
    and get :: "nat \<Rightarrow> 's \<Rightarrow> 's"
  assumes put_law: "ok s \<Longrightarrow> length (items x) \<le> room s \<Longrightarrow> ok (put x s) \<and> content (put x s) = content s @ items x"
    and get_law: "ok s \<Longrightarrow> n \<le> avail s \<Longrightarrow> ok (get n s) \<and> front n s @ content (get n s) = content s"
    and front_law: "ok s \<Longrightarrow> n \<le> avail s \<Longrightarrow> length (front n s) = n"
    and avail_law: "ok s \<Longrightarrow> avail s = 0 \<longleftrightarrow> content s = []"
begin

lemma get_content: "ok s \<Longrightarrow> n \<le> avail s \<Longrightarrow> content (get n s) = drop n (content s) \<and> front n s = take n (content s)"
  using get_law [of s n] front_law [of s n] by (metis append_eq_conv_conj)

lemma avail_le: "ok s \<Longrightarrow> avail s \<le> length (content s)"
  using get_law [of s "avail s"] front_law [of s "avail s"] by (metis le_refl length_append le_add1)

text \<open>Items put in come out in order, behind those already there.\<close>

lemma put_then_get:
  assumes "ok s" "length (items x) \<le> room s" "content s = []" "length (items x) \<le> avail (put x s)"
  shows "front (length (items x)) (put x s) = items x \<and> content (get (length (items x)) (put x s)) = []"
  using put_law [OF assms(1,2)] get_content [of "put x s" "length (items x)"] assms(3,4) by simp

lemma put_keeps_front:
  assumes "ok s" "length (items x) \<le> room s" "n \<le> avail s" "n \<le> avail (put x s)"
  shows "front n (put x s) = front n s"
proof -
  have "n \<le> length (content s)" using avail_le [OF assms(1)] assms(3) by simp
  then show ?thesis
    using put_law [OF assms(1,2)] get_content [OF assms(1,3)] get_content [OF _ assms(4)] by simp
qed

end

end
