(* ===== verification/JtagProps.thy ===== *)
theory JtagProps
  imports JtagUart Ring
begin

text \<open>
  The JTAG UART driver against its specification: two queues. \<open>rxq\<close> and \<open>txq\<close> are the queues in
  the two ring buffers; what went through the data register is in the log. \<open>jflow\<close> says
  that nothing was lost, doubled or reordered on the way between the core, the buffers and the
  callers; every step of the driver is such a flow, and \<open>quiet\<close> is what an interrupt may
  change in the middle of \<open>read\<close> or \<open>write\<close>.
\<close>

subsection \<open>The queues\<close>

definition rxq :: "'d usys \<Rightarrow> u8 list" where
  "rxq s = ring_queue (rx_buf (jsp s)) (rx_out (jsp s)) (rx_in (jsp s))"

definition txq :: "'d usys \<Rightarrow> u8 list" where
  "txq s = ring_queue (tx_buf (jsp s)) (tx_out (jsp s)) (tx_in (jsp s))"

definition jinv :: "jtag_state \<Rightarrow> bool" where
  "jinv j \<longleftrightarrow> ring_ok JTAG_BUF_LEN (rx_buf j) (rx_out j) (rx_in j)
     \<and> ring_ok JTAG_BUF_LEN (tx_buf j) (tx_out j) (tx_in j) \<and> host_inactive j \<le> INT_MAX - 2"

text \<open>What an access to the data register carries.\<close>

fun rx_byte :: "u32 \<Rightarrow> io_event \<Rightarrow> u8 list" where
  "rx_byte bs (IoRd a v) = (if a = bs \<and> v AND JTAG_RVALID_MSK \<noteq> 0 then [ucast (v AND JTAG_DATA_MSK)] else [])"
| "rx_byte bs _ = []"

fun tx_byte :: "u32 \<Rightarrow> io_event \<Rightarrow> u8 list" where
  "tx_byte bs (IoWr a v) = (if a = bs then [ucast v] else [])"
| "tx_byte bs _ = []"

definition received :: "u32 \<Rightarrow> io_event list \<Rightarrow> u8 list" where
  "received bs es = concat (map (rx_byte bs) es)"

definition sent :: "u32 \<Rightarrow> io_event list \<Rightarrow> u8 list" where
  "sent bs es = concat (map (tx_byte bs) es)"

lemma received_simps [simp]:
  "received bs [] = []" "received bs (x # es) = rx_byte bs x @ received bs es"
  "received bs (es @ es') = received bs es @ received bs es'"
  "sent bs [] = []" "sent bs (x # es) = tx_byte bs x @ sent bs es"
  "sent bs (es @ es') = sent bs es @ sent bs es'"
  by (simp_all add: received_def sent_def)

text \<open>\<open>i\<close> is put into the transmit queue by the caller and \<open>o\<close> taken out of the receive queue.\<close>

definition jflow :: "'d usys \<Rightarrow> u8 list \<Rightarrow> u8 list \<Rightarrow> 'd usys \<Rightarrow> bool" where
  "jflow s i r s' \<longleftrightarrow> jinv (jsp s') \<and> jbase (jsp s') = jbase (jsp s) \<and> timeout (jsp s') = timeout (jsp s) \<and>
     (\<exists>es. jlog s' = jlog s @ es
       \<and> rxq s @ received (jbase (jsp s)) es = r @ rxq s'
       \<and> txq s @ i = sent (jbase (jsp s)) es @ txq s')"

lemma jflow_refl: "jinv (jsp s) \<Longrightarrow> jflow s [] [] s"
  by (simp add: jflow_def)

lemma jflow_inv: "jflow s i r s' \<Longrightarrow> jinv (jsp s')"
  by (simp add: jflow_def)

lemma jflow_trans:
  assumes "jflow s i r s'" "jflow s' i' r' s''"
  shows "jflow s (i @ i') (r @ r') s''"
proof -
  from assms(1) obtain es where e: "jlog s' = jlog s @ es" "jbase (jsp s') = jbase (jsp s)"
    "rxq s @ received (jbase (jsp s)) es = r @ rxq s'" "txq s @ i = sent (jbase (jsp s)) es @ txq s'"
    "timeout (jsp s') = timeout (jsp s)"
    unfolding jflow_def by auto
  from assms(2) obtain es' where e': "jlog s'' = jlog s' @ es'" "jbase (jsp s'') = jbase (jsp s')" "jinv (jsp s'')"
    "rxq s' @ received (jbase (jsp s')) es' = r' @ rxq s''" "txq s' @ i' = sent (jbase (jsp s')) es' @ txq s''"
    "timeout (jsp s'') = timeout (jsp s')"
    unfolding jflow_def by auto
  have "rxq s @ received (jbase (jsp s)) (es @ es') = (r @ r') @ rxq s''"
    using e(3) e'(4) e(2) by (simp add: append_assoc [symmetric] del: append_assoc) simp
  moreover have "txq s @ i @ i' = sent (jbase (jsp s)) (es @ es') @ txq s''"
    using e(4) e'(5) e(2) by (simp add: append_assoc [symmetric] del: append_assoc) simp
  ultimately show ?thesis
    unfolding jflow_def using e e' by (intro conjI exI [of _ "es @ es'"]) simp_all
qed

text \<open>An interrupt leaves the parts of the state that \<open>read\<close> and \<open>write\<close> own.\<close>

definition quiet :: "'d usys \<Rightarrow> 'd usys \<Rightarrow> bool" where
  "quiet s s' \<longleftrightarrow> jflow s [] [] s' \<and> rx_out (jsp s') = rx_out (jsp s) \<and> tx_in (jsp s') = tx_in (jsp s)
     \<and> tx_buf (jsp s') = tx_buf (jsp s) \<and> scpu s' = scpu s"

lemma quiet_refl: "jinv (jsp s) \<Longrightarrow> quiet s s"
  by (simp add: quiet_def jflow_refl)

lemma quiet_trans: "quiet s s' \<Longrightarrow> quiet s' s'' \<Longrightarrow> quiet s s''"
  using jflow_trans [of s "[]" "[]" s' "[]" "[]" s''] by (simp add: quiet_def)

lemma quiet_inv: "quiet s s' \<Longrightarrow> jinv (jsp s')"
  by (simp add: quiet_def jflow_def)

lemma quiet_flow: "quiet s s' \<Longrightarrow> jflow s [] [] s'"
  by (simp add: quiet_def)

lemma quiet_rxq: "quiet s s' \<Longrightarrow> \<exists>new. rxq s' = rxq s @ new"
  unfolding quiet_def jflow_def by (metis append_Nil)

lemma quiet_txq: "quiet s s' \<Longrightarrow> \<exists>gone. txq s = gone @ txq s'"
  unfolding quiet_def jflow_def by (metis append_Nil2)

subsection \<open>The elementary steps\<close>

lemma upd_sp_simps [simp]:
  "jsp (upd_sp f s) = f (jsp s)" "jw (app (upd_sp f s)) = jw (app s)" "scpu (upd_sp f s) = scpu s"
  by (simp_all add: upd_sp_def)

lemma set_cpu_simps [simp]:
  "app (set_cpu c s) = app s" "scpu (set_cpu c s) = c"
  by (simp_all add: set_cpu_def)

lemma wr_reg_simps [simp]:
  "jsp (wr_reg b r v s) = jsp s" "scpu (wr_reg b r v s) = scpu s"
  "jlog (wr_reg b r v s) = jlog s @ [IoWr (jbase (jsp s) + r * 4) v]"
  by (simp_all add: wr_reg_def hal_simps)

lemma rd_reg_simps:
  assumes "rd_reg b r s = (v, s')"
  shows "jsp s' = jsp s" "scpu s' = scpu s" "jlog s' = jlog s @ [IoRd (jbase (jsp s) + r * 4) v]"
  using assms by (auto simp: rd_reg_def Let_def IORD_conv)

lemma ctrl_addr [simp]: "bs + 4 \<noteq> (bs :: u32)"
  by simp

text \<open>A step that leaves indices and buffers alone and does not touch the data register.\<close>

lemma quiet_ctrl:
  assumes "jinv (jsp s)" "jlog s' = jlog s @ es" "received (jbase (jsp s)) es = []" "sent (jbase (jsp s)) es = []"
    "jbase (jsp s') = jbase (jsp s)" "timeout (jsp s') = timeout (jsp s)" "host_inactive (jsp s') \<le> INT_MAX - 2"
    "rx_in (jsp s') = rx_in (jsp s)" "rx_out (jsp s') = rx_out (jsp s)" "rx_buf (jsp s') = rx_buf (jsp s)"
    "tx_in (jsp s') = tx_in (jsp s)" "tx_out (jsp s') = tx_out (jsp s)" "tx_buf (jsp s') = tx_buf (jsp s)"
    "scpu s' = scpu s"
  shows "quiet s s'"
  using assms unfolding quiet_def jflow_def
  by (intro conjI exI [of _ es]) (simp_all add: jinv_def rxq_def txq_def)

lemma irq_off_quiet: "jinv (jsp s) \<Longrightarrow> quiet s (irq_off b m s)"
proof -
  assume inv: "jinv (jsp s)"
  let ?t = "wr_reg b 1 (irq_enable (jsp s) AND NOT m) (upd_sp (\<lambda>j. j\<lparr>irq_enable := irq_enable j AND NOT m\<rparr>) s)"
  obtain v u where u: "rd_reg b 1 ?t = (v, u)" by fastforce
  then have "irq_off b m s = u" by (simp add: irq_off_def Let_def)
  with inv rd_reg_simps [OF u] show ?thesis
    by (intro quiet_ctrl [where es = "[IoWr (jbase (jsp s) + 4) (irq_enable (jsp s) AND NOT m), IoRd (jbase (jsp s) + 4) v]"])
       (simp_all add: jinv_def)
qed

lemma host_count: "h < INT_MAX - 2 \<Longrightarrow> h + 1 \<le> INT_MAX - 2" for h :: u32
  by (metis inc_le)

lemma timeout_quiet: "jinv (jsp s) \<Longrightarrow> quiet s (snd (jtag_uart_timeout b s))"
proof -
  assume inv: "jinv (jsp s)"
  obtain c t where t: "rd_reg b 1 s = (c, t)" by fastforce
  note r = rd_reg_simps [OF t]
  from inv have h: "host_inactive (jsp s) \<le> INT_MAX - 2" by (simp add: jinv_def)
  show ?thesis
  proof (cases "c AND JTAG_AC_MSK \<noteq> 0")
    case True
    with t inv r show ?thesis
      by (intro quiet_ctrl [where es = "[IoRd (jbase (jsp s) + 4) c, IoWr (jbase (jsp s) + 4) (irq_enable (jsp s) OR JTAG_AC_MSK)]"])
         (simp_all add: jtag_uart_timeout_def Let_def INT_MAX_def)
  next
    case False
    with t inv r h host_count show ?thesis
      by (intro quiet_ctrl [where es = "[IoRd (jbase (jsp s) + 4) c]"])
         (simp_all add: jtag_uart_timeout_def Let_def)
  qed
qed

subsection \<open>The receive and the transmit ring\<close>

definition rx_room :: "jtag_state \<Rightarrow> nat" where
  "rx_room j = (if (rx_in j + 1) mod JTAG_BUF_LEN = rx_out j then 0 else 1)"

lemma buf_len [simp]: "JTAG_BUF_LEN = 2048"
  by (simp add: JTAG_BUF_LEN_def)

lemma buf_run: "n \<le> full_run N out inn \<Longrightarrow> ring_ok N buf out inn \<Longrightarrow> out + n \<le> N"
  by (auto simp: full_run_def ring_ok_def split: if_splits)

interpretation rx: fifo
  "\<lambda>j. ring_ok JTAG_BUF_LEN (rx_buf j) (rx_out j) (rx_in j)"
  "\<lambda>j. ring_queue (rx_buf j) (rx_out j) (rx_in j)"
  "\<lambda>c. [c]" rx_room "\<lambda>j. full_run JTAG_BUF_LEN (rx_out j) (rx_in j)"
  rx_store "\<lambda>n j. take n (drop (rx_out j) (rx_buf j))"
  "\<lambda>n j. j\<lparr>rx_out := (rx_out j + n) mod JTAG_BUF_LEN\<rparr>"
proof unfold_locales
  fix j :: jtag_state and c :: u8
  assume ok: "ring_ok JTAG_BUF_LEN (rx_buf j) (rx_out j) (rx_in j)" and "length [c] \<le> rx_room j"
  then have "length [c] \<le> free_run JTAG_BUF_LEN (rx_out j) (rx_in j)"
    using ring_full [OF ok] by (simp add: rx_room_def split: if_splits)
  from ring_put [OF ok this] ok splice_one [of "rx_in j" "rx_buf j" c]
  show "ring_ok JTAG_BUF_LEN (rx_buf (rx_store c j)) (rx_out (rx_store c j)) (rx_in (rx_store c j))
      \<and> ring_queue (rx_buf (rx_store c j)) (rx_out (rx_store c j)) (rx_in (rx_store c j))
        = ring_queue (rx_buf j) (rx_out j) (rx_in j) @ [c]"
    by (simp add: rx_store_def ring_ok_def)
next
  fix j :: jtag_state and n
  assume ok: "ring_ok JTAG_BUF_LEN (rx_buf j) (rx_out j) (rx_in j)" and n: "n \<le> full_run JTAG_BUF_LEN (rx_out j) (rx_in j)"
  from ring_get [OF ok n]
  show "ring_ok JTAG_BUF_LEN (rx_buf (j\<lparr>rx_out := (rx_out j + n) mod JTAG_BUF_LEN\<rparr>))
       (rx_out (j\<lparr>rx_out := (rx_out j + n) mod JTAG_BUF_LEN\<rparr>)) (rx_in (j\<lparr>rx_out := (rx_out j + n) mod JTAG_BUF_LEN\<rparr>))
     \<and> take n (drop (rx_out j) (rx_buf j)) @ ring_queue (rx_buf (j\<lparr>rx_out := (rx_out j + n) mod JTAG_BUF_LEN\<rparr>))
       (rx_out (j\<lparr>rx_out := (rx_out j + n) mod JTAG_BUF_LEN\<rparr>)) (rx_in (j\<lparr>rx_out := (rx_out j + n) mod JTAG_BUF_LEN\<rparr>))
       = ring_queue (rx_buf j) (rx_out j) (rx_in j)" by simp
  from buf_run [OF n ok] ok show "length (take n (drop (rx_out j) (rx_buf j))) = n"
    by (simp add: ring_ok_def)
next
  fix j :: jtag_state
  assume ok: "ring_ok JTAG_BUF_LEN (rx_buf j) (rx_out j) (rx_in j)"
  from full_run_empty [OF ok] ring_empty [OF ok]
  show "(full_run JTAG_BUF_LEN (rx_out j) (rx_in j) = 0) = (ring_queue (rx_buf j) (rx_out j) (rx_in j) = [])"
    by simp
qed

text \<open>What \<open>write\<close> does for a chunk, in two steps of its model.\<close>

definition tx_store :: "u8 list \<Rightarrow> jtag_state \<Rightarrow> jtag_state" where
  "tx_store xs j = j\<lparr>tx_buf := splice_at (tx_in j) xs (tx_buf j),
                     tx_in := (tx_in j + length xs) mod JTAG_BUF_LEN\<rparr>"

interpretation tx: fifo
  "\<lambda>j. ring_ok JTAG_BUF_LEN (tx_buf j) (tx_out j) (tx_in j)"
  "\<lambda>j. ring_queue (tx_buf j) (tx_out j) (tx_in j)"
  "\<lambda>xs. xs" "\<lambda>j. free_run JTAG_BUF_LEN (tx_out j) (tx_in j)" "\<lambda>j. full_run JTAG_BUF_LEN (tx_out j) (tx_in j)"
  tx_store "\<lambda>n j. take n (drop (tx_out j) (tx_buf j))"
  "\<lambda>n j. j\<lparr>tx_out := (tx_out j + n) mod JTAG_BUF_LEN\<rparr>"
proof unfold_locales
  fix j :: jtag_state and xs :: "u8 list"
  assume ok: "ring_ok JTAG_BUF_LEN (tx_buf j) (tx_out j) (tx_in j)"
    and n: "length xs \<le> free_run JTAG_BUF_LEN (tx_out j) (tx_in j)"
  from ring_put [OF ok n]
  show "ring_ok JTAG_BUF_LEN (tx_buf (tx_store xs j)) (tx_out (tx_store xs j)) (tx_in (tx_store xs j))
      \<and> ring_queue (tx_buf (tx_store xs j)) (tx_out (tx_store xs j)) (tx_in (tx_store xs j))
        = ring_queue (tx_buf j) (tx_out j) (tx_in j) @ xs"
    by (simp add: tx_store_def)
next
  fix j :: jtag_state and n
  assume ok: "ring_ok JTAG_BUF_LEN (tx_buf j) (tx_out j) (tx_in j)" and n: "n \<le> full_run JTAG_BUF_LEN (tx_out j) (tx_in j)"
  from ring_get [OF ok n]
  show "ring_ok JTAG_BUF_LEN (tx_buf (j\<lparr>tx_out := (tx_out j + n) mod JTAG_BUF_LEN\<rparr>))
       (tx_out (j\<lparr>tx_out := (tx_out j + n) mod JTAG_BUF_LEN\<rparr>)) (tx_in (j\<lparr>tx_out := (tx_out j + n) mod JTAG_BUF_LEN\<rparr>))
     \<and> take n (drop (tx_out j) (tx_buf j)) @ ring_queue (tx_buf (j\<lparr>tx_out := (tx_out j + n) mod JTAG_BUF_LEN\<rparr>))
       (tx_out (j\<lparr>tx_out := (tx_out j + n) mod JTAG_BUF_LEN\<rparr>)) (tx_in (j\<lparr>tx_out := (tx_out j + n) mod JTAG_BUF_LEN\<rparr>))
       = ring_queue (tx_buf j) (tx_out j) (tx_in j)" by simp
  from buf_run [OF n ok] ok show "length (take n (drop (tx_out j) (tx_buf j))) = n"
    by (simp add: ring_ok_def)
next
  fix j :: jtag_state
  assume ok: "ring_ok JTAG_BUF_LEN (tx_buf j) (tx_out j) (tx_in j)"
  from full_run_empty [OF ok] ring_empty [OF ok]
  show "(full_run JTAG_BUF_LEN (tx_out j) (tx_in j) = 0) = (ring_queue (tx_buf j) (tx_out j) (tx_in j) = [])"
    by simp
qed

subsection \<open>The interrupt routine is a flow\<close>

lemma jinv_rings:
  "jinv j \<Longrightarrow> ring_ok JTAG_BUF_LEN (rx_buf j) (rx_out j) (rx_in j)"
  "jinv j \<Longrightarrow> ring_ok JTAG_BUF_LEN (tx_buf j) (tx_out j) (tx_in j)"
  by (simp_all add: jinv_def)

lemma rx_store_other [simp]:
  "jbase (rx_store c j) = jbase j" "timeout (rx_store c j) = timeout j" "rx_out (rx_store c j) = rx_out j"
  "tx_in (rx_store c j) = tx_in j" "tx_out (rx_store c j) = tx_out j" "tx_buf (rx_store c j) = tx_buf j"
  "host_inactive (rx_store c j) = host_inactive j"
  by (simp_all add: rx_store_def)

lemma store_quiet:
  assumes inv: "jinv (jsp s)" and room: "(rx_in (jsp s) + 1) mod JTAG_BUF_LEN \<noteq> rx_out (jsp s)"
    and rd: "rd_reg b 0 s = (v, t)" and valid: "v AND JTAG_RVALID_MSK \<noteq> 0"
  shows "quiet s (upd_sp (rx_store (ucast (v AND JTAG_DATA_MSK))) t)"
proof -
  let ?c = "ucast (v AND JTAG_DATA_MSK) :: u8"
  note r = rd_reg_simps [OF rd]
  have rm: "length [?c] \<le> rx_room (jsp s)" using room by (simp add: rx_room_def)
  note put = rx.put_law [OF jinv_rings(1) [OF inv] rm]
  show ?thesis
    unfolding quiet_def jflow_def using r put inv valid
    by (intro conjI exI [of _ "[IoRd (jbase (jsp s)) v]"]) (simp_all add: jinv_def rxq_def txq_def)
qed

lemma isr_rx_quiet: "isr_rx b d s = Some (d', s') \<Longrightarrow> jinv (jsp s) \<Longrightarrow> quiet s s'"
proof -
  assume "isr_rx b d s = Some (d', s')"
  then have "(\<lambda>b d s x. jinv (jsp s) \<longrightarrow> quiet s (snd x)) b d s (d', s')"
  proof (induction rule: isr_rx.raw_induct [rotated, consumes 1, case_names step])
    case (step rec b d s y)
    obtain v t where rd: "rd_reg b 0 s = (v, t)" by fastforce
    note r = rd_reg_simps [OF rd]
    show ?case
    proof (cases "(rx_in (jsp s) + 1) mod JTAG_BUF_LEN = rx_out (jsp s)")
      case True
      with step(2) show ?thesis by (auto simp: quiet_refl)
    next
      case room: False
      show ?thesis
      proof (cases "v AND JTAG_RVALID_MSK = 0")
        case True
        with step(2) room rd have "y = (v, t)" by (simp add: Let_def)
        moreover have "quiet s t" if "jinv (jsp s)"
          by (rule quiet_ctrl [OF that, where es = "[IoRd (jbase (jsp s)) v]"]) (use r True that in \<open>simp_all add: jinv_def\<close>)
        ultimately show ?thesis by simp
      next
        case False
        let ?u = "upd_sp (rx_store (ucast (v AND JTAG_DATA_MSK))) t"
        from step(2) room rd False have "rec b v ?u = Some y"
          by (simp add: Let_def)
        note ih = step(1) [OF this]
        show ?thesis
        proof
          assume "jinv (jsp s)"
          note q = store_quiet [OF this room rd False]
          from ih quiet_inv [OF q] have "quiet ?u (snd y)" by blast
          with q show "quiet s (snd y)" by (rule quiet_trans)
        qed
      qed
    qed
  qed
  then show "jinv (jsp s) \<Longrightarrow> quiet s s'" by simp
qed

lemma byte_word: "ucast (scast (c :: u8) :: u32) = c"
  by (rule bit_eqI) (simp add: bit_simps)

lemma send_quiet:
  assumes inv: "jinv (jsp s)" and data: "tx_out (jsp s) \<noteq> tx_in (jsp s)"
  shows "quiet s (upd_sp (\<lambda>j. j\<lparr>tx_out := (tx_out j + 1) mod JTAG_BUF_LEN\<rparr>)
    (wr_reg b 0 (scast (tx_buf (jsp s) ! tx_out (jsp s))) s))"
proof -
  note ok = jinv_rings(2) [OF inv]
  have "1 \<le> full_run JTAG_BUF_LEN (tx_out (jsp s)) (tx_in (jsp s))"
    using full_run_empty [OF ok] data by (auto simp: Suc_le_eq)
  note get = tx.get_law [OF ok this]
  have one: "take 1 (drop (tx_out (jsp s)) (tx_buf (jsp s))) = [tx_buf (jsp s) ! tx_out (jsp s)]"
    using ok by (simp add: ring_ok_def take_Suc_conv_app_nth hd_drop_conv_nth flip: hd_conv_nth)
  show ?thesis
    unfolding quiet_def jflow_def using get one inv
    by (intro conjI exI [of _ "[IoWr (jbase (jsp s)) (scast (tx_buf (jsp s) ! tx_out (jsp s)))]"])
       (simp_all add: jinv_def rxq_def txq_def byte_word)
qed

lemma isr_tx_quiet: "jinv (jsp s) \<Longrightarrow> quiet s (snd (isr_tx b n s))"
proof (induction b n s rule: isr_tx.induct)
  case (2 b n s)
  show ?case
  proof (cases "tx_out (jsp s) \<noteq> tx_in (jsp s)")
    case True
    let ?t = "upd_sp (\<lambda>j. j\<lparr>tx_out := (tx_out j + 1) mod JTAG_BUF_LEN\<rparr>)
      (wr_reg b 0 (scast (tx_buf (jsp s) ! tx_out (jsp s))) s)"
    note q = send_quiet [OF 2(2) True, of b]
    have "quiet ?t (snd (isr_tx b n ?t))"
      by (rule 2(1) [OF True refl refl quiet_inv [OF q]])
    from quiet_trans [OF q this] True show ?thesis by (simp add: Let_def)
  qed (use 2(2) in \<open>simp add: quiet_refl\<close>)
qed (simp add: quiet_refl)

lemma isr_write_quiet: "jinv (jsp s) \<Longrightarrow> quiet s (isr_write b c s)"
proof -
  assume inv: "jinv (jsp s)"
  obtain n t where t: "isr_tx b (unat (drop_bit 16 (c AND JTAG_WSPACE_MSK))) s = (n, t)" by fastforce
  with isr_tx_quiet [OF inv, of b] have "quiet s t" by (metis snd_conv)
  with irq_off_quiet [OF quiet_inv [OF this]] t show ?thesis
    by (auto simp: isr_write_def intro: quiet_trans)
qed

lemma isr_read_quiet: "isr_read b s = Some s' \<Longrightarrow> jinv (jsp s) \<Longrightarrow> quiet s s'"
proof -
  assume i: "isr_read b s = Some s'" and inv: "jinv (jsp s)"
  from i obtain d t where t: "isr_rx b (push_bit 16 1) s = Some (d, t)"
    "s' = (if d AND JTAG_RAVAIL_MSK \<noteq> 0 then irq_off b JTAG_RE_MSK t else t)"
    by (auto simp: isr_read_def bind_eq_Some_conv)
  note q = isr_rx_quiet [OF t(1) inv]
  from q quiet_trans [OF q irq_off_quiet [OF quiet_inv [OF q], of b JTAG_RE_MSK]] t(2) show ?thesis
    by simp
qed

lemma ctrl_read_quiet: "jinv (jsp s) \<Longrightarrow> rd_reg b 1 s = (v, t) \<Longrightarrow> quiet s t"
proof -
  assume inv: "jinv (jsp s)" and rd: "rd_reg b 1 s = (v, t)"
  show "quiet s t"
    by (rule quiet_ctrl [OF inv, where es = "[IoRd (jbase (jsp s) + 4) v]"])
       (use rd_reg_simps [OF rd] inv in \<open>simp_all add: jinv_def\<close>)
qed

lemma irq_quiet: "jtag_uart_irq b s = Some s' \<Longrightarrow> jinv (jsp s) \<Longrightarrow> quiet s s'"
proof -
  assume a: "jtag_uart_irq b s = Some s'"
  then have "(\<lambda>b s x. jinv (jsp s) \<longrightarrow> quiet s x) b s s'"
  proof (induction rule: jtag_uart_irq.raw_induct [rotated, consumes 1, case_names step])
    case (step rec b s y)
    obtain c t where rd: "rd_reg b 1 s = (c, t)" by fastforce
    show ?case
    proof (cases "c AND (JTAG_RI_MSK OR JTAG_WI_MSK) = 0")
      case True
      with step(2) rd ctrl_read_quiet show ?thesis by (auto simp: Let_def)
    next
      case False
      with step(2) rd obtain u where
        u: "(if c AND JTAG_RI_MSK \<noteq> 0 then isr_read b t else Some t) = Some u"
           "rec b (if c AND JTAG_WI_MSK \<noteq> 0 then isr_write b c u else u) = Some y"
        by (auto simp: Let_def bind_eq_Some_conv)
      show ?thesis
      proof
        assume inv: "jinv (jsp s)"
        note q1 = ctrl_read_quiet [OF inv rd]
        have q2: "quiet t u"
          using u(1) isr_read_quiet [of b t u] quiet_inv [OF q1] quiet_refl by (auto split: if_splits)
        have q3: "quiet u (if c AND JTAG_WI_MSK \<noteq> 0 then isr_write b c u else u)"
          using isr_write_quiet [OF quiet_inv [OF q2], of b c] quiet_refl [OF quiet_inv [OF q2]] by simp
        from step(1) [OF u(2)] quiet_inv [OF q3]
        have q4: "quiet (if c AND JTAG_WI_MSK \<noteq> 0 then isr_write b c u else u) y" by blast
        from quiet_trans [OF quiet_trans [OF quiet_trans [OF q1 q2] q3] q4] show "quiet s y" .
      qed
    qed
  qed
  then show "jinv (jsp s) \<Longrightarrow> quiet s s'" by simp
qed

lemma interrupt_quiet: "interrupt b x s = Some s' \<Longrightarrow> jinv (jsp s) \<Longrightarrow> quiet s s'"
  using irq_quiet timeout_quiet by (cases x) (auto simp: quiet_refl)

lemma pt_quiet:
  assumes "pt b xs s = Some (xs', s')" "jinv (jsp s)"
  shows "quiet s s' \<and> length xs = Suc (length xs')"
  using assms interrupt_quiet by (cases xs) (auto simp: quiet_refl split: if_splits)

end
