(* ===== verification/JtagRead.thy ===== *)
theory JtagRead
  imports JtagProps
begin

text \<open>
  The \<open>read\<close> of the JTAG UART driver under any schedule of interrupts: what it delivers is taken
  from the front of the receive queue (\<open>reads\<close>), and the critical section that turns an
  interrupt on again (\<open>irq_on\<close>) is not interrupted.
\<close>

subsection \<open>read\<close>

lemma quiet_run:
  assumes "quiet s t" "jinv (jsp s)"
  shows "full_run JTAG_BUF_LEN (rx_out (jsp s)) (rx_in (jsp s)) \<le> full_run JTAG_BUF_LEN (rx_out (jsp t)) (rx_in (jsp t))"
proof -
  from quiet_rxq [OF assms(1)] have "length (rxq s) \<le> length (rxq t)" by auto
  moreover have "rx_out (jsp t) = rx_out (jsp s)" using assms(1) by (simp add: quiet_def)
  ultimately show ?thesis
    using full_run_min [OF jinv_rings(1) [OF assms(2)]] full_run_min [OF jinv_rings(1) [OF quiet_inv [OF assms(1)]]]
    by (simp add: rxq_def del: buf_len)
qed

lemma get_flow:
  assumes "jinv (jsp s)" "n \<le> full_run JTAG_BUF_LEN (rx_out (jsp s)) (rx_in (jsp s))"
  shows "jflow s [] (take n (rxq s)) (upd_sp (\<lambda>j. j\<lparr>rx_out := (rx_out j + n) mod JTAG_BUF_LEN\<rparr>) s)
    \<and> take n (drop (rx_out (jsp s)) (rx_buf (jsp s))) = take n (rxq s) \<and> n \<le> length (rxq s)"
proof -
  note ok = jinv_rings(1) [OF assms(1)]
  note get = rx.get_law [OF ok assms(2)] rx.get_content [OF ok assms(2)] rx.front_law [OF ok assms(2)]
  have "jflow s [] (take n (rxq s)) (upd_sp (\<lambda>j. j\<lparr>rx_out := (rx_out j + n) mod JTAG_BUF_LEN\<rparr>) s)"
    unfolding jflow_def using get assms(1)
    by (intro conjI exI [of _ "[]"]) (simp_all add: jinv_def rxq_def txq_def)
  with get show ?thesis by (simp add: rxq_def min_def split: if_splits)
qed

text \<open>A call to \<open>read\<close> takes \<open>new\<close> out of the queue.\<close>

definition reads :: "'d usys \<Rightarrow> u8 list \<Rightarrow> 'd usys \<Rightarrow> bool" where
  "reads s new s' \<longleftrightarrow> jflow s [] new s' \<and> scpu s' = scpu s"

lemma reads_inv: "reads s new s' \<Longrightarrow> jinv (jsp s')"
  by (simp add: reads_def jflow_def)

lemma reads_quiet: "quiet s s' \<Longrightarrow> reads s [] s'"
  by (simp add: reads_def quiet_def)

lemma reads_trans: "reads s x t \<Longrightarrow> reads t y u \<Longrightarrow> reads s (x @ y) u"
  using jflow_trans [of s "[]" x t "[]" y u] by (simp add: reads_def)

lemma chunk_reads:
  assumes inv: "jinv (jsp s)" and q1: "quiet s t" and q2: "quiet t u"
    and n: "n \<le> full_run JTAG_BUF_LEN (rx_out (jsp s)) (rx_in (jsp s))"
  shows "reads s (take n (drop (rx_out (jsp s)) (rx_buf (jsp t))))
      (upd_sp (\<lambda>j. j\<lparr>rx_out := (rx_out (jsp s) + n) mod JTAG_BUF_LEN\<rparr>) u)
    \<and> length (take n (drop (rx_out (jsp s)) (rx_buf (jsp t)))) = n"
proof -
  note it = quiet_inv [OF q1] and iu = quiet_inv [OF q2]
  have nt: "n \<le> full_run JTAG_BUF_LEN (rx_out (jsp t)) (rx_in (jsp t))"
    using n quiet_run [OF q1 inv] by (rule le_trans)
  have nu: "n \<le> full_run JTAG_BUF_LEN (rx_out (jsp u)) (rx_in (jsp u))"
    using nt quiet_run [OF q2 it] by (rule le_trans)
  have ro: "rx_out (jsp t) = rx_out (jsp s)" "rx_out (jsp u) = rx_out (jsp s)"
    using q1 q2 by (simp_all add: quiet_def)
  note gt = get_flow [OF it nt] and gu = get_flow [OF iu nu]
  obtain new where "rxq u = rxq t @ new" using quiet_rxq [OF q2] by blast
  with gt have "take n (rxq u) = take n (rxq t)" by simp
  with gt ro have same: "take n (drop (rx_out (jsp s)) (rx_buf (jsp t))) = take n (rxq u)" by simp
  have upd: "upd_sp (\<lambda>j. j\<lparr>rx_out := (rx_out (jsp s) + n) mod JTAG_BUF_LEN\<rparr>) u
      = upd_sp (\<lambda>j. j\<lparr>rx_out := (rx_out j + n) mod JTAG_BUF_LEN\<rparr>) u"
    using ro by (simp add: upd_sp_def)
  have "reads u (take n (rxq u)) (upd_sp (\<lambda>j. j\<lparr>rx_out := (rx_out j + n) mod JTAG_BUF_LEN\<rparr>) u)"
    using gu by (simp add: reads_def)
  from reads_trans [OF reads_quiet [OF quiet_trans [OF q1 q2]] this] show ?thesis
    unfolding upd same using gu by simp
qed

text \<open>One pass of the copying loop: the last \<open>in\<close>, and the bytes copied unless there were none
  to be had.\<close>

definition read_pass ::
  "'d bus \<Rightarrow> nat \<Rightarrow> preempt list \<Rightarrow> 'd usys \<Rightarrow> (nat \<times> (nat \<times> u8 list) option \<times> preempt list \<times> 'd usys) option" where
  "read_pass b space xs s = do {
     (xs, s) \<leftarrow> pt b xs s;
     let inn = rx_in (jsp s);
     (xs, s) \<leftarrow> pt b xs s;
     let out = rx_out (jsp s);
     let n = (if inn \<ge> out then inn - out else JTAG_BUF_LEN - out);
     if n = 0 then Some (inn, None, xs, s)
     else do {
       let n = min n space;
       (xs, s) \<leftarrow> pt b xs s;
       let c = take n (drop out (rx_buf (jsp s)));
       (xs, s) \<leftarrow> pt b xs s;
       Some (inn, Some (n, c), xs, upd_sp (\<lambda>j. j\<lparr>rx_out := (out + n) mod JTAG_BUF_LEN\<rparr>) s) } }"

lemma read_copy_pass: "read_copy b space ptr xs s = do {
    (inn, c, xs, s) \<leftarrow> read_pass b space xs s;
    case c of None \<Rightarrow> Some (inn, space, ptr, xs, s)
    | Some (n, c) \<Rightarrow> if n < space then read_copy b (space - n) (ptr @ c) xs s else Some (inn, space - n, ptr @ c, xs, s) }"
  by (subst read_copy.simps)
     (auto simp: read_pass_def Let_def bind_assoc min_def intro!: Option.bind_cong)

definition passed :: "nat \<Rightarrow> 'd usys \<Rightarrow> nat \<Rightarrow> (nat \<times> u8 list) option \<Rightarrow> 'd usys \<Rightarrow> bool" where
  "passed space s inn c s' \<longleftrightarrow> (case c of
     None \<Rightarrow> quiet s s' \<and> rxq s = [] \<and> inn = rx_out (jsp s')
   | Some (n, c) \<Rightarrow> reads s c s' \<and> length c = n \<and> n \<le> space \<and> (0 < space \<longrightarrow> 0 < n))"

lemma read_pass_spec:
  assumes "read_pass b space xs s = Some (inn, c, xs', s')" and inv: "jinv (jsp s)"
  shows "length xs' < length xs \<and> passed space s inn c s'"
proof -
  from assms(1) obtain xs1 s1 xs2 s2 where p: "pt b xs s = Some (xs1, s1)" "pt b xs1 s1 = Some (xs2, s2)"
    by (auto simp: read_pass_def bind_eq_Some_conv Let_def)
  note q1 = pt_quiet [OF p(1) inv, THEN conjunct1]
  note i1 = quiet_inv [OF q1]
  note q2 = pt_quiet [OF p(2) i1, THEN conjunct1]
  have ro: "rx_out (jsp s2) = rx_out (jsp s1)" using q2 by (simp add: quiet_def)
  define m where "m = full_run JTAG_BUF_LEN (rx_out (jsp s1)) (rx_in (jsp s1))"
  have rest: "(if m = 0 then Some (rx_in (jsp s1), None, xs2, s2)
     else do {
       (xs3, s3) \<leftarrow> pt b xs2 s2;
       (xs4, s4) \<leftarrow> pt b xs3 s3;
       Some (rx_in (jsp s1), Some (min m space, take (min m space) (drop (rx_out (jsp s1)) (rx_buf (jsp s3)))), xs4,
         upd_sp (\<lambda>j. j\<lparr>rx_out := (rx_out (jsp s1) + min m space) mod JTAG_BUF_LEN\<rparr>) s4) }) = Some (inn, c, xs', s')"
    using assms(1) p by (simp add: read_pass_def Let_def ro m_def full_run_def cong del: if_weak_cong)
  show ?thesis
  proof (cases "m = 0")
    case True
    have "rxq s1 = []" using True rx.avail_law [OF jinv_rings(1) [OF i1]] by (auto simp: m_def rxq_def)
    moreover have "rx_in (jsp s1) = rx_out (jsp s1)"
      using True full_run_empty [OF jinv_rings(1) [OF i1]] by (simp add: m_def)
    ultimately show ?thesis
      using rest True ro p[THEN pt_quiet] inv i1 quiet_rxq [OF q1] quiet_trans [OF q1 q2] by (auto simp: passed_def)
  next
    case False
    with rest obtain xs3 s3 s4 where p': "pt b xs2 s2 = Some (xs3, s3)" "pt b xs3 s3 = Some (xs', s4)" and
      e: "c = Some (min m space, take (min m space) (drop (rx_out (jsp s1)) (rx_buf (jsp s3))))"
      "s' = upd_sp (\<lambda>j. j\<lparr>rx_out := (rx_out (jsp s1) + min m space) mod JTAG_BUF_LEN\<rparr>) s4"
      by (auto simp: bind_eq_Some_conv)
    note q3 = pt_quiet [OF p'(1) quiet_inv [OF q2], THEN conjunct1]
    note q4 = pt_quiet [OF p'(2) quiet_inv [OF q3], THEN conjunct1]
    have "length xs' < length xs"
      using p [THEN pt_quiet] p' [THEN pt_quiet] inv i1 quiet_inv [OF q2] quiet_inv [OF q3] by simp
    moreover have "min m space \<le> full_run JTAG_BUF_LEN (rx_out (jsp s1)) (rx_in (jsp s1))" by (simp add: m_def)
    note chunk_reads [OF i1 quiet_trans [OF q2 q3] q4 this]
    ultimately show ?thesis
      using reads_trans [OF reads_quiet [OF q1]] False e by (auto simp: passed_def)
  qed
qed

lemma read_copy_spec:
  assumes "read_copy b space ptr xs s = Some (inn, space', ptr', xs', s')" "jinv (jsp s)"
  shows "\<exists>new. ptr' = ptr @ new \<and> space' + length new = space \<and> reads s new s'
    \<and> (new = [] \<longrightarrow> 0 < space \<longrightarrow> inn = rx_out (jsp s')) \<and> (rxq s \<noteq> [] \<longrightarrow> 0 < space \<longrightarrow> new \<noteq> [])"
  using assms
proof (induction "length xs" arbitrary: space ptr xs s rule: less_induct)
  case less
  from less.prems(1) obtain inn1 c xs1 s1 where pass: "read_pass b space xs s = Some (inn1, c, xs1, s1)"
    by (subst (asm) read_copy_pass) (auto simp: bind_eq_Some_conv)
  note sp = read_pass_spec [OF pass less.prems(2)]
  show ?case
  proof (cases c)
    case None
    with less.prems(1) pass have "inn = inn1" "space' = space" "ptr' = ptr" "s' = s1"
      by (subst (asm) read_copy_pass, simp)+
    with sp None reads_quiet show ?thesis by (auto simp: passed_def)
  next
    case (Some nc)
    then obtain c' where c: "c = Some (length c', c')" "reads s c' s1" "length c' \<le> space" "0 < space \<longrightarrow> 0 < length c'"
      using sp by (cases nc) (auto simp: passed_def)
    show ?thesis
    proof (cases "length c' < space")
      case True
      with less.prems(1) pass c(1) have "read_copy b (space - length c') (ptr @ c') xs1 s1 = Some (inn, space', ptr', xs', s')"
        by (subst (asm) read_copy_pass) simp
      from less.hyps [OF _ this reads_inv [OF c(2)]] sp obtain new where
        n: "ptr' = (ptr @ c') @ new" "space' + length new = space - length c'" "reads s1 new s'" by blast
      with True c reads_trans [OF c(2) n(3)] show ?thesis by (intro exI [of _ "c' @ new"]) auto
    next
      case False
      with less.prems(1) pass c(1) have "space' = space - length c'" "ptr' = ptr @ c'" "s' = s1"
        by (subst (asm) read_copy_pass, simp)+
      with False c show ?thesis by (intro exI [of _ c']) auto
    qed
  qed
qed

text \<open>The waiting loop ends with data in the buffer or with a timeout.\<close>

definition spin_ended :: "nat \<Rightarrow> 'd usys \<Rightarrow> 'd usys \<Rightarrow> bool" where
  "spin_ended inn s s' \<longleftrightarrow> quiet s s' \<and>
     (rx_out (jsp s') = inn \<longrightarrow> timeout (jsp s') > host_inactive (jsp s') \<longrightarrow> rxq s' \<noteq> [])"

lemma rx_nonempty: "jinv (jsp s) \<Longrightarrow> rx_in (jsp s) \<noteq> rx_out (jsp s) \<longleftrightarrow> rxq s \<noteq> []"
  using ring_empty [OF jinv_rings(1)] by (simp add: rxq_def)

lemma read_spin_spec:
  assumes "read_spin b inn xs s = Some (xs', s')" "jinv (jsp s)"
  shows "spin_ended inn s s'"
proof -
  from assms(1) have "(\<lambda>b inn xs s (xs', s'). jinv (jsp s) \<longrightarrow> spin_ended inn s s') b inn xs s (xs', s')"
  proof (induction rule: read_spin.raw_induct [rotated, consumes 1, case_names step])
    case (step rec b inn xs s y)
    obtain xs' s' where y: "y = (xs', s')" by fastforce
    from step(2) obtain xs1 s1 where pt1: "pt b xs s = Some (xs1, s1)"
      by (auto simp: bind_eq_Some_conv)
    show ?case
    proof (unfold y prod.case, rule impI)
      assume inv: "jinv (jsp s)"
      note q1 = pt_quiet [OF pt1 inv, THEN conjunct1]
      note i1 = quiet_inv [OF q1]
      show "spin_ended inn s s'"
      proof (cases "inn \<noteq> rx_in (jsp s1)")
        case True
        with step(2) pt1 y have "s' = s1" by simp
        with q1 True rx_nonempty [OF i1] show ?thesis by (auto simp: spin_ended_def)
      next
        case False
        with step(2) pt1 obtain xs2 s2 where pt2: "pt b xs1 s1 = Some (xs2, s2)"
          by (auto simp: bind_eq_Some_conv)
        note q2 = pt_quiet [OF pt2 i1, THEN conjunct1]
        note q12 = quiet_trans [OF q1 q2]
        show ?thesis
        proof (cases "host_inactive (jsp s2) < timeout (jsp s2)")
          case True
          with False step(2) pt1 pt2 have "rec b inn xs2 s2 = Some y" by simp
          from step(1) [OF this] quiet_inv [OF q2] y have "spin_ended inn s2 s'" by simp
          with q12 quiet_trans [OF q12, of s'] show ?thesis by (simp add: spin_ended_def)
        next
          case False2: False
          with False step(2) pt1 pt2 y have "s' = s2" by simp
          with q12 False2 show ?thesis by (simp add: spin_ended_def)
        qed
      qed
    qed
  qed
  with assms(2) show ?thesis by simp
qed

text \<open>The critical section: the interrupt routine cannot run inside it.\<close>

lemma pt_masked: "pt b xs s = Some (xs', s') \<Longrightarrow> alt_irq_enabled (scpu s) = 0 \<Longrightarrow> s' = s"
  by (cases xs) auto

lemma masked: "alt_irq_enabled (snd (alt_irq_disable_all c)) = 0"
  by (simp add: alt_irq_enabled_def alt_irq_disable_all_def NIOS2_STATUS_PIE_MSK_def word_bw_assocs)

lemma irq_on_spec:
  assumes on: "irq_on b m xs s = Some (xs', s')" and inv: "jinv (jsp s)"
  shows "quiet s s' \<and> irq_enable (jsp s') AND m = m
    \<and> (\<exists>es. jlog s' = es @ [IoWr (jbase (jsp s) + 4) (irq_enable (jsp s'))])"
proof -
  from on obtain xs1 s1 where p1: "pt b xs s = Some (xs1, s1)"
    by (auto simp: irq_on_def bind_eq_Some_conv)
  note q1 = pt_quiet [OF p1 inv, THEN conjunct1]
  obtain ctxt c where d: "alt_irq_disable_all (scpu s1) = (ctxt, c)" by fastforce
  from on p1 d obtain xs2 s2 xs3 s3 xs4 s4 where
    p2: "pt b xs1 (set_cpu c s1) = Some (xs2, s2)" and
    p3: "pt b xs2 (upd_sp (\<lambda>j. j\<lparr>irq_enable := irq_enable j OR m\<rparr>) s2) = Some (xs3, s3)" and
    p4: "pt b xs3 (wr_reg b 1 (irq_enable (jsp s3)) s3) = Some (xs4, s4)" and
    s': "s' = set_cpu (alt_irq_enable_all ctxt (scpu s4)) s4"
    by (auto simp: irq_on_def bind_eq_Some_conv Let_def)
  have off: "alt_irq_enabled c = 0" using masked [of "scpu s1"] d by simp
  from pt_masked [OF p2] off have s2: "s2 = set_cpu c s1" by simp
  from pt_masked [OF p3] off s2 have s3: "s3 = upd_sp (\<lambda>j. j\<lparr>irq_enable := irq_enable j OR m\<rparr>) s2" by simp
  from pt_masked [OF p4] off s2 s3 have s4: "s4 = wr_reg b 1 (irq_enable (jsp s3)) s3" by simp
  have cpu: "alt_irq_enable_all ctxt c = scpu s1"
    using d by (auto simp: alt_irq_enable_all_def alt_irq_disable_all_def)
  have e: "irq_enable (jsp s1) OR m = irq_enable (jsp s')" using s' s4 s3 s2 by simp
  have "quiet s1 s'"
    by (rule quiet_ctrl [OF quiet_inv [OF q1], where es = "[IoWr (jbase (jsp s1) + 4) (irq_enable (jsp s'))]"])
       (use s' s4 s3 s2 cpu quiet_inv [OF q1] in \<open>simp_all add: jinv_def\<close>)
  moreover have "irq_enable (jsp s') AND m = m"
    unfolding e [symmetric] by (rule bit_eqI) (auto simp: bit_simps)
  moreover have "jlog s' = jlog s1 @ [IoWr (jbase (jsp s) + 4) (irq_enable (jsp s'))]"
    using s' s4 s3 s2 q1 by (simp add: quiet_def jflow_def)
  ultimately show ?thesis using quiet_trans [OF q1] by blast
qed

lemma rxq_grows: "quiet s t \<Longrightarrow> rxq s \<noteq> [] \<Longrightarrow> rxq t \<noteq> []"
  using quiet_rxq by fastforce

text \<open>Without a timeout a blocking \<open>read\<close> gets at least one byte.\<close>

definition never_times_out :: "'d usys \<Rightarrow> bool" where
  "never_times_out s \<longleftrightarrow> timeout (jsp s) \<ge> INT_MAX - 1"

lemma no_timeout: "never_times_out s \<Longrightarrow> jinv (jsp s) \<Longrightarrow> host_inactive (jsp s) < timeout (jsp s)"
proof -
  assume "never_times_out s" "jinv (jsp s)"
  then have "host_inactive (jsp s) \<le> INT_MAX - 2" "INT_MAX - 1 \<le> timeout (jsp s)"
    by (simp_all add: never_times_out_def jinv_def)
  moreover have "INT_MAX - 2 < INT_MAX - 1" by (simp add: INT_MAX_def)
  ultimately show ?thesis by (meson le_less_trans less_le_trans)
qed

lemma reads_never: "reads s x t \<Longrightarrow> never_times_out t = never_times_out s"
  by (simp add: reads_def jflow_def never_times_out_def)

text \<open>Waiting, then looking at the index again.\<close>

lemma wait_spec:
  assumes spin: "read_spin b inn xs s = Some (xs1, s1)" "pt b xs1 s1 = Some (xs', s')"
    and inv: "jinv (jsp s)" and inn: "inn = rx_out (jsp s)"
  shows "quiet s s' \<and> rx_out (jsp s') = inn \<and> (never_times_out s \<longrightarrow> rxq s' \<noteq> [])"
proof -
  have sp: "spin_ended inn s s1" by (rule read_spin_spec [OF spin(1) inv])
  then have q1: "quiet s s1" by (simp add: spin_ended_def)
  note q2 = pt_quiet [OF spin(2) quiet_inv [OF q1], THEN conjunct1]
  have ro: "rx_out (jsp s1) = inn" using q1 inn by (simp add: quiet_def)
  have "rxq s' \<noteq> []" if "never_times_out s"
  proof -
    have "never_times_out s1" using that reads_never [OF reads_quiet [OF q1]] by simp
    from no_timeout [OF this quiet_inv [OF q1]] sp ro have "rxq s1 \<noteq> []" by (simp add: spin_ended_def)
    then show ?thesis by (rule rxq_grows [OF q2])
  qed
  with quiet_trans [OF q1 q2] inn show ?thesis by (simp add: quiet_def)
qed

text \<open>What the outer loop has achieved when it ends.\<close>

definition delivered :: "u32 \<Rightarrow> nat \<Rightarrow> u8 list \<Rightarrow> 'd usys \<Rightarrow> u8 list \<Rightarrow> 'd usys \<Rightarrow> bool" where
  "delivered flags space ptr s ptr' s' \<longleftrightarrow> (\<exists>new. ptr' = ptr @ new \<and> length new \<le> space \<and> reads s new s'
    \<and> (0 < space \<longrightarrow> flags AND JTAG_O_NONBLOCK = 0 \<longrightarrow> never_times_out s \<longrightarrow> ptr' \<noteq> [])
    \<and> (0 < space \<longrightarrow> rxq s \<noteq> [] \<longrightarrow> ptr' \<noteq> []))"

lemma read_loop_spec:
  assumes "read_loop b flags space ptr xs s = Some (ptr', xs', s')" "jinv (jsp s)"
  shows "delivered flags space ptr s ptr' s'"
proof -
  from assms(1) have "(\<lambda>b flags space ptr xs s (ptr', xs', s'). jinv (jsp s) \<longrightarrow> delivered flags space ptr s ptr' s')
    b flags space ptr xs s (ptr', xs', s')"
  proof (induction rule: read_loop.raw_induct [rotated, consumes 1, case_names step])
    case (step rec b flags space ptr xs s y)
    obtain ptr' xs' s' where y: "y = (ptr', xs', s')" by (metis prod_cases3)
    have "delivered flags space ptr s ptr' s'" if inv: "jinv (jsp s)"
    proof (cases "space > 0")
      case False
      with step(2) y reads_quiet [OF quiet_refl [OF inv]] show ?thesis by (simp add: delivered_def)
    next
      case sp: True
      with step(2) obtain inn space1 ptr1 xs1 s1 where copy: "read_copy b space ptr xs s = Some (inn, space1, ptr1, xs1, s1)"
        by (auto simp: bind_eq_Some_conv)
      obtain new where new: "ptr1 = ptr @ new" "space1 + length new = space" "reads s new s1"
        "new = [] \<longrightarrow> inn = rx_out (jsp s1)" "rxq s \<noteq> [] \<longrightarrow> new \<noteq> []"
        using read_copy_spec [OF copy inv] sp by blast
      show ?thesis
      proof (cases "ptr1 \<noteq> [] \<or> flags AND JTAG_O_NONBLOCK \<noteq> 0")
        case True
        with step(2) sp copy y have "ptr' = ptr1" "s' = s1" by (auto split: if_splits)
        with new True show ?thesis unfolding delivered_def by (intro exI [of _ new]) auto
      next
        case False
        with new have e: "ptr = []" "new = []" "flags AND JTAG_O_NONBLOCK = 0" "space1 = space" by auto
        with False step(2) sp copy obtain xs2 s2 xs3 s3 where
          spin: "read_spin b inn xs1 s1 = Some (xs2, s2)" "pt b xs2 s2 = Some (xs3, s3)"
          by (auto simp: bind_eq_Some_conv)
        note w = wait_spec [OF spin reads_inv [OF new(3)] new(4) [rule_format, OF e(2)]]
        have r3: "reads s [] s3" using reads_trans [OF new(3) reads_quiet] w e(2) by fastforce
        have data: "never_times_out s \<longrightarrow> rxq s3 \<noteq> []" using w reads_never [OF new(3)] by simp
        show ?thesis
        proof (cases "inn = rx_in (jsp s3)")
          case True
          with step(2) sp copy spin e False y have "ptr' = []" "s' = s3" by auto
          moreover have "rxq s3 = []" using True w rx_nonempty [OF reads_inv [OF r3]] by simp
          ultimately show ?thesis using data r3 e new(5) by (simp add: delivered_def)
        next
          case False2: False
          with False step(2) sp copy spin e have "rec b flags space [] xs3 s3 = Some y" using new(1) by simp
          from step(1) [OF this] reads_inv [OF r3] y have "delivered flags space [] s3 ptr' s'" by simp
          then show ?thesis using reads_trans [OF r3] data e new(5) sp by (auto simp: delivered_def)
        qed
      qed
    qed
    then show ?case using y by simp
  qed
  with assms(2) show ?thesis by simp
qed

lemma jtag_uart_read_spec:
  assumes "jtag_uart_read b space flags xs s = Some (r, data, xs', s')" "jinv (jsp s)"
  shows "reads s data s' \<and> int (length data) \<le> max 0 space
    \<and> r = (if data \<noteq> [] then int (length data) else if flags AND JTAG_O_NONBLOCK \<noteq> 0 then - EWOULDBLOCK else - EIO)
    \<and> (data \<noteq> [] \<longrightarrow> irq_enable (jsp s') AND JTAG_RE_MSK = JTAG_RE_MSK
         \<and> (\<exists>es. jlog s' = es @ [IoWr (jbase (jsp s) + 4) (irq_enable (jsp s'))]))
    \<and> (0 < space \<longrightarrow> flags AND JTAG_O_NONBLOCK = 0 \<longrightarrow> never_times_out s \<longrightarrow> data \<noteq> [])
    \<and> (0 < space \<longrightarrow> rxq s \<noteq> [] \<longrightarrow> data \<noteq> [])"
proof -
  from assms(1) obtain xs1 s1 where
    l: "read_loop b flags (nat space) [] xs s = Some (data, xs1, s1)" and
    e: "(if data \<noteq> [] then irq_on b JTAG_RE_MSK xs1 s1 else Some (xs1, s1)) = Some (xs', s')" and
    r: "r = (if data \<noteq> [] then int (length data) else if flags AND JTAG_O_NONBLOCK \<noteq> 0 then - EWOULDBLOCK else - EIO)"
    by (auto simp: jtag_uart_read_def bind_eq_Some_conv split: if_splits)
  have d: "length data \<le> nat space" "reads s data s1"
    "0 < nat space \<longrightarrow> flags AND JTAG_O_NONBLOCK = 0 \<longrightarrow> never_times_out s \<longrightarrow> data \<noteq> []"
    "0 < nat space \<longrightarrow> rxq s \<noteq> [] \<longrightarrow> data \<noteq> []"
    using read_loop_spec [OF l assms(2)] by (auto simp: delivered_def)
  have b1: "jbase (jsp s1) = jbase (jsp s)" using d(2) by (simp add: reads_def jflow_def)
  have on: "quiet s1 s' \<and> (data \<noteq> [] \<longrightarrow> irq_enable (jsp s') AND JTAG_RE_MSK = JTAG_RE_MSK
         \<and> (\<exists>es. jlog s' = es @ [IoWr (jbase (jsp s) + 4) (irq_enable (jsp s'))]))"
  proof (cases "data = []")
    case True
    with e quiet_refl [OF reads_inv [OF d(2)]] show ?thesis by simp
  next
    case False
    with e have "irq_on b JTAG_RE_MSK xs1 s1 = Some (xs', s')" by simp
    from irq_on_spec [OF this reads_inv [OF d(2)]] show ?thesis by (simp add: b1)
  qed
  have "reads s data s'" using reads_trans [OF d(2) reads_quiet [OF on [THEN conjunct1]]] by simp
  with on d r show ?thesis by (simp add: zero_less_nat_eq)
qed


end
