(* ===== verification/JtagWrite.thy ===== *)
theory JtagWrite
  imports JtagRead
begin

text \<open>
  The \<open>write\<close> and \<open>close\<close> of the JTAG UART driver under any schedule of interrupts: what \<open>write\<close>
  accepts is appended to the transmit queue (\<open>writes\<close>), and \<open>close\<close> waits until that is
  empty.
\<close>

subsection \<open>write\<close>

lemma splice_idem: "i + length xs \<le> length buf \<Longrightarrow> splice_at i xs (splice_at i xs buf) = splice_at i xs buf"
  by (simp add: splice_at_def)

text \<open>Filling free slots does not change the queue before the index moves.\<close>

lemma ring_fill:
  assumes ok: "ring_ok N buf out inn" and n: "length xs \<le> free_run N out inn"
  shows "ring_ok N (splice_at inn xs buf) out inn \<and> ring_queue (splice_at inn xs buf) out inn = ring_queue buf out inn"
proof -
  from ok have l: "length buf = N" "out < N" "inn < N" by (simp_all add: ring_ok_def)
  have le: "inn + length xs \<le> N" using n l by (auto simp: free_run_def split: if_splits)
  have tk: "take inn (splice_at inn xs buf) = take inn buf"
    using l by (simp add: splice_at_def)
  have q: "ring_queue (splice_at inn xs buf) out inn = ring_queue buf out inn"
  proof (cases "inn < out")
    case True
    with n have "inn + length xs \<le> out" by (simp add: free_run_def)
    with True tk l show ?thesis by (simp add: ring_queue_def splice_drop)
  next
    case False
    have "take (inn - out) (drop out (splice_at inn xs buf)) = drop out (take inn (splice_at inn xs buf))"
      by (simp add: drop_take)
    with False tk show ?thesis by (simp add: ring_queue_def drop_take)
  qed
  with ok le l show ?thesis by (simp add: ring_ok_def splice_length)
qed

definition writes :: "'d usys \<Rightarrow> u8 list \<Rightarrow> 'd usys \<Rightarrow> bool" where
  "writes s xs s' \<longleftrightarrow> jflow s xs [] s' \<and> scpu s' = scpu s"

lemma writes_inv: "writes s xs s' \<Longrightarrow> jinv (jsp s')"
  by (simp add: writes_def jflow_def)

lemma writes_quiet: "quiet s s' \<Longrightarrow> writes s [] s'"
  by (simp add: writes_def quiet_def)

lemma writes_trans: "writes s x t \<Longrightarrow> writes t y u \<Longrightarrow> writes s (x @ y) u"
  using jflow_trans [of s x "[]" t y "[]" u] by (simp add: writes_def)

lemma quiet_room:
  assumes "quiet s t" "jinv (jsp s)"
  shows "free_run JTAG_BUF_LEN (tx_out (jsp s)) (tx_in (jsp s)) \<le> free_run JTAG_BUF_LEN (tx_out (jsp t)) (tx_in (jsp t))"
proof -
  from quiet_txq [OF assms(1)] have "length (txq t) \<le> length (txq s)" by auto
  moreover have "tx_in (jsp t) = tx_in (jsp s)" using assms(1) by (simp add: quiet_def)
  ultimately show ?thesis
    using free_run_min [OF jinv_rings(2) [OF assms(2)]] free_run_min [OF jinv_rings(2) [OF quiet_inv [OF assms(1)]]]
    by (simp add: txq_def del: buf_len) linarith
qed

lemma chunk_writes:
  assumes inv: "jinv (jsp s)" and q1: "quiet s t"
    and n: "length xs \<le> free_run JTAG_BUF_LEN (tx_out (jsp s)) (tx_in (jsp s))"
    and u: "u = upd_sp (\<lambda>j. j\<lparr>tx_buf := splice_at (tx_in (jsp s)) xs (tx_buf j)\<rparr>) t" and q2: "quiet u v"
  shows "writes s xs (upd_sp (\<lambda>j. j\<lparr>tx_in := (tx_in (jsp s) + length xs) mod JTAG_BUF_LEN\<rparr>) v)"
proof -
  note it = quiet_inv [OF q1]
  have ti: "tx_in (jsp t) = tx_in (jsp s)" using q1 by (simp add: quiet_def)
  have nt: "length xs \<le> free_run JTAG_BUF_LEN (tx_out (jsp t)) (tx_in (jsp t))"
    using n quiet_room [OF q1 inv] by (rule le_trans)
  note fill = ring_fill [OF jinv_rings(2) [OF it] nt]
  have iu: "jinv (jsp u)" using fill it ti by (simp add: jinv_def u del: buf_len)
  have tu: "writes t [] u"
    unfolding writes_def jflow_def using fill it iu ti by (simp add: u rxq_def txq_def)
  have tiu: "tx_in (jsp u) = tx_in (jsp s)" "tx_out (jsp u) = tx_out (jsp t)"
    "tx_buf (jsp u) = splice_at (tx_in (jsp s)) xs (tx_buf (jsp t))"
    by (simp_all add: u ti)
  note iv = quiet_inv [OF q2]
  have vq: "tx_in (jsp v) = tx_in (jsp s)" "tx_buf (jsp v) = splice_at (tx_in (jsp s)) xs (tx_buf (jsp t))"
    using q2 tiu by (simp_all add: quiet_def)
  have "length xs \<le> free_run JTAG_BUF_LEN (tx_out (jsp u)) (tx_in (jsp u))"
    using nt tiu ti by simp
  then have nv: "length xs \<le> free_run JTAG_BUF_LEN (tx_out (jsp v)) (tx_in (jsp v))"
    using quiet_room [OF q2 iu] by (rule le_trans)
  have "tx_in (jsp t) + length xs \<le> length (tx_buf (jsp t))"
    using nt jinv_rings(2) [OF it] by (auto simp: free_run_def ring_ok_def split: if_splits)
  then have idem: "splice_at (tx_in (jsp v)) xs (tx_buf (jsp v)) = tx_buf (jsp v)"
    using vq ti by (simp add: splice_idem)
  let ?w = "upd_sp (\<lambda>j. j\<lparr>tx_in := (tx_in (jsp s) + length xs) mod JTAG_BUF_LEN\<rparr>) v"
  have jw: "jsp ?w = tx_store xs (jsp v)"
    using idem vq by (simp add: tx_store_def)
  note put = tx.put_law [OF jinv_rings(2) [OF iv] nv, folded jw]
  have other: "rx_buf (jsp ?w) = rx_buf (jsp v)" "rx_in (jsp ?w) = rx_in (jsp v)" "rx_out (jsp ?w) = rx_out (jsp v)"
    "jbase (jsp ?w) = jbase (jsp v)" "timeout (jsp ?w) = timeout (jsp v)" "host_inactive (jsp ?w) = host_inactive (jsp v)"
    by simp_all
  have "writes v xs ?w"
    unfolding writes_def jflow_def rxq_def txq_def jinv_def other
    using put iv [unfolded jinv_def] by (intro conjI exI [of _ "[]"]) (simp_all del: buf_len)
  from writes_trans [OF writes_quiet [OF q1] writes_trans [OF tu writes_trans [OF writes_quiet [OF q2] this]]]
  show ?thesis by simp
qed

lemma fill_inv:
  assumes "jinv (jsp s)" "quiet s t" "length xs \<le> free_run JTAG_BUF_LEN (tx_out (jsp s)) (tx_in (jsp s))"
  shows "jinv (jsp (upd_sp (\<lambda>j. j\<lparr>tx_buf := splice_at (tx_in (jsp s)) xs (tx_buf j)\<rparr>) t))"
proof -
  have "tx_in (jsp t) = tx_in (jsp s)" using assms(2) by (simp add: quiet_def)
  moreover have "length xs \<le> free_run JTAG_BUF_LEN (tx_out (jsp t)) (tx_in (jsp t))"
    using assms(3) quiet_room [OF assms(2,1)] by (rule le_trans)
  ultimately show ?thesis
    using ring_fill [OF jinv_rings(2) [OF quiet_inv [OF assms(2)]], of xs] quiet_inv [OF assms(2)]
    by (simp add: jinv_def del: buf_len)
qed

text \<open>One pass of the copying loop: the last \<open>out\<close>, and the number of bytes stored unless there
  was no room.\<close>

definition write_pass ::
  "'d bus \<Rightarrow> u8 list \<Rightarrow> preempt list \<Rightarrow> 'd usys \<Rightarrow> (nat \<times> nat option \<times> preempt list \<times> 'd usys) option" where
  "write_pass b ptr xs s = do {
     (xs, s) \<leftarrow> pt b xs s;
     let inn = tx_in (jsp s);
     (xs, s) \<leftarrow> pt b xs s;
     let out = tx_out (jsp s);
     let n = (if inn < out then out - 1 - inn
              else if out > 0 then JTAG_BUF_LEN - inn
              else JTAG_BUF_LEN - 1 - inn);
     if n = 0 then Some (out, None, xs, s)
     else do {
       let n = min n (length ptr);
       (xs, s) \<leftarrow> pt b xs s;
       (xs, s) \<leftarrow> pt b xs (upd_sp (\<lambda>j. j\<lparr>tx_buf := splice_at inn (take n ptr) (tx_buf j)\<rparr>) s);
       Some (out, Some n, xs, upd_sp (\<lambda>j. j\<lparr>tx_in := (inn + n) mod JTAG_BUF_LEN\<rparr>) s) } }"

lemma splice_chunk: "take i buf @ take (min m (length ptr)) ptr @ drop (i + min m (length ptr)) buf
    = splice_at i (take (min m (length ptr)) ptr) buf"
  by (simp add: splice_at_def min.commute)

lemma cap_min: "(if n > m then m else n) = min n (m :: nat)"
  by simp

lemma if_bind: "Option.bind (if c then x else y) f = (if c then Option.bind x f else Option.bind y f)"
  by simp

lemma write_copy_pass: "write_copy b out ptr xs s =
    (if ptr = [] then Some (out, ptr, xs, s)
     else do {
       (out, n, xs, s) \<leftarrow> write_pass b ptr xs s;
       case n of None \<Rightarrow> Some (out, ptr, xs, s) | Some n \<Rightarrow> write_copy b out (drop n ptr) xs s })"
  unfolding write_copy.simps [of b out ptr xs s] write_pass_def Let_def cap_min splice_chunk split_def bind_assoc if_bind
    Option.bind.bind_lunit fst_conv snd_conv option.case length_greater_0_conv if_not_P
  by simp

definition stored :: "u8 list \<Rightarrow> 'd usys \<Rightarrow> nat option \<Rightarrow> 'd usys \<Rightarrow> bool" where
  "stored ptr s n s' \<longleftrightarrow> (case n of
     None \<Rightarrow> quiet s s' \<and> JTAG_BUF_LEN \<le> length (txq s) + 1
   | Some n \<Rightarrow> 0 < n \<and> n \<le> length ptr \<and> writes s (take n ptr) s')"

lemma writes_length: "writes s c s' \<Longrightarrow> length (txq s') \<le> length (txq s) + length c"
proof -
  assume "writes s c s'"
  then obtain es where "txq s @ c = es @ txq s'" unfolding writes_def jflow_def by blast
  from arg_cong [OF this, of length] show ?thesis by simp
qed

lemma write_pass_spec:
  assumes "write_pass b ptr xs s = Some (out, n, xs', s')" and inv: "jinv (jsp s)" and ne: "ptr \<noteq> []"
  shows "length xs' < length xs \<and> stored ptr s n s'"
proof -
  from assms(1) obtain xs1 s1 xs2 s2 where p: "pt b xs s = Some (xs1, s1)" "pt b xs1 s1 = Some (xs2, s2)"
    by (auto simp: write_pass_def bind_eq_Some_conv Let_def)
  note q1 = pt_quiet [OF p(1) inv, THEN conjunct1]
  note i1 = quiet_inv [OF q1]
  note q2 = pt_quiet [OF p(2) i1, THEN conjunct1]
  note i2 = quiet_inv [OF q2] and q12 = quiet_trans [OF q1 q2]
  have ti: "tx_in (jsp s1) = tx_in (jsp s2)" using q2 by (simp add: quiet_def)
  define m where "m = free_run JTAG_BUF_LEN (tx_out (jsp s2)) (tx_in (jsp s2))"
  define c where "c = take (min m (length ptr)) ptr"
  have len: "length c = min m (length ptr)" by (simp add: c_def)
  have rest: "(if m = 0 then Some (tx_out (jsp s2), None, xs2, s2)
     else do {
       (xs3, s3) \<leftarrow> pt b xs2 s2;
       (xs4, s4) \<leftarrow> pt b xs3 (upd_sp (\<lambda>j. j\<lparr>tx_buf := splice_at (tx_in (jsp s2)) c (tx_buf j)\<rparr>) s3);
       Some (tx_out (jsp s2), Some (length c), xs4,
         upd_sp (\<lambda>j. j\<lparr>tx_in := (tx_in (jsp s2) + length c) mod JTAG_BUF_LEN\<rparr>) s4) }) = Some (out, n, xs', s')"
    using assms(1) p unfolding len unfolding c_def
    by (simp add: write_pass_def Let_def ti m_def free_run_def cong del: if_weak_cong)
  show ?thesis
  proof (cases "m = 0")
    case True
    have "JTAG_BUF_LEN \<le> length (txq s2) + 1"
      using True free_run_min [OF jinv_rings(2) [OF i2]] jinv_rings(2) [OF i2]
      by (auto simp: m_def txq_def min_def ring_ok_def split: if_splits)
    moreover have "length (txq s2) \<le> length (txq s)" using quiet_txq [OF q12] by auto
    ultimately show ?thesis
      using rest True p [THEN pt_quiet] inv i1 q12 by (auto simp: stored_def)
  next
    case False
    with rest obtain xs3 s3 s4 where
      p': "pt b xs2 s2 = Some (xs3, s3)" "pt b xs3 (upd_sp (\<lambda>j. j\<lparr>tx_buf := splice_at (tx_in (jsp s2)) c (tx_buf j)\<rparr>) s3) = Some (xs', s4)"
      and e: "n = Some (length c)" "s' = upd_sp (\<lambda>j. j\<lparr>tx_in := (tx_in (jsp s2) + length c) mod JTAG_BUF_LEN\<rparr>) s4"
      by (auto simp: bind_eq_Some_conv)
    note q3 = pt_quiet [OF p'(1) i2, THEN conjunct1]
    have room: "length c \<le> free_run JTAG_BUF_LEN (tx_out (jsp s2)) (tx_in (jsp s2))" by (simp add: len m_def)
    note iu = fill_inv [OF i2 q3 room]
    note q4 = pt_quiet [OF p'(2) iu, THEN conjunct1]
    have "writes s c s'"
      using writes_trans [OF writes_quiet [OF q12] chunk_writes [OF i2 q3 room refl q4]] e by simp
    moreover have "c = take (length c) ptr" "0 < length c" "length c \<le> length ptr" using False ne by (auto simp: c_def)
    moreover have "length xs' < length xs"
      using p [THEN pt_quiet] p'(1) [THEN pt_quiet] p'(2) [THEN pt_quiet] inv i1 i2 iu by simp
    ultimately show ?thesis using e(1) by (simp add: stored_def)
  qed
qed

lemma write_copy_spec:
  assumes "write_copy b out ptr xs s = Some (out', ptr', xs', s')" "jinv (jsp s)"
  shows "\<exists>n \<le> length ptr. ptr' = drop n ptr \<and> writes s (take n ptr) s'"
  using assms
proof (induction "length xs" arbitrary: out ptr xs s rule: less_induct)
  case less
  show ?case
  proof (cases "ptr = []")
    case True
    with less.prems writes_quiet [OF quiet_refl [OF less.prems(2)]] show ?thesis by (simp add: write_copy_pass)
  next
    case False
    with less.prems(1) obtain out1 n xs1 s1 where pass: "write_pass b ptr xs s = Some (out1, n, xs1, s1)"
      by (subst (asm) write_copy_pass) (auto simp: bind_eq_Some_conv)
    note sp = write_pass_spec [OF pass less.prems(2) False]
    show ?thesis
    proof (cases n)
      case None
      with less.prems(1) pass False have "ptr' = ptr" "s' = s1" by (subst (asm) write_copy_pass, simp)+
      with sp None writes_quiet [of s s1] show ?thesis by (intro exI [of _ 0]) (simp add: stored_def)
    next
      case (Some k)
      with less.prems(1) pass False have "write_copy b out1 (drop k ptr) xs1 s1 = Some (out', ptr', xs', s')"
        by (subst (asm) write_copy_pass) simp
      moreover have k: "k \<le> length ptr" "writes s (take k ptr) s1" using sp Some by (simp_all add: stored_def)
      ultimately obtain m where m: "m \<le> length (drop k ptr)" "ptr' = drop m (drop k ptr)" "writes s1 (take m (drop k ptr)) s'"
        using less.hyps sp writes_inv by blast
      with k writes_trans [OF k(2) m(3)] show ?thesis
        by (intro exI [of _ "k + m"]) (simp add: take_add add.commute)
    qed
  qed
qed

lemma write_spin_quiet:
  assumes "write_spin b out xs s = Some (xs', s')" "jinv (jsp s)"
  shows "quiet s s'"
proof -
  from assms(1) have "(\<lambda>b out xs s (xs', s'). jinv (jsp s) \<longrightarrow> quiet s s') b out xs s (xs', s')"
  proof (induction rule: write_spin.raw_induct [rotated, consumes 1, case_names step])
    case (step rec b out xs s y)
    obtain xs' s' where y: "y = (xs', s')" by fastforce
    from step(2) obtain xs1 s1 where pt1: "pt b xs s = Some (xs1, s1)"
      by (auto simp: bind_eq_Some_conv)
    show ?case
    proof (unfold y prod.case, rule impI)
      assume inv: "jinv (jsp s)"
      note q1 = pt_quiet [OF pt1 inv, THEN conjunct1]
      show "quiet s s'"
      proof (cases "out \<noteq> tx_out (jsp s1)")
        case True
        with step(2) pt1 y q1 show ?thesis by simp
      next
        case False
        with step(2) pt1 obtain xs2 s2 where pt2: "pt b xs1 s1 = Some (xs2, s2)"
          by (auto simp: bind_eq_Some_conv)
        note q2 = pt_quiet [OF pt2 quiet_inv [OF q1], THEN conjunct1]
        show ?thesis
        proof (cases "host_inactive (jsp s2) < timeout (jsp s2)")
          case True
          with False step(2) pt1 pt2 have "rec b out xs2 s2 = Some y" by simp
          from step(1) [OF this] quiet_inv [OF q2] y have "quiet s2 s'" by simp
          then show ?thesis by (rule quiet_trans [OF quiet_trans [OF q1 q2]])
        next
          case False2: False
          with False step(2) pt1 pt2 y have "s' = s2" by simp
          with quiet_trans [OF q1 q2] show ?thesis by simp
        qed
      qed
    qed
  qed
  with assms(2) show ?thesis by simp
qed

text \<open>What the outer loop has achieved when it ends.\<close>

definition accepted :: "u32 \<Rightarrow> u8 list \<Rightarrow> 'd usys \<Rightarrow> u8 list \<Rightarrow> 'd usys \<Rightarrow> bool" where
  "accepted flags ptr s ptr' s' \<longleftrightarrow> (\<exists>n \<le> length ptr. ptr' = drop n ptr \<and> writes s (take n ptr) s'
    \<and> (n < length ptr \<longrightarrow> flags AND JTAG_O_NONBLOCK \<noteq> 0 \<or> host_inactive (jsp s') \<noteq> 0))"

lemma accepted_further:
  assumes "n \<le> length ptr" "writes s (take n ptr) t" "accepted flags (drop n ptr) t ptr' s'"
  shows "accepted flags ptr s ptr' s'"
proof -
  obtain k where k: "k \<le> length (drop n ptr)" "ptr' = drop k (drop n ptr)" "writes t (take k (drop n ptr)) s'"
    "k < length (drop n ptr) \<longrightarrow> flags AND JTAG_O_NONBLOCK \<noteq> 0 \<or> host_inactive (jsp s') \<noteq> 0"
    using assms(3) unfolding accepted_def by blast
  have "writes s (take (n + k) ptr) s'" using writes_trans [OF assms(2) k(3)] by (simp add: take_add)
  with assms(1) k show ?thesis
    unfolding accepted_def by (intro exI [of _ "n + k"]) (auto simp: add.commute)
qed

lemma write_loop_spec:
  assumes "write_loop b flags out ptr xs s = Some (ptr', xs', s')" "jinv (jsp s)"
  shows "accepted flags ptr s ptr' s'"
proof -
  from assms(1) have "(\<lambda>b flags out ptr xs s (ptr', xs', s'). jinv (jsp s) \<longrightarrow> accepted flags ptr s ptr' s')
    b flags out ptr xs s (ptr', xs', s')"
  proof (induction rule: write_loop.raw_induct [rotated, consumes 1, case_names step])
    case (step rec b flags out ptr xs s y)
    obtain ptr' xs' s' where y: "y = (ptr', xs', s')" by (metis prod_cases3)
    from step(2) obtain out1 ptr1 xs1 s1 xs2 s2 where
      c: "write_copy b out ptr xs s = Some (out1, ptr1, xs1, s1)" "irq_on b JTAG_WE_MSK xs1 s1 = Some (xs2, s2)"
      by (auto simp: bind_eq_Some_conv)
    have "accepted flags ptr s ptr' s'" if inv: "jinv (jsp s)"
    proof -
      obtain n where n: "n \<le> length ptr" "ptr1 = drop n ptr" "writes s (take n ptr) s1"
        using write_copy_spec [OF c(1) inv] by blast
      note q2 = irq_on_spec [OF c(2) writes_inv [OF n(3)], THEN conjunct1]
      have w2: "writes s (take n ptr) s2" using writes_trans [OF n(3) writes_quiet [OF q2]] by simp
      show ?thesis
      proof (cases "length ptr1 > 0 \<and> flags AND JTAG_O_NONBLOCK = 0")
        case False
        with step(2) c y have "ptr' = ptr1" "s' = s2" by (auto split: if_splits)
        with n w2 False show ?thesis unfolding accepted_def by (intro exI [of _ n]) auto
      next
        case True
        with step(2) c obtain xs3 s3 xs4 s4 where
          sp: "write_spin b out1 xs2 s2 = Some (xs3, s3)" "pt b xs3 s3 = Some (xs4, s4)"
          by (auto simp: bind_eq_Some_conv)
        note q3 = write_spin_quiet [OF sp(1) quiet_inv [OF q2]]
        note q4 = pt_quiet [OF sp(2) quiet_inv [OF q3], THEN conjunct1]
        have w4: "writes s (take n ptr) s4"
          using writes_trans [OF w2 writes_quiet [OF quiet_trans [OF q3 q4]]] by simp
        show ?thesis
        proof (cases "host_inactive (jsp s4) \<noteq> 0")
          case True2: True
          with step(2) c sp True y have "ptr' = ptr1" "s' = s4" by auto
          with n w4 True2 show ?thesis unfolding accepted_def by (intro exI [of _ n]) auto
        next
          case False
          with step(2) c sp True have "rec b flags out1 ptr1 xs4 s4 = Some y" by simp
          from step(1) [OF this] writes_inv [OF w4] y have "accepted flags ptr1 s4 ptr' s'" by simp
          then show ?thesis unfolding n(2) by (rule accepted_further [OF n(1) w4])
        qed
      qed
    qed
    then show ?case using y by simp
  qed
  with assms(2) show ?thesis by simp
qed

lemma jtag_uart_write_spec:
  assumes "jtag_uart_write b data flags xs s = Some (r, xs', s')" "jinv (jsp s)"
  shows "\<exists>n \<le> length data. writes s (take n data) s'
    \<and> r = (if n \<noteq> 0 then int n else if flags AND JTAG_O_NONBLOCK \<noteq> 0 then - EWOULDBLOCK else - EIO)
    \<and> (n < length data \<longrightarrow> flags AND JTAG_O_NONBLOCK \<noteq> 0 \<or> host_inactive (jsp s') \<noteq> 0)"
proof -
  from assms(1) obtain ptr where
    l: "write_loop b flags 0 data xs s = Some (ptr, xs', s')" and
    r: "r = (if length ptr \<noteq> length data then int (length data - length ptr)
           else if flags AND JTAG_O_NONBLOCK \<noteq> 0 then - EWOULDBLOCK else - EIO)"
    by (auto simp: jtag_uart_write_def bind_eq_Some_conv)
  obtain n where n: "n \<le> length data" "ptr = drop n data" "writes s (take n data) s'"
    "n < length data \<longrightarrow> flags AND JTAG_O_NONBLOCK \<noteq> 0 \<or> host_inactive (jsp s') \<noteq> 0"
    using write_loop_spec [OF l assms(2)] unfolding accepted_def by blast
  with r show ?thesis by (intro exI [of _ n]) auto
qed

lemma jtag_uart_close_spec:
  assumes "jtag_uart_close b flags xs s = Some (r, xs', s')" "jinv (jsp s)"
  shows "quiet s s' \<and> (r = 0 \<or> r = - EWOULDBLOCK) \<and>
    (r = 0 \<longrightarrow> txq s' = [] \<or> timeout (jsp s') \<le> host_inactive (jsp s')) \<and> (r \<noteq> 0 \<longrightarrow> flags AND JTAG_O_NONBLOCK \<noteq> 0)"
proof -
  from assms(1) have "(\<lambda>b flags xs s (r, xs', s'). jinv (jsp s) \<longrightarrow> quiet s s' \<and> (r = 0 \<or> r = - EWOULDBLOCK) \<and>
    (r = 0 \<longrightarrow> txq s' = [] \<or> timeout (jsp s') \<le> host_inactive (jsp s')) \<and> (r \<noteq> 0 \<longrightarrow> flags AND JTAG_O_NONBLOCK \<noteq> 0))
    b flags xs s (r, xs', s')"
  proof (induction rule: jtag_uart_close.raw_induct [rotated, consumes 1, case_names step])
    case (step rec b flags xs s y)
    obtain r xs' s' where y: "y = (r, xs', s')" by (metis prod_cases3)
    from step(2) obtain xs1 s1 where pt1: "pt b xs s = Some (xs1, s1)" by (auto simp: bind_eq_Some_conv)
    show ?case
    proof (unfold y prod.case, rule impI)
      assume inv: "jinv (jsp s)"
      note q1 = pt_quiet [OF pt1 inv, THEN conjunct1]
      show "quiet s s' \<and> (r = 0 \<or> r = - EWOULDBLOCK) \<and>
        (r = 0 \<longrightarrow> txq s' = [] \<or> timeout (jsp s') \<le> host_inactive (jsp s')) \<and> (r \<noteq> 0 \<longrightarrow> flags AND JTAG_O_NONBLOCK \<noteq> 0)"
      proof (cases "tx_out (jsp s1) \<noteq> tx_in (jsp s1)")
        case False
        with step(2) pt1 y q1 ring_empty [OF jinv_rings(2) [OF quiet_inv [OF q1]]]
        show ?thesis by (simp add: txq_def)
      next
        case True
        with step(2) pt1 obtain xs2 s2 where pt2: "pt b xs1 s1 = Some (xs2, s2)"
          by (auto simp: bind_eq_Some_conv)
        note q2 = quiet_trans [OF q1 pt_quiet [OF pt2 quiet_inv [OF q1], THEN conjunct1]]
        show ?thesis
        proof (cases "host_inactive (jsp s2) < timeout (jsp s2) \<and> flags AND JTAG_O_NONBLOCK = 0")
          case t: True
          with True step(2) pt1 pt2 have "rec b flags xs2 s2 = Some y" by simp
          from step(1) [OF this] quiet_inv [OF q2] y quiet_trans [OF q2, of s'] show ?thesis by simp
        next
          case False
          with True step(2) pt1 pt2 y q2 show ?thesis
            by (auto split: if_splits simp: EWOULDBLOCK_def)
        qed
      qed
    qed
  qed
  with assms(2) show ?thesis by simp
qed

end
