(* ===== verification/JtagReturns.thy ===== *)
theory JtagReturns
  imports JtagWrite
begin

text \<open>
  The calls of the JTAG UART driver that return whatever the schedule of interrupts, provided the
  interrupt routine itself does: those that need not wait. The number of accesses to the shared
  state is bounded, so a schedule of that length is enough.
\<close>

subsection \<open>Points of interruption\<close>

text \<open>The interrupt routine of a core at \<open>bs\<close> always returns: the core eventually shows neither interrupt.\<close>

definition serviced :: "'d bus \<Rightarrow> u32 \<Rightarrow> bool" where
  "serviced b bs \<longleftrightarrow> (\<forall>s. jinv (jsp s) \<and> jbase (jsp s) = bs \<longrightarrow> jtag_uart_irq b s \<noteq> None)"

lemma quiet_base: "quiet s s' \<Longrightarrow> jbase (jsp s') = jbase (jsp s)"
  by (simp add: quiet_def jflow_def)

lemma reads_base: "reads s x s' \<Longrightarrow> jbase (jsp s') = jbase (jsp s)"
  by (simp add: reads_def jflow_def)

lemma writes_base: "writes s x s' \<Longrightarrow> jbase (jsp s') = jbase (jsp s)"
  by (simp add: writes_def jflow_def)

lemma pt_returns:
  assumes "serviced b (jbase (jsp s))" "jinv (jsp s)" "xs \<noteq> []"
  obtains s' where "pt b xs s = Some (tl xs, s')" "quiet s s'"
proof -
  obtain x ys where xs: "xs = x # ys" using assms(3) by (cases xs) auto
  have "interrupt b x s \<noteq> None" using assms(1,2) by (cases x) (auto simp: serviced_def)
  then have "\<exists>s'. pt b xs s = Some (ys, s')" using xs by (cases "alt_irq_enabled (scpu s) = 0") auto
  then obtain s' where p: "pt b xs s = Some (ys, s')" ..
  from p pt_quiet [OF p assms(2)] xs that [of s'] show ?thesis by simp
qed

subsection \<open>read\<close>

lemma read_pass_returns:
  assumes ok: "serviced b (jbase (jsp s))" and inv: "jinv (jsp s)" and len: "4 \<le> length xs"
  shows "\<exists>inn c xs' s'. read_pass b space xs s = Some (inn, c, xs', s') \<and> length xs \<le> length xs' + 4"
proof -
  obtain x1 x2 x3 x4 ys where xs: "xs = x1 # x2 # x3 # x4 # ys"
    using len by (auto simp: numeral_eq_Suc Suc_le_length_iff)
  from pt_returns [OF ok inv, of xs] xs obtain s1 where p1: "pt b xs s = Some (tl xs, s1)" "quiet s s1" by auto
  have ok1: "serviced b (jbase (jsp s1))" using ok quiet_base [OF p1(2)] by simp
  from pt_returns [OF ok1 quiet_inv [OF p1(2)], of "tl xs"] xs
  obtain s2 where p2: "pt b (tl xs) s1 = Some (x3 # x4 # ys, s2)" "quiet s1 s2" by auto
  have ok2: "serviced b (jbase (jsp s2))" using ok1 quiet_base [OF p2(2)] by simp
  from pt_returns [OF ok2 quiet_inv [OF p2(2)], of "x3 # x4 # ys"]
  obtain s3 where p3: "pt b (x3 # x4 # ys) s2 = Some (x4 # ys, s3)" "quiet s2 s3" by auto
  have ok3: "serviced b (jbase (jsp s3))" using ok2 quiet_base [OF p3(2)] by simp
  from pt_returns [OF ok3 quiet_inv [OF p3(2)], of "x4 # ys"]
  obtain s4 where p4: "pt b (x4 # ys) s3 = Some (ys, s4)" "quiet s3 s4" by auto
  show ?thesis
    unfolding read_pass_def using p1(1) p2(1) p3(1) p4(1) xs by (simp add: Let_def)
qed

lemma read_copy_returns:
  "serviced b (jbase (jsp s)) \<Longrightarrow> jinv (jsp s) \<Longrightarrow> 4 * space + 2 \<le> length xs \<Longrightarrow> 0 < space \<Longrightarrow>
    \<exists>inn space' ptr' xs' s'. read_copy b space ptr xs s = Some (inn, space', ptr', xs', s')
      \<and> length xs \<le> length xs' + 4 * space + 2"
proof (induction space arbitrary: ptr xs s rule: less_induct)
  case (less space)
  then obtain inn c xs1 s1 where pass: "read_pass b space xs s = Some (inn, c, xs1, s1)" "length xs \<le> length xs1 + 4"
    using read_pass_returns [OF less.prems(1,2), of xs space] by auto
  note sp = read_pass_spec [OF pass(1) less.prems(2), THEN conjunct2]
  show ?case
  proof (cases c)
    case None
    then show ?thesis using pass less.prems(4) by (simp add: read_copy_pass)
  next
    case (Some nc)
    then obtain c' where c: "c = Some (length c', c')" "reads s c' s1" "0 < length c'" "length c' \<le> space"
      using sp less.prems(4) by (cases nc) (auto simp: passed_def)
    have ok: "serviced b (jbase (jsp s1))" using less.prems(1) reads_base [OF c(2)] by simp
    show ?thesis
    proof (cases "length c' < space")
      case True
      have "4 * (space - length c') + 2 \<le> length xs1" using less.prems(3) pass(2) c(3,4) by linarith
      with less.IH [OF _ ok reads_inv [OF c(2)], of "space - length c'" xs1 "ptr @ c'"] c(3) True
      obtain inn' space' ptr' xs' s' where r: "read_copy b (space - length c') (ptr @ c') xs1 s1 = Some (inn', space', ptr', xs', s')"
        "length xs1 \<le> length xs' + 4 * (space - length c') + 2" by auto
      then have "length xs \<le> length xs' + 4 * space + 2" using pass(2) c(3,4) by linarith
      with r True pass(1) c show ?thesis by (subst read_copy_pass) simp
    next
      case False
      with pass c less.prems(4) show ?thesis by (subst read_copy_pass) auto
    qed
  qed
qed

lemma irq_on_returns:
  assumes "serviced b (jbase (jsp s))" "jinv (jsp s)" "4 \<le> length xs"
  shows "irq_on b m xs s \<noteq> None"
proof -
  obtain x1 x2 x3 x4 ys where xs: "xs = x1 # x2 # x3 # x4 # ys"
    using assms(3) by (auto simp: numeral_eq_Suc Suc_le_length_iff)
  obtain s1 where p1: "pt b xs s = Some (tl xs, s1)"
    using pt_returns [OF assms(1,2), of xs] xs by auto
  obtain ctxt c where d: "alt_irq_disable_all (scpu s1) = (ctxt, c)" by fastforce
  have off: "alt_irq_enabled c = 0" using masked [of "scpu s1"] d by simp
  show ?thesis
    using p1 off by (simp add: irq_on_def xs d)
qed

lemma read_returns:
  assumes "serviced b (jbase (jsp s))" "jinv (jsp s)" "4 * nat space + 6 \<le> length xs"
    "flags AND JTAG_O_NONBLOCK \<noteq> 0 \<or> rxq s \<noteq> [] \<or> space \<le> 0"
  shows "jtag_uart_read b space flags xs s \<noteq> None"
proof (cases "space \<le> 0")
  case True
  then show ?thesis by (simp add: jtag_uart_read_def read_loop.simps)
next
  case False
  then have sp: "0 < nat space" by simp
  obtain inn space' ptr' xs' s' where c: "read_copy b (nat space) [] xs s = Some (inn, space', ptr', xs', s')"
    "length xs \<le> length xs' + 4 * nat space + 2"
    using read_copy_returns [OF assms(1,2) _ sp, of xs "[]"] assms(3) by auto
  obtain new where new: "ptr' = new" "reads s new s'" "rxq s \<noteq> [] \<longrightarrow> new \<noteq> []"
    using read_copy_spec [OF c(1) assms(2)] sp by auto
  have "read_loop b flags (nat space) [] xs s = Some (ptr', xs', s')"
    using sp c(1) new assms(4) False by (subst read_loop.simps) auto
  moreover have "serviced b (jbase (jsp s'))" using assms(1) reads_base [OF new(2)] by simp
  then have "irq_on b JTAG_RE_MSK xs' s' \<noteq> None"
    using irq_on_returns [OF _ reads_inv [OF new(2)]] c(2) assms(3) by simp
  ultimately show ?thesis by (auto simp: jtag_uart_read_def)
qed

subsection \<open>write\<close>

text \<open>With room for all of the data nothing is left over.\<close>

lemma write_pass_returns:
  assumes ok: "serviced b (jbase (jsp s))" and inv: "jinv (jsp s)" and len: "4 \<le> length xs"
  shows "\<exists>out n xs' s'. write_pass b ptr xs s = Some (out, n, xs', s') \<and> length xs \<le> length xs' + 4"
proof -
  obtain x1 x2 x3 x4 ys where xs: "xs = x1 # x2 # x3 # x4 # ys"
    using len by (auto simp: numeral_eq_Suc Suc_le_length_iff)
  from pt_returns [OF ok inv, of xs] xs obtain s1 where p1: "pt b xs s = Some (tl xs, s1)" "quiet s s1" by auto
  have ok1: "serviced b (jbase (jsp s1))" using ok quiet_base [OF p1(2)] by simp
  from pt_returns [OF ok1 quiet_inv [OF p1(2)], of "tl xs"] xs
  obtain s2 where p2: "pt b (tl xs) s1 = Some (x3 # x4 # ys, s2)" "quiet s1 s2" by auto
  note i2 = quiet_inv [OF p2(2)]
  have ok2: "serviced b (jbase (jsp s2))" using ok1 quiet_base [OF p2(2)] by simp
  from pt_returns [OF ok2 i2, of "x3 # x4 # ys"]
  obtain s3 where p3: "pt b (x3 # x4 # ys) s2 = Some (x4 # ys, s3)" "quiet s2 s3" by auto
  have ti: "tx_in (jsp s1) = tx_in (jsp s2)" using p2 by (simp add: quiet_def)
  define m where "m = free_run JTAG_BUF_LEN (tx_out (jsp s2)) (tx_in (jsp s2))"
  let ?u = "upd_sp (\<lambda>j. j\<lparr>tx_buf := splice_at (tx_in (jsp s2)) (take (min m (length ptr)) ptr) (tx_buf j)\<rparr>) s3"
  have "jinv (jsp ?u)" by (rule fill_inv [OF i2 p3(2)]) (simp add: m_def)
  moreover have "serviced b (jbase (jsp ?u))" using ok2 quiet_base [OF p3(2)] by simp
  ultimately obtain s4 where p4: "pt b (x4 # ys) ?u = Some (ys, s4)"
    using pt_returns [of b ?u "x4 # ys"] by auto
  show ?thesis
    unfolding write_pass_def using p1(1) p2(1) p3(1) p4 xs
    by (simp add: Let_def ti m_def free_run_def cong del: if_weak_cong)
qed

lemma write_copy_returns:
  "serviced b (jbase (jsp s)) \<Longrightarrow> jinv (jsp s) \<Longrightarrow> 4 * length ptr + 2 \<le> length xs \<Longrightarrow>
    \<exists>out' ptr' xs' s'. write_copy b out ptr xs s = Some (out', ptr', xs', s')
      \<and> length xs \<le> length xs' + 4 * length ptr + 2
      \<and> (length ptr + length (txq s) < JTAG_BUF_LEN \<longrightarrow> ptr' = [])"
proof (induction "length ptr" arbitrary: out ptr xs s rule: less_induct)
  case less
  show ?case
  proof (cases "ptr = []")
    case True
    then show ?thesis by (simp add: write_copy_pass)
  next
    case False
    then have "1 \<le> length ptr" by (simp add: Suc_leI)
    then obtain out1 n xs1 s1 where pass: "write_pass b ptr xs s = Some (out1, n, xs1, s1)" "length xs \<le> length xs1 + 4"
      using write_pass_returns [OF less.prems(1,2), of xs ptr] less.prems(3) by auto
    note sp = write_pass_spec [OF pass(1) less.prems(2) False, THEN conjunct2]
    show ?thesis
    proof (cases n)
      case None
      then have "\<not> length ptr + length (txq s) < JTAG_BUF_LEN" using sp \<open>1 \<le> length ptr\<close> by (simp add: stored_def)
      then show ?thesis using None pass False \<open>1 \<le> length ptr\<close> by (subst write_copy_pass) simp
    next
      case (Some k)
      then have k: "0 < k" "k \<le> length ptr" "writes s (take k ptr) s1" using sp by (simp_all add: stored_def)
      have "4 * length (drop k ptr) + 2 \<le> length xs1" using less.prems(3) pass(2) k(1,2) by simp
      moreover have ok: "serviced b (jbase (jsp s1))" using less.prems(1) writes_base [OF k(3)] by simp
      ultimately obtain out' ptr' xs' s' where r: "write_copy b out1 (drop k ptr) xs1 s1 = Some (out', ptr', xs', s')"
        "length xs1 \<le> length xs' + 4 * length (drop k ptr) + 2"
        "length (drop k ptr) + length (txq s1) < JTAG_BUF_LEN \<longrightarrow> ptr' = []"
        using less.hyps [OF _ ok writes_inv [OF k(3)], of "drop k ptr" xs1 out1] k(1,2) False by auto
      have "length xs \<le> length xs' + 4 * length ptr + 2" using r(2) pass(2) k(1,2) by simp
      moreover have "length ptr + length (txq s) < JTAG_BUF_LEN \<longrightarrow> ptr' = []"
        using r(3) writes_length [OF k(3)] k(2) by simp
      ultimately show ?thesis using r(1) pass(1) Some False by (subst write_copy_pass) simp
    qed
  qed
qed

lemma write_returns:
  assumes "serviced b (jbase (jsp s))" "jinv (jsp s)" "4 * length data + 6 \<le> length xs"
    "flags AND JTAG_O_NONBLOCK \<noteq> 0 \<or> length data + length (txq s) < JTAG_BUF_LEN"
  obtains rc xs' s' where "jtag_uart_write b data flags xs s = Some (rc, xs', s')"
    "length data + length (txq s) < JTAG_BUF_LEN \<Longrightarrow> data \<noteq> [] \<Longrightarrow> rc = int (length data)"
proof -
  obtain out ptr xs1 s1 where c: "write_copy b 0 data xs s = Some (out, ptr, xs1, s1)"
    "length xs \<le> length xs1 + 4 * length data + 2" "length data + length (txq s) < JTAG_BUF_LEN \<longrightarrow> ptr = []"
    using write_copy_returns [OF assms(1,2), of data xs 0] assms(3) by auto
  have "jinv (jsp s1)" "jbase (jsp s1) = jbase (jsp s)"
    using write_copy_spec [OF c(1) assms(2)] writes_inv writes_base by blast+
  moreover have "4 \<le> length xs1" using c(2) assms(3) by simp
  ultimately have "irq_on b JTAG_WE_MSK xs1 s1 \<noteq> None" using assms(1) by (intro irq_on_returns) simp_all
  then obtain xs2 s2 where i: "irq_on b JTAG_WE_MSK xs1 s1 = Some (xs2, s2)" by auto
  have "write_loop b flags 0 data xs s = Some (ptr, xs2, s2)"
    using c i assms(4) by (subst write_loop.simps) auto
  then have "jtag_uart_write b data flags xs s = Some (if length ptr \<noteq> length data then int (length data - length ptr)
           else if flags AND JTAG_O_NONBLOCK \<noteq> 0 then - EWOULDBLOCK else - EIO, xs2, s2)"
    by (simp add: jtag_uart_write_def)
  with c(3) that show ?thesis by auto
qed

subsection \<open>close\<close>

text \<open>A core that sends: as long as \<open>I\<close> holds of core and driver, which every interrupt keeps, the
  interrupt routine returns and takes at least one byte from a transmit queue that is not empty.\<close>

definition sends :: "'d bus \<Rightarrow> ('d usys \<Rightarrow> bool) \<Rightarrow> bool" where
  "sends b I \<longleftrightarrow> (\<forall>s. I s \<and> jinv (jsp s) \<longrightarrow> I (snd (jtag_uart_timeout b s)) \<and>
     (\<exists>t. jtag_uart_irq b s = Some t \<and> I t \<and> (txq s \<noteq> [] \<longrightarrow> length (txq t) < length (txq s))))"

lemma pt_sends:
  assumes "sends b I" "I s" "jinv (jsp s)" "alt_irq_enabled (scpu s) \<noteq> 0"
  obtains s' where "pt b (x # xs) s = Some (xs, s')" "quiet s s'" "I s'"
    "length (txq s') \<le> length (txq s) - (if x = Uart_irq then 1 else 0)"
proof -
  obtain t where t: "jtag_uart_irq b s = Some t" "I t" "txq s \<noteq> [] \<longrightarrow> length (txq t) < length (txq s)"
    "I (snd (jtag_uart_timeout b s))"
    using assms unfolding sends_def by metis
  then obtain s' where s': "pt b (x # xs) s = Some (xs, s')" "I s'" "x = Uart_irq \<longrightarrow> s' = t"
    using assms by (cases x) auto
  note q = pt_quiet [OF s'(1) assms(3), THEN conjunct1]
  from quiet_txq [OF q] have "length (txq s') \<le> length (txq s)" by auto
  with t(3) s'(3) have "length (txq s') \<le> length (txq s) - (if x = Uart_irq then 1 else 0)"
    by (cases "txq s = []"; cases "x = Uart_irq") auto
  with s'(1,2) q show ?thesis by (intro that)
qed

lemma close_returns:
  assumes "sends b I"
  shows "I s \<Longrightarrow> jinv (jsp s) \<Longrightarrow> alt_irq_enabled (scpu s) \<noteq> 0 \<Longrightarrow> flags AND JTAG_O_NONBLOCK = 0 \<Longrightarrow>
    length (txq s) \<le> count_list ys Uart_irq \<Longrightarrow> \<exists>rc xs' s'. jtag_uart_close b flags (ys @ [p, q]) s = Some (rc, xs', s')"
proof (induction "length ys" arbitrary: ys s rule: less_induct)
  case less
  obtain x xs where xs: "ys @ [p, q] = x # xs @ [q]" by (cases ys) auto
  from pt_sends [OF assms less.prems(1-3)] obtain s1 where
    s1: "pt b (x # xs @ [q]) s = Some (xs @ [q], s1)" "quiet s s1" "I s1"
      "length (txq s1) \<le> length (txq s) - (if x = Uart_irq then 1 else 0)" .
  note i1 = quiet_inv [OF s1(2)]
  show ?case
  proof (cases "txq s1 = []")
    case True
    then have "tx_out (jsp s1) = tx_in (jsp s1)" using ring_empty [OF jinv_rings(2) [OF i1]] by (simp add: txq_def)
    then show ?thesis unfolding xs using s1(1) by (subst jtag_uart_close.simps) simp
  next
    case False
    then have ne: "tx_out (jsp s1) \<noteq> tx_in (jsp s1)" using ring_empty [OF jinv_rings(2) [OF i1]] by (simp add: txq_def)
    have "ys \<noteq> []" using less.prems(5) False s1(4) by auto
    then obtain y2 where y2: "ys = x # y2" "xs = y2 @ [p]" using xs by (cases ys) auto
    have c2: "length (txq s1) \<le> count_list y2 Uart_irq" using less.prems(5) s1(4) y2 by (auto split: if_splits)
    then obtain x2 zs where zs: "y2 = x2 # zs" using False by (cases y2) auto
    have e1: "alt_irq_enabled (scpu s1) \<noteq> 0" using less.prems(3) s1(2) by (simp add: quiet_def)
    from pt_sends [OF assms s1(3) i1 e1] obtain s2 where
      s2: "pt b (x2 # zs @ [p, q]) s1 = Some (zs @ [p, q], s2)" "quiet s1 s2" "I s2"
        "length (txq s2) \<le> length (txq s1) - (if x2 = Uart_irq then 1 else 0)" .
    note i2 = quiet_inv [OF s2(2)]
    have e2: "alt_irq_enabled (scpu s2) \<noteq> 0" using e1 s2(2) by (simp add: quiet_def)
    have c3: "length (txq s2) \<le> count_list zs Uart_irq" using c2 s2(4) zs by (auto split: if_splits)
    have "length zs < length ys" using y2 zs by simp
    from less.hyps [OF this s2(3) i2 e2 less.prems(4) c3]
    obtain rc xs' s' where r: "jtag_uart_close b flags (zs @ [p, q]) s2 = Some (rc, xs', s')" by blast
    have "jtag_uart_close b flags (ys @ [p, q]) s
      = (if host_inactive (jsp s2) < timeout (jsp s2) then jtag_uart_close b flags (zs @ [p, q]) s2 else Some (0, zs @ [p, q], s2))"
      unfolding xs using s1(1) ne s2(1) y2 zs less.prems(4) by (subst jtag_uart_close.simps) simp
    with r show ?thesis by simp
  qed
qed

end
