(* ===== verification/JtagUse.thy ===== *)
theory JtagUse
  imports JtagReturns
begin

text \<open>
  The JTAG UART driver as its callers see it: whole histories of calls and interrupts,
  initialisation, and the time-out. At the end a model of a
  core, for the witnesses.
\<close>

subsection \<open>Histories\<close>

text \<open>One call or interrupt; \<open>i\<close> is accepted from the caller and \<open>r\<close> delivered to it.\<close>

inductive jtag_event :: "'d bus \<Rightarrow> 'd usys \<Rightarrow> u8 list \<Rightarrow> u8 list \<Rightarrow> 'd usys \<Rightarrow> bool" for b where
  ev_read: "jtag_uart_read b n fl xs s = Some (rc, data, xs', s') \<Longrightarrow> jtag_event b s [] data s'"
| ev_write: "jtag_uart_write b data fl xs s = Some (rc, xs', s') \<Longrightarrow> jtag_event b s (take (nat rc) data) [] s'"
| ev_close: "jtag_uart_close b fl xs s = Some (rc, xs', s') \<Longrightarrow> jtag_event b s [] [] s'"
| ev_ioctl: "jtag_uart_ioctl req arg s = (rc, out, s') \<Longrightarrow> jtag_event b s [] [] s'"
| ev_irq: "jtag_uart_irq b s = Some s' \<Longrightarrow> jtag_event b s [] [] s'"
| ev_timer: "jtag_uart_timeout b s = (n, s') \<Longrightarrow> jtag_event b s [] [] s'"

inductive jtag_history :: "'d bus \<Rightarrow> 'd usys \<Rightarrow> u8 list \<Rightarrow> u8 list \<Rightarrow> 'd usys \<Rightarrow> bool" for b where
  hist_nil: "jtag_history b s [] [] s"
| hist_step: "jtag_history b s i r s' \<Longrightarrow> jtag_event b s' i' r' s'' \<Longrightarrow> jtag_history b s (i @ i') (r @ r') s''"

text \<open>\<open>jflow\<close> without the time-out, which \<open>ioctl\<close> and initialisation change.\<close>

definition stream :: "'d usys \<Rightarrow> u8 list \<Rightarrow> u8 list \<Rightarrow> 'd usys \<Rightarrow> bool" where
  "stream s i r s' \<longleftrightarrow> jinv (jsp s') \<and> jbase (jsp s') = jbase (jsp s) \<and>
     (\<exists>es. jlog s' = jlog s @ es
       \<and> rxq s @ received (jbase (jsp s)) es = r @ rxq s'
       \<and> txq s @ i = sent (jbase (jsp s)) es @ txq s')"

lemma flow_stream: "jflow s i r s' \<Longrightarrow> stream s i r s'"
  by (auto simp: jflow_def stream_def)

lemma stream_trans:
  assumes "stream s i r s'" "stream s' i' r' s''"
  shows "stream s (i @ i') (r @ r') s''"
proof -
  have retime: "jflow x i r (upd_sp (\<lambda>j. j\<lparr>timeout := timeout (jsp x)\<rparr>) y)" if "stream x i r y" for x y :: "'a usys" and i r
    using that by (simp add: stream_def jflow_def jinv_def rxq_def txq_def)
  let ?f = "upd_sp (\<lambda>j. j\<lparr>timeout := timeout (jsp s)\<rparr>)"
  have "jflow s i r (?f s')" by (rule retime [OF assms(1)])
  moreover have "stream (?f s') i' r' s''"
    using assms(2) by (simp add: stream_def rxq_def txq_def)
  then have "jflow (?f s') i' r' (?f s'')" using retime [of "?f s'" i' r' s''] by simp
  ultimately have "stream s (i @ i') (r @ r') (?f s'')" by (rule flow_stream [OF jflow_trans])
  then show ?thesis by (simp add: stream_def jinv_def rxq_def txq_def)
qed

text \<open>Changing only the time-out, the host counter and the rest of the system is a stream of
  nothing.\<close>

lemma stream_id:
  assumes "jinv (jsp s)" "jlog s' = jlog s @ es" "received (jbase (jsp s)) es = []" "sent (jbase (jsp s)) es = []"
    "jbase (jsp s') = jbase (jsp s)" "host_inactive (jsp s') \<le> INT_MAX - 2"
    "rx_in (jsp s') = rx_in (jsp s)" "rx_out (jsp s') = rx_out (jsp s)" "rx_buf (jsp s') = rx_buf (jsp s)"
    "tx_in (jsp s') = tx_in (jsp s)" "tx_out (jsp s') = tx_out (jsp s)" "tx_buf (jsp s') = tx_buf (jsp s)"
  shows "stream s [] [] s'"
  using assms unfolding stream_def
  by (intro conjI exI [of _ es]) (simp_all add: jinv_def rxq_def txq_def)

lemma alarm_start_app: "app (snd (alt_alarm_start e a n f c s)) = app s"
  by (simp add: alt_alarm_start_def upd_alarm_def Let_def split: prod.splits)

lemma init_conv:
  assumes "jtag_uart_init e b isr tmo spa al ic irq s = Some s'"
  shows "jlog s' = jlog s @ [IoWr (jbase (jsp s) + 4) JTAG_RE_MSK]"
    and "jsp s' = (jsp s)\<lparr>irq_enable := JTAG_RE_MSK, host_inactive := 0,
      timeout := (if tick_rate s \<noteq> 0 \<and> al \<noteq> 0 then timeout (jsp s) else INT_MAX)\<rparr>"
proof -
  let ?s1 = "upd_sp (\<lambda>j. j\<lparr>irq_enable := JTAG_RE_MSK\<rparr>) s"
  let ?s2 = "wr_reg b 1 JTAG_RE_MSK ?s1"
  from assms obtain rc c where r: "alt_ic_isr_register ic irq isr spa 0 (scpu s) = Some (rc, c)"
    by (auto simp: jtag_uart_init_def Let_def split: option.splits)
  define s3 where "s3 = upd_sp (\<lambda>j. j\<lparr>host_inactive := 0\<rparr>) (set_cpu c ?s2)"
  obtain rc' s4 where a: "alt_alarm_start e al (alt_ticks_per_second s3) tmo spa s3 = (rc', s4)" by fastforce
  have s': "s' = (if rc' < 0 then upd_sp (\<lambda>j. j\<lparr>timeout := INT_MAX\<rparr>) s4 else s4)"
    using assms r a by (simp add: jtag_uart_init_def Let_def s3_def)
  have app: "app s4 = app s3" using alarm_start_app [of e al _ tmo spa s3] a by (metis snd_conv)
  have tr: "tick_rate s3 = tick_rate s" by (simp add: s3_def upd_sp_def set_cpu_def wr_reg_def)
  have neg: "rc' < 0 \<longleftrightarrow> \<not> (tick_rate s \<noteq> 0 \<and> al \<noteq> 0)"
    using a tr by (auto simp: alt_alarm_start_def Let_def alt_ticks_per_second_def ENOTSUP_def EINVAL_def split: if_splits prod.splits)
  have j3: "jsp s3 = (jsp s)\<lparr>irq_enable := JTAG_RE_MSK, host_inactive := 0\<rparr>" by (simp add: s3_def)
  show "jlog s' = jlog s @ [IoWr (jbase (jsp s) + 4) JTAG_RE_MSK]"
    using app s' by (simp add: s3_def)
  show "jsp s' = (jsp s)\<lparr>irq_enable := JTAG_RE_MSK, host_inactive := 0,
      timeout := (if tick_rate s \<noteq> 0 \<and> al \<noteq> 0 then timeout (jsp s) else INT_MAX)\<rparr>"
    using app s' neg j3 by auto
qed

lemma event_stream: "jtag_event b s i r s' \<Longrightarrow> jinv (jsp s) \<Longrightarrow> stream s i r s'"
proof (induction rule: jtag_event.induct)
  case (ev_read n fl xs s rc data xs' s')
  then show ?case using jtag_uart_read_spec [OF ev_read(1,2)] by (auto simp: reads_def intro: flow_stream)
next
  case (ev_write data fl xs s rc xs' s')
  then obtain n where "n \<le> length data" "writes s (take n data) s'"
    "rc = (if n \<noteq> 0 then int n else if fl AND JTAG_O_NONBLOCK \<noteq> 0 then - EWOULDBLOCK else - EIO)"
    using jtag_uart_write_spec [OF ev_write(1,2)] by blast
  then show ?case by (auto simp: writes_def EWOULDBLOCK_def EIO_def intro: flow_stream split: if_splits)
next
  case (ev_close fl xs s rc xs' s')
  then show ?case using jtag_uart_close_spec [OF ev_close(1,2)] by (auto simp: quiet_def intro: flow_stream)
next
  case (ev_ioctl req arg s rc out s')
  then show ?case
    by (intro stream_id [where es = "[]"])
       (auto simp: jtag_uart_ioctl_def jinv_def split: if_splits)
next
  case (ev_irq s s')
  then show ?case using irq_quiet by (auto simp: quiet_def intro: flow_stream)
next
  case (ev_timer s n s')
  then show ?case using timeout_quiet [of s b] by (auto simp: quiet_def intro: flow_stream)
qed

lemma history_stream: "jtag_history b s i r s' \<Longrightarrow> jinv (jsp s) \<Longrightarrow> stream s i r s'"
proof (induction rule: jtag_history.induct)
  case (hist_nil s)
  then show ?case using flow_stream [OF jflow_refl] by blast
next
  case (hist_step s i r s' i' r' s'')
  then have "stream s i r s'" by blast
  then have "jinv (jsp s')" by (simp add: stream_def)
  with event_stream [OF hist_step.hyps(2)] \<open>stream s i r s'\<close> stream_trans show ?case by blast
qed


lemma event_timeout: "jtag_event b s i r s' \<Longrightarrow> jinv (jsp s) \<Longrightarrow> timeout (jsp s) = INT_MAX \<Longrightarrow> timeout (jsp s') = INT_MAX"
proof (induction rule: jtag_event.induct)
  case (ev_read n fl xs s rc data xs' s')
  then show ?case using jtag_uart_read_spec [OF ev_read(1,2)] by (simp add: reads_def jflow_def)
next
  case (ev_write data fl xs s rc xs' s')
  then show ?case using jtag_uart_write_spec [OF ev_write(1,2)] by (auto simp: writes_def jflow_def)
next
  case (ev_close fl xs s rc xs' s')
  then show ?case using jtag_uart_close_spec [OF ev_close(1,2)] by (simp add: quiet_def jflow_def)
next
  case (ev_ioctl req arg s rc out s')
  then show ?case by (auto simp: jtag_uart_ioctl_def split: if_splits)
next
  case (ev_irq s s')
  then show ?case using irq_quiet [OF ev_irq(1,2)] by (simp add: quiet_def jflow_def)
next
  case (ev_timer s n s')
  then show ?case using timeout_quiet [of s b] by (simp add: quiet_def jflow_def)
qed

lemma history_timeout:
  "jtag_history b s i r s' \<Longrightarrow> jinv (jsp s) \<Longrightarrow> timeout (jsp s) = INT_MAX \<Longrightarrow> timeout (jsp s') = INT_MAX"
proof (induction rule: jtag_history.induct)
  case (hist_step s i r s' i' r' s'')
  then have "jinv (jsp s')" using history_stream [OF hist_step.hyps(1)] by (simp add: stream_def)
  with hist_step event_timeout show ?case by blast
qed simp

lemma instance_inv: "jinv (jtag_instance bs)"
  by (simp add: jinv_def jtag_instance_def ring_ok_def INT_MAX_def)

lemma init_inv:
  assumes "jsp s0 = jtag_instance bs" "jtag_uart_init e b isr tmo spa al ic irq s0 = Some s"
  shows "jinv (jsp s)" "rxq s = []" "txq s = []" "jbase (jsp s) = bs"
  using instance_inv [of bs] init_conv(2) [OF assms(2)] assms(1)
  by (simp_all add: jinv_def INT_MAX_def rxq_def txq_def ring_queue_def jtag_instance_def)

subsection \<open>A core\<close>

text \<open>For the witnesses: a core with the characters typed at the host, its enable bits and room for
  64 characters in the transmit direction.\<close>

record core =
  typed :: "u8 list"
  enables :: u32
  shown :: "u8 list"

definition core_read :: "core \<Rightarrow> u32 \<Rightarrow> u32 \<times> core" where
  "core_read d a =
     (if a AND 4 = 0 then (case typed d of [] \<Rightarrow> (0, d)
        | c # cs \<Rightarrow> (push_bit 16 (of_nat (length cs)) OR JTAG_RVALID_MSK OR ucast c, d\<lparr>typed := cs\<rparr>))
      else ((if enables d AND JTAG_RE_MSK \<noteq> 0 \<and> typed d \<noteq> [] then JTAG_RI_MSK else 0)
            OR (if enables d AND JTAG_WE_MSK \<noteq> 0 then JTAG_WI_MSK else 0)
            OR push_bit 16 64 OR enables d, d))"

definition core_write :: "core \<Rightarrow> u32 \<Rightarrow> u32 \<Rightarrow> core" where
  "core_write d a v = (if a AND 4 = 0 then d\<lparr>shown := shown d @ [ucast v]\<rparr> else d\<lparr>enables := v\<rparr>)"

definition core_bus :: "core bus" where
  "core_bus = \<lparr>bus_rd = core_read, bus_wr = core_write, bus_sleep = (\<lambda>d _. d)\<rparr>"

definition core_sys :: "u8 list \<Rightarrow> core usys" where
  "core_sys cs = \<lparr>tick_rate = 0, nticks = 0, links = \<lparr>next_of = \<lambda>_. 0, previous_of = \<lambda>_. 0\<rparr>,
     alarms = (\<lambda>_. \<lparr>atime = 0, callback = 0, rollover = 0, acontext = 0\<rparr>), scpu = cpu_init\<lparr>status := 1\<rparr>,
     app = \<lparr>sp = jtag_instance 0, jw = \<lparr>dev = \<lparr>typed = cs, enables = 0, shown = []\<rparr>, log = []\<rparr>\<rparr>\<rparr>"

definition core_alarms :: "core uart alarm_env" where
  "core_alarms = \<lparr>alt_alarm_list = 0x100, call_back = (\<lambda>_ _ s. (0, s))\<rparr>"

definition core_ready :: "u8 list \<Rightarrow> core usys option" where
  "core_ready cs = jtag_uart_init core_alarms core_bus 0x1000 0x2000 0x3000 0x200 0 5 (core_sys cs)"

lemma core_ready_some: "core_ready [72, 105] \<noteq> None"
  by code_simp

lemma core_reads: "(core_ready [72, 105] \<bind> (\<lambda>s. map_option (\<lambda>(r, d, x, s'). (r, d))
   (jtag_uart_read core_bus 10 0 (replicate 4 Run @ Uart_irq # replicate 15 Run) s))) = Some (2, [72, 105])"
  by code_simp

lemma core_start:
  obtains s where "core_ready [72, 105] = Some s" "jinv (jsp s)" "timeout (jsp s) = INT_MAX"
proof -
  from core_ready_some obtain s where s: "core_ready [72, 105] = Some s" by auto
  have "jsp (core_sys [72, 105]) = jtag_instance 0" "tick_rate (core_sys [72, 105]) = 0" by (simp_all add: core_sys_def)
  with init_inv [OF _ s [unfolded core_ready_def]] init_conv(2) [OF s [unfolded core_ready_def]] that [OF s]
  show ?thesis by auto
qed

lemma core_read_ex:
  obtains s xs' s' where "core_ready [72, 105] = Some s" "jinv (jsp s)" "timeout (jsp s) = INT_MAX"
    "jtag_uart_read core_bus 10 0 (replicate 4 Run @ Uart_irq # replicate 15 Run) s = Some (2, [72, 105], xs', s')"
proof -
  obtain s where s: "core_ready [72, 105] = Some s" "jinv (jsp s)" "timeout (jsp s) = INT_MAX" by (rule core_start)
  with core_reads obtain xs' s' where
    "jtag_uart_read core_bus 10 0 (replicate 4 Run @ Uart_irq # replicate 15 Run) s = Some (2, [72, 105], xs', s')"
    by auto
  with s that show ?thesis by blast
qed

lemma one_event: "jtag_event b s i r s' \<Longrightarrow> jtag_history b s i r s'"
  using hist_step [OF hist_nil] by fastforce

subsection \<open>Properties\<close>

text \<open>C21. No byte is lost, doubled or reordered: after initialisation, for any core and any history
  of calls, interrupts and timer interrupts at any points, the bytes received from the core are
  those delivered to the readers, in order, followed by what is in the receive buffer, and the
  bytes accepted from the writers are those sent to the core followed by what is in the transmit
  buffer; no buffer ever overflows.\<close>

theorem jtag_streams:
  assumes "jsp s0 = jtag_instance bs" and "jtag_uart_init e b isr tmo spa al ic irq s0 = Some s"
    and "jtag_history b s i r s'"
  shows "\<exists>es. jlog s' = jlog s @ es \<and> received bs es = r @ rxq s' \<and> i = sent bs es @ txq s'
    \<and> length (rxq s') < JTAG_BUF_LEN \<and> length (txq s') < JTAG_BUF_LEN"
proof -
  note inv = init_inv [OF assms(1,2)]
  have st: "stream s i r s'" by (rule history_stream [OF assms(3) inv(1)])
  then have "jinv (jsp s')" by (simp add: stream_def)
  note ring_queue_bound [OF jinv_rings(1) [OF this]] ring_queue_bound [OF jinv_rings(2) [OF this]]
  with st inv show ?thesis by (auto simp: stream_def rxq_def txq_def)
qed

lemma jtag_streams_witness:
  "\<exists>s s' es. core_ready [72, 105] = Some s \<and> jtag_history core_bus s [] [72, 105] s'
     \<and> received 0 es = [72, 105] @ rxq s' \<and> jlog s' = jlog s @ es"
proof -
  obtain s xs' s' where s: "core_ready [72, 105] = Some s"
    "jtag_uart_read core_bus 10 0 (replicate 4 Run @ Uart_irq # replicate 15 Run) s = Some (2, [72, 105], xs', s')"
    by (rule core_read_ex)
  have h: "jtag_history core_bus s [] [72, 105] s'" by (rule one_event [OF ev_read [OF s(2)]])
  have "jsp (core_sys [72, 105]) = jtag_instance 0" by (simp add: core_sys_def)
  from jtag_streams [OF this s(1) [unfolded core_ready_def] h] s(1) h show ?thesis by blast
qed

text \<open>C22. A call to read that returns, under any schedule of interrupts: the bytes are at most as many
  as asked for and come from the front of the receive queue; the return value is their number,
  or -EWOULDBLOCK or -EIO if there are none, which for a call on a non-empty queue does not
  happen; and when there are any the receive interrupt has been enabled again, by the call's
  last access to the core.\<close>

theorem jtag_read_behaviour:
  assumes "jtag_uart_read b n fl xs s = Some (rc, data, xs', s')" and "jinv (jsp s)"
  shows "int (length data) \<le> max 0 n \<and> jflow s [] data s' \<and> (0 < n \<and> rxq s \<noteq> [] \<longrightarrow> data \<noteq> [])
    \<and> rc = (if data \<noteq> [] then int (length data) else if fl AND JTAG_O_NONBLOCK \<noteq> 0 then - EWOULDBLOCK else - EIO)
    \<and> (data \<noteq> [] \<longrightarrow> irq_enable (jsp s') AND JTAG_RE_MSK = JTAG_RE_MSK
         \<and> (\<exists>es. jlog s' = es @ [IoWr (jbase (jsp s) + 4) (irq_enable (jsp s'))]))"
  using jtag_uart_read_spec [OF assms] by (simp add: reads_def)

lemma jtag_read_witness:
  "\<exists>s s'. core_ready [72, 105] = Some s \<and> jflow s [] [72, 105] s' \<and> irq_enable (jsp s') AND 1 = 1"
proof -
  obtain s xs' s' where s: "core_ready [72, 105] = Some s" "jinv (jsp s)"
    "jtag_uart_read core_bus 10 0 (replicate 4 Run @ Uart_irq # replicate 15 Run) s = Some (2, [72, 105], xs', s')"
    by (rule core_read_ex)
  from jtag_read_behaviour [OF s(3,2)] s(1) show ?thesis by (auto simp: JTAG_RE_MSK_def)
qed

text \<open>C23. A call to write that returns, under any schedule of interrupts: a prefix of the data has been
  put behind the transmit queue; the return value is its length, or -EWOULDBLOCK or -EIO when it
  is empty, also for a write of no bytes, for which the polled driver returns 0; and a blocking
  write falls short only if the host has not been seen for a tick.\<close>

theorem jtag_write_behaviour:
  assumes "jtag_uart_write b data fl xs s = Some (rc, xs', s')" and "jinv (jsp s)"
  shows "\<exists>k \<le> length data. jflow s (take k data) [] s'
    \<and> rc = (if k \<noteq> 0 then int k else if fl AND JTAG_O_NONBLOCK \<noteq> 0 then - EWOULDBLOCK else - EIO)
    \<and> (k < length data \<longrightarrow> fl AND JTAG_O_NONBLOCK \<noteq> 0 \<or> host_inactive (jsp s') \<noteq> 0)
    \<and> small_write b (jbase (jsp s)) [] fl w = Some (0, w)"
proof -
  have "small_write b (jbase (jsp s)) [] fl w = Some (0, w)"
    by (simp add: small_write_def small_write_loop.simps)
  with jtag_uart_write_spec [OF assms] show ?thesis unfolding writes_def by blast
qed

lemma core_writes: "(core_ready [72, 105] \<bind> (\<lambda>s. map_option (\<lambda>(r, x, s'). (r, tx_out (jsp s')))
   (jtag_uart_write core_bus [79, 75] 0 (replicate 20 Run) s))) = Some (2, 0)"
  by code_simp

lemma jtag_write_witness:
  "\<exists>s s'. core_ready [72, 105] = Some s \<and> jflow s [79, 75] [] s'"
proof -
  obtain s where s: "core_ready [72, 105] = Some s" "jinv (jsp s)" by (rule core_start)
  from core_writes s obtain xs' s' where
    w: "jtag_uart_write core_bus [79, 75] 0 (replicate 20 Run) s = Some (2, xs', s')" by auto
  obtain k where k: "k \<le> length [79, 75 :: u8]" "jflow s (take k [79, 75]) [] s'"
    "2 = (if k \<noteq> 0 then int k else if (0 :: u32) AND JTAG_O_NONBLOCK \<noteq> 0 then - EWOULDBLOCK else - EIO)"
    using jtag_write_behaviour [OF w s(2)] by metis
  then have "k = 2" by (auto simp: EIO_def split: if_splits)
  with k s show ?thesis by auto
qed

text \<open>C24. read and write return: on a core whose interrupts can be serviced (\<open>serviced\<close>: the interrupt routine
  returns, as it does on every core that keeps to its documentation, \<open>documented_serviced\<close>), a read that need not wait (a
  non-blocking one, or with data in the buffer) and a write that need not (a non-blocking one, or
  with room for all the data) return whatever interrupts occur, after at most four accesses to the
  shared state for every byte and six more; and a write of some data with room for it takes it all.\<close>

theorem jtag_calls_return:
  assumes "serviced b (jbase (jsp s))" and "jinv (jsp s)"
    and "4 * nat n + 6 \<le> length xs" and "fl AND JTAG_O_NONBLOCK \<noteq> 0 \<or> rxq s \<noteq> []"
    and "4 * length data + 6 \<le> length ys" and "fl' AND JTAG_O_NONBLOCK \<noteq> 0 \<or> length data + length (txq s) < JTAG_BUF_LEN"
  shows "(\<exists>rc d xs' s'. jtag_uart_read b n fl xs s = Some (rc, d, xs', s'))
    \<and> (\<exists>rc ys' s'. jtag_uart_write b data fl' ys s = Some (rc, ys', s')
        \<and> (length data + length (txq s) < JTAG_BUF_LEN \<and> data \<noteq> [] \<longrightarrow> rc = int (length data)))"
proof -
  have "jtag_uart_read b n fl xs s \<noteq> None" by (rule read_returns) (use assms in auto)
  moreover obtain rc ys' s' where "jtag_uart_write b data fl' ys s = Some (rc, ys', s')"
    "length data + length (txq s) < JTAG_BUF_LEN \<Longrightarrow> data \<noteq> [] \<Longrightarrow> rc = int (length data)"
    using write_returns [OF assms(1,2,5,6)] by blast
  ultimately show ?thesis by auto
qed

text \<open>A core that never interrupts.\<close>

definition idle_bus :: "core bus" where
  "idle_bus = core_bus\<lparr>bus_rd := \<lambda>d a. (0, d)\<rparr>"

lemma idle_serviced: "serviced idle_bus bs"
  by (simp add: serviced_def jtag_uart_irq.simps rd_reg_def IORD_conv idle_bus_def core_bus_def Let_def)

lemma jtag_calls_return_witness:
  "\<exists>s rc d xs' s' ys' s''. core_ready [72, 105] = Some s
     \<and> jtag_uart_read idle_bus 3 0x4000 (replicate 9 Uart_irq @ replicate 9 Timer_irq) s = Some (rc, d, xs', s')
     \<and> jtag_uart_write idle_bus [79, 75] 0 (replicate 14 Uart_irq) s = Some (2, ys', s'')"
proof -
  obtain s where s: "core_ready [72, 105] = Some s" "jinv (jsp s)" by (rule core_start)
  have "jsp (core_sys [72, 105]) = jtag_instance 0" by (simp add: core_sys_def)
  from init_inv [OF this s(1) [unfolded core_ready_def]] have t: "txq s = []" by blast
  from jtag_calls_return [OF idle_serviced s(2), of 3 "replicate 9 Uart_irq @ replicate 9 Timer_irq" "0x4000"
      "[79, 75]" "replicate 14 Uart_irq" 0] s(1) t
  show ?thesis by (auto simp: JTAG_O_NONBLOCK_def)
qed

text \<open>Without a system clock (as this system is configured) the driver never times out: initialisation
  sets the time-out to INT_MAX, no history changes that (TIOCSTIMEOUT is refused), and after any
  history a blocking read for at least one byte that returns delivers at least one.\<close>

theorem no_clock_no_timeout:
  assumes "jsp s0 = jtag_instance bs" and "jtag_uart_init e b isr tmo spa al ic irq s0 = Some s"
    and "tick_rate s0 = 0" and "jtag_history b s i r s'"
    and "jtag_uart_read b n fl xs s' = Some (rc, data, xs', s'')" and "0 < n" and "fl AND JTAG_O_NONBLOCK = 0"
  shows "rc = int (length data) \<and> data \<noteq> [] \<and> jtag_uart_ioctl TIOCSTIMEOUT a s' = (- ENOTTY, None, s')"
proof -
  note inv = init_inv [OF assms(1,2)]
  have t: "timeout (jsp s') = INT_MAX"
    using history_timeout [OF assms(4) inv(1)] init_conv(2) [OF assms(2)] assms(3) by simp
  have "jinv (jsp s')" using history_stream [OF assms(4) inv(1)] by (simp add: stream_def)
  from jtag_uart_read_spec [OF assms(5) this] assms(6,7) t show ?thesis
    by (simp add: jtag_uart_ioctl_def never_times_out_def INT_MAX_def)
qed

lemma no_clock_witness:
  "\<exists>s data. core_ready [72, 105] = Some s \<and> data \<noteq> [] \<and> jtag_uart_ioctl TIOCSTIMEOUT 7 s = (- ENOTTY, None, s)"
proof -
  obtain s xs' s' where s: "core_ready [72, 105] = Some s"
    "jtag_uart_read core_bus 10 0 (replicate 4 Run @ Uart_irq # replicate 15 Run) s = Some (2, [72, 105], xs', s')"
    by (rule core_read_ex)
  have "jsp (core_sys [72, 105]) = jtag_instance 0" "tick_rate (core_sys [72, 105]) = 0" by (simp_all add: core_sys_def)
  from no_clock_no_timeout [OF this(1) s(1) [unfolded core_ready_def] this(2) hist_nil s(2), of 7] s(1)
  show ?thesis by auto
qed

end
