(* ===== verification/JtagCore.thy ===== *)
theory JtagCore
  imports JtagReturns
begin

text \<open>
  What the JTAG UART driver needs of the core for its interrupt routine to return: the documented
  behaviour of the two registers. An interrupt is shown only while it is enabled; a read interrupt
  says that the next read of the data register gives a byte, a write interrupt that there is
  room. The routine then returns because in each turn of its loop it stores a byte, sends one, or
  disables an interrupt, and both buffers are bounded.
\<close>

abbreviation core_dev :: "'d usys \<Rightarrow> 'd" where
  "core_dev s \<equiv> dev (jw (app s))"

subsection \<open>The documented core\<close>

text \<open>The core at \<open>bs\<close>: \<open>en d m\<close> says that the interrupt with mask \<open>m\<close> is enabled, \<open>full d\<close> that the receive
  FIFO holds a byte.\<close>

definition documented_core :: "'d bus \<Rightarrow> u32 \<Rightarrow> ('d \<Rightarrow> u32 \<Rightarrow> bool) \<Rightarrow> ('d \<Rightarrow> bool) \<Rightarrow> bool" where
  "documented_core b bs en full \<longleftrightarrow>
     (\<forall>d v d'. bus_rd b d (bs + 4) = (v, d') \<longrightarrow> en d' = en d
        \<and> (v AND JTAG_RI_MSK \<noteq> 0 \<longrightarrow> en d JTAG_RE_MSK \<and> full d')
        \<and> (v AND JTAG_WI_MSK \<noteq> 0 \<longrightarrow> en d JTAG_WE_MSK \<and> v AND JTAG_WSPACE_MSK \<noteq> 0))
   \<and> (\<forall>d v d'. bus_rd b d bs = (v, d') \<longrightarrow> en d' = en d \<and> (full d \<longrightarrow> v AND JTAG_RVALID_MSK \<noteq> 0))
   \<and> (\<forall>d v. en (bus_wr b d bs v) = en d)
   \<and> (\<forall>d v m. m \<in> {JTAG_RE_MSK, JTAG_WE_MSK} \<and> en (bus_wr b d (bs + 4) v) m \<longrightarrow> v AND m \<noteq> 0)"

lemma documented_coreD:
  assumes "documented_core b bs en full"
  shows "bus_rd b d (bs + 4) = (v, d') \<Longrightarrow> en d' = en d"
    and "bus_rd b d (bs + 4) = (v, d') \<Longrightarrow> v AND JTAG_RI_MSK \<noteq> 0 \<Longrightarrow> en d JTAG_RE_MSK \<and> full d'"
    and "bus_rd b d (bs + 4) = (v, d') \<Longrightarrow> v AND JTAG_WI_MSK \<noteq> 0 \<Longrightarrow> en d JTAG_WE_MSK \<and> v AND JTAG_WSPACE_MSK \<noteq> 0"
    and "bus_rd b d bs = (v, d') \<Longrightarrow> en d' = en d"
    and "bus_rd b d bs = (v, d') \<Longrightarrow> full d \<Longrightarrow> v AND JTAG_RVALID_MSK \<noteq> 0"
    and "en (bus_wr b d bs v) = en d"
    and "m \<in> {JTAG_RE_MSK, JTAG_WE_MSK} \<Longrightarrow> en (bus_wr b d (bs + 4) v) m \<Longrightarrow> v AND m \<noteq> 0"
  using assms unfolding documented_core_def by meson+

subsection \<open>The interrupt routine returns\<close>

lemma rd_dev: "rd_reg b r s = (v, t) \<Longrightarrow> bus_rd b (core_dev s) (jbase (jsp s) + r * 4) = (v, core_dev t)"
  by (auto simp: rd_reg_def IORD_conv)

lemma wr_dev: "core_dev (wr_reg b r v s) = bus_wr b (core_dev s) (jbase (jsp s) + r * 4) v"
  by (simp add: wr_reg_def hal_simps)

text \<open>An interrupt that is enabled in the core or in the driver's copy of the control register, and
  what the routine has still to do.\<close>

definition int_on :: "('d \<Rightarrow> u32 \<Rightarrow> bool) \<Rightarrow> u32 \<Rightarrow> 'd usys \<Rightarrow> bool" where
  "int_on en m s \<longleftrightarrow> en (core_dev s) m \<or> irq_enable (jsp s) AND m \<noteq> 0"

definition isr_todo :: "('d \<Rightarrow> u32 \<Rightarrow> bool) \<Rightarrow> 'd usys \<Rightarrow> nat" where
  "isr_todo en s = (JTAG_BUF_LEN - length (rxq s)) + length (txq s) + of_bool (int_on en JTAG_RE_MSK s) + of_bool (int_on en JTAG_WE_MSK s)"

lemma rxq_bound: "jinv (jsp s) \<Longrightarrow> length (rxq s) < JTAG_BUF_LEN"
  using ring_queue_bound [OF jinv_rings(1)] by (simp add: rxq_def)

lemma todo_quiet:
  assumes "quiet s s'" "\<And>m. m \<in> {JTAG_RE_MSK, JTAG_WE_MSK} \<Longrightarrow> int_on en m s' \<Longrightarrow> int_on en m s"
  shows "isr_todo en s' \<le> isr_todo en s"
    and "length (rxq s') \<noteq> length (rxq s) \<or> length (txq s') \<noteq> length (txq s)
      \<or> (\<exists>m \<in> {JTAG_RE_MSK, JTAG_WE_MSK}. int_on en m s \<and> \<not> int_on en m s') \<Longrightarrow> isr_todo en s' < isr_todo en s"
proof -
  have r: "length (rxq s) \<le> length (rxq s')" "length (txq s') \<le> length (txq s)" "length (rxq s') < JTAG_BUF_LEN"
    using quiet_rxq [OF assms(1)] quiet_txq [OF assms(1)] rxq_bound [OF quiet_inv [OF assms(1)]] by auto
  note o = assms(2) [of JTAG_RE_MSK] assms(2) [of JTAG_WE_MSK]
  show "isr_todo en s' \<le> isr_todo en s" using r o by (auto simp: isr_todo_def of_bool_def)
  assume "length (rxq s') \<noteq> length (rxq s) \<or> length (txq s') \<noteq> length (txq s)
      \<or> (\<exists>m \<in> {JTAG_RE_MSK, JTAG_WE_MSK}. int_on en m s \<and> \<not> int_on en m s')"
  then show "isr_todo en s' < isr_todo en s" using r o by (auto simp: isr_todo_def of_bool_def)
qed

lemma masked_off: "(x AND NOT m) AND m = (0 :: u32)"
  by (rule bit_eqI) (auto simp: bit_simps)

lemma masked_sub: "(x AND NOT k) AND m \<noteq> 0 \<Longrightarrow> x AND m \<noteq> (0 :: u32)"
proof -
  have "(x AND NOT k) AND m = (x AND m) AND NOT k" by (simp add: ac_simps)
  then show "(x AND NOT k) AND m \<noteq> 0 \<Longrightarrow> x AND m \<noteq> 0" by auto
qed

lemma irq_off_on:
  assumes "documented_core b bs en full" "jbase (jsp s) = bs"
  shows "m \<in> {JTAG_RE_MSK, JTAG_WE_MSK} \<Longrightarrow> int_on en m (irq_off b k s) \<Longrightarrow> int_on en m s"
    and "m \<in> {JTAG_RE_MSK, JTAG_WE_MSK} \<Longrightarrow> \<not> int_on en m (irq_off b m s)"
proof -
  have e: "irq_enable (jsp (irq_off b k s)) = irq_enable (jsp s) AND NOT k"
    "m \<in> {JTAG_RE_MSK, JTAG_WE_MSK} \<Longrightarrow> en (core_dev (irq_off b k s)) m \<Longrightarrow> (irq_enable (jsp s) AND NOT k) AND m \<noteq> 0" for k m
  proof -
    let ?t = "wr_reg b 1 (irq_enable (jsp s) AND NOT k) (upd_sp (\<lambda>j. j\<lparr>irq_enable := irq_enable j AND NOT k\<rparr>) s)"
    obtain v u where u: "rd_reg b 1 ?t = (v, u)" by fastforce
    have i: "irq_off b k s = u" using u by (simp add: irq_off_def Let_def)
    show "irq_enable (jsp (irq_off b k s)) = irq_enable (jsp s) AND NOT k" using rd_reg_simps [OF u] i by simp
    have "en (core_dev u) = en (core_dev ?t)"
      using documented_coreD(1) [OF assms(1)] rd_dev [OF u] assms(2) by simp
    moreover have "core_dev ?t = bus_wr b (core_dev s) (bs + 4) (irq_enable (jsp s) AND NOT k)"
      using assms(2) by (simp add: wr_dev)
    ultimately have eq: "en (core_dev u) = en (bus_wr b (core_dev s) (bs + 4) (irq_enable (jsp s) AND NOT k))"
      by (simp only:)
    show "m \<in> {JTAG_RE_MSK, JTAG_WE_MSK} \<Longrightarrow> en (core_dev (irq_off b k s)) m \<Longrightarrow> (irq_enable (jsp s) AND NOT k) AND m \<noteq> 0"
    proof -
      assume m: "m \<in> {JTAG_RE_MSK, JTAG_WE_MSK}" and "en (core_dev (irq_off b k s)) m"
      with i eq have "en (bus_wr b (core_dev s) (bs + 4) (irq_enable (jsp s) AND NOT k)) m" by (simp only:)
      then show "(irq_enable (jsp s) AND NOT k) AND m \<noteq> 0" by (rule documented_coreD(7) [OF assms(1) m])
    qed
  qed
  show "m \<in> {JTAG_RE_MSK, JTAG_WE_MSK} \<Longrightarrow> int_on en m (irq_off b k s) \<Longrightarrow> int_on en m s"
  proof -
    assume m: "m \<in> {JTAG_RE_MSK, JTAG_WE_MSK}" and "int_on en m (irq_off b k s)"
    then have "en (core_dev (irq_off b k s)) m \<or> (irq_enable (jsp s) AND NOT k) AND m \<noteq> 0" by (simp only: int_on_def e(1))
    then have "(irq_enable (jsp s) AND NOT k) AND m \<noteq> 0" using e(2) [OF m] by blast
    then have "irq_enable (jsp s) AND m \<noteq> 0" by (rule masked_sub)
    then show "int_on en m s" by (simp only: int_on_def simp_thms)
  qed
  show "m \<in> {JTAG_RE_MSK, JTAG_WE_MSK} \<Longrightarrow> \<not> int_on en m (irq_off b m s)"
  proof
    assume m: "m \<in> {JTAG_RE_MSK, JTAG_WE_MSK}" and "int_on en m (irq_off b m s)"
    then have "en (core_dev (irq_off b m s)) m \<or> (irq_enable (jsp s) AND NOT m) AND m \<noteq> 0" by (simp only: int_on_def e(1))
    then have "(irq_enable (jsp s) AND NOT m) AND m \<noteq> 0" using e(2) [OF m] by blast
    with masked_off show False by blast
  qed
qed

text \<open>The read part: with a byte in the FIFO it stores a byte, or there is no room and it disables the
  interrupt.\<close>

lemma isr_rx_returns:
  assumes "documented_core b bs en full"
  shows "jinv (jsp s) \<Longrightarrow> jbase (jsp s) = bs \<Longrightarrow> \<exists>d' s'. isr_rx b d s = Some (d', s') \<and> en (core_dev s') = en (core_dev s)
    \<and> irq_enable (jsp s') = irq_enable (jsp s)
    \<and> (full (core_dev s) \<longrightarrow> length (rxq s) < length (rxq s') \<or> d' = d)"
proof (induction "JTAG_BUF_LEN - length (rxq s)" arbitrary: s d rule: less_induct)
  case less
  show ?case
  proof (cases "(rx_in (jsp s) + 1) mod JTAG_BUF_LEN = rx_out (jsp s)")
    case True
    then show ?thesis by (subst isr_rx.simps) auto
  next
    case room: False
    obtain v t where rd: "rd_reg b 0 s = (v, t)" by fastforce
    note r = rd_reg_simps [OF rd]
    have d: "bus_rd b (core_dev s) bs = (v, core_dev t)" using rd_dev [OF rd] less.prems(2) by simp
    note e = documented_coreD(4) [OF assms d] documented_coreD(5) [OF assms d]
    have step: "isr_rx b d s = (if v AND JTAG_RVALID_MSK = 0 then Some (v, t)
        else isr_rx b v (upd_sp (rx_store (ucast (v AND JTAG_DATA_MSK))) t))"
      using room rd by (subst isr_rx.simps) simp
    show ?thesis
    proof (cases "v AND JTAG_RVALID_MSK = 0")
      case True
      with step r e show ?thesis by auto
    next
      case False
      let ?u = "upd_sp (rx_store (ucast (v AND JTAG_DATA_MSK))) t"
      note q = store_quiet [OF less.prems(1) room rd False]
      have "length [ucast (v AND JTAG_DATA_MSK) :: u8] \<le> rx_room (jsp s)" using room by (simp add: rx_room_def)
      from rx.put_law [OF jinv_rings(1) [OF less.prems(1)] this]
      have l: "length (rxq ?u) = Suc (length (rxq s))" using r by (simp add: rxq_def)
      have "JTAG_BUF_LEN - length (rxq ?u) < JTAG_BUF_LEN - length (rxq s)"
        using l rxq_bound [OF quiet_inv [OF q]] by simp
      moreover have "jbase (jsp ?u) = bs" using r less.prems(2) by simp
      ultimately obtain d' s' where s': "isr_rx b v ?u = Some (d', s')" "en (core_dev s') = en (core_dev ?u)"
        "irq_enable (jsp s') = irq_enable (jsp ?u)"
        using less.hyps [of ?u v] quiet_inv [OF q] by metis
      have "length (rxq ?u) \<le> length (rxq s')"
        using quiet_rxq [OF isr_rx_quiet [OF s'(1) quiet_inv [OF q]]] by auto
      with s' step False r e(1) l show ?thesis by (auto simp: rx_store_def)
    qed
  qed
qed

lemma isr_read_returns:
  assumes "documented_core b bs en full" "jinv (jsp s)" "jbase (jsp s) = bs" "full (core_dev s)" "int_on en JTAG_RE_MSK s"
  obtains t where "isr_read b s = Some t" "quiet s t" "isr_todo en t < isr_todo en s"
    "\<And>m. m \<in> {JTAG_RE_MSK, JTAG_WE_MSK} \<Longrightarrow> int_on en m t \<Longrightarrow> int_on en m s"
proof -
  obtain d u where u: "isr_rx b (push_bit 16 1) s = Some (d, u)" "en (core_dev u) = en (core_dev s)"
    "irq_enable (jsp u) = irq_enable (jsp s)" "length (rxq s) < length (rxq u) \<or> d = push_bit 16 1"
    using isr_rx_returns [OF assms(1-3)] assms(4) by metis
  note q = isr_rx_quiet [OF u(1) assms(2)]
  have on_u: "int_on en m u = int_on en m s" for m using u(2,3) by (simp add: int_on_def)
  have bu: "jbase (jsp u) = bs" using q assms(3) by (simp add: quiet_def jflow_def)
  define t where "t = (if d AND JTAG_RAVAIL_MSK \<noteq> 0 then irq_off b JTAG_RE_MSK u else u)"
  have t: "isr_read b s = Some t" unfolding isr_read_def u(1) by (simp add: t_def)
  have o: "m \<in> {JTAG_RE_MSK, JTAG_WE_MSK} \<Longrightarrow> int_on en m t \<Longrightarrow> int_on en m s" for m
    using irq_off_on(1) [OF assms(1) bu, of m] on_u unfolding t_def by metis
  note qt = isr_read_quiet [OF t assms(2)]
  have "length (rxq t) \<noteq> length (rxq s) \<or> \<not> int_on en JTAG_RE_MSK t"
  proof (cases "length (rxq s) < length (rxq u)")
    case True
    have "length (rxq u) \<le> length (rxq t)"
      using quiet_rxq [OF irq_off_quiet [OF quiet_inv [OF q], of b JTAG_RE_MSK]] by (auto simp: t_def)
    with True show ?thesis by simp
  next
    case False
    with u(4) have "t = irq_off b JTAG_RE_MSK u" by (simp add: t_def JTAG_RAVAIL_MSK_def)
    with irq_off_on(2) [OF assms(1) bu, of JTAG_RE_MSK] show ?thesis by simp
  qed
  with todo_quiet(2) [OF qt o] assms(5) have "isr_todo en t < isr_todo en s" by blast
  with t qt o that show thesis by blast
qed

text \<open>The write part: with room in the FIFO it sends a byte, or there is none and it disables the interrupt.\<close>

lemma isr_tx_effect:
  "documented_core b bs en full \<Longrightarrow> jinv (jsp s) \<Longrightarrow> jbase (jsp s) = bs \<Longrightarrow> en (core_dev (snd (isr_tx b n s))) = en (core_dev s)
    \<and> irq_enable (jsp (snd (isr_tx b n s))) = irq_enable (jsp s)
    \<and> (0 < n \<longrightarrow> fst (isr_tx b n s) = n \<or> length (txq (snd (isr_tx b n s))) < length (txq s))"
proof (induction b n s rule: isr_tx.induct)
  case (2 b n s)
  show ?case
  proof (cases "tx_out (jsp s) \<noteq> tx_in (jsp s)")
    case True
    let ?t = "upd_sp (\<lambda>j. j\<lparr>tx_out := (tx_out j + 1) mod JTAG_BUF_LEN\<rparr>)
      (wr_reg b 0 (scast (tx_buf (jsp s) ! tx_out (jsp s))) s)"
    note ok = jinv_rings(2) [OF 2(3)]
    note q = send_quiet [OF 2(3) True, of b]
    have "1 \<le> full_run JTAG_BUF_LEN (tx_out (jsp s)) (tx_in (jsp s))"
      using full_run_empty [OF ok] True by (auto simp: Suc_le_eq)
    from arg_cong [OF tx.get_law [OF ok this, THEN conjunct2], of length] tx.front_law [OF ok this]
    have l: "length (txq s) = Suc (length (txq ?t))" by (simp add: txq_def)
    have "core_dev ?t = bus_wr b (core_dev s) bs (scast (tx_buf (jsp s) ! tx_out (jsp s)))"
      using 2(4) by (simp add: wr_dev)
    then have e: "en (core_dev ?t) = en (core_dev s)" using documented_coreD(6) [OF 2(2)] by simp
    have "length (txq (snd (isr_tx b n ?t))) \<le> length (txq ?t)"
      using quiet_txq [OF isr_tx_quiet [OF quiet_inv [OF q], of b n]] by auto
    moreover have "jbase (jsp ?t) = bs" using 2(4) by simp
    note ih = 2(1) [OF True refl refl 2(2) quiet_inv [OF q] this]
    ultimately show ?thesis using True e ih l by (simp add: Let_def)
  qed simp
qed simp

lemma space_positive:
  assumes "c AND JTAG_WSPACE_MSK \<noteq> 0"
  shows "0 < unat (drop_bit 16 (c AND JTAG_WSPACE_MSK))"
proof -
  have "drop_bit 16 (c AND JTAG_WSPACE_MSK) \<noteq> 0"
  proof
    assume z: "drop_bit 16 (c AND JTAG_WSPACE_MSK) = 0"
    have "bit (c AND JTAG_WSPACE_MSK) i = False" for i
    proof (cases "16 \<le> i")
      case True
      have "bit (drop_bit 16 (c AND JTAG_WSPACE_MSK)) (i - 16) = False" using z by simp
      with True show ?thesis by (simp add: bit_simps)
    next
      case False
      have m: "JTAG_WSPACE_MSK = push_bit 16 (mask 16)" by (simp add: JTAG_WSPACE_MSK_def mask_eq_exp_minus_1)
      have "bit JTAG_WSPACE_MSK i = False" using False unfolding m by (simp add: bit_simps)
      then show ?thesis by (simp add: bit_simps)
    qed
    then have "c AND JTAG_WSPACE_MSK = 0" by (intro bit_word_eqI) simp
    with assms show False by simp
  qed
  then show ?thesis by (simp add: unat_gt_0)
qed

lemma isr_write_returns:
  assumes "documented_core b bs en full" "jinv (jsp s)" "jbase (jsp s) = bs"
  shows "isr_todo en (isr_write b c s) \<le> isr_todo en s"
    and "int_on en JTAG_WE_MSK s \<Longrightarrow> c AND JTAG_WSPACE_MSK \<noteq> 0 \<Longrightarrow> isr_todo en (isr_write b c s) < isr_todo en s"
proof -
  define n where "n = unat (drop_bit 16 (c AND JTAG_WSPACE_MSK))"
  obtain k u where u: "isr_tx b n s = (k, u)" by fastforce
  note e = isr_tx_effect [OF assms, of n, unfolded u fst_conv snd_conv]
  have q: "quiet s u" using isr_tx_quiet [OF assms(2), of b n] u by simp
  have on_u: "int_on en m u = int_on en m s" for m using e by (simp add: int_on_def)
  have bu: "jbase (jsp u) = bs" using q assms(3) by (simp add: quiet_def jflow_def)
  have w: "isr_write b c s = (if k > 0 then irq_off b JTAG_WE_MSK u else u)"
    using u by (simp add: isr_write_def n_def)
  have o: "m \<in> {JTAG_RE_MSK, JTAG_WE_MSK} \<Longrightarrow> int_on en m (isr_write b c s) \<Longrightarrow> int_on en m s" for m
    using irq_off_on(1) [OF assms(1) bu, of m] on_u unfolding w by metis
  note less = todo_quiet [OF isr_write_quiet [OF assms(2), of b c] o]
  show "isr_todo en (isr_write b c s) \<le> isr_todo en s" by (rule less(1))
  assume on: "int_on en JTAG_WE_MSK s" and "c AND JTAG_WSPACE_MSK \<noteq> 0"
  then have n: "0 < n" unfolding n_def by (intro space_positive)
  have "length (txq (isr_write b c s)) \<noteq> length (txq s) \<or> \<not> int_on en JTAG_WE_MSK (isr_write b c s)"
  proof (cases "k = n")
    case True
    then show ?thesis using n irq_off_on(2) [OF assms(1) bu, of JTAG_WE_MSK] by (simp add: w)
  next
    case False
    have "length (txq (irq_off b JTAG_WE_MSK u)) \<le> length (txq u)"
      using quiet_txq [OF irq_off_quiet [OF quiet_inv [OF q], of b JTAG_WE_MSK]] by auto
    with False e n show ?thesis by (auto simp: w)
  qed
  with less(2) on show "isr_todo en (isr_write b c s) < isr_todo en s" by blast
qed

lemma irq_returns:
  assumes "documented_core b bs en full"
  shows "jinv (jsp s) \<Longrightarrow> jbase (jsp s) = bs \<Longrightarrow> jtag_uart_irq b s \<noteq> None"
proof (induction "isr_todo en s" arbitrary: s rule: less_induct)
  case less
  obtain c t where rd: "rd_reg b 1 s = (c, t)" by fastforce
  have d: "bus_rd b (core_dev s) (bs + 4) = (c, core_dev t)" using rd_dev [OF rd] less.prems(2) by simp
  note law = documented_coreD(1-3) [OF assms d]
  note r = rd_reg_simps [OF rd]
  have t: "quiet s t" "jbase (jsp t) = bs" "\<And>m. int_on en m t = int_on en m s"
    using ctrl_read_quiet [OF less.prems(1) rd] r less.prems(2) law(1) by (simp_all add: int_on_def)
  have todo_t: "isr_todo en t = isr_todo en s" using r t(3) by (simp add: isr_todo_def rxq_def txq_def)
  show ?case
  proof (cases "c AND (JTAG_RI_MSK OR JTAG_WI_MSK) = 0")
    case True
    then show ?thesis using rd by (subst jtag_uart_irq.simps) simp
  next
    case False
    obtain u where u: "(if c AND JTAG_RI_MSK \<noteq> 0 then isr_read b t else Some t) = Some u" "quiet t u"
      "isr_todo en u \<le> isr_todo en t" "c AND JTAG_RI_MSK \<noteq> 0 \<Longrightarrow> isr_todo en u < isr_todo en t"
      "c AND JTAG_RI_MSK = 0 \<Longrightarrow> u = t"
    proof (cases "c AND JTAG_RI_MSK = 0")
      case True
      then show ?thesis using that [of t] quiet_refl [OF quiet_inv [OF t(1)]] by simp
    next
      case ri: False
      have "int_on en JTAG_RE_MSK t" using law(1) law(2) [OF ri] by (simp add: int_on_def)
      from isr_read_returns [OF assms quiet_inv [OF t(1)] t(2) _ this] law(2) [OF ri] ri that show ?thesis
        by (metis less_imp_le)
    qed
    have ju: "jinv (jsp u)" "jbase (jsp u) = bs" using u(2) t(2) by (simp_all add: quiet_def jflow_def)
    let ?v = "if c AND JTAG_WI_MSK \<noteq> 0 then isr_write b c u else u"
    have "isr_todo en ?v < isr_todo en s"
    proof (cases "c AND JTAG_RI_MSK = 0")
      case True
      with False have wi: "c AND JTAG_WI_MSK \<noteq> 0" by (auto simp: bit.conj_disj_distrib)
      have "int_on en JTAG_WE_MSK t" using law(1) law(3) [OF wi] by (simp add: int_on_def)
      with isr_write_returns(2) [OF assms ju] law(3) [OF wi] u(5) [OF True] wi todo_t show ?thesis by simp
    next
      case ri: False
      have "isr_todo en ?v \<le> isr_todo en u" using isr_write_returns(1) [OF assms ju] by simp
      with u(4) [OF ri] todo_t show ?thesis by linarith
    qed
    moreover have "jinv (jsp ?v)" "jbase (jsp ?v) = bs"
      using isr_write_quiet [OF ju(1), of b c] ju by (simp_all add: quiet_def jflow_def)
    ultimately have "jtag_uart_irq b ?v \<noteq> None" using less.hyps by blast
    then show ?thesis using rd u(1) False by (subst jtag_uart_irq.simps) simp
  qed
qed

lemma documented_serviced: "documented_core b bs en full \<Longrightarrow> serviced b bs"
  using irq_returns by (fastforce simp: serviced_def)

end
