(* ===== verification/FdTable.thy ===== *)
theory FdTable
  imports DevList
begin

text \<open>
  The POSIX layer of the HAL: the file descriptor pool (\<open>alt_get_fd.c\<close>, \<open>alt_release_fd.c\<close>,
  \<open>alt_fd_lock.c\<close>, \<open>alt_fd_unlock.c\<close>), the system calls on it (\<open>alt_open.c\<close>,
  \<open>alt_close.c\<close>, \<open>alt_read.c\<close>, \<open>alt_write.c\<close>, \<open>alt_ioctl.c\<close>, \<open>alt_lseek.c\<close>, \<open>alt_fstat.c\<close>,
  \<open>alt_isatty.c\<close>, \<open>alt_fcntl.c\<close>, \<open>alt_stat.c\<close>) and the redirection of the standard streams
  (\<open>alt_io_redirect.c\<close>). The system is configured with device drivers behind
  function pointers and 32 descriptors. \<open>None\<close> is undefined behaviour: an index past the
  pool, or a null device pointer that is followed.
\<close>

subsection \<open>Constants\<close>

definition ALT_MAX_FD :: nat where "ALT_MAX_FD = 32"
definition ALT_FD_EXCL :: u32 where "ALT_FD_EXCL = 0x80000000"
definition ALT_FD_DEV :: u32 where "ALT_FD_DEV = 0x40000000"
definition ALT_FD_FLAGS_MASK :: u32 where "ALT_FD_FLAGS_MASK = ALT_FD_EXCL OR ALT_FD_DEV"
definition TIOCEXCL :: u32 where "TIOCEXCL = 0x740d"
definition TIOCNXCL :: u32 where "TIOCNXCL = 0x740e"

text \<open>From newlib's \<open>fcntl.h\<close> and \<open>stat.h\<close>.\<close>

definition O_RDONLY :: u32 where "O_RDONLY = 0"
definition O_WRONLY :: u32 where "O_WRONLY = 1"
definition O_ACCMODE :: u32 where "O_ACCMODE = 3"
definition O_APPEND :: u32 where "O_APPEND = 8"
definition O_NONBLOCK :: u32 where "O_NONBLOCK = 0x4000"
definition F_GETFL :: int where "F_GETFL = 3"
definition F_SETFL :: int where "F_SETFL = 4"
definition S_IFCHR :: u32 where "S_IFCHR = 0x2000"

definition ALT_FCNTL_FLAGS_MASK :: u32 where "ALT_FCNTL_FLAGS_MASK = O_APPEND OR O_NONBLOCK"

subsection \<open>The descriptor pool\<close>

definition fd_at :: "'d hal \<Rightarrow> nat \<Rightarrow> alt_fd option" where
  "fd_at s i = (if i < length (fd_list s) then Some (fd_list s ! i) else None)"

definition upd_fd :: "nat \<Rightarrow> (alt_fd \<Rightarrow> alt_fd) \<Rightarrow> 'd hal \<Rightarrow> 'd hal" where
  "upd_fd i f s = s\<lparr>fd_list := (fd_list s)[i := f (fd_list s ! i)]\<rparr>"

definition set_errno :: "int \<Rightarrow> 'd hal \<Rightarrow> 'd hal" where
  "set_errno n s = s\<lparr>errno := n\<rparr>"

text \<open>\<open>for (i = 0; i < ALT_MAX_FD; i++) if (!alt_fd_list[i].dev) ...\<close>: the first free index.\<close>

fun free_index :: "nat \<Rightarrow> alt_fd list \<Rightarrow> nat option" where
  "free_index i [] = None"
| "free_index i (f # fs) = (if fd_dev f = 0 then Some i else free_index (Suc i) fs)"

definition alt_get_fd :: "ptr \<Rightarrow> 'd hal \<Rightarrow> int \<times> 'd hal" where
  "alt_get_fd dev s =
     (case free_index 0 (take ALT_MAX_FD (fd_list s)) of
        Some i \<Rightarrow>
          (let s = upd_fd i (\<lambda>f. f\<lparr>fd_dev := dev\<rparr>) s
           in (int i, if int i > alt_max_fd s then s\<lparr>alt_max_fd := int i\<rparr> else s))
      | None \<Rightarrow> (- EMFILE, s))"

definition alt_release_fd :: "int \<Rightarrow> 'd hal \<Rightarrow> 'd hal option" where
  "alt_release_fd fd s =
     (if fd > 2
      then (if nat fd < length (fd_list s)
            then Some (upd_fd (nat fd) (\<lambda>f. f\<lparr>fd_flags := 0, fd_dev := 0\<rparr>) s) else None)
      else Some s)"

text \<open>The scan of \<open>alt_fd_lock\<close>: signed, up to but excluding \<open>alt_max_fd\<close>.\<close>

fun lock_scan :: "int \<Rightarrow> nat \<Rightarrow> ptr \<Rightarrow> nat \<Rightarrow> alt_fd list \<Rightarrow> int option" where
  "lock_scan m me d i [] = (if int i < m then None else Some 0)"
| "lock_scan m me d i (f # fs) =
     (if int i < m
      then (if i \<noteq> me \<and> fd_dev f = d then Some (- EACCES) else lock_scan m me d (Suc i) fs)
      else Some 0)"

definition alt_fd_lock :: "nat \<Rightarrow> 'd hal \<Rightarrow> (int \<times> 'd hal) option" where
  "alt_fd_lock fd s =
     (case lock_scan (alt_max_fd s) fd (fd_dev (fd_list s ! fd)) 0 (fd_list s) of
        None \<Rightarrow> None
      | Some rc \<Rightarrow>
          Some (if rc = 0
                then (0, upd_fd fd (\<lambda>f. f\<lparr>fd_flags := fd_flags f OR ALT_FD_EXCL\<rparr>) s)
                else (rc, s)))"

definition alt_fd_unlock :: "nat \<Rightarrow> 'd hal \<Rightarrow> int \<times> 'd hal" where
  "alt_fd_unlock fd s = (0, upd_fd fd (\<lambda>f. f\<lparr>fd_flags := fd_flags f AND NOT ALT_FD_EXCL\<rparr>) s)"

subsection \<open>open and close\<close>

text \<open>The scan of \<open>alt_file_locked\<close>: unsigned, up to and including \<open>alt_max_fd\<close>.\<close>

fun locked_scan :: "nat \<Rightarrow> nat \<Rightarrow> ptr \<Rightarrow> nat \<Rightarrow> alt_fd list \<Rightarrow> int option" where
  "locked_scan m me d i [] = (if i \<le> m then None else Some 0)"
| "locked_scan m me d i (f # fs) =
     (if i \<le> m
      then (if fd_dev f = d \<and> fd_flags f AND ALT_FD_EXCL \<noteq> 0 \<and> i \<noteq> me then Some (- EACCES)
            else locked_scan m me d (Suc i) fs)
      else Some 0)"

definition alt_file_locked :: "nat \<Rightarrow> 'd hal \<Rightarrow> (int \<times> 'd hal) option" where
  "alt_file_locked fd s =
     (let s = upd_fd fd (\<lambda>f. f\<lparr>fd_flags := fd_flags f OR ALT_FD_DEV\<rparr>) s
      in map_option (\<lambda>rc. (rc, s))
           (locked_scan (unat (word_of_int (alt_max_fd s) :: u32)) fd (fd_dev (fd_list s ! fd)) 0
              (fd_list s)))"

text \<open>The exit of \<open>open\<close>: clean up after a failure.\<close>

definition open_exit :: "int \<Rightarrow> int \<Rightarrow> 'd hal \<Rightarrow> (int \<times> 'd hal) option" where
  "open_exit index status s =
     (if status < 0
      then map_option (\<lambda>s. (- 1, set_errno (- status) s)) (alt_release_fd index s)
      else Some (index, s))"

text \<open>The part of \<open>open\<close> after the device has been found.\<close>

definition open_device ::
  "'d hal_env \<Rightarrow> ptr \<Rightarrow> bool \<Rightarrow> string \<Rightarrow> u32 \<Rightarrow> u32 \<Rightarrow> 'd hal \<Rightarrow> (int \<times> 'd hal) option" where
  "open_device e dev isafs file flags mode s =
     (let (index, s) = alt_get_fd dev s
      in if index < 0 then open_exit index index s
         else (let s = upd_fd (nat index) (\<lambda>f. f\<lparr>fd_flags := flags AND NOT ALT_FD_FLAGS_MASK\<rparr>) s
               in case (if isafs then Some (0, s) else alt_file_locked (nat index) s) of
                    None \<Rightarrow> None
                  | Some (status, s) \<Rightarrow>
                      if status \<ge> 0
                      then (let h = dopen (devs s dev);
                                (status, s) = (if h \<noteq> 0 then drv_open e h (nat index) file flags mode s
                                               else (0, s))
                            in open_exit index status s)
                      else open_exit index status s))"

definition alt_open :: "'d hal_env \<Rightarrow> string \<Rightarrow> u32 \<Rightarrow> u32 \<Rightarrow> 'd hal \<Rightarrow> (int \<times> 'd hal) option" where
  "alt_open e file flags mode s =
     (case alt_find_dev e file (alt_dev_list e) s of
        None \<Rightarrow> None
      | Some dev \<Rightarrow>
          if dev \<noteq> 0 then open_device e dev False file flags mode s
          else (case alt_find_file e file s of
                  None \<Rightarrow> None
                | Some dev \<Rightarrow>
                    if dev \<noteq> 0 then open_device e dev True file flags mode s
                    else open_exit (- 1) (- ENODEV) s))"

text \<open>The entry of every call on a descriptor: \<open>fd = (file < 0) ? NULL : &alt_fd_list[file]\<close>.
  \<open>bad\<close> is the error branch; \<open>good\<close> gets the index and the structure.\<close>

definition on_fd ::
  "int \<Rightarrow> 'd hal \<Rightarrow> 'r \<Rightarrow> (nat \<Rightarrow> alt_fd \<Rightarrow> 'r option) \<Rightarrow> 'r option" where
  "on_fd file s bad good =
     (if file < 0 then Some bad
      else case fd_at s (nat file) of None \<Rightarrow> None | Some fd \<Rightarrow> good (nat file) fd)"

text \<open>\<open>fd->dev->...\<close>\<close>

definition fd_device :: "'d hal \<Rightarrow> alt_fd \<Rightarrow> alt_dev option" where
  "fd_device s fd = (if fd_dev fd = 0 then None else Some (devs s (fd_dev fd)))"

definition alt_close :: "'d hal_env \<Rightarrow> int \<Rightarrow> 'd hal \<Rightarrow> (int \<times> 'd hal) option" where
  "alt_close e fildes s =
     on_fd fildes s (- 1, set_errno EBADFD s) (\<lambda>i fd.
       case fd_device s fd of
         None \<Rightarrow> None
       | Some d \<Rightarrow>
           (let (rval, s) = (if dclose d \<noteq> 0 then drv_close e (dclose d) i s else (0, s))
            in case alt_release_fd fildes s of
                 None \<Rightarrow> None
               | Some s \<Rightarrow> if rval < 0 then Some (- 1, set_errno (- rval) s) else Some (0, s)))"

subsection \<open>The calls on open descriptors\<close>

definition alt_read :: "'d hal_env \<Rightarrow> int \<Rightarrow> nat \<Rightarrow> 'd hal \<Rightarrow> (int \<times> string \<times> 'd hal) option" where
  "alt_read e file len s =
     on_fd file s (- 1, [], set_errno EBADFD s) (\<lambda>i fd.
       if fd_flags fd AND O_ACCMODE \<noteq> O_WRONLY
       then (case fd_device s fd of
               None \<Rightarrow> None
             | Some d \<Rightarrow>
                 if dread d \<noteq> 0
                 then (let (rval, buf, s) = drv_read e (dread d) i len s
                       in if rval < 0 then Some (- 1, buf, set_errno (- rval) s)
                          else Some (rval, buf, s))
                 else Some (- 1, [], set_errno EACCES s))
       else Some (- 1, [], set_errno EACCES s))"

definition alt_write :: "'d hal_env \<Rightarrow> int \<Rightarrow> string \<Rightarrow> 'd hal \<Rightarrow> (int \<times> 'd hal) option" where
  "alt_write e file buf s =
     on_fd file s (- 1, set_errno EBADFD s) (\<lambda>i fd.
       if fd_flags fd AND O_ACCMODE \<noteq> O_RDONLY
       then (case fd_device s fd of
               None \<Rightarrow> None
             | Some d \<Rightarrow>
                 if dwrite d \<noteq> 0
                 then (let (rval, s) = drv_write e (dwrite d) i buf s
                       in if rval < 0 then Some (- 1, set_errno (- rval) s) else Some (rval, s))
                 else Some (- 1, set_errno EACCES s))
       else Some (- 1, set_errno EACCES s))"

text \<open>The exit of \<open>ioctl\<close>, after the label \<open>ioctl_done\<close>.\<close>

definition ioctl_done :: "int \<times> 'd hal \<Rightarrow> int \<times> 'd hal" where
  "ioctl_done = (\<lambda>(rc, s). (rc, if rc < 0 then set_errno (- rc) s else s))"

definition alt_ioctl :: "'d hal_env \<Rightarrow> int \<Rightarrow> u32 \<Rightarrow> u32 \<Rightarrow> 'd hal \<Rightarrow> (int \<times> 'd hal) option" where
  "alt_ioctl e file req arg s =
     map_option ioctl_done
       (on_fd file s (- EBADFD, s) (\<lambda>i fd.
          if fd_flags fd AND ALT_FD_DEV \<noteq> 0 \<and> req = TIOCEXCL then alt_fd_lock i s
          else if fd_flags fd AND ALT_FD_DEV \<noteq> 0 \<and> req = TIOCNXCL then Some (alt_fd_unlock i s)
          else (case fd_device s fd of
                  None \<Rightarrow> None
                | Some d \<Rightarrow>
                    Some (if dioctl d \<noteq> 0 then drv_ioctl e (dioctl d) i req arg s else (- ENOTTY, s)))))"

definition alt_lseek :: "'d hal_env \<Rightarrow> int \<Rightarrow> int \<Rightarrow> int \<Rightarrow> 'd hal \<Rightarrow> (int \<times> 'd hal) option" where
  "alt_lseek e file pos dir s =
     map_option (\<lambda>(rc, s). if rc < 0 then (- 1, set_errno (- rc) s) else (rc, s))
       (on_fd file s (- EBADFD, s) (\<lambda>i fd.
          case fd_device s fd of
            None \<Rightarrow> None
          | Some d \<Rightarrow>
              Some (if dlseek d \<noteq> 0 then drv_lseek e (dlseek d) i pos dir s else (- ENOTSUP, s))))"

text \<open>The second component is the mode written to the \<open>stat\<close> structure.\<close>

definition alt_fstat :: "'d hal_env \<Rightarrow> int \<Rightarrow> 'd hal \<Rightarrow> (int \<times> u32 option \<times> 'd hal) option" where
  "alt_fstat e file s =
     on_fd file s (- 1, None, set_errno EBADFD s) (\<lambda>i fd.
       case fd_device s fd of
         None \<Rightarrow> None
       | Some d \<Rightarrow>
           if dfstat d \<noteq> 0
           then (let (rc, m, s) = drv_fstat e (dfstat d) i s in Some (rc, Some m, s))
           else Some (0, Some S_IFCHR, s))"

definition alt_isatty :: "'d hal_env \<Rightarrow> int \<Rightarrow> 'd hal \<Rightarrow> (int \<times> 'd hal) option" where
  "alt_isatty e file s =
     on_fd file s (0, set_errno EBADFD s) (\<lambda>i fd.
       case fd_device s fd of
         None \<Rightarrow> None
       | Some d \<Rightarrow>
           if dfstat d = 0 then Some (1, s)
           else map_option (\<lambda>(_, m, s). (if m = Some S_IFCHR then 1 else 0, s)) (alt_fstat e file s))"

definition alt_fcntl :: "int \<Rightarrow> int \<Rightarrow> u32 \<Rightarrow> 'd hal \<Rightarrow> (int \<times> 'd hal) option" where
  "alt_fcntl file cmd arg s =
     on_fd file s (- 1, set_errno EBADFD s) (\<lambda>i fd.
       if cmd = F_GETFL then Some (sint (fd_flags fd AND NOT ALT_FD_FLAGS_MASK), s)
       else if cmd = F_SETFL
       then Some (0, upd_fd i (\<lambda>f. f\<lparr>fd_flags := (fd_flags f AND NOT ALT_FCNTL_FLAGS_MASK)
                                     OR (arg AND ALT_FCNTL_FLAGS_MASK)\<rparr>) s)
       else Some (- 1, set_errno EINVAL s))"

definition alt_stat :: "'d hal_env \<Rightarrow> string \<Rightarrow> 'd hal \<Rightarrow> (int \<times> u32 option \<times> 'd hal) option" where
  "alt_stat e file s =
     (case alt_open e file 0 0 s of
        None \<Rightarrow> None
      | Some (fd, s) \<Rightarrow>
          (case alt_fstat e fd s of
             None \<Rightarrow> None
           | Some (rc, m, s) \<Rightarrow> map_option (\<lambda>(_, s). (rc, m, s)) (alt_close e fd s)))"

subsection \<open>Redirection of the standard streams\<close>

definition alt_open_fd ::
  "'d hal_env \<Rightarrow> nat \<Rightarrow> string \<Rightarrow> u32 \<Rightarrow> u32 \<Rightarrow> 'd hal \<Rightarrow> 'd hal option" where
  "alt_open_fd e fd name flags mode s =
     (case alt_open e name flags mode s of
        None \<Rightarrow> None
      | Some (old, s) \<Rightarrow>
          if old \<ge> 0
          then (let src = fd_list s ! nat old;
                    s = upd_fd fd (\<lambda>f. f\<lparr>fd_dev := fd_dev src, fd_priv := fd_priv src,
                                         fd_flags := fd_flags src\<rparr>) s
                in alt_release_fd old s)
          else Some s)"

definition alt_io_redirect ::
  "'d hal_env \<Rightarrow> string \<Rightarrow> string \<Rightarrow> string \<Rightarrow> 'd hal \<Rightarrow> 'd hal option" where
  "alt_io_redirect e stdout_dev stdin_dev stderr_dev s =
     Option.bind (alt_open_fd e 1 stdout_dev O_WRONLY 0x1FF s) (\<lambda>s.
     Option.bind (alt_open_fd e 0 stdin_dev O_RDONLY 0x1FF s) (\<lambda>s.
     alt_open_fd e 2 stderr_dev O_WRONLY 0x1FF s))"

end
