(* ===== verification/FdProps.thy ===== *)
theory FdProps
  imports FdTable
begin

text \<open>
  What the POSIX layer guarantees. Only the device pointer and the flags of the descriptors
  matter to it: \<open>tab\<close>. The drivers may do what they like with the rest of the state
  (\<open>drivers_ok\<close>). \<open>hal_inv\<close> is the invariant of the pool; the locale \<open>handle_pool\<close> is the
  contract of allocation and release.
\<close>

subsection \<open>The table\<close>

definition tab :: "'d hal \<Rightarrow> (ptr \<times> u32) list" where
  "tab s = map (\<lambda>f. (fd_dev f, fd_flags f)) (fd_list s)"

definition same_table :: "'d hal \<Rightarrow> 'd hal \<Rightarrow> bool" where
  "same_table s s' \<longleftrightarrow> tab s' = tab s \<and> alt_max_fd s' = alt_max_fd s \<and> dlinks s' = dlinks s
     \<and> devs s' = devs s"

lemma same_table_refl [simp]: "same_table s s"
  by (simp add: same_table_def)

lemma same_table_trans: "same_table s t \<Longrightarrow> same_table t u \<Longrightarrow> same_table s u"
  by (simp add: same_table_def)

text \<open>The drivers leave the table, the lists and the device structures alone.\<close>

definition drivers_ok :: "'d hal_env \<Rightarrow> bool" where
  "drivers_ok e \<longleftrightarrow>
     (\<forall>h i nm fl md s. same_table s (snd (drv_open e h i nm fl md s)))
   \<and> (\<forall>h i s. same_table s (snd (drv_close e h i s)))
   \<and> (\<forall>h i n s. same_table s (snd (snd (drv_read e h i n s))))
   \<and> (\<forall>h i b s. same_table s (snd (drv_write e h i b s)))
   \<and> (\<forall>h i p d s. same_table s (snd (drv_lseek e h i p d s)))
   \<and> (\<forall>h i s. same_table s (snd (snd (drv_fstat e h i s))))
   \<and> (\<forall>h i r a s. same_table s (snd (drv_ioctl e h i r a s)))"

definition hal_inv :: "'d hal_env \<Rightarrow> 'd hal \<Rightarrow> bool" where
  "hal_inv e s \<longleftrightarrow>
     length (tab s) = 32 \<and> - 1 \<le> alt_max_fd s \<and> alt_max_fd s < 32
   \<and> (\<forall>i<3. fst (tab s ! i) \<noteq> 0)
   \<and> (\<forall>i. 3 \<le> i \<longrightarrow> i < 32 \<longrightarrow> alt_max_fd s < int i \<longrightarrow> fst (tab s ! i) = 0)
   \<and> (\<exists>ps. named_list s (alt_dev_list e) ps) \<and> (\<exists>qs. named_list s (alt_fs_list e) qs)"

lemma length_tab [simp]: "length (tab s) = length (fd_list s)"
  by (simp add: tab_def)

lemma tab_nth: "i < length (fd_list s) \<Longrightarrow> tab s ! i = (fd_dev (fd_list s ! i), fd_flags (fd_list s ! i))"
  by (simp add: tab_def)

lemma same_table_length: "same_table s s' \<Longrightarrow> length (fd_list s') = length (fd_list s)"
  using length_tab [of s] length_tab [of s'] by (simp add: same_table_def)

lemma tab_upd:
  "tab (upd_fd i f s) = (tab s)[i := (fd_dev (f (fd_list s ! i)), fd_flags (f (fd_list s ! i)))]"
  by (simp add: tab_def upd_fd_def map_update)

lemma upd_fd_other [simp]:
  "alt_max_fd (upd_fd i f s) = alt_max_fd s" "dlinks (upd_fd i f s) = dlinks s"
  "devs (upd_fd i f s) = devs s" "drv (upd_fd i f s) = drv s" "errno (upd_fd i f s) = errno s"
  "length (fd_list (upd_fd i f s)) = length (fd_list s)"
  by (simp_all add: upd_fd_def)

lemma same_table_errno [simp]: "same_table s (set_errno n t) = same_table s t"
  by (simp add: same_table_def set_errno_def tab_def)

lemma errno_simps [simp]:
  "fd_list (set_errno n s) = fd_list s" "alt_max_fd (set_errno n s) = alt_max_fd s"
  "dlinks (set_errno n s) = dlinks s" "devs (set_errno n s) = devs s" "drv (set_errno n s) = drv s"
  "errno (set_errno n s) = n" "tab (set_errno n s) = tab s"
  by (simp_all add: set_errno_def tab_def)

lemma named_list_cong:
  "dlinks s' = dlinks s \<Longrightarrow> devs s' = devs s \<Longrightarrow> named_list s' lh ps = named_list s lh ps"
  by (simp add: named_list_def)

lemma hal_inv_same: "hal_inv e s \<Longrightarrow> same_table s s' \<Longrightarrow> hal_inv e s'"
  unfolding hal_inv_def same_table_def by (auto simp: named_list_def)

subsection \<open>Allocation and release\<close>

lemma free_index_spec:
  "free_index k fs = Some j \<Longrightarrow>
     k \<le> j \<and> j - k < length fs \<and> fd_dev (fs ! (j - k)) = 0 \<and> (\<forall>i < j - k. fd_dev (fs ! i) \<noteq> 0)"
proof (induction k fs rule: free_index.induct)
  case (2 k f fs)
  show ?case
  proof (cases "fd_dev f = 0")
    case False
    with 2 have ih: "Suc k \<le> j" "j - Suc k < length fs" "fd_dev (fs ! (j - Suc k)) = 0"
      "\<forall>i < j - Suc k. fd_dev (fs ! i) \<noteq> 0" by auto
    then have "j - k = Suc (j - Suc k)" by simp
    with ih False show ?thesis
      by (auto simp: less_Suc_eq_0_disj)
  qed (use 2 in auto)
qed simp

lemma free_index_None: "free_index k fs = None \<Longrightarrow> f \<in> set fs \<Longrightarrow> fd_dev f \<noteq> 0"
  by (induction k fs rule: free_index.induct) (auto split: if_splits)

lemma alt_get_fd_spec:
  assumes inv: "hal_inv e s" and get: "alt_get_fd d s = (r, s')"
  shows "r < 0 \<Longrightarrow> r = - EMFILE \<and> s' = s \<and> (\<forall>i<32. fst (tab s ! i) \<noteq> 0)"
    and "0 \<le> r \<Longrightarrow> 3 \<le> nat r \<and> nat r < 32 \<and> fst (tab s ! nat r) = 0 \<and> (\<forall>i < nat r. fst (tab s ! i) \<noteq> 0)
      \<and> tab s' = (tab s)[nat r := (d, snd (tab s ! nat r))] \<and> alt_max_fd s' = max (alt_max_fd s) r
      \<and> dlinks s' = dlinks s \<and> devs s' = devs s \<and> drv s' = drv s \<and> errno s' = errno s"
proof -
  have len: "length (fd_list s) = 32" and std: "\<forall>i<3. fst (tab s ! i) \<noteq> 0"
    using inv by (auto simp: hal_inv_def)
  have take: "take ALT_MAX_FD (fd_list s) = fd_list s"
    by (simp add: ALT_MAX_FD_def len)
  show "r < 0 \<Longrightarrow> r = - EMFILE \<and> s' = s \<and> (\<forall>i<32. fst (tab s ! i) \<noteq> 0)"
    using get free_index_None [of 0 "fd_list s"] len
    by (auto simp: alt_get_fd_def take Let_def tab_nth split: option.splits if_splits)
  assume r: "0 \<le> r"
  then obtain j where j: "free_index 0 (fd_list s) = Some j"
    using get by (auto simp: alt_get_fd_def take EMFILE_def split: option.splits)
  note fi = free_index_spec [OF j]
  have rj: "r = int j"
    using get j by (auto simp: alt_get_fd_def take Let_def split: if_splits)
  have "tab s ! j = (0, fd_flags (fd_list s ! j))" "\<forall>i<j. fst (tab s ! i) \<noteq> 0" "j < 32"
    using fi len by (auto simp: tab_nth)
  moreover from this std have "3 \<le> j"
    by (metis fst_conv not_le_imp_less)
  moreover have "tab s' = (tab s)[j := (d, fd_flags (fd_list s ! j))]"
    using get j by (auto simp: alt_get_fd_def take Let_def tab_upd [symmetric] tab_def split: if_splits)
       (auto simp: tab_def upd_fd_def map_update)
  moreover have "alt_max_fd s' = max (alt_max_fd s) r" "dlinks s' = dlinks s" "devs s' = devs s"
    "drv s' = drv s" "errno s' = errno s"
    using get j rj by (auto simp: alt_get_fd_def take Let_def split: if_splits)
  ultimately show "3 \<le> nat r \<and> nat r < 32 \<and> fst (tab s ! nat r) = 0 \<and> (\<forall>i < nat r. fst (tab s ! i) \<noteq> 0)
      \<and> tab s' = (tab s)[nat r := (d, snd (tab s ! nat r))] \<and> alt_max_fd s' = max (alt_max_fd s) r
      \<and> dlinks s' = dlinks s \<and> devs s' = devs s \<and> drv s' = drv s \<and> errno s' = errno s"
    using rj by simp
qed

lemma alt_release_fd_spec:
  assumes "length (fd_list s) = 32" "r < 32"
  shows "\<exists>s'. alt_release_fd r s = Some s' \<and> tab s' = (if r > 2 then (tab s)[nat r := (0, 0)] else tab s)
    \<and> alt_max_fd s' = alt_max_fd s \<and> dlinks s' = dlinks s \<and> devs s' = devs s \<and> drv s' = drv s
    \<and> errno s' = errno s"
  using assms by (auto simp: alt_release_fd_def tab_upd)

subsection \<open>The contract of a pool of handles\<close>

text \<open>\<open>owner s i\<close> is what handle \<open>i\<close> refers to. Allocation gives a handle that was free and
  gives it to the owner; a handle that is not reserved can be freed.\<close>

locale handle_pool =
  fixes ok :: "'s \<Rightarrow> bool"
    and owner :: "'s \<Rightarrow> nat \<Rightarrow> 'o option"
    and reserved :: "nat \<Rightarrow> bool"
    and alloc :: "'o \<Rightarrow> 's \<Rightarrow> int \<times> 's"
    and release :: "int \<Rightarrow> 's \<Rightarrow> 's option"
    and valid :: "'o \<Rightarrow> bool"
  assumes alloc_new: "ok s \<Longrightarrow> valid x \<Longrightarrow> alloc x s = (r, s') \<Longrightarrow> 0 \<le> r \<Longrightarrow>
      ok s' \<and> \<not> reserved (nat r) \<and> owner s (nat r) = None \<and> owner s' = (owner s)(nat r := Some x)"
    and alloc_none: "ok s \<Longrightarrow> alloc x s = (r, s') \<Longrightarrow> r < 0 \<Longrightarrow> s' = s"
    and release_one: "ok s \<Longrightarrow> \<not> reserved i \<Longrightarrow> owner s i \<noteq> None \<Longrightarrow>
      \<exists>s'. release (int i) s = Some s' \<and> ok s' \<and> owner s' = (owner s)(i := None)"
begin

lemma alloc_release:
  assumes "ok s" "valid x" "alloc x s = (r, s')" "0 \<le> r"
  shows "\<exists>s''. release r s' = Some s'' \<and> ok s'' \<and> owner s'' = owner s"
proof -
  note a = alloc_new [OF assms]
  then obtain s'' where "release (int (nat r)) s' = Some s''" "ok s''" "owner s'' = (owner s')(nat r := None)"
    using release_one [of s' "nat r"] by auto
  with a assms(4) show ?thesis by (auto simp: fun_upd_idem_iff)
qed

lemma alloc_distinct:
  assumes "ok s" "valid x" "valid y" "alloc x s = (r, s')" "0 \<le> r" "alloc y s' = (q, s'')" "0 \<le> q"
  shows "q \<noteq> r"
  using alloc_new [OF assms(1,2,4,5)] alloc_new [OF _ assms(3,6,7)] by auto

lemma others_keep:
  assumes "ok s" "valid x" "alloc x s = (r, s')" "owner s i = Some y"
  shows "owner s' i = Some y"
  using alloc_new [OF assms(1-3)] alloc_none [OF assms(1,3)] assms(4) by (cases "0 \<le> r") auto

end

definition fd_owner :: "'d hal \<Rightarrow> nat \<Rightarrow> ptr option" where
  "fd_owner s i = (if i < length (tab s) \<and> fst (tab s ! i) \<noteq> 0 then Some (fst (tab s ! i)) else None)"

lemma hal_inv_alloc:
  assumes "hal_inv e s" "d \<noteq> 0" "alt_get_fd d s = (r, s')" "0 \<le> r"
  shows "hal_inv e s'"
  using assms(1,2,4) alt_get_fd_spec(2) [OF assms(1,3,4)] unfolding hal_inv_def
  by (auto simp: nth_list_update named_list_def length_tab [symmetric] simp del: length_tab)

lemma hal_inv_release:
  assumes "hal_inv e s" "r < 32"
  shows "\<exists>s'. alt_release_fd r s = Some s' \<and> hal_inv e s'"
proof -
  have len: "length (fd_list s) = 32" using assms(1) by (simp add: hal_inv_def)
  obtain s' where s': "alt_release_fd r s = Some s'" "tab s' = (if r > 2 then (tab s)[nat r := (0, 0)] else tab s)"
      "alt_max_fd s' = alt_max_fd s" "dlinks s' = dlinks s" "devs s' = devs s"
    using alt_release_fd_spec [OF len assms(2)] by blast
  from assms(1) have "hal_inv e s'"
    using assms(2) unfolding hal_inv_def s' named_list_cong [OF s'(4,5)]
    by (auto simp: nth_list_update simp del: length_tab)
  with s'(1) show ?thesis by blast
qed

lemma fd_owner_set:
  assumes "tab s' = (tab s)[i := (d, fl)]" "i < length (tab s)"
  shows "fd_owner s' = (fd_owner s)(i := if d = 0 then None else Some d)"
  using assms by (auto simp: fun_eq_iff fd_owner_def nth_list_update simp del: length_tab)

interpretation fds: handle_pool "hal_inv e" fd_owner "\<lambda>i. i < 3" alt_get_fd alt_release_fd "\<lambda>d. d \<noteq> 0"
proof unfold_locales
  fix s :: "'a hal" and s' d r
  assume a: "hal_inv e s" "d \<noteq> 0" "alt_get_fd d s = (r, s')" "0 \<le> r"
  note g = alt_get_fd_spec(2) [OF a(1,3,4)]
  have "length (tab s) = 32" using a(1) by (simp add: hal_inv_def)
  with g have "fd_owner s (nat r) = None" "fd_owner s' = (fd_owner s)(nat r := Some d)"
    using fd_owner_set [of s' s "nat r" d] a(2) by (auto simp: fd_owner_def)
  with g hal_inv_alloc [OF a] show "hal_inv e s' \<and> \<not> nat r < 3 \<and> fd_owner s (nat r) = None \<and>
      fd_owner s' = (fd_owner s)(nat r := Some d)" by simp
next
  fix s :: "'a hal" and s' d r
  assume "hal_inv e s" "alt_get_fd d s = (r, s')" "r < 0"
  then show "s' = s" using alt_get_fd_spec(1) by blast
next
  fix s :: "'a hal" and i
  assume a: "hal_inv e s" "\<not> i < 3" "fd_owner s i \<noteq> None"
  have len: "length (fd_list s) = 32" using a(1) by (simp add: hal_inv_def)
  with a(3) have i: "i < 32" by (auto simp: fd_owner_def split: if_splits)
  obtain s' where s': "alt_release_fd (int i) s = Some s'" "hal_inv e s'"
    using hal_inv_release [OF a(1), of "int i"] i by auto
  with alt_release_fd_spec [OF len, of "int i"] i a(2)
  have "tab s' = (tab s)[i := (0, 0)]" by auto
  from fd_owner_set [OF this] i len s'
  show "\<exists>s'. alt_release_fd (int i) s = Some s' \<and> hal_inv e s' \<and> fd_owner s' = (fd_owner s)(i := None)"
    by auto
qed

subsection \<open>The open descriptors\<close>

text \<open>What a descriptor refers to and its flags. The flags of a free descriptor do not count.\<close>

definition descr :: "'d hal \<Rightarrow> nat \<Rightarrow> (ptr \<times> u32) option" where
  "descr s i = (if i < length (tab s) \<and> fst (tab s ! i) \<noteq> 0 then Some (tab s ! i) else None)"

text \<open>Device \<open>d\<close> is held exclusively.\<close>

definition held :: "'d hal \<Rightarrow> ptr \<Rightarrow> bool" where
  "held s d \<longleftrightarrow> (\<exists>i fl. descr s i = Some (d, fl) \<and> fl AND ALT_FD_EXCL \<noteq> 0)"

definition is_lowest_free :: "'d hal \<Rightarrow> nat \<Rightarrow> bool" where
  "is_lowest_free s i \<longleftrightarrow> i < length (tab s) \<and> descr s i = None \<and> (\<forall>j<i. descr s j \<noteq> None)"

lemma descr_same: "same_table s s' \<Longrightarrow> descr s' = descr s"
  by (simp add: fun_eq_iff descr_def same_table_def)

lemma descr_errno [simp]: "descr (set_errno n s) = descr s"
  by (simp add: fun_eq_iff descr_def)

lemma descr_tab: "tab s' = tab s \<Longrightarrow> descr s' = descr s"
  by (simp add: fun_eq_iff descr_def)

lemma descr_set:
  assumes "tab s' = (tab s)[i := (d, fl)]" "i < length (tab s)"
  shows "descr s' = (descr s)(i := if d = 0 then None else Some (d, fl))"
  using assms by (auto simp: fun_eq_iff descr_def nth_list_update simp del: length_tab)

lemma descr_bound:
  assumes "hal_inv e s" "descr s i \<noteq> None"
  shows "i < 32 \<and> int i \<le> max (alt_max_fd s) 2"
proof -
  have "i < 32" "fst (tab s ! i) \<noteq> 0"
    using assms by (auto simp: hal_inv_def descr_def split: if_splits)
  moreover have "3 \<le> i \<longrightarrow> i < 32 \<longrightarrow> alt_max_fd s < int i \<longrightarrow> fst (tab s ! i) = 0"
    using assms(1) unfolding hal_inv_def by blast
  ultimately show ?thesis by linarith
qed

lemma hal_inv_errno [simp]: "hal_inv e (set_errno n s) = hal_inv e s"
  by (simp add: hal_inv_def named_list_def tab_def del: length_tab)

text \<open>Changing the flags of a descriptor.\<close>

lemma upd_flags_tab:
  "i < length (fd_list s) \<Longrightarrow>
    tab (upd_fd i (\<lambda>f. f\<lparr>fd_flags := g f\<rparr>) s) = (tab s)[i := (fst (tab s ! i), g (fd_list s ! i))]"
  by (simp add: tab_upd tab_nth)

lemma hal_inv_cong:
  assumes "hal_inv e s" "map fst (tab s') = map fst (tab s)" "alt_max_fd s' = alt_max_fd s"
    "dlinks s' = dlinks s" "devs s' = devs s"
  shows "hal_inv e s'"
proof -
  have "length (tab s') = length (tab s)"
    using assms(2) by (metis length_map)
  moreover from this have "fst (tab s' ! i) = fst (tab s ! i)" if "i < length (tab s)" for i
    using assms(2) that by (metis nth_map)
  ultimately show ?thesis
    using assms(1,3-5) unfolding hal_inv_def named_list_def
    by (simp del: length_tab)
qed

lemma hal_inv_flags:
  assumes "hal_inv e s" "i < length (fd_list s)"
  shows "hal_inv e (upd_fd i (\<lambda>f. f\<lparr>fd_flags := g f\<rparr>) s)"
proof (rule hal_inv_cong [OF assms(1)])
  have "(map fst (tab s))[i := fst (tab s ! i)] = map fst (tab s)"
    using assms(2) by (metis length_tab list_update_id nth_map)
  then show "map fst (tab (upd_fd i (\<lambda>f. f\<lparr>fd_flags := g f\<rparr>) s)) = map fst (tab s)"
    by (simp add: upd_flags_tab [OF assms(2)] map_update)
qed simp_all

subsection \<open>The two scans for exclusive access\<close>

lemma locked_scan_spec:
  "m < k + length fs \<Longrightarrow> locked_scan m me d k fs =
     Some (if \<exists>j. k \<le> j \<and> j \<le> m \<and> j \<noteq> me \<and> fd_dev (fs ! (j - k)) = d \<and> fd_flags (fs ! (j - k)) AND ALT_FD_EXCL \<noteq> 0
           then - EACCES else 0)"
proof (induction m me d k fs rule: locked_scan.induct)
  case (2 m me d k f fs)
  show ?case
  proof (cases "k \<le> m \<and> \<not> (fd_dev f = d \<and> fd_flags f AND ALT_FD_EXCL \<noteq> 0 \<and> k \<noteq> me)")
    case True
    have "(\<exists>j. k \<le> j \<and> j \<le> m \<and> j \<noteq> me \<and> fd_dev ((f # fs) ! (j - k)) = d
             \<and> fd_flags ((f # fs) ! (j - k)) AND ALT_FD_EXCL \<noteq> 0)
      \<longleftrightarrow> (\<exists>j. Suc k \<le> j \<and> j \<le> m \<and> j \<noteq> me \<and> fd_dev (fs ! (j - Suc k)) = d
             \<and> fd_flags (fs ! (j - Suc k)) AND ALT_FD_EXCL \<noteq> 0)" (is "?L = ?R")
    proof
      assume ?L
      then obtain j where j: "k \<le> j" "j \<le> m" "j \<noteq> me" "fd_dev ((f # fs) ! (j - k)) = d"
        "fd_flags ((f # fs) ! (j - k)) AND ALT_FD_EXCL \<noteq> 0" by blast
      with True have "j \<noteq> k" by auto
      with j(1) have "j - k = Suc (j - Suc k)" "Suc k \<le> j" by auto
      with j show ?R by auto
    next
      assume ?R
      then obtain j where j: "Suc k \<le> j" "j \<le> m" "j \<noteq> me" "fd_dev (fs ! (j - Suc k)) = d"
        "fd_flags (fs ! (j - Suc k)) AND ALT_FD_EXCL \<noteq> 0" by blast
      then have "j - k = Suc (j - Suc k)" by auto
      with j show ?L by (intro exI [of _ j]) auto
    qed
    with True 2 show ?thesis by auto
  next
    case False
    then show ?thesis by force
  qed
qed auto

lemma lock_scan_spec:
  "m < int (k + length fs) \<Longrightarrow> lock_scan m me d k fs =
     Some (if \<exists>j. k \<le> j \<and> int j < m \<and> j \<noteq> me \<and> fd_dev (fs ! (j - k)) = d then - EACCES else 0)"
proof (induction m me d k fs rule: lock_scan.induct)
  case (2 m me d k f fs)
  show ?case
  proof (cases "int k < m \<and> \<not> (k \<noteq> me \<and> fd_dev f = d)")
    case True
    have "(\<exists>j. k \<le> j \<and> int j < m \<and> j \<noteq> me \<and> fd_dev ((f # fs) ! (j - k)) = d)
      \<longleftrightarrow> (\<exists>j. Suc k \<le> j \<and> int j < m \<and> j \<noteq> me \<and> fd_dev (fs ! (j - Suc k)) = d)" (is "?L = ?R")
    proof
      assume ?L
      then obtain j where j: "k \<le> j" "int j < m" "j \<noteq> me" "fd_dev ((f # fs) ! (j - k)) = d" by blast
      with True have "j \<noteq> k" by auto
      with j(1) have "j - k = Suc (j - Suc k)" "Suc k \<le> j" by auto
      with j show ?R by auto
    next
      assume ?R
      then obtain j where j: "Suc k \<le> j" "int j < m" "j \<noteq> me" "fd_dev (fs ! (j - Suc k)) = d" by blast
      then have "j - k = Suc (j - Suc k)" by auto
      with j show ?L by (intro exI [of _ j]) auto
    qed
    with True 2 show ?thesis by auto
  next
    case False
    then show ?thesis by force
  qed
qed auto

lemma alt_file_locked_spec:
  assumes inv: "hal_inv e s" and i: "descr s i = Some (d, fl)" "fl AND ALT_FD_EXCL = 0" and max: "3 \<le> alt_max_fd s"
  shows "alt_file_locked i s = Some (if held s d then - EACCES else 0,
           upd_fd i (\<lambda>f. f\<lparr>fd_flags := fd_flags f OR ALT_FD_DEV\<rparr>) s)"
proof -
  let ?s = "upd_fd i (\<lambda>f. f\<lparr>fd_flags := fd_flags f OR ALT_FD_DEV\<rparr>) s"
  have len: "length (fd_list s) = 32" and m32: "alt_max_fd s < 32"
    using inv by (simp_all add: hal_inv_def)
  have il: "i < 32" "fd_dev (fd_list s ! i) = d" "fd_flags (fd_list s ! i) = fl" "d \<noteq> 0"
    using i(1) len by (auto simp: descr_def tab_nth split: if_splits)
  have m: "unat (word_of_int (alt_max_fd s) :: u32) = nat (alt_max_fd s)"
    using max m32 by (simp only: unat_eq_nat_uint uint_word_of_int) simp
  have other: "fd_list ?s ! j = fd_list s ! j" if "j \<noteq> i" for j
    using that by (simp add: upd_fd_def)
  have dev: "fd_dev (fd_list ?s ! i) = d"
    using il len by (simp add: upd_fd_def)
  have "(\<exists>j. 0 \<le> j \<and> j \<le> nat (alt_max_fd s) \<and> j \<noteq> i \<and> fd_dev (fd_list ?s ! (j - 0)) = d
           \<and> fd_flags (fd_list ?s ! (j - 0)) AND ALT_FD_EXCL \<noteq> 0) = held s d" (is "?L = _")
  proof
    assume ?L
    then obtain j where j: "j \<le> nat (alt_max_fd s)" "j \<noteq> i" "fd_dev (fd_list s ! j) = d"
      "fd_flags (fd_list s ! j) AND ALT_FD_EXCL \<noteq> 0" by (auto simp: other)
    with m32 have "j < 32" by linarith
    with j len il(4) have "descr s j = Some (d, fd_flags (fd_list s ! j))"
      by (simp add: descr_def tab_nth)
    with j(4) show "held s d" unfolding held_def by blast
  next
    assume "held s d"
    then obtain j g where j: "descr s j = Some (d, g)" "g AND ALT_FD_EXCL \<noteq> 0" unfolding held_def by blast
    with i have ji: "j \<noteq> i" by auto
    have "j < 32" "int j \<le> max (alt_max_fd s) 2" using descr_bound [OF inv, of j] j(1) by auto
    with max have "j < 32" "j \<le> nat (alt_max_fd s)" by linarith+
    moreover have "fd_dev (fd_list s ! j) = d" "fd_flags (fd_list s ! j) = g"
      using j(1) len by (auto simp: descr_def tab_nth split: if_splits)
    ultimately show ?L using j(2) ji by (intro exI [of _ j]) (simp add: other)
  qed
  moreover have "nat (alt_max_fd s) < 0 + length (fd_list ?s)"
    using len m32 max by simp
  ultimately have "locked_scan (nat (alt_max_fd s)) i d 0 (fd_list ?s) = Some (if held s d then - EACCES else 0)"
    by (simp only: locked_scan_spec)
  then show ?thesis
    unfolding alt_file_locked_def Let_def dev upd_fd_other m by simp
qed

subsection \<open>open\<close>

text \<open>What \<open>open\<close> promises once it has found the device or file system \<open>dev\<close>. Descriptors are the
  abstract state; \<open>s1\<close> is what the driver sees.\<close>

definition open_spec ::
  "'d hal_env \<Rightarrow> ptr \<Rightarrow> bool \<Rightarrow> string \<Rightarrow> u32 \<Rightarrow> u32 \<Rightarrow> 'd hal \<Rightarrow> int \<Rightarrow> 'd hal \<Rightarrow> bool" where
  "open_spec e dev isafs nm flags mode s r s' \<longleftrightarrow>
     (if \<forall>i<32. descr s i \<noteq> None
      then r = - 1 \<and> errno s' = EMFILE \<and> descr s' = descr s \<and> drv s' = drv s
      else \<exists>i. 3 \<le> i \<and> is_lowest_free s i \<and>
        (if \<not> isafs \<and> held s dev
         then r = - 1 \<and> errno s' = EACCES \<and> descr s' = descr s \<and> drv s' = drv s
         else \<exists>s1 st s2.
           descr s1 = (descr s)(i \<mapsto> (dev, flags AND NOT ALT_FD_FLAGS_MASK OR (if isafs then 0 else ALT_FD_DEV)))
         \<and> drv s1 = drv s
         \<and> (st, s2) = (if dopen (devs s dev) \<noteq> 0 then drv_open e (dopen (devs s dev)) i nm flags mode s1
                       else (0, s1))
         \<and> drv s' = drv s2
         \<and> (if st < 0 then r = - 1 \<and> errno s' = - st \<and> descr s' = descr s
            else r = int i \<and> descr s' = descr s1)))"

lemma open_exit_fail:
  assumes "hal_inv e s" "st < 0" "3 \<le> i" "i < 32"
  shows "\<exists>s'. open_exit (int i) st s = Some (- 1, s') \<and> hal_inv e s' \<and> errno s' = - st \<and> drv s' = drv s
    \<and> descr s' = (descr s)(i := None)"
proof -
  have len: "length (fd_list s) = 32" using assms(1) by (simp add: hal_inv_def)
  obtain t where t: "alt_release_fd (int i) s = Some t" "hal_inv e t"
    using hal_inv_release [OF assms(1), of "int i"] assms(4) by auto
  have "tab t = (tab s)[i := (0, 0)]" "drv t = drv s"
    using alt_release_fd_spec [OF len, of "int i"] assms(3,4) t(1) by auto
  with descr_set [OF this(1)] len assms t show ?thesis
    by (simp add: open_exit_def)
qed

lemma flags_word:
  "(flags AND NOT ALT_FD_FLAGS_MASK) AND ALT_FD_EXCL = 0"
  "((flags AND NOT ALT_FD_FLAGS_MASK) OR ALT_FD_DEV) AND ALT_FD_EXCL = 0"
  by (simp_all add: ALT_FD_FLAGS_MASK_def ALT_FD_EXCL_def ALT_FD_DEV_def word_bw_assocs word_ao_dist)

lemma drv_open_same: "drivers_ok e \<Longrightarrow> drv_open e h i nm fl md s = (st, s') \<Longrightarrow> same_table s s'"
  unfolding drivers_ok_def by (metis snd_conv)

lemma held_upd:
  assumes "descr u = (descr s)(i \<mapsto> (d, fl))" "descr s i = None" "fl AND ALT_FD_EXCL = 0"
  shows "held u x = held s x"
proof
  assume "held u x"
  with assms(1,3) show "held s x" by (auto simp: held_def split: if_splits)
next
  assume "held s x"
  then obtain j g where "descr s j = Some (x, g)" "g AND ALT_FD_EXCL \<noteq> 0" by (auto simp: held_def)
  with assms(1,2) have "descr u j = Some (x, g)" by (cases "j = i") auto
  with \<open>g AND ALT_FD_EXCL \<noteq> 0\<close> show "held u x" unfolding held_def by blast
qed

text \<open>A device open in the descriptor \<open>i\<close>, which was the lowest free one of \<open>s\<close>.\<close>

definition entered :: "'d hal_env \<Rightarrow> ptr \<Rightarrow> u32 \<Rightarrow> 'd hal \<Rightarrow> nat \<Rightarrow> 'd hal \<Rightarrow> bool" where
  "entered e dev fl s i v \<longleftrightarrow>
     is_lowest_free s i \<and> 3 \<le> i \<and> i < 32 \<and> hal_inv e v \<and> descr v = (descr s)(i \<mapsto> (dev, fl))
   \<and> drv v = drv s \<and> devs v = devs s \<and> int i \<le> alt_max_fd v"

lemma entered_slot:
  assumes "entered e dev fl s i v"
  shows "i < length (fd_list v) \<and> tab v ! i = (dev, fl)"
proof -
  have "descr v i = Some (dev, fl)" "length (fd_list v) = 32" "i < 32"
    using assms by (simp_all add: entered_def hal_inv_def)
  then show ?thesis by (simp add: descr_def split: if_splits)
qed

lemma entered_flags:
  assumes "entered e dev fl s i v" "dev \<noteq> 0" "g (fd_list v ! i) = fl'"
  shows "entered e dev fl' s i (upd_fd i (\<lambda>f. f\<lparr>fd_flags := g f\<rparr>) v)"
proof -
  have v: "i < length (fd_list v)" "fst (tab v ! i) = dev"
    using entered_slot [OF assms(1)] by simp_all
  have "descr (upd_fd i (\<lambda>f. f\<lparr>fd_flags := g f\<rparr>) v) = (descr v)(i \<mapsto> (dev, fl'))"
    by (subst descr_set [OF upd_flags_tab [OF v(1)]]) (use v assms(2,3) in simp_all)
  with assms(1) v(1) show ?thesis by (simp add: entered_def hal_inv_flags)
qed

lemma get_entered:
  assumes inv: "hal_inv e s" and get: "alt_get_fd dev s = (int i, t)" and dev: "dev \<noteq> 0"
  shows "entered e dev (snd (tab s ! i)) s i t"
proof -
  note g = alt_get_fd_spec(2) [OF inv get, simplified]
  have len: "length (fd_list s) = 32" using inv by (simp add: hal_inv_def)
  then have "is_lowest_free s i" using g by (auto simp: is_lowest_free_def descr_def)
  moreover have "descr t = (descr s)(i \<mapsto> (dev, snd (tab s ! i)))"
    using descr_set [of t s i dev "snd (tab s ! i)"] g len dev by simp
  ultimately show ?thesis
    using g hal_inv_alloc [OF inv dev get] by (simp add: entered_def)
qed

lemma get_full:
  assumes "hal_inv e s" "alt_get_fd dev s = (q, t)" "q < 0"
  shows "q = - EMFILE \<and> t = s \<and> (\<forall>i<32. descr s i \<noteq> None)"
  using alt_get_fd_spec(1) [OF assms] assms(1) by (auto simp: descr_def hal_inv_def)

lemma entered_fd: "entered e dev fl s i v \<Longrightarrow> fd_flags (fd_list v ! i) = fl"
  using entered_slot [of e dev fl s i v] by (auto simp: tab_nth)

lemma entered_held: "entered e dev fl s i v \<Longrightarrow> fl AND ALT_FD_EXCL = 0 \<Longrightarrow> held v x = held s x"
  by (rule held_upd [where i = i]) (simp_all add: entered_def is_lowest_free_def)

lemma entered_nf: "entered e dev fl s i v \<Longrightarrow> \<not> (\<forall>i<32. descr s i \<noteq> None)"
  by (auto simp: entered_def is_lowest_free_def)

text \<open>The exclusive claim of another descriptor is found, and a device is marked as one.\<close>

lemma entered_lock:
  assumes u: "entered e dev (flags AND NOT ALT_FD_FLAGS_MASK) s i u" and dev: "dev \<noteq> 0"
  shows "\<exists>v. (if isafs then Some (0, u) else alt_file_locked i u) = Some (if \<not> isafs \<and> held s dev then - EACCES else 0, v)
    \<and> entered e dev (flags AND NOT ALT_FD_FLAGS_MASK OR (if isafs then 0 else ALT_FD_DEV)) s i v"
proof (cases isafs)
  case False
  have "alt_file_locked i u = Some (if held s dev then - EACCES else 0,
      upd_fd i (\<lambda>f. f\<lparr>fd_flags := fd_flags f OR ALT_FD_DEV\<rparr>) u)"
    using alt_file_locked_spec [of e u i dev] u entered_held [OF u flags_word(1)] flags_word(1) [of flags]
    by (auto simp: entered_def)
  with False entered_flags [OF u dev, of "\<lambda>f. fd_flags f OR ALT_FD_DEV"] entered_fd [OF u] show ?thesis by simp
qed (use u in simp)

lemma entered_driver:
  assumes "entered e dev fl s i v" "drivers_ok e"
    and "(st, w) = (if h \<noteq> 0 then drv_open e h i nm flags mode v else (0, v))"
  shows "hal_inv e w \<and> descr w = descr v"
  using assms drv_open_same [of e h i nm flags mode v st w] hal_inv_same [of e v w] descr_same [of v w]
  by (auto simp: entered_def split: if_splits)

lemma open_device_eq:
  assumes "alt_get_fd dev s = (int i, t)" "devs t = devs s"
    and "(if isafs then Some (0, upd_fd i (\<lambda>f. f\<lparr>fd_flags := flags AND NOT ALT_FD_FLAGS_MASK\<rparr>) t)
          else alt_file_locked i (upd_fd i (\<lambda>f. f\<lparr>fd_flags := flags AND NOT ALT_FD_FLAGS_MASK\<rparr>) t)) = Some (st, v)"
    and "devs v = devs s"
  shows "open_device e dev isafs nm flags mode s =
    (if 0 \<le> st
     then (let (st, s) = (if dopen (devs s dev) \<noteq> 0 then drv_open e (dopen (devs s dev)) i nm flags mode v else (0, v))
           in open_exit (int i) st s)
     else open_exit (int i) st v)"
  using assms by (cases isafs) (auto simp: open_device_def Let_def split: prod.splits)

lemma entered_fail:
  assumes "hal_inv e w" "descr w = descr v" "entered e dev fl s i v" "st < 0"
  shows "\<exists>s'. open_exit (int i) st w = Some (- 1, s') \<and> hal_inv e s' \<and> errno s' = - st \<and> drv s' = drv w
    \<and> descr s' = descr s"
  using open_exit_fail [OF assms(1,4), of i] assms(2,3)
  by (auto simp: entered_def is_lowest_free_def fun_upd_idem_iff)

lemma open_device_spec:
  assumes inv: "hal_inv e s" and ok: "drivers_ok e" and dev: "dev \<noteq> 0"
  shows "\<exists>r s'. open_device e dev isafs nm flags mode s = Some (r, s') \<and> hal_inv e s'
    \<and> open_spec e dev isafs nm flags mode s r s'"
proof (cases "alt_get_fd dev s")
  case (Pair q t)
  show ?thesis
  proof (cases "q < 0")
    case True
    with get_full [OF inv Pair] inv Pair show ?thesis
      by (simp add: open_device_def open_spec_def open_exit_def alt_release_fd_def EMFILE_def)
  next
    case False
    then obtain i where get: "alt_get_fd dev s = (int i, t)" using Pair nonneg_int_cases [of q] by auto
    note t = get_entered [OF inv get dev]
    let ?fl = "flags AND NOT ALT_FD_FLAGS_MASK OR (if isafs then 0 else ALT_FD_DEV)"
    obtain v where lock: "(if isafs then Some (0, upd_fd i (\<lambda>f. f\<lparr>fd_flags := flags AND NOT ALT_FD_FLAGS_MASK\<rparr>) t)
        else alt_file_locked i (upd_fd i (\<lambda>f. f\<lparr>fd_flags := flags AND NOT ALT_FD_FLAGS_MASK\<rparr>) t))
        = Some (if \<not> isafs \<and> held s dev then - EACCES else 0, v)" and v: "entered e dev ?fl s i v"
      using entered_lock [OF entered_flags [OF t dev, of "\<lambda>_. flags AND NOT ALT_FD_FLAGS_MASK", OF refl] dev] by blast
    have e: "i \<ge> 3" "is_lowest_free s i" "descr v = (descr s)(i \<mapsto> (dev, ?fl))" "drv v = drv s" "devs v = devs s"
      "devs t = devs s" "hal_inv e v"
      using v t by (simp_all add: entered_def)
    note eq = open_device_eq [OF get e(6) lock e(5), of e nm mode]
    show ?thesis
    proof (cases "\<not> isafs \<and> held s dev")
      case True
      with eq entered_fail [OF e(7) refl v, of "- EACCES"] e(1,2,4) entered_nf [OF v] show ?thesis
        unfolding open_spec_def if_not_P [OF entered_nf [OF v]] by (auto simp: EACCES_def)
    next
      case False
      define h where "h = dopen (devs s dev)"
      obtain st w where dr: "(st, w) = (if h \<noteq> 0 then drv_open e h i nm flags mode v else (0, v))"
        by (metis surj_pair)
      note w = entered_driver [OF v ok dr]
      have eq: "open_device e dev isafs nm flags mode s = open_exit (int i) st w"
        using eq False dr [symmetric] by (cases isafs) (auto simp: h_def split: if_splits)
      have spec: "open_spec e dev isafs nm flags mode s r s'"
        if "drv s' = drv w" "if st < 0 then r = - 1 \<and> errno s' = - st \<and> descr s' = descr s
            else r = int i \<and> descr s' = descr v" for r s'
        unfolding open_spec_def if_not_P [OF entered_nf [OF v]] if_not_P [OF False] h_def [symmetric]
        using e(1-4) dr that by blast
      show ?thesis
      proof (cases "st < 0")
        case True
        obtain s' where "open_exit (int i) st w = Some (- 1, s')" "hal_inv e s'" "errno s' = - st"
          "drv s' = drv w" "descr s' = descr s" using entered_fail [OF conjunct1 [OF w] conjunct2 [OF w] v True] by blast
        with eq True spec [of s' "- 1"] show ?thesis by simp
      next
        case False
        with eq w spec [of w "int i"] show ?thesis by (simp add: open_exit_def)
      qed
    qed
  qed
qed

end
