(* ===== verification/FdCalls.thy ===== *)
theory FdCalls
  imports FdProps
begin

text \<open>
  The system calls against the open descriptors: what each does to them (\<open>open_result\<close>,
  \<open>alt_close_spec\<close> and the lemmas named after the calls), and any history of calls
  (\<open>hal_call\<close>).
\<close>

subsection \<open>open\<close>

text \<open>Devices are found before file systems.\<close>

definition open_result ::
  "'d hal_env \<Rightarrow> ptr list \<Rightarrow> ptr list \<Rightarrow> string \<Rightarrow> u32 \<Rightarrow> u32 \<Rightarrow> 'd hal \<Rightarrow> int \<Rightarrow> 'd hal \<Rightarrow> bool" where
  "open_result e ps qs nm flags mode s r s' \<longleftrightarrow>
     (let d = first_or_null (\<lambda>dn. dn = nm) (with_names s ps); f = first_or_null (\<lambda>dn. owns dn nm) (with_names s qs)
     in if d \<noteq> 0 then open_spec e d False nm flags mode s r s'
        else if f \<noteq> 0 then open_spec e f True nm flags mode s r s'
        else r = - 1 \<and> s' = set_errno ENODEV s)"

lemma alt_open_spec:
  assumes inv: "hal_inv e s" and ok: "drivers_ok e" and nm: "c_string nm"
    and ps: "named_list s (alt_dev_list e) ps" and qs: "named_list s (alt_fs_list e) qs"
  shows "\<exists>r s'. alt_open e nm flags mode s = Some (r, s') \<and> hal_inv e s' \<and>
    open_result e ps qs nm flags mode s r s'"
proof -
  let ?d = "first_or_null (\<lambda>dn. dn = nm) (with_names s ps)"
  let ?f = "first_or_null (\<lambda>dn. owns dn nm) (with_names s qs)"
  note find = find_dev_spec [OF ps nm, of e] find_file_spec [OF qs nm]
  consider "?d \<noteq> 0" | "?d = 0" "?f \<noteq> 0" | "?d = 0" "?f = 0" by blast
  then show ?thesis
  proof cases
    case 1
    with find open_device_spec [OF inv ok 1, of False nm flags mode] show ?thesis
      by (simp add: alt_open_def open_result_def)
  next
    case 2
    with find open_device_spec [OF inv ok 2(2), of True nm flags mode] show ?thesis
      by (simp add: alt_open_def open_result_def)
  next
    case 3
    with find inv show ?thesis
      by (simp add: alt_open_def open_exit_def alt_release_fd_def ENODEV_def open_result_def)
  qed
qed

lemma hal_inv_lists:
  assumes "hal_inv e s"
  obtains ps qs where "named_list s (alt_dev_list e) ps" "named_list s (alt_fs_list e) qs"
  using assms unfolding hal_inv_def by blast

lemma open_spec_table:
  fixes s :: "'d hal"
  assumes "open_spec e d isafs nm flags mode s r s'"
  shows "(r = - 1 \<and> descr s' = descr s) \<or> (\<exists>i. r = int i \<and> 3 \<le> i \<and> is_lowest_free s i \<and>
    descr s' = (descr s)(i \<mapsto> (d, flags AND NOT ALT_FD_FLAGS_MASK OR (if isafs then 0 else ALT_FD_DEV))))"
proof (cases "\<forall>i<32. descr s i \<noteq> None")
  case True
  with assms show ?thesis by (simp add: open_spec_def)
next
  case nf: False
  from assms obtain i where i: "3 \<le> i" "is_lowest_free s i" and
    rest: "if \<not> isafs \<and> held s d
         then r = - 1 \<and> errno s' = EACCES \<and> descr s' = descr s \<and> drv s' = drv s
         else \<exists>s1 st s2.
           descr s1 = (descr s)(i \<mapsto> (d, flags AND NOT ALT_FD_FLAGS_MASK OR (if isafs then 0 else ALT_FD_DEV)))
         \<and> drv s1 = drv s
         \<and> (st, s2) = (if dopen (devs s d) \<noteq> 0 then drv_open e (dopen (devs s d)) i nm flags mode s1
                       else (0, s1))
         \<and> drv s' = drv s2
         \<and> (if st < 0 then r = - 1 \<and> errno s' = - st \<and> descr s' = descr s
            else r = int i \<and> descr s' = descr s1)"
    unfolding open_spec_def if_not_P [OF nf] by blast
  show ?thesis
  proof (cases "\<not> isafs \<and> held s d")
    case False
    from rest [unfolded if_not_P [OF False]] obtain s1 :: "'d hal" and st where
      s1: "descr s1 = (descr s)(i \<mapsto> (d, flags AND NOT ALT_FD_FLAGS_MASK OR (if isafs then 0 else ALT_FD_DEV)))"
        "if st < 0 then r = - 1 \<and> errno s' = - st \<and> descr s' = descr s else r = int i \<and> descr s' = descr s1"
      by blast
    show ?thesis
    proof (cases "st < 0")
      case False
      with s1 i show ?thesis by (intro disjI2 exI [of _ i]) simp
    qed (use s1(2) in simp)
  qed (use rest in simp)
qed

lemma open_result_cases:
  assumes "open_result e ps qs nm flags mode s r s'"
  shows "(\<exists>d b. open_spec e d b nm flags mode s r s') \<or> r = - 1 \<and> descr s' = descr s"
proof -
  let ?d = "first_or_null (\<lambda>dn. dn = nm) (with_names s ps)"
  let ?f = "first_or_null (\<lambda>dn. owns dn nm) (with_names s qs)"
  note a = assms [unfolded open_result_def Let_def]
  consider "?d \<noteq> 0" | "\<not> ?d \<noteq> 0" "?f \<noteq> 0" | "\<not> ?d \<noteq> 0" "\<not> ?f \<noteq> 0" by blast
  then show ?thesis
  proof cases
    case 1
    from a [unfolded if_P [OF 1]] show ?thesis by blast
  next
    case 2
    from a [unfolded if_not_P [OF 2(1)] if_P [OF 2(2)]] show ?thesis by blast
  next
    case 3
    from a [unfolded if_not_P [OF 3(1)] if_not_P [OF 3(2)]] show ?thesis by simp
  qed
qed

text \<open>The effect on the descriptors, without the conditions.\<close>

definition opened :: "'d hal \<Rightarrow> int \<Rightarrow> 'd hal \<Rightarrow> bool" where
  "opened s r s' \<longleftrightarrow> r = - 1 \<and> descr s' = descr s \<or>
     (\<exists>i x. r = int i \<and> 3 \<le> i \<and> is_lowest_free s i \<and> descr s' = (descr s)(i \<mapsto> x))"

lemma alt_open_table:
  assumes "hal_inv e s" "drivers_ok e" "c_string nm"
  shows "\<exists>r s'. alt_open e nm flags mode s = Some (r, s') \<and> hal_inv e s' \<and>
    opened s r s'"
proof -
  obtain ps qs where n: "named_list s (alt_dev_list e) ps" "named_list s (alt_fs_list e) qs"
    using hal_inv_lists [OF assms(1)] .
  from alt_open_spec [OF assms n, of flags mode] obtain r s' where
    o: "alt_open e nm flags mode s = Some (r, s')" "hal_inv e s'" "open_result e ps qs nm flags mode s r s'"
    by (elim exE conjE)
  from open_result_cases [OF o(3)]
  have "opened s r s'"
  proof
    assume "\<exists>d b. open_spec e d b nm flags mode s r s'"
    then obtain d b where "open_spec e d b nm flags mode s r s'" by (elim exE)
    from open_spec_table [OF this] show ?thesis by (elim disjE exE conjE) (auto simp: opened_def)
  qed (simp add: opened_def)
  with o(1,2) show ?thesis by simp
qed

subsection \<open>The other calls\<close>

text \<open>A descriptor argument is negative or refers to something.\<close>

definition usable :: "'d hal \<Rightarrow> int \<Rightarrow> bool" where
  "usable s file \<longleftrightarrow> file < 0 \<or> descr s (nat file) \<noteq> None"

lemma usable_cases:
  assumes "hal_inv e s" "usable s file"
  obtains "file < 0"
  | i d f where "file = int i" "i < 32" "descr s i = Some (d, fd_flags f)" "d \<noteq> 0" "fd_list s ! i = f"
      "fd_at s i = Some f" "fd_device s f = Some (devs s d)"
proof (cases "file < 0")
  case False
  have len: "length (fd_list s) = 32" using assms(1) by (simp add: hal_inv_def)
  obtain i where i: "file = int i" using False by (metis nonneg_int_cases not_less)
  with assms(2) False obtain d fl where d: "descr s i = Some (d, fl)" by (auto simp: usable_def)
  then have "i < 32" "fd_dev (fd_list s ! i) = d" "fd_flags (fd_list s ! i) = fl" "d \<noteq> 0"
    using len by (auto simp: descr_def tab_nth split: if_splits)
  with i d len show ?thesis
    by (intro that(2) [of i d "fd_list s ! i"]) (simp_all add: fd_at_def fd_device_def)
qed (use that in simp)

lemma drv_same:
  assumes "drivers_ok e"
  shows "drv_close e h i s = (r, s') \<Longrightarrow> same_table s s'"
    "drv_read e h i n s = (r, b, s') \<Longrightarrow> same_table s s'"
    "drv_write e h i b s = (r, s') \<Longrightarrow> same_table s s'"
    "drv_lseek e h i p w s = (r, s') \<Longrightarrow> same_table s s'"
    "drv_fstat e h i s = (r, m, s') \<Longrightarrow> same_table s s'"
    "drv_ioctl e h i q a s = (r, s') \<Longrightarrow> same_table s s'"
  using assms unfolding drivers_ok_def by (metis snd_conv)+

lemma alt_close_spec:
  assumes "hal_inv e s" "drivers_ok e" "descr s i \<noteq> None"
  shows "\<exists>r s'. alt_close e (int i) s = Some (r, s') \<and> hal_inv e s'
    \<and> descr s' = (if i > 2 then (descr s)(i := None) else descr s) \<and> (r = 0 \<or> r = - 1)"
proof -
  have "usable s (int i)" using assms(3) by (simp add: usable_def)
  then show ?thesis
  proof (rule usable_cases [OF assms(1)])
    fix j d f
    assume j: "int i = int j" "j < 32" "descr s j = Some (d, fd_flags f)" "d \<noteq> 0"
      "fd_at s j = Some f" "fd_device s f = Some (devs s d)"
    let ?h = "dclose (devs s d)"
    obtain rv t where t: "(if ?h \<noteq> 0 then drv_close e ?h i s else (0, s)) = (rv, t)" by fastforce
    then have st: "same_table s t" using drv_same(1) [OF assms(2)] by (auto split: if_splits)
    have it: "hal_inv e t" and dt: "descr t = descr s"
      using hal_inv_same [OF assms(1) st] descr_same [OF st] by simp_all
    have len: "length (fd_list t) = 32" using it by (simp add: hal_inv_def)
    obtain u where u: "alt_release_fd (int i) t = Some u" "hal_inv e u"
      using hal_inv_release [OF it, of "int i"] j(1,2) by auto
    have "tab u = (if i > 2 then (tab t)[i := (0, 0)] else tab t)"
      using alt_release_fd_spec [OF len, of "int i"] u(1) j(1,2) by auto
    then have "descr u = (if i > 2 then (descr t)(i := None) else descr t)"
      using descr_set [of u t i 0 0] descr_tab [of u t] len j(1,2) by (auto split: if_splits)
    moreover have "alt_close e (int i) s = (case alt_release_fd (int i) t of None \<Rightarrow> None
        | Some s \<Rightarrow> if rv < 0 then Some (- 1, set_errno (- rv) s) else Some (0, s))"
      using j t by (cases "?h = 0") (auto simp: alt_close_def on_fd_def)
    ultimately show ?thesis
      using u dt by (cases "rv < 0") simp_all
  qed simp
qed

text \<open>The calls that only pass the request on leave the table alone.\<close>

lemma alt_read_table:
  assumes inv: "hal_inv e s" and ok: "drivers_ok e" and u: "usable s file"
  shows "\<exists>r b s'. alt_read e file n s = Some (r, b, s') \<and> same_table s s'"
  using inv u
proof (rule usable_cases)
  fix i d f
  assume j: "file = int i" "fd_at s i = Some f" "fd_device s f = Some (devs s d)"
  obtain rv b t where t: "drv_read e (dread (devs s d)) i n s = (rv, b, t)" by (metis prod_cases3)
  with drv_same(2) [OF ok t] j show ?thesis
    by (auto simp: alt_read_def on_fd_def)
qed (simp add: alt_read_def on_fd_def)

lemma alt_write_table:
  assumes inv: "hal_inv e s" and ok: "drivers_ok e" and u: "usable s file"
  shows "\<exists>r s'. alt_write e file b s = Some (r, s') \<and> same_table s s'"
  using inv u
proof (rule usable_cases)
  fix i d f
  assume j: "file = int i" "fd_at s i = Some f" "fd_device s f = Some (devs s d)"
  obtain rv t where t: "drv_write e (dwrite (devs s d)) i b s = (rv, t)" by fastforce
  with drv_same(3) [OF ok t] j show ?thesis
    by (auto simp: alt_write_def on_fd_def)
qed (simp add: alt_write_def on_fd_def)

lemma alt_lseek_table:
  assumes inv: "hal_inv e s" and ok: "drivers_ok e" and u: "usable s file"
  shows "\<exists>r s'. alt_lseek e file p w s = Some (r, s') \<and> same_table s s'"
  using inv u
proof (rule usable_cases)
  fix i d f
  assume j: "file = int i" "fd_at s i = Some f" "fd_device s f = Some (devs s d)"
  obtain rv t where t: "drv_lseek e (dlseek (devs s d)) i p w s = (rv, t)" by fastforce
  with drv_same(4) [OF ok t] j show ?thesis
    by (auto simp: alt_lseek_def on_fd_def)
qed (simp add: alt_lseek_def on_fd_def)

lemma alt_fstat_table:
  assumes inv: "hal_inv e s" and ok: "drivers_ok e" and u: "usable s file"
  shows "\<exists>r m s'. alt_fstat e file s = Some (r, m, s') \<and> same_table s s'"
  using inv u
proof (rule usable_cases)
  fix i d f
  assume j: "file = int i" "fd_at s i = Some f" "fd_device s f = Some (devs s d)"
  obtain rv m t where t: "drv_fstat e (dfstat (devs s d)) i s = (rv, m, t)" by (metis prod_cases3)
  with drv_same(5) [OF ok t] j show ?thesis
    by (auto simp: alt_fstat_def on_fd_def)
qed (simp add: alt_fstat_def on_fd_def)

lemma alt_isatty_table:
  assumes inv: "hal_inv e s" and ok: "drivers_ok e" and u: "usable s file"
  shows "\<exists>r s'. alt_isatty e file s = Some (r, s') \<and> same_table s s'"
  using inv u
proof (rule usable_cases)
  fix i d f
  assume j: "file = int i" "fd_at s i = Some f" "fd_device s f = Some (devs s d)"
  obtain rv m t where "alt_fstat e file s = Some (rv, m, t)" "same_table s t"
    using alt_fstat_table [OF assms] by blast
  with j show ?thesis
    by (auto simp: alt_isatty_def on_fd_def)
qed (simp add: alt_isatty_def on_fd_def)

text \<open>Changes to the flags.\<close>

lemma descr_flags:
  assumes "hal_inv e s" "descr s i = Some (d, fd_flags f)" "fd_list s ! i = f"
  shows "descr (upd_fd i (\<lambda>f. f\<lparr>fd_flags := g f\<rparr>) s) = (descr s)(i \<mapsto> (d, g f))
    \<and> hal_inv e (upd_fd i (\<lambda>f. f\<lparr>fd_flags := g f\<rparr>) s)"
proof -
  have i: "i < length (fd_list s)" "d \<noteq> 0" "tab s ! i = (d, fd_flags f)"
    using assms(2) by (auto simp: descr_def split: if_splits)
  from descr_set [OF upd_flags_tab [OF i(1), of g]] i assms(3) hal_inv_flags [OF assms(1) i(1)]
  show ?thesis by simp
qed

lemma alt_fcntl_table:
  assumes inv: "hal_inv e s" and u: "usable s file"
  shows "\<exists>r s'. alt_fcntl file cmd arg s = Some (r, s') \<and> hal_inv e s' \<and> map_option fst \<circ> descr s' = map_option fst \<circ> descr s"
  using inv u
proof (rule usable_cases)
  fix i d f
  assume j: "file = int i" "fd_at s i = Some f" "descr s i = Some (d, fd_flags f)" "fd_list s ! i = f"
  from descr_flags [OF inv j(3,4), of "\<lambda>f. fd_flags f AND NOT ALT_FCNTL_FLAGS_MASK OR arg AND ALT_FCNTL_FLAGS_MASK"] j inv
  show ?thesis
    by (auto simp: alt_fcntl_def on_fd_def fun_eq_iff)
qed (use inv in \<open>simp add: alt_fcntl_def on_fd_def\<close>)

lemma alt_fd_lock_spec:
  assumes inv: "hal_inv e s" and i: "descr s i = Some (d, fd_flags f)" "fd_list s ! i = f"
  shows "alt_fd_lock i s = Some (if \<exists>j. int j < alt_max_fd s \<and> j \<noteq> i \<and> map_option fst (descr s j) = Some d
     then (- EACCES, s) else (0, upd_fd i (\<lambda>f. f\<lparr>fd_flags := fd_flags f OR ALT_FD_EXCL\<rparr>) s))"
proof -
  have len: "length (fd_list s) = 32" and m: "alt_max_fd s < 32" using inv by (simp_all add: hal_inv_def)
  have d: "d \<noteq> 0" "fd_dev f = d" "i < 32"
    using i len by (auto simp: descr_def tab_nth split: if_splits)
  have "(\<exists>j. 0 \<le> j \<and> int j < alt_max_fd s \<and> j \<noteq> i \<and> fd_dev (fd_list s ! (j - 0)) = d) =
      (\<exists>j. int j < alt_max_fd s \<and> j \<noteq> i \<and> map_option fst (descr s j) = Some d)"
  proof -
    have "fd_dev (fd_list s ! j) = d \<longleftrightarrow> map_option fst (descr s j) = Some d" if "int j < alt_max_fd s" for j
      using that m len d by (auto simp: descr_def tab_nth)
    then show ?thesis by (simp cong: conj_cong)
  qed
  moreover have "alt_max_fd s < int (0 + length (fd_list s))" using m len by simp
  ultimately have "lock_scan (alt_max_fd s) i d 0 (fd_list s) =
      Some (if \<exists>j. int j < alt_max_fd s \<and> j \<noteq> i \<and> map_option fst (descr s j) = Some d then - EACCES else 0)"
    by (simp only: lock_scan_spec)
  then show ?thesis
    unfolding alt_fd_lock_def i(2) d(2) by (simp add: EACCES_def)
qed

lemma alt_ioctl_table:
  assumes inv: "hal_inv e s" and ok: "drivers_ok e" and u: "usable s file"
  shows "\<exists>r s'. alt_ioctl e file req arg s = Some (r, s') \<and> hal_inv e s' \<and> map_option fst \<circ> descr s' = map_option fst \<circ> descr s"
  using inv u
proof (rule usable_cases)
  fix i d f
  assume j: "file = int i" "fd_at s i = Some f" "descr s i = Some (d, fd_flags f)" "fd_list s ! i = f"
    "fd_device s f = Some (devs s d)"
  obtain rv t where t: "drv_ioctl e (dioctl (devs s d)) i req arg s = (rv, t)" by fastforce
  then have st: "hal_inv e t" "descr t = descr s"
    using drv_same(6) [OF ok t] hal_inv_same [OF inv] descr_same by auto
  have lock: "\<exists>r s'. alt_fd_lock i s = Some (r, s') \<and> hal_inv e s' \<and> map_option fst \<circ> descr s' = map_option fst \<circ> descr s"
    using alt_fd_lock_spec [OF inv j(3,4)] descr_flags [OF inv j(3,4), of "\<lambda>f. fd_flags f OR ALT_FD_EXCL"] inv j(3)
    by (auto simp: fun_eq_iff)
  have unlock: "\<exists>r s'. alt_fd_unlock i s = (r, s') \<and> hal_inv e s' \<and> map_option fst \<circ> descr s' = map_option fst \<circ> descr s"
    using descr_flags [OF inv j(3,4), of "\<lambda>f. fd_flags f AND NOT ALT_FD_EXCL"] j(3)
    by (auto simp: fun_eq_iff alt_fd_unlock_def)
  have done_ok: "\<exists>r' s'. ioctl_done (r, v) = (r', s') \<and> hal_inv e s' \<and> map_option fst \<circ> descr s' = map_option fst \<circ> descr s"
    if "hal_inv e v" "map_option fst \<circ> descr v = map_option fst \<circ> descr s" for r v
    using that by (auto simp: ioctl_done_def)
  show ?thesis
    unfolding alt_ioctl_def on_fd_def
    using j t st lock unlock inv done_ok by auto
qed (use inv in \<open>simp add: alt_ioctl_def on_fd_def ioctl_done_def\<close>)

text \<open>\<open>stat\<close>, and the redirection of a standard stream.\<close>

lemma usable_opened:
  assumes "opened s r s'"
  shows "usable s' r"
  using assms by (auto simp: usable_def opened_def)

lemma alt_stat_table:
  assumes inv: "hal_inv e s" and ok: "drivers_ok e" and nm: "c_string nm"
  shows "\<exists>r m s'. alt_stat e nm s = Some (r, m, s') \<and> hal_inv e s' \<and> descr s' = descr s"
proof -
  obtain q t where o: "alt_open e nm 0 0 s = Some (q, t)" "hal_inv e t"
    and tab: "opened s q t"
    using alt_open_table [OF assms] by blast
  obtain r m v where f: "alt_fstat e q t = Some (r, m, v)" "same_table t v"
    using alt_fstat_table [OF o(2) ok usable_opened [OF tab]] by blast
  have v: "hal_inv e v" "descr v = descr t"
    using hal_inv_same [OF o(2) f(2)] descr_same [OF f(2)] by simp_all
  from tab [unfolded opened_def] show ?thesis
  proof
    assume "q = - 1 \<and> descr t = descr s"
    with o f v show ?thesis by (simp add: alt_stat_def alt_close_def on_fd_def)
  next
    assume "\<exists>i x. q = int i \<and> 3 \<le> i \<and> is_lowest_free s i \<and> descr t = (descr s)(i \<mapsto> x)"
    then obtain i x where i: "q = int i" "3 \<le> i" "is_lowest_free s i" "descr t = (descr s)(i \<mapsto> x)"
      by blast
    with v have "descr v i \<noteq> None" by simp
    from alt_close_spec [OF v(1) ok this] obtain c w where
      "alt_close e (int i) v = Some (c, w)" "hal_inv e w" "descr w = (if i > 2 then (descr v)(i := None) else descr v)"
      by (elim exE conjE)
    moreover from this have "descr w = descr s"
      using i v(2) by (auto simp: is_lowest_free_def fun_upd_idem_iff)
    ultimately show ?thesis using o f i(1) by (simp add: alt_stat_def)
  qed
qed

lemma alt_open_fd_table:
  assumes inv: "hal_inv e s" and ok: "drivers_ok e" and nm: "c_string nm" and fd: "k < 3"
  shows "\<exists>q t s'. alt_open e nm flags mode s = Some (q, t) \<and> alt_open_fd e k nm flags mode s = Some s' \<and> hal_inv e s'
    \<and> descr s' = (if q < 0 then descr s else (descr s)(k := descr t (nat q)))"
proof -
  obtain q t where o: "alt_open e nm flags mode s = Some (q, t)" "hal_inv e t"
    and tab: "opened s q t"
    using alt_open_table [OF inv ok nm] by blast
  from tab [unfolded opened_def] show ?thesis
  proof
    assume "q = - 1 \<and> descr t = descr s"
    with o show ?thesis by (simp add: alt_open_fd_def)
  next
    assume "\<exists>i x. q = int i \<and> 3 \<le> i \<and> is_lowest_free s i \<and> descr t = (descr s)(i \<mapsto> x)"
    then obtain i x where i: "q = int i" "3 \<le> i" "is_lowest_free s i" "descr t = (descr s)(i \<mapsto> x)"
      by blast
    have len: "length (fd_list t) = 32" using o(2) by (simp add: hal_inv_def)
    have ti: "i < 32" "tab t ! i = x" "fst x \<noteq> 0"
      using i(4) len by (auto simp: descr_def fun_eq_iff split: if_splits dest!: spec [of _ i])
    define u where "u = upd_fd k (\<lambda>f. f\<lparr>fd_dev := fd_dev (fd_list t ! i), fd_priv := fd_priv (fd_list t ! i),
                          fd_flags := fd_flags (fd_list t ! i)\<rparr>) t"
    have tu: "tab u = (tab t)[k := x]"
      using ti len by (simp add: u_def tab_upd tab_nth)
    have "hal_inv e u"
      using o(2) tu fd ti(3) unfolding hal_inv_def
      by (auto simp: nth_list_update named_list_def u_def simp del: length_tab)
    then obtain w where w: "alt_release_fd (int i) u = Some w" "hal_inv e w"
      using hal_inv_release [of e u "int i"] ti by auto
    have lu: "length (fd_list u) = 32" using len by (simp add: u_def)
    have "tab w = (tab u)[i := (0, 0)]"
      using alt_release_fd_spec [OF lu, of "int i"] w(1) ti i(2) by auto
    from descr_set [OF this] ti lu have "descr w = (descr u)(i := None)" by simp
    moreover have "descr u = (descr t)(k \<mapsto> x)"
      using descr_set [of u t k "fst x" "snd x"] tu ti fd len by simp
    ultimately have "descr w = (descr s)(k \<mapsto> x)"
      using i fd by (auto simp: is_lowest_free_def fun_eq_iff)
    with w o i(1,4) show ?thesis
      by (simp add: alt_open_fd_def u_def [symmetric] Let_def)
  qed
qed

lemma alt_io_redirect_table:
  assumes "hal_inv e s" "drivers_ok e" "c_string out" "c_string inp" "c_string err"
  shows "\<exists>s'. alt_io_redirect e out inp err s = Some s' \<and> hal_inv e s' \<and> (\<forall>i\<ge>3. descr s' i = descr s i)"
proof -
  obtain a where a: "alt_open_fd e 1 out O_WRONLY 0x1FF s = Some a" "hal_inv e a" "\<forall>i\<ge>3. descr a i = descr s i"
    using alt_open_fd_table [OF assms(1-3), of 1 O_WRONLY "0x1FF"] by auto
  obtain b where b: "alt_open_fd e 0 inp O_RDONLY 0x1FF a = Some b" "hal_inv e b" "\<forall>i\<ge>3. descr b i = descr a i"
    using alt_open_fd_table [OF a(2) assms(2,4), of 0 O_RDONLY "0x1FF"] by auto
  obtain c where c: "alt_open_fd e 2 err O_WRONLY 0x1FF b = Some c" "hal_inv e c" "\<forall>i\<ge>3. descr c i = descr b i"
    using alt_open_fd_table [OF b(2) assms(2,5), of 2 O_WRONLY "0x1FF"] by auto
  from a b c show ?thesis by (simp add: alt_io_redirect_def)
qed

subsection \<open>Histories of calls\<close>

text \<open>One call on usable descriptors, with any arguments: which call it is, with its descriptor, and what it
  does.\<close>

datatype hal_op =
    Open_call | Close_call int | Read_call int | Write_call int | Ioctl_call int | Lseek_call int
  | Fstat_call int | Isatty_call int | Fcntl_call int | Stat_call | Redirect_call

inductive hal_does :: "'d hal_env \<Rightarrow> hal_op \<Rightarrow> 'd hal \<Rightarrow> 'd hal \<Rightarrow> bool" for e where
  call_open: "c_string nm \<Longrightarrow> alt_open e nm fl md s = Some (r, s') \<Longrightarrow> hal_does e Open_call s s'"
| call_close: "usable s fd \<Longrightarrow> alt_close e fd s = Some (r, s') \<Longrightarrow> hal_does e (Close_call fd) s s'"
| call_read: "usable s fd \<Longrightarrow> alt_read e fd n s = Some (r, b, s') \<Longrightarrow> hal_does e (Read_call fd) s s'"
| call_write: "usable s fd \<Longrightarrow> alt_write e fd b s = Some (r, s') \<Longrightarrow> hal_does e (Write_call fd) s s'"
| call_ioctl: "usable s fd \<Longrightarrow> alt_ioctl e fd q a s = Some (r, s') \<Longrightarrow> hal_does e (Ioctl_call fd) s s'"
| call_lseek: "usable s fd \<Longrightarrow> alt_lseek e fd p w s = Some (r, s') \<Longrightarrow> hal_does e (Lseek_call fd) s s'"
| call_fstat: "usable s fd \<Longrightarrow> alt_fstat e fd s = Some (r, m, s') \<Longrightarrow> hal_does e (Fstat_call fd) s s'"
| call_isatty: "usable s fd \<Longrightarrow> alt_isatty e fd s = Some (r, s') \<Longrightarrow> hal_does e (Isatty_call fd) s s'"
| call_fcntl: "usable s fd \<Longrightarrow> alt_fcntl fd c a s = Some (r, s') \<Longrightarrow> hal_does e (Fcntl_call fd) s s'"
| call_stat: "c_string nm \<Longrightarrow> alt_stat e nm s = Some (r, m, s') \<Longrightarrow> hal_does e Stat_call s s'"
| call_redirect: "c_string a \<Longrightarrow> c_string b \<Longrightarrow> c_string c \<Longrightarrow> alt_io_redirect e a b c s = Some s' \<Longrightarrow>
    hal_does e Redirect_call s s'"

definition hal_call :: "'d hal_env \<Rightarrow> 'd hal \<Rightarrow> 'd hal \<Rightarrow> bool" where
  "hal_call e s s' \<longleftrightarrow> (\<exists>op. hal_does e op s s')"

lemma hal_callI: "hal_does e op s s' \<Longrightarrow> hal_call e s s'"
  by (auto simp: hal_call_def)

lemma hal_inv_table: "hal_inv e s \<Longrightarrow> \<exists>r m s'. x = Some (r, m, s') \<and> same_table s s' \<Longrightarrow> x = Some (q, n, t) \<Longrightarrow> hal_inv e t"
  using hal_inv_same by blast

lemma alt_close_bad: "fd < 0 \<Longrightarrow> alt_close e fd s = Some (- 1, set_errno EBADFD s)"
  by (simp add: alt_close_def on_fd_def)

lemma usable_close:
  assumes "hal_inv e s" "drivers_ok e" "usable s fd"
  shows "\<exists>r s'. alt_close e fd s = Some (r, s') \<and> hal_inv e s'"
proof (cases "fd < 0")
  case True
  with assms(1) show ?thesis by (simp add: alt_close_bad)
next
  case False
  then obtain i where i: "fd = int i" by (metis nonneg_int_cases not_less)
  with assms(3) have "descr s i \<noteq> None" by (simp add: usable_def)
  from alt_close_spec [OF assms(1,2) this] i show ?thesis by blast
qed

lemma hal_does_inv:
  assumes "hal_does e op s s'" "hal_inv e s" "drivers_ok e"
  shows "hal_inv e s'"
  using assms(1)
proof cases
  case (call_open nm fl md r)
  with alt_open_table [OF assms(2,3) call_open(2), of fl md] show ?thesis by auto
next
  case (call_close fd r)
  with usable_close [OF assms(2,3) call_close(2)] show ?thesis by auto
next
  case (call_read fd n r b)
  with alt_read_table [OF assms(2,3) call_read(2), of n] hal_inv_same [OF assms(2)] show ?thesis by auto
next
  case (call_write fd b r)
  with alt_write_table [OF assms(2,3) call_write(2), of b] hal_inv_same [OF assms(2)] show ?thesis by auto
next
  case (call_ioctl fd q a r)
  with alt_ioctl_table [OF assms(2,3) call_ioctl(2), of q a] show ?thesis by auto
next
  case (call_lseek fd p w r)
  with alt_lseek_table [OF assms(2,3) call_lseek(2), of p w] hal_inv_same [OF assms(2)] show ?thesis by auto
next
  case (call_fstat fd r m)
  with alt_fstat_table [OF assms(2,3) call_fstat(2)] hal_inv_same [OF assms(2)] show ?thesis by auto
next
  case (call_isatty fd r)
  with alt_isatty_table [OF assms(2,3) call_isatty(2)] hal_inv_same [OF assms(2)] show ?thesis by auto
next
  case (call_fcntl fd c a r)
  with alt_fcntl_table [OF assms(2) call_fcntl(2), of c a] show ?thesis by auto
next
  case (call_stat nm r m)
  with alt_stat_table [OF assms(2,3) call_stat(2)] show ?thesis by auto
next
  case (call_redirect a b c)
  with alt_io_redirect_table [OF assms(2,3) call_redirect(2-4)] show ?thesis by auto
qed

lemma hal_call_inv: "hal_call e s s' \<Longrightarrow> hal_inv e s \<Longrightarrow> drivers_ok e \<Longrightarrow> hal_inv e s'"
  using hal_does_inv by (auto simp: hal_call_def)

text \<open>The state before any registration.\<close>

lemma hal_init_lists:
  assumes "null_dev \<noteq> 0" "alt_dev_list e \<noteq> alt_fs_list e" "null_dev \<noteq> alt_dev_list e" "null_dev \<noteq> alt_fs_list e"
  shows "named_list (hal_init e null_dev wr ds x) (alt_dev_list e) [null_dev]"
    and "named_list (hal_init e null_dev wr ds x) (alt_fs_list e) []"
    and "tab (hal_init e null_dev wr ds x) = replicate 3 (null_dev, 0) @ replicate 29 (0, 0)"
    and "alt_max_fd (hal_init e null_dev wr ds x) = - 1"
proof -
  let ?h1 = "ALT_LLIST_HEAD (alt_dev_list e) (ALT_LLIST_HEAD (alt_fs_list e) \<lparr>next_of = \<lambda>_. 0, previous_of = \<lambda>_. 0\<rparr>)"
  have "dll ?h1 (alt_fs_list e) []" using assms(2) by (simp add: dll_def ALT_LLIST_HEAD_def)
  note ll.lst_ins [OF dll_head, of null_dev] dll_frame_insert [OF dll_head this, of null_dev]
  then show "named_list (hal_init e null_dev wr ds x) (alt_dev_list e) [null_dev]"
    "named_list (hal_init e null_dev wr ds x) (alt_fs_list e) []"
    using assms by (simp_all add: named_list_def hal_init_def alt_dev_null_def c_string_def)
qed (simp_all add: tab_def hal_init_def)

lemma hal_init_inv:
  assumes "null_dev \<noteq> 0" "alt_dev_list e \<noteq> alt_fs_list e" "null_dev \<noteq> alt_dev_list e" "null_dev \<noteq> alt_fs_list e"
  shows "hal_inv e (hal_init e null_dev wr ds x)"
  using assms(1) hal_init_lists [OF assms, of wr ds x] unfolding hal_inv_def
  by (auto simp: nth_append simp del: length_tab)

text \<open>The witness system.\<close>

lemma demo_drivers_ok: "drivers_ok demo_hal_env"
  by (simp add: drivers_ok_def demo_hal_env_def same_table_def tab_def)

lemma demo_tab: "tab demo_hal = replicate 3 (0x30, 0) @ replicate 29 (0, 0)" "alt_max_fd demo_hal = - 1"
  by (simp_all add: tab_def demo_hal_def hal_init_def alt_fs_reg_def alt_dev_reg_def alt_dev_llist_insert_def
      demo_devs_def alt_dev_null_def Let_def)

lemma demo_hal_inv: "hal_inv demo_hal_env demo_hal"
proof -
  have "named_list demo_hal (alt_dev_list demo_hal_env) [0x50, 0x30]"
    "named_list demo_hal (alt_fs_list demo_hal_env) [0x40]"
    using demo_named by (simp_all add: demo_hal_env_def)
  then show ?thesis
    unfolding hal_inv_def demo_tab by (auto simp: nth_append)
qed

lemma demo_descr: "descr demo_hal i = (if i < 3 then Some (0x30, 0) else None)"
  by (cases "i < 32") (auto simp: descr_def demo_tab nth_append simp del: length_tab)

subsection \<open>Properties\<close>

text \<open>C16. \<open>open\<close>. With a sound pool and drivers that keep to their own state, \<open>open\<close> is defined and meets
  its specification: the most recently registered device of exactly that name, else the most
  recently registered file system owning the path, else ENODEV. A full pool gives EMFILE; a
  device that another descriptor holds exclusively gives EACCES, both without calling the
  driver. Otherwise the driver is called with the lowest free descriptor (never 0, 1 or 2)
  already set up, and a failure of the driver becomes -1 and its errno. A failed \<open>open\<close> leaves
  every descriptor as it was.\<close>

theorem open_behaviour:
  assumes "hal_inv e s" and "drivers_ok e" and "c_string nm"
    and "named_list s (alt_dev_list e) ps" and "named_list s (alt_fs_list e) qs"
  shows "\<exists>r s'. alt_open e nm flags mode s = Some (r, s') \<and> hal_inv e s'
    \<and> open_result e ps qs nm flags mode s r s'"
  by (rule alt_open_spec [OF assms])

lemma demo_lists:
  "named_list demo_hal (alt_dev_list demo_hal_env) [0x50, 0x30]"
  "named_list demo_hal (alt_fs_list demo_hal_env) [0x40]"
  using demo_named by (simp_all add: demo_hal_env_def)

lemma demo_names:
  "with_names demo_hal [0x50, 0x30] = [(0x50, ''/dev/tty''), (0x30, ''/dev/null'')]"
  "with_names demo_hal [0x40] = [(0x40, ''/mnt/'')]"
  by (simp_all add: with_names_def demo_hal_def hal_init_def alt_fs_reg_def alt_dev_reg_def
      alt_dev_llist_insert_def demo_devs_def alt_dev_null_def)

lemma demo_not_held: "\<not> held demo_hal d"
  by (auto simp: held_def demo_descr split: if_splits)

lemma demo_free: "is_lowest_free demo_hal i \<Longrightarrow> i = 3"
proof -
  assume a: "is_lowest_free demo_hal i"
  then have "\<not> i < 3" by (simp add: is_lowest_free_def demo_descr split: if_splits)
  moreover have "\<not> 3 < i"
  proof
    assume "3 < i"
    with a have "descr demo_hal 3 \<noteq> None" unfolding is_lowest_free_def by blast
    then show False by (simp add: demo_descr)
  qed
  ultimately show ?thesis by simp
qed

lemma demo_open_tty:
  assumes "open_result demo_hal_env [0x50, 0x30] [0x40] ''/dev/tty'' fl md demo_hal r s'"
  shows "r = 3 \<and> drv s' = 1 \<and> descr s' = (descr demo_hal)(3 \<mapsto> (0x50, fl AND NOT ALT_FD_FLAGS_MASK OR ALT_FD_DEV))"
proof -
  have nf: "\<not> (\<forall>i<32. descr demo_hal i \<noteq> None)"
    by (auto simp: demo_descr intro: exI [of _ 5])
  have dv: "dopen (devs demo_hal 0x50) = 1" "drv demo_hal = 0"
    by (simp_all add: demo_hal_def hal_init_def alt_fs_reg_def alt_dev_reg_def
        alt_dev_llist_insert_def demo_devs_def alt_dev_null_def)
  from assms have o: "open_spec demo_hal_env 0x50 False ''/dev/tty'' fl md demo_hal r s'"
    by (simp add: open_result_def demo_names first_or_null_def)
  obtain i and s1 :: "nat hal" and st and s2 :: "nat hal" where i: "is_lowest_free demo_hal i"
    "descr s1 = (descr demo_hal)(i \<mapsto> (0x50, fl AND NOT ALT_FD_FLAGS_MASK OR ALT_FD_DEV))" "drv s1 = drv demo_hal"
    "(st, s2) = drv_open demo_hal_env 1 i ''/dev/tty'' fl md s1" "drv s' = drv s2"
    "if st < 0 then r = - 1 \<and> errno s' = - st \<and> descr s' = descr demo_hal
     else r = int i \<and> descr s' = descr s1"
    using o [unfolded open_spec_def if_not_P [OF nf]] by (auto simp: dv demo_not_held)
  with demo_free [OF i(1)] dv show ?thesis
    by (simp add: demo_hal_env_def)
qed

lemma open_behaviour_witness:
  "\<exists>s'. alt_open demo_hal_env ''/dev/tty'' 2 0 demo_hal = Some (3, s') \<and> drv s' = 1
    \<and> descr s' 3 = Some (0x50, 0x40000002)"
proof -
  have c: "c_string ''/dev/tty''" by (simp add: c_string_def)
  obtain r s' where "alt_open demo_hal_env ''/dev/tty'' 2 0 demo_hal = Some (r, s')"
    "open_result demo_hal_env [0x50, 0x30] [0x40] ''/dev/tty'' 2 0 demo_hal r s'"
    using open_behaviour [OF demo_hal_inv demo_drivers_ok c demo_lists, of 2 0] by blast
  with demo_open_tty [of 2 0 r s'] show ?thesis
    by (simp add: ALT_FD_FLAGS_MASK_def ALT_FD_EXCL_def ALT_FD_DEV_def)
qed

text \<open>C18. Closing what has been opened: after a successful \<open>open\<close> every other descriptor is untouched, and
  \<open>close\<close> of the new descriptor is defined, returns 0 or -1 as the driver says, and gives back
  exactly the descriptors there were, whatever the driver answers.\<close>

theorem open_close_roundtrip:
  assumes "hal_inv e s" and "drivers_ok e" and "c_string nm"
    and "alt_open e nm flags mode s = Some (r, s')" and "0 \<le> r"
  shows "descr s (nat r) = None \<and> (\<forall>i. i \<noteq> nat r \<longrightarrow> descr s' i = descr s i)
    \<and> (\<exists>c s''. alt_close e r s' = Some (c, s'') \<and> hal_inv e s'' \<and> descr s'' = descr s \<and> (c = 0 \<or> c = - 1))"
proof -
  have i': "hal_inv e s'" and "opened s r s'"
    using alt_open_table [OF assms(1-3), of flags mode] assms(4) by auto
  with assms(5) obtain i x where i: "r = int i" "3 \<le> i" "is_lowest_free s i" "descr s' = (descr s)(i \<mapsto> x)"
    unfolding opened_def by auto
  then have "descr s' i \<noteq> None" "descr s i = None" by (auto simp: is_lowest_free_def)
  with alt_close_spec [OF i' assms(2) this(1)] i show ?thesis
    by (auto simp: fun_upd_idem_iff)
qed

lemma open_close_roundtrip_witness:
  "\<exists>s' c s''. alt_open demo_hal_env ''/dev/tty'' 2 0 demo_hal = Some (3, s')
    \<and> alt_close demo_hal_env 3 s' = Some (c, s'') \<and> descr s'' = descr demo_hal"
proof -
  have c: "c_string ''/dev/tty''" by (simp add: c_string_def)
  obtain r s' where o: "alt_open demo_hal_env ''/dev/tty'' 2 0 demo_hal = Some (r, s')"
    "open_result demo_hal_env [0x50, 0x30] [0x40] ''/dev/tty'' 2 0 demo_hal r s'"
    using alt_open_spec [OF demo_hal_inv demo_drivers_ok c demo_lists, of 2 0] by blast
  with demo_open_tty [of 2 0 r s'] have r: "r = 3" by simp
  from open_close_roundtrip [OF demo_hal_inv demo_drivers_ok c o(1)] r o(1) show ?thesis
    by auto
qed

text \<open>C17. Any history of calls: starting from a sound pool, with usable descriptors (negative or open)
  and C strings, whatever calls are made in whatever order and whatever the drivers answer, the pool
  stays sound: the three standard descriptors always refer to a device, nothing above
  \<open>alt_max_fd\<close> is in use, and the device lists stay linked and named. In every state so reached
  every further call is defined: no null device is followed and no index leaves the pool.\<close>

theorem calls_keep_pool:
  assumes "hal_inv e s" and "drivers_ok e" and "(hal_call e)\<^sup>*\<^sup>* s s'"
  shows "hal_inv e s' \<and>
    (\<forall>fd nm. usable s' fd \<longrightarrow> c_string nm \<longrightarrow>
       alt_open e nm fl md s' \<noteq> None \<and> alt_close e fd s' \<noteq> None \<and> alt_read e fd n s' \<noteq> None
     \<and> alt_write e fd b s' \<noteq> None \<and> alt_ioctl e fd q a s' \<noteq> None \<and> alt_lseek e fd p w s' \<noteq> None
     \<and> alt_fstat e fd s' \<noteq> None \<and> alt_isatty e fd s' \<noteq> None \<and> alt_fcntl fd c a s' \<noteq> None
     \<and> alt_stat e nm s' \<noteq> None \<and> alt_io_redirect e nm nm nm s' \<noteq> None)"
proof -
  have i: "hal_inv e s'"
    using assms(3,1) by (induction rule: rtranclp_induct) (use hal_call_inv assms(2) in blast)+
  show ?thesis
  proof (intro conjI allI impI i)
    fix fd nm
    assume u: "usable s' fd" and c: "c_string nm"
    show "alt_open e nm fl md s' \<noteq> None" using alt_open_table [OF i assms(2) c, of fl md] by auto
    show "alt_close e fd s' \<noteq> None" using usable_close [OF i assms(2) u] by auto
    show "alt_read e fd n s' \<noteq> None" using alt_read_table [OF i assms(2) u, of n] by auto
    show "alt_write e fd b s' \<noteq> None" using alt_write_table [OF i assms(2) u, of b] by auto
    show "alt_ioctl e fd q a s' \<noteq> None" using alt_ioctl_table [OF i assms(2) u, of q a] by auto
    show "alt_lseek e fd p w s' \<noteq> None" using alt_lseek_table [OF i assms(2) u, of p w] by auto
    show "alt_fstat e fd s' \<noteq> None" using alt_fstat_table [OF i assms(2) u] by auto
    show "alt_isatty e fd s' \<noteq> None" using alt_isatty_table [OF i assms(2) u] by auto
    show "alt_fcntl fd c a s' \<noteq> None" for c using alt_fcntl_table [OF i u, of c a] by auto
    show "alt_stat e nm s' \<noteq> None" using alt_stat_table [OF i assms(2) c] by auto
    show "alt_io_redirect e nm nm nm s' \<noteq> None" using alt_io_redirect_table [OF i assms(2) c c c] by auto
  qed
qed

lemma calls_keep_pool_witness:
  "\<exists>s'. alt_open demo_hal_env ''/dev/tty'' 2 0 demo_hal = Some (3, s') \<and> hal_inv demo_hal_env s'
    \<and> alt_read demo_hal_env 3 8 s' \<noteq> None"
proof -
  have c: "c_string ''/dev/tty''" by (simp add: c_string_def)
  obtain r s' where o: "alt_open demo_hal_env ''/dev/tty'' 2 0 demo_hal = Some (r, s')"
    "open_result demo_hal_env [0x50, 0x30] [0x40] ''/dev/tty'' 2 0 demo_hal r s'"
    using alt_open_spec [OF demo_hal_inv demo_drivers_ok c demo_lists, of 2 0] by blast
  with demo_open_tty [of 2 0 r s'] have r: "r = 3" "descr s' 3 \<noteq> None" by simp_all
  then have u: "usable s' 3" by (simp add: usable_def)
  have "(hal_call demo_hal_env)\<^sup>*\<^sup>* demo_hal s'"
    by (rule r_into_rtranclp) (rule hal_callI [OF call_open [OF c o(1)]])
  from calls_keep_pool [OF demo_hal_inv demo_drivers_ok this] u c o(1) r(1) show ?thesis
    by blast
qed


text \<open>The flags that calls may change on an open descriptor.\<close>

definition mutable_flags :: u32 where
  "mutable_flags = ALT_FCNTL_FLAGS_MASK OR ALT_FD_EXCL"

definition kept :: "(ptr \<times> u32) option \<Rightarrow> (ptr \<times> u32) option \<Rightarrow> bool" where
  "kept x y \<longleftrightarrow> (\<exists>d fl fl'. x = Some (d, fl) \<and> y = Some (d, fl') \<and> fl AND NOT mutable_flags = fl' AND NOT mutable_flags)"

lemma kept_refl: "x \<noteq> None \<Longrightarrow> kept x x"
  by (auto simp: kept_def)

lemma flags_kept:
  "(fl OR ALT_FD_EXCL) AND NOT mutable_flags = fl AND NOT mutable_flags"
  "(fl AND NOT ALT_FD_EXCL) AND NOT mutable_flags = fl AND NOT mutable_flags"
  "(fl AND NOT ALT_FCNTL_FLAGS_MASK OR arg AND ALT_FCNTL_FLAGS_MASK) AND NOT mutable_flags = fl AND NOT mutable_flags"
  unfolding mutable_flags_def by (rule bit_eqI, auto simp: bit_simps)+

lemma ioctl_kept:
  assumes inv: "hal_inv e s" and ok: "drivers_ok e" and u: "usable s file" and i: "descr s i \<noteq> None"
    and c: "alt_ioctl e file req arg s = Some (r, s')"
  shows "kept (descr s i) (descr s' i)"
  using inv u
proof (rule usable_cases)
  assume "file < 0"
  with c i show ?thesis by (auto simp: alt_ioctl_def on_fd_def ioctl_done_def kept_refl split: if_splits)
next
  fix k d f
  assume j: "file = int k" "fd_at s k = Some f" "descr s k = Some (d, fd_flags f)" "fd_list s ! k = f"
    "fd_device s f = Some (devs s d)"
  obtain rv t where t: "drv_ioctl e (dioctl (devs s d)) k req arg s = (rv, t)" by fastforce
  then have dt: "descr t = descr s" using drv_same(6) [OF ok t] descr_same by auto
  have lock: "kept (descr s i) (descr s'' i)" if "alt_fd_lock k s = Some (r', s'')" for r' s''
    using that alt_fd_lock_spec [OF inv j(3,4)] descr_flags [OF inv j(3,4), of "\<lambda>f. fd_flags f OR ALT_FD_EXCL"]
      i j(3) kept_refl [OF i] by (auto simp: kept_def flags_kept split: if_splits)
  have unlock: "kept (descr s i) (descr s'' i)" if "alt_fd_unlock k s = (r', s'')" for r' s''
    using that descr_flags [OF inv j(3,4), of "\<lambda>f. fd_flags f AND NOT ALT_FD_EXCL"]
      i j(3) kept_refl [OF i] by (auto simp: kept_def flags_kept alt_fd_unlock_def)
  let ?y = "if fd_flags f AND ALT_FD_DEV \<noteq> 0 \<and> req = TIOCEXCL then alt_fd_lock k s
      else if fd_flags f AND ALT_FD_DEV \<noteq> 0 \<and> req = TIOCNXCL then Some (alt_fd_unlock k s)
      else Some (if dioctl (devs s d) \<noteq> 0 then (rv, t) else (- ENOTTY, s))"
  have "alt_ioctl e file req arg s = map_option ioctl_done ?y"
    unfolding alt_ioctl_def on_fd_def using j t by simp
  with c have "map_option ioctl_done ?y = Some (r, s')"
    by simp
  then obtain q v where v: "?y = Some (q, v)" "ioctl_done (q, v) = (r, s')"
    by auto
  from v(1) have "kept (descr s i) (descr v i)"
    using lock [of q v] unlock [of q v] dt kept_refl [OF i] by (simp split: if_splits)
  moreover have "descr s' = descr v"
    using v(2) by (auto simp: ioctl_done_def split: if_splits)
  ultimately show ?thesis by simp
qed

lemma fcntl_kept:
  assumes inv: "hal_inv e s" and u: "usable s file" and i: "descr s i \<noteq> None"
    and c: "alt_fcntl file cmd arg s = Some (r, s')"
  shows "kept (descr s i) (descr s' i)"
  using inv u
proof (rule usable_cases)
  assume "file < 0"
  with c i show ?thesis by (auto simp: alt_fcntl_def on_fd_def kept_refl)
next
  fix k d f
  assume j: "file = int k" "fd_at s k = Some f" "descr s k = Some (d, fd_flags f)" "fd_list s ! k = f"
  from descr_flags [OF inv j(3,4), of "\<lambda>f. fd_flags f AND NOT ALT_FCNTL_FLAGS_MASK OR arg AND ALT_FCNTL_FLAGS_MASK"] j c i
    kept_refl [OF i]
  show ?thesis
    by (auto simp: alt_fcntl_def on_fd_def kept_def flags_kept split: if_splits)
qed

lemma open_kept:
  assumes "hal_inv e s" "drivers_ok e" "descr s i \<noteq> None" "c_string nm" "alt_open e nm fl md s = Some (r, s')"
  shows "descr s' i = descr s i"
proof -
  from alt_open_table [OF assms(1,2,4), of fl md] assms(5) have "opened s r s'" by auto
  then show ?thesis using assms(3) by (auto simp: opened_def is_lowest_free_def)
qed

lemma close_kept:
  assumes "hal_inv e s" "drivers_ok e" "usable s fd" "alt_close e fd s = Some (r, s')" and "fd \<noteq> int i \<or> i < 3"
  shows "descr s' i = descr s i"
proof (cases "fd < 0")
  case True
  with assms(4) have "s' = set_errno EBADFD s" by (simp add: alt_close_bad)
  then show ?thesis by simp
next
  case False
  then obtain k where k: "fd = int k" by (metis nonneg_int_cases not_less)
  with assms(3) have "descr s k \<noteq> None" by (simp add: usable_def)
  from alt_close_spec [OF assms(1,2) this] k assms(4,5) show ?thesis by (auto split: if_splits)
qed

text \<open>C19. What an open descriptor refers to is stable: no call but its close releases an open descriptor,
  changes the device behind it, or changes any flag except O_APPEND, O_NONBLOCK and the exclusive
  bit. In particular the access mode given to \<open>open\<close> holds until \<open>close\<close>, and opening, closing or using
  other descriptors has no effect on it. The three standard descriptors survive even their own close; what they
  refer to changes only by alt_io_redirect, which in turn leaves all others alone.\<close>

theorem descriptor_stable:
  assumes "hal_inv e s" and "drivers_ok e" and "hal_does e op s s'" and "descr s i = Some (d, fl)"
    and "op \<noteq> Close_call (int i) \<or> i < 3" and "op \<noteq> Redirect_call \<or> 3 \<le> i"
  shows "\<exists>fl'. descr s' i = Some (d, fl') \<and> fl' AND NOT mutable_flags = fl AND NOT mutable_flags"
proof -
  have open_i: "descr s i \<noteq> None" using assms(4) by simp
  have same: "kept (descr s i) (descr s' i)" if "descr s' i = descr s i"
    using that kept_refl [OF open_i] by simp
  have st: "same_table s s' \<Longrightarrow> kept (descr s i) (descr s' i)"
    using same descr_same by metis
  have "kept (descr s i) (descr s' i)"
    using assms(3)
  proof cases
    case (call_open nm fl md r)
    show ?thesis by (rule same) (rule open_kept [OF assms(1,2) open_i call_open(2,3)])
  next
    case (call_close fd r)
    show ?thesis by (rule same, rule close_kept [OF assms(1,2) call_close(2,3)]) (use assms(5) call_close(1) in auto)
  next
    case (call_read fd n r b)
    with alt_read_table [OF assms(1,2) call_read(2), of n] st show ?thesis by auto
  next
    case (call_write fd b r)
    with alt_write_table [OF assms(1,2) call_write(2), of b] st show ?thesis by auto
  next
    case (call_ioctl fd q a r)
    with ioctl_kept [OF assms(1,2) _ open_i] show ?thesis by blast
  next
    case (call_lseek fd p w r)
    with alt_lseek_table [OF assms(1,2) call_lseek(2), of p w] st show ?thesis by auto
  next
    case (call_fstat fd r m)
    with alt_fstat_table [OF assms(1,2) call_fstat(2)] st show ?thesis by auto
  next
    case (call_isatty fd r)
    with alt_isatty_table [OF assms(1,2) call_isatty(2)] st show ?thesis by auto
  next
    case (call_fcntl fd c a r)
    with fcntl_kept [OF assms(1) _ open_i] show ?thesis by blast
  next
    case (call_stat nm r m)
    with alt_stat_table [OF assms(1,2) call_stat(2)] same show ?thesis by auto
  next
    case (call_redirect a b c)
    with alt_io_redirect_table [OF assms(1,2) call_redirect(2-4)] assms(6) call_redirect(1) same show ?thesis by auto
  qed
  then show ?thesis using assms(4) unfolding kept_def by auto
qed

lemma descriptor_stable_witness:
  "\<exists>s' s'' x d fl fl'. alt_open demo_hal_env ''/dev/tty'' 1 0 demo_hal = Some (3, s')
    \<and> alt_fcntl 3 F_SETFL 0x4002 s' = Some (x, s'') \<and> descr s'' 3 = Some (d, fl')
    \<and> fl' AND NOT mutable_flags = 0x40000001"
proof -
  have c: "c_string ''/dev/tty''" by (simp add: c_string_def)
  obtain r s' where o: "alt_open demo_hal_env ''/dev/tty'' 1 0 demo_hal = Some (r, s')"
    "open_result demo_hal_env [0x50, 0x30] [0x40] ''/dev/tty'' 1 0 demo_hal r s'"
    and inv: "hal_inv demo_hal_env s'"
    using alt_open_spec [OF demo_hal_inv demo_drivers_ok c demo_lists, of 1 0] by blast
  from o(2) demo_open_tty [of 1 0 r s'] have r: "r = 3" "descr s' 3 = Some (0x50, 0x40000001)"
    by (simp_all add: ALT_FD_FLAGS_MASK_def ALT_FD_EXCL_def ALT_FD_DEV_def)
  then have u: "usable s' 3" by (simp add: usable_def)
  obtain x s'' where f: "alt_fcntl 3 F_SETFL 0x4002 s' = Some (x, s'')"
    and m: "map_option fst \<circ> descr s'' = map_option fst \<circ> descr s'"
    using alt_fcntl_table [OF inv u, of F_SETFL "0x4002"] by blast
  from descriptor_stable [OF inv demo_drivers_ok call_fcntl [OF u f] r(2)]
  obtain d fl' where "descr s'' 3 = Some (d, fl')" "fl' AND NOT mutable_flags = 0x40000001 AND NOT mutable_flags"
    by auto
  moreover have "(0x40000001 :: u32) AND NOT mutable_flags = 0x40000001"
    by (simp add: mutable_flags_def ALT_FCNTL_FLAGS_MASK_def ALT_FD_EXCL_def O_APPEND_def O_NONBLOCK_def)
  ultimately show ?thesis using o(1) r f by auto
qed

end
