(* ===== verification/FdUse.thy ===== *)
theory FdUse
  imports FdCalls
begin

text \<open>
  Using descriptors: exclusive access (\<open>TIOCEXCL\<close>, \<open>TIOCNXCL\<close>), the flags of \<open>fcntl\<close> and the
  redirection of the standard streams.
\<close>

subsection \<open>Exclusive access and flags\<close>

lemma alt_ioctl_lock:
  assumes "descr s i = Some (d, fl)" "fl AND ALT_FD_DEV \<noteq> 0"
  shows "alt_ioctl e (int i) TIOCEXCL a s = map_option ioctl_done (alt_fd_lock i s)"
    and "alt_ioctl e (int i) TIOCNXCL a s = map_option ioctl_done (Some (alt_fd_unlock i s))"
  using assms by (auto simp: alt_ioctl_def on_fd_def fd_at_def descr_def tab_nth TIOCEXCL_def TIOCNXCL_def
      split: if_splits simp del: option.map)

lemma descr_index:
  assumes "descr s i = Some (d, fl)"
  shows "i < length (fd_list s) \<and> fd_flags (fd_list s ! i) = fl \<and> fd_dev (fd_list s ! i) = d \<and> d \<noteq> 0"
  using assms by (auto simp: descr_def tab_nth split: if_splits)

lemma lock_effect:
  assumes "hal_inv e s" "descr s i = Some (d, fl)" "fl AND ALT_FD_DEV \<noteq> 0"
    "\<not> (\<exists>j. int j < alt_max_fd s \<and> j \<noteq> i \<and> map_option fst (descr s j) = Some d)"
  shows "\<exists>s'. alt_ioctl e (int i) TIOCEXCL a s = Some (0, s') \<and> hal_inv e s'
    \<and> descr s' = (descr s)(i \<mapsto> (d, fl OR ALT_FD_EXCL)) \<and> dlinks s' = dlinks s \<and> devs s' = devs s \<and> drv s' = drv s"
proof -
  have fl: "fd_flags (fd_list s ! i) = fl" using descr_index [OF assms(2)] by simp
  with assms(2) have i: "descr s i = Some (d, fd_flags (fd_list s ! i))" by simp
  from alt_fd_lock_spec [OF assms(1) i refl, unfolded if_not_P [OF assms(4)]]
    descr_flags [OF assms(1) i refl, of "\<lambda>f. fd_flags f OR ALT_FD_EXCL"] alt_ioctl_lock(1) [OF assms(2,3), of e a] fl
  show ?thesis by (simp add: ioctl_done_def)
qed

text \<open>TIOCEXCL: on a descriptor of a device, the request is granted exactly if no other descriptor below
  \<open>alt_max_fd\<close> refers to the same device, and then sets the exclusive bit of this descriptor and
  nothing else; else it returns -EACCES and changes nothing but errno. The bound is strict, so
  the highest descriptor is never looked at: with descriptors 3 and 4 open on one device, 3 is
  granted exclusive access (the witness).\<close>

theorem lock_ignores_highest:
  assumes "hal_inv e s" and "descr s i = Some (d, fl)" and "fl AND ALT_FD_DEV \<noteq> 0"
  shows "\<exists>s'. (if \<exists>j. int j < alt_max_fd s \<and> j \<noteq> i \<and> map_option fst (descr s j) = Some d
     then alt_ioctl e (int i) TIOCEXCL a s = Some (- EACCES, s') \<and> s' = set_errno EACCES s
     else alt_ioctl e (int i) TIOCEXCL a s = Some (0, s') \<and> descr s' = (descr s)(i \<mapsto> (d, fl OR ALT_FD_EXCL)) \<and> drv s' = drv s)"
proof (cases "\<exists>j. int j < alt_max_fd s \<and> j \<noteq> i \<and> map_option fst (descr s j) = Some d")
  case True
  have i: "descr s i = Some (d, fd_flags (fd_list s ! i))" using assms(2) descr_index [OF assms(2)] by simp
  from alt_fd_lock_spec [OF assms(1) i refl] True alt_ioctl_lock(1) [OF assms(2,3), of e a]
  have "alt_ioctl e (int i) TIOCEXCL a s = Some (- EACCES, set_errno EACCES s)"
    by (simp add: ioctl_done_def EACCES_def)
  then show ?thesis unfolding if_P [OF True] by blast
next
  case False
  from lock_effect [OF assms False, of a] show ?thesis unfolding if_not_P [OF False] by blast
qed

text \<open>The state after two opens of the terminal, as descriptors 3 and 4.\<close>

definition demo_two :: "nat hal" where
  "demo_two = demo_hal\<lparr>fd_list := (fd_list demo_hal)[3 := \<lparr>fd_dev = 0x50, fd_priv = 0, fd_flags = 0x40000002\<rparr>,
     4 := \<lparr>fd_dev = 0x50, fd_priv = 0, fd_flags = 0x40000002\<rparr>], alt_max_fd := 4\<rparr>"

lemma demo_two_tab: "tab demo_two = (tab demo_hal)[3 := (0x50, 0x40000002), 4 := (0x50, 0x40000002)]"
  by (simp add: tab_def demo_two_def map_update)

lemma demo_two_len: "length (tab demo_hal) = 32"
  by (simp add: demo_tab del: length_tab)

lemma demo_two_inv: "hal_inv demo_hal_env demo_two"
  using demo_hal_inv unfolding hal_inv_def demo_two_tab
  by (auto simp: demo_tab(2) demo_two_def named_list_def nth_list_update simp del: length_tab)

lemma demo_two_descr:
  "descr demo_two i = (if i = 3 \<or> i = 4 then Some (0x50, 0x40000002) else if i < 3 then Some (0x30, 0) else None)"
proof -
  have 4: "descr demo_two = (descr (demo_two\<lparr>fd_list := (fd_list demo_hal)[3 := \<lparr>fd_dev = 0x50, fd_priv = 0, fd_flags = 0x40000002\<rparr>]\<rparr>))
      (4 \<mapsto> (0x50, 0x40000002))" (is "_ = (descr ?s)(_ \<mapsto> _)")
    using descr_set [of demo_two ?s 4 "0x50" "0x40000002"] demo_two_len
    by (simp add: tab_def demo_two_def map_update)
  have "descr ?s = (descr demo_hal)(3 \<mapsto> (0x50, 0x40000002))"
    using descr_set [of ?s demo_hal 3 "0x50" "0x40000002"] demo_two_len
    by (simp add: tab_def demo_two_def map_update)
  with 4 show ?thesis by (simp add: demo_descr)
qed

lemma lock_ignores_highest_witness:
  "\<exists>s'. alt_ioctl demo_hal_env 3 TIOCEXCL 0 demo_two = Some (0, s') \<and> descr s' 4 = Some (0x50, 0x40000002)"
proof -
  have max: "alt_max_fd demo_two = 4" by (simp add: demo_two_def)
  have no: "\<not> (\<exists>j. int j < alt_max_fd demo_two \<and> j \<noteq> 3 \<and> map_option fst (descr demo_two j) = Some 0x50)"
    by (auto simp: max demo_two_descr)
  have dev: "(0x40000002 :: u32) AND ALT_FD_DEV \<noteq> 0" by (simp add: ALT_FD_DEV_def)
  have d: "descr demo_two 3 = Some (0x50, 0x40000002)" by (simp add: demo_two_descr)
  from lock_ignores_highest [OF demo_two_inv d dev, of 0, unfolded if_not_P [OF no]]
  show ?thesis by (auto simp: demo_two_descr)
qed

lemma flags_unlock: "fl AND m = 0 \<Longrightarrow> (fl OR m) AND NOT m = fl" for fl m :: u32
proof (rule bit_eqI)
  fix n
  assume "fl AND m = 0"
  then have "bit (fl AND m) n = bit (0 :: u32) n" by simp
  then show "bit ((fl OR m) AND NOT m) n = bit fl n"
    by (auto simp: bit_simps dest: bit_imp_le_length)
qed

lemma open_spec_held:
  assumes "open_spec e d False nm flags mode s r s'" "held s d"
  shows "r = - 1 \<and> errno s' \<in> {EACCES, EMFILE} \<and> drv s' = drv s \<and> descr s' = descr s"
proof (cases "\<forall>i<32. descr s i \<noteq> None")
  case True
  from assms(1) [unfolded open_spec_def if_P [OF True]] show ?thesis by simp
next
  case False
  from assms(2) have h: "\<not> False \<and> held s d" by simp
  from assms(1) [unfolded open_spec_def if_not_P [OF False] if_P [OF h]] show ?thesis by auto
qed

text \<open>C20. Exclusive use: if no other descriptor refers to the device, TIOCEXCL is granted, and from then on
  every \<open>open\<close> of that device fails with EACCES (or EMFILE on a full pool), without calling its
  driver and without any effect on the descriptors. TIOCNXCL gives the device up again and
  restores the descriptors exactly.\<close>

theorem exclusive_use:
  assumes "hal_inv e s" and "drivers_ok e" and "descr s i = Some (d, fl)" and "fl AND ALT_FD_DEV \<noteq> 0"
    and "fl AND ALT_FD_EXCL = 0" and "\<forall>j. j \<noteq> i \<longrightarrow> map_option fst (descr s j) \<noteq> Some d"
    and "c_string nm" and "named_list s (alt_dev_list e) ps"
    and "first_or_null (\<lambda>dn. dn = nm) (with_names s ps) = d"
  shows "\<exists>s1. alt_ioctl e (int i) TIOCEXCL a s = Some (0, s1)
    \<and> (\<exists>s2. alt_open e nm flags mode s1 = Some (- 1, s2) \<and> errno s2 \<in> {EACCES, EMFILE}
         \<and> drv s2 = drv s1 \<and> descr s2 = descr s1)
    \<and> (\<exists>s3. alt_ioctl e (int i) TIOCNXCL b s1 = Some (0, s3) \<and> descr s3 = descr s)"
proof -
  have no: "\<not> (\<exists>j. int j < alt_max_fd s \<and> j \<noteq> i \<and> map_option fst (descr s j) = Some d)"
    using assms(6) by blast
  obtain s1 where s1: "alt_ioctl e (int i) TIOCEXCL a s = Some (0, s1)" "hal_inv e s1"
    "descr s1 = (descr s)(i \<mapsto> (d, fl OR ALT_FD_EXCL))" "dlinks s1 = dlinks s" "devs s1 = devs s"
    using lock_effect [OF assms(1,3,4) no, of a] by blast
  have excl: "(fl OR ALT_FD_EXCL) AND ALT_FD_EXCL \<noteq> 0"
    using assms(5) by (simp add: word_ao_dist ALT_FD_EXCL_def)
  then have held: "held s1 d" using s1(3) unfolding held_def by (intro exI [of _ i]) simp
  have dnz: "d \<noteq> 0" using descr_index [OF assms(3)] by simp
  have ps: "named_list s1 (alt_dev_list e) ps" using assms(8) named_list_cong [OF s1(4,5)] by simp
  have wn: "with_names s1 ps = with_names s ps" by (simp add: with_names_def s1(5))
  obtain qs where qs: "named_list s1 (alt_fs_list e) qs" using hal_inv_lists [OF s1(2)] .
  obtain r s2 where o: "alt_open e nm flags mode s1 = Some (r, s2)" "open_result e ps qs nm flags mode s1 r s2"
    using alt_open_spec [OF s1(2) assms(2,7) ps qs, of flags mode] by blast
  have "open_spec e d False nm flags mode s1 r s2"
    using o(2) dnz assms(9) by (simp add: open_result_def wn)
  note r = open_spec_held [OF this held]
  have di: "descr s1 i = Some (d, fl OR ALT_FD_EXCL)" using s1(3) by simp
  then have dif: "descr s1 i = Some (d, fd_flags (fd_list s1 ! i))" using descr_index [OF di] by simp
  have "(fl OR ALT_FD_EXCL) AND ALT_FD_DEV \<noteq> 0"
    using assms(4) by (auto simp: word_ao_dist ALT_FD_EXCL_def ALT_FD_DEV_def)
  from alt_ioctl_lock(2) [OF di this, of e b]
  have un: "alt_ioctl e (int i) TIOCNXCL b s1 = Some (0, upd_fd i (\<lambda>f. f\<lparr>fd_flags := fd_flags f AND NOT ALT_FD_EXCL\<rparr>) s1)"
    by (simp add: alt_fd_unlock_def ioctl_done_def)
  have fl_back: "(fl OR ALT_FD_EXCL) AND NOT ALT_FD_EXCL = fl"
    using assms(5) by (rule flags_unlock)
  have "descr (upd_fd i (\<lambda>f. f\<lparr>fd_flags := fd_flags f AND NOT ALT_FD_EXCL\<rparr>) s1) = descr s"
    using descr_flags [OF s1(2) dif refl, of "\<lambda>f. fd_flags f AND NOT ALT_FD_EXCL"] descr_index [OF di] s1(3) fl_back assms(3)
    by (simp add: fun_upd_idem_iff)
  with un s1(1) o(1) r show ?thesis by blast
qed

text \<open>\<open>open\<close> leaves the lists and the device structures alone.\<close>

lemma release_frame: "alt_release_fd r s = Some s' \<Longrightarrow> dlinks s' = dlinks s \<and> devs s' = devs s"
  by (auto simp: alt_release_fd_def split: if_splits)

lemma open_exit_frame: "open_exit i st s = Some (r, s') \<Longrightarrow> dlinks s' = dlinks s \<and> devs s' = devs s"
  using release_frame by (fastforce simp: open_exit_def split: if_splits)

lemma alt_get_fd_frame: "alt_get_fd d s = (r, s') \<Longrightarrow> dlinks s' = dlinks s \<and> devs s' = devs s"
  by (auto simp: alt_get_fd_def Let_def split: option.splits if_splits)

lemma file_locked_frame: "alt_file_locked i s = Some (st, s') \<Longrightarrow> dlinks s' = dlinks s \<and> devs s' = devs s"
  by (auto simp: alt_file_locked_def Let_def)

lemma open_device_frame:
  assumes "drivers_ok e" "open_device e dev isafs nm fl md s = Some (r, s')"
  shows "dlinks s' = dlinks s \<and> devs s' = devs s"
proof -
  obtain q t where get: "alt_get_fd dev s = (q, t)" by fastforce
  note g = alt_get_fd_frame [OF get]
  let ?u = "upd_fd (nat q) (\<lambda>f. f\<lparr>fd_flags := fl AND NOT ALT_FD_FLAGS_MASK\<rparr>) t"
  show ?thesis
  proof (cases "q < 0")
    case True
    with assms(2) get g open_exit_frame [of q q t r s'] show ?thesis by (simp add: open_device_def)
  next
    case False
    with assms(2) get obtain st v where
      v: "(if isafs then Some (0, ?u) else alt_file_locked (nat q) ?u) = Some (st, v)"
      by (auto simp: open_device_def Let_def split: option.splits if_splits)
    have fv: "dlinks v = dlinks s \<and> devs v = devs s"
      using v g file_locked_frame [of "nat q" ?u st v] by (auto split: if_splits)
    obtain st' w where w: "(if dopen (devs v dev) \<noteq> 0 then drv_open e (dopen (devs v dev)) (nat q) nm fl md v else (0, v)) = (st', w)"
      by fastforce
    then have "dlinks w = dlinks v \<and> devs w = devs v"
      using drv_open_same [OF assms(1)] by (auto simp: same_table_def split: if_splits)
    moreover have "open_exit q st' w = Some (r, s') \<or> open_exit q st v = Some (r, s')"
      using assms(2) get False v w fv unfolding open_device_def Let_def
      by (cases "0 \<le> st") auto
    ultimately show ?thesis using fv open_exit_frame by metis
  qed
qed

lemma alt_open_frame:
  assumes "hal_inv e s" "drivers_ok e" "c_string nm" "alt_open e nm fl md s = Some (r, s')"
  shows "dlinks s' = dlinks s \<and> devs s' = devs s"
  using assms(4) open_device_frame [OF assms(2)] open_exit_frame [of "- 1" "- ENODEV" s r s']
  unfolding alt_open_def by (auto split: option.splits if_splits)

lemma exclusive_use_witness:
  "\<exists>t s1 s2. alt_open demo_hal_env ''/dev/tty'' 2 0 demo_hal = Some (3, t)
    \<and> alt_ioctl demo_hal_env 3 TIOCEXCL 0 t = Some (0, s1)
    \<and> alt_open demo_hal_env ''/dev/tty'' 2 0 s1 = Some (- 1, s2) \<and> drv s2 = drv s1"
proof -
  have c: "c_string ''/dev/tty''" by (simp add: c_string_def)
  obtain r t where o: "alt_open demo_hal_env ''/dev/tty'' 2 0 demo_hal = Some (r, t)"
    "open_result demo_hal_env [0x50, 0x30] [0x40] ''/dev/tty'' 2 0 demo_hal r t"
    and inv: "hal_inv demo_hal_env t"
    using alt_open_spec [OF demo_hal_inv demo_drivers_ok c demo_lists, of 2 0] by blast
  from o(2) demo_open_tty [of 2 0 r t]
  have r: "r = 3" "descr t 3 = Some (0x50, 0x40000002)" "descr t = (descr demo_hal)(3 \<mapsto> (0x50, 0x40000002))"
    by (simp_all add: ALT_FD_FLAGS_MASK_def ALT_FD_EXCL_def ALT_FD_DEV_def)
  have dev: "(0x40000002 :: u32) AND ALT_FD_DEV \<noteq> 0" "(0x40000002 :: u32) AND ALT_FD_EXCL = 0"
    by (simp_all add: ALT_FD_DEV_def ALT_FD_EXCL_def)
  have other: "\<forall>j. j \<noteq> 3 \<longrightarrow> map_option fst (descr t j) \<noteq> Some 0x50"
    by (simp add: r(3) demo_descr)
  obtain st: "dlinks t = dlinks demo_hal" "devs t = devs demo_hal"
    using alt_open_frame [OF demo_hal_inv demo_drivers_ok c o(1)] by blast
  have ps: "named_list t (alt_dev_list demo_hal_env) [0x50, 0x30]"
    using demo_lists(1) named_list_cong [OF st] by simp
  have first: "first_or_null (\<lambda>dn. dn = ''/dev/tty'') (with_names t [0x50, 0x30]) = 0x50"
    using demo_names(1) by (simp add: with_names_def st(2) first_or_null_def)
  from exclusive_use [OF inv demo_drivers_ok r(2) dev other c ps first, of 0 2 0 0] o(1) r(1)
  show ?thesis by auto
qed

text \<open>\<open>fcntl\<close>: F_SETFL sets O_APPEND and O_NONBLOCK to the given values and no other bit, and F_GETFL then
  reports them together with the flags of \<open>open\<close>, without the HAL's own two bits.\<close>

theorem fcntl_roundtrip:
  assumes "hal_inv e s" and "descr s i = Some (d, fl)"
  shows "\<exists>s' fl'. alt_fcntl (int i) F_SETFL arg s = Some (0, s') \<and> descr s' = (descr s)(i \<mapsto> (d, fl'))
    \<and> fl' AND ALT_FCNTL_FLAGS_MASK = arg AND ALT_FCNTL_FLAGS_MASK
    \<and> fl' AND NOT ALT_FCNTL_FLAGS_MASK = fl AND NOT ALT_FCNTL_FLAGS_MASK
    \<and> alt_fcntl (int i) F_GETFL x s' = Some (sint (fl' AND NOT ALT_FD_FLAGS_MASK), s')"
proof -
  let ?g = "\<lambda>fl. fl AND NOT ALT_FCNTL_FLAGS_MASK OR arg AND ALT_FCNTL_FLAGS_MASK"
  note i = descr_index [OF assms(2)]
  from assms(2) i have di: "descr s i = Some (d, fd_flags (fd_list s ! i))" by simp
  define t where "t = upd_fd i (\<lambda>f. f\<lparr>fd_flags := ?g (fd_flags f)\<rparr>) s"
  have set: "alt_fcntl (int i) F_SETFL arg s = Some (0, t)"
    using i by (simp add: alt_fcntl_def on_fd_def fd_at_def F_SETFL_def F_GETFL_def t_def)
  have dt: "descr t = (descr s)(i \<mapsto> (d, ?g fl))"
    using descr_flags [OF assms(1) di refl, of "\<lambda>f. ?g (fd_flags f)"] i by (simp add: t_def)
  have ti: "i < length (fd_list t)" "fd_flags (fd_list t ! i) = ?g fl"
    using i by (simp_all add: t_def) (simp add: upd_fd_def)
  have bits: "?g fl AND ALT_FCNTL_FLAGS_MASK = arg AND ALT_FCNTL_FLAGS_MASK"
    "?g fl AND NOT ALT_FCNTL_FLAGS_MASK = fl AND NOT ALT_FCNTL_FLAGS_MASK"
    by (rule bit_eqI, auto simp: bit_simps)+
  have get: "alt_fcntl (int i) F_GETFL x t = Some (sint (?g fl AND NOT ALT_FD_FLAGS_MASK), t)"
    using ti by (simp add: alt_fcntl_def on_fd_def fd_at_def)
  from set dt bits get show ?thesis by blast
qed

lemma fcntl_roundtrip_witness:
  "\<exists>s'. alt_fcntl 3 F_SETFL 0xFFFFFFFF demo_two = Some (0, s') \<and> alt_fcntl 3 F_GETFL 0 s' = Some (0x400A, s')"
proof -
  have d: "descr demo_two 3 = Some (0x50, 0x40000002)" by (simp add: demo_two_descr)
  from fcntl_roundtrip [OF demo_two_inv d, of "0xFFFFFFFF" 0] obtain s' fl' where s':
    "alt_fcntl 3 F_SETFL 0xFFFFFFFF demo_two = Some (0, s')"
    "fl' AND ALT_FCNTL_FLAGS_MASK = 0xFFFFFFFF AND ALT_FCNTL_FLAGS_MASK"
    "fl' AND NOT ALT_FCNTL_FLAGS_MASK = 0x40000002 AND NOT ALT_FCNTL_FLAGS_MASK"
    "alt_fcntl 3 F_GETFL 0 s' = Some (sint (fl' AND NOT ALT_FD_FLAGS_MASK), s')"
    by auto
  have "fl' = (fl' AND ALT_FCNTL_FLAGS_MASK) OR (fl' AND NOT ALT_FCNTL_FLAGS_MASK)"
    by (rule bit_eqI) (auto simp: bit_simps dest: bit_imp_le_length)
  then have "fl' = 0x4000400A"
    unfolding s'(2,3) by (simp add: ALT_FCNTL_FLAGS_MASK_def O_APPEND_def O_NONBLOCK_def)
  with s' show ?thesis by (simp add: ALT_FD_FLAGS_MASK_def ALT_FD_EXCL_def ALT_FD_DEV_def)
qed

subsection \<open>The standard streams\<close>

lemma open_fd_frame:
  assumes "hal_inv e s" "drivers_ok e" "c_string nm" "alt_open_fd e k nm fl md s = Some s'"
  shows "dlinks s' = dlinks s \<and> devs s' = devs s"
proof -
  obtain q t where t: "alt_open e nm fl md s = Some (q, t)"
    using alt_open_table [OF assms(1-3), of fl md] by blast
  note ft = alt_open_frame [OF assms(1-3) t]
  show ?thesis
  proof (cases "q < 0")
    case False
    with assms(4) t show ?thesis using ft release_frame by (fastforce simp: alt_open_fd_def Let_def)
  qed (use assms(4) t ft in \<open>simp add: alt_open_fd_def\<close>)
qed

lemma open_fd_drv:
  "alt_open e nm fl md s = Some (q, t) \<Longrightarrow> alt_open_fd e k nm fl md s = Some s' \<Longrightarrow> drv s' = drv t"
  by (auto simp: alt_open_fd_def alt_release_fd_def Let_def split: if_splits)

text \<open>A registered device without an open function, free to be used.\<close>

definition plain_device :: "'d hal_env \<Rightarrow> 'd hal \<Rightarrow> ptr list \<Rightarrow> string \<Rightarrow> ptr \<Rightarrow> bool" where
  "plain_device e s ps nm d \<longleftrightarrow> named_list s (alt_dev_list e) ps
     \<and> first_or_null (\<lambda>dn. dn = nm) (with_names s ps) = d \<and> d \<noteq> 0 \<and> dopen (devs s d) = 0 \<and> \<not> held s d
     \<and> (\<exists>i<32. descr s i = None)"

lemma open_plain:
  assumes "hal_inv e s" "drivers_ok e" "c_string nm" "plain_device e s ps nm d"
  shows "\<exists>i t. alt_open e nm fl md s = Some (int i, t)
    \<and> descr t i = Some (d, fl AND NOT ALT_FD_FLAGS_MASK OR ALT_FD_DEV) \<and> drv t = drv s"
proof -
  obtain qs where qs: "named_list s (alt_fs_list e) qs" using hal_inv_lists [OF assms(1)] .
  from assms(4) have p: "named_list s (alt_dev_list e) ps" "dopen (devs s d) = 0" "\<not> (\<not> False \<and> held s d)"
    and nf: "\<not> (\<forall>i<32. descr s i \<noteq> None)" by (auto simp: plain_device_def)
  obtain r t where o: "alt_open e nm fl md s = Some (r, t)" "open_result e ps qs nm fl md s r t"
    using alt_open_spec [OF assms(1-3) p(1) qs, of fl md] by blast
  then have "open_spec e d False nm fl md s r t"
    using assms(4) by (simp add: open_result_def plain_device_def)
  from this [unfolded open_spec_def if_not_P [OF nf] if_not_P [OF p(3)]] obtain i where
    "r = int i" "descr t i = Some (d, fl AND NOT ALT_FD_FLAGS_MASK OR ALT_FD_DEV)" "drv t = drv s"
    using p(2) by auto
  with o(1) show ?thesis by blast
qed

lemma open_fd_plain:
  assumes "hal_inv e s" "drivers_ok e" "c_string nm" "plain_device e s ps nm d" "k < 3"
  shows "\<exists>s'. alt_open_fd e k nm fl md s = Some s' \<and> hal_inv e s' \<and> plain_device e s' ps nm d
    \<and> descr s' = (descr s)(k \<mapsto> (d, fl AND NOT ALT_FD_FLAGS_MASK OR ALT_FD_DEV))
    \<and> drv s' = drv s \<and> devs s' = devs s"
proof -
  obtain i t where o: "alt_open e nm fl md s = Some (int i, t)"
    "descr t i = Some (d, fl AND NOT ALT_FD_FLAGS_MASK OR ALT_FD_DEV)" "drv t = drv s"
    using open_plain [OF assms(1-4), of fl md] by blast
  obtain s' where s': "alt_open_fd e k nm fl md s = Some s'" "hal_inv e s'"
    "descr s' = (descr s)(k \<mapsto> (d, fl AND NOT ALT_FD_FLAGS_MASK OR ALT_FD_DEV))"
    using alt_open_fd_table [OF assms(1-3,5), of fl md] o by auto
  have fr: "dlinks s' = dlinks s" "devs s' = devs s"
    using open_fd_frame [OF assms(1-3) s'(1)] by simp_all
  have "\<not> held s' d"
    using assms(4) s'(3) flags_word(2) [of fl] by (auto simp: plain_device_def held_def split: if_splits)
  moreover obtain j where j: "j < 32" "descr s j = None" using assms(4) by (auto simp: plain_device_def)
  moreover have "j \<noteq> k"
  proof
    assume "j = k"
    with j(2) assms(1,5) show False by (auto simp: hal_inv_def descr_def split: if_splits)
  qed
  ultimately have "plain_device e s' ps nm d"
    using assms(4) s'(3) fr by (auto simp: plain_device_def named_list_cong [OF fr] with_names_def)
  with s' fr open_fd_drv [OF o(1) s'(1)] o(3) show ?thesis by auto
qed

lemma redirect_plain:
  assumes "hal_inv e s" and "drivers_ok e" and "c_string nm" and "plain_device e s ps nm d"
  shows "\<exists>s'. alt_io_redirect e nm nm nm s = Some s' \<and> hal_inv e s'
    \<and> descr s' = (descr s)(0 \<mapsto> (d, O_RDONLY OR ALT_FD_DEV), 1 \<mapsto> (d, O_WRONLY OR ALT_FD_DEV),
        2 \<mapsto> (d, O_WRONLY OR ALT_FD_DEV))
    \<and> drv s' = drv s \<and> devs s' = devs s"
proof -
  have fl: "O_RDONLY AND NOT ALT_FD_FLAGS_MASK = O_RDONLY" "O_WRONLY AND NOT ALT_FD_FLAGS_MASK = O_WRONLY"
    by (simp_all add: O_RDONLY_def O_WRONLY_def ALT_FD_FLAGS_MASK_def ALT_FD_EXCL_def ALT_FD_DEV_def)
  obtain a where a: "alt_open_fd e 1 nm O_WRONLY 0x1FF s = Some a" "hal_inv e a" "plain_device e a ps nm d"
    "descr a = (descr s)(1 \<mapsto> (d, O_WRONLY OR ALT_FD_DEV))" "drv a = drv s" "devs a = devs s"
    using open_fd_plain [OF assms, of 1 O_WRONLY "0x1FF"] by (auto simp: fl)
  obtain b where b: "alt_open_fd e 0 nm O_RDONLY 0x1FF a = Some b" "hal_inv e b" "plain_device e b ps nm d"
    "descr b = (descr a)(0 \<mapsto> (d, O_RDONLY OR ALT_FD_DEV))" "drv b = drv a" "devs b = devs a"
    using open_fd_plain [OF a(2) assms(2,3) a(3), of 0 O_RDONLY "0x1FF"] by (auto simp: fl)
  obtain c where c: "alt_open_fd e 2 nm O_WRONLY 0x1FF b = Some c" "hal_inv e c"
    "descr c = (descr b)(2 \<mapsto> (d, O_WRONLY OR ALT_FD_DEV))" "drv c = drv b" "devs c = devs b"
    using open_fd_plain [OF b(2) assms(2,3) b(3), of 2 O_WRONLY "0x1FF"] by (auto simp: fl)
  from a b c show ?thesis by (auto simp: alt_io_redirect_def fun_eq_iff)
qed

text \<open>Redirection of the standard streams: for a registered device that nobody holds exclusively and
  that has no open function (such as the JTAG UART, which \<open>alt_main\<close> names for all three),
  \<open>alt_io_redirect\<close> makes descriptor 0 refer to it for reading and 1 and 2 for writing, and
  uses up no descriptor: all others are as before.\<close>

theorem redirect_streams:
  assumes "hal_inv e s" and "drivers_ok e" and "c_string nm" and "plain_device e s ps nm d"
  shows "\<exists>s'. alt_io_redirect e nm nm nm s = Some s' \<and> hal_inv e s'
    \<and> descr s' = (descr s)(0 \<mapsto> (d, O_RDONLY OR ALT_FD_DEV), 1 \<mapsto> (d, O_WRONLY OR ALT_FD_DEV),
        2 \<mapsto> (d, O_WRONLY OR ALT_FD_DEV))"
  using redirect_plain [OF assms] by blast

lemma redirect_streams_witness:
  "\<exists>s'. alt_io_redirect demo_hal_env ''/dev/null'' ''/dev/null'' ''/dev/null'' demo_hal = Some s'
    \<and> descr s' 2 = Some (0x30, 0x40000001)"
proof -
  have c: "c_string ''/dev/null''" by (simp add: c_string_def)
  have "dopen (devs demo_hal 0x30) = 0"
    by (simp add: demo_hal_def hal_init_def alt_fs_reg_def alt_dev_reg_def
        alt_dev_llist_insert_def demo_devs_def alt_dev_null_def)
  then have "plain_device demo_hal_env demo_hal [0x50, 0x30] ''/dev/null'' 0x30"
    unfolding plain_device_def using demo_lists(1) demo_not_held demo_descr [of 5]
    by (auto simp: demo_names first_or_null_def intro!: exI [of _ 5])
  from redirect_streams [OF demo_hal_inv demo_drivers_ok c this] show ?thesis
    by (auto simp: O_WRONLY_def ALT_FD_DEV_def)
qed


end
