(* ===== verification/Boot.thy ===== *)
theory Boot
  imports JtagUse JtagCore FdUse
begin

text \<open>
  Start-up and shut-down: \<open>alt_sys_init.c\<close> (the generated initialisation of this system: one
  interrupt controller, one JTAG UART), \<open>alt_main.c\<close>, \<open>alt_do_ctors.c\<close>, \<open>alt_do_dtors.c\<close> and
  \<open>alt_exit.c\<close>. This is where the parts meet: the machine is the state of the POSIX layer whose
  drivers' state is the system of the alarm facility with the UART's state, and the schedule of
  interrupts. \<open>None\<close>: undefined behaviour, or a call that does not return within the schedule.
\<close>

subsection \<open>The machine\<close>

definition JTAG_UART_BASE :: u32 where "JTAG_UART_BASE = 0x11001030"
definition JTAG_UART_IRQ :: u32 where "JTAG_UART_IRQ = 5"
definition JTAG_UART_IRQ_INTERRUPT_CONTROLLER_ID :: u32 where "JTAG_UART_IRQ_INTERRUPT_CONTROLLER_ID = 0"
definition JTAG_UART_NAME :: string where "JTAG_UART_NAME = ''/dev/jtag_uart''"
definition ALT_STDIN :: string where "ALT_STDIN = ''/dev/jtag_uart''"
definition ALT_STDOUT :: string where "ALT_STDOUT = ''/dev/jtag_uart''"
definition ALT_STDERR :: string where "ALT_STDERR = ''/dev/jtag_uart''"

type_synonym 'b machine = "('b usys \<times> preempt list) hal"

abbreviation uart_of :: "'b machine \<Rightarrow> 'b usys" where
  "uart_of s \<equiv> fst (drv s)"

text \<open>The linker's addresses of the UART's structures and functions, the environment of the POSIX
  layer and of the alarms, and the core.\<close>

record 'b board =
  hal_of :: "('b usys \<times> preempt list) hal_env"
  alarms_of :: "'b uart alarm_env"
  core_of :: "'b bus"
  dev_at :: ptr
  read_at :: u32
  write_at :: u32
  close_at :: u32
  ioctl_at :: u32
  isr_at :: u32
  timer_at :: u32
  state_at :: u32
  alarm_at :: ptr

text \<open>\<open>ALTERA_AVALON_JTAG_UART_DEV_INSTANCE\<close>.\<close>

definition jtag_uart_dev :: "'b board \<Rightarrow> alt_dev" where
  "jtag_uart_dev bd = \<lparr>dname = Some JTAG_UART_NAME, dopen = 0, dclose = close_at bd, dread = read_at bd,
     dwrite = write_at bd, dlseek = 0, dfstat = 0, dioctl = ioctl_at bd\<rparr>"

text \<open>The memory image at reset; \<open>w\<close> is the world, \<open>xs\<close> the schedule.\<close>

definition power_on ::
  "'b board \<Rightarrow> ptr \<Rightarrow> u32 \<Rightarrow> (ptr \<Rightarrow> alt_dev) \<Rightarrow> 'b usys \<Rightarrow> 'b world \<Rightarrow> preempt list \<Rightarrow> 'b machine" where
  "power_on bd null_dev null_write ds u w xs =
     hal_init (hal_of bd) null_dev null_write (ds(dev_at bd := jtag_uart_dev bd))
       (u\<lparr>tick_rate := 0, nticks := 0, scpu := cpu_init, app := \<lparr>sp = jtag_instance JTAG_UART_BASE, jw = w\<rparr>\<rparr>, xs)"

subsection \<open>Initialisation\<close>

definition altera_nios2_qsys_irq_init :: "cpu \<Rightarrow> cpu" where
  "altera_nios2_qsys_irq_init c = c\<lparr>ienable := 0\<rparr>"

definition alt_irq_init :: "'b machine \<Rightarrow> 'b machine" where
  "alt_irq_init s =
     (let u = uart_of s;
          u = set_cpu (altera_nios2_qsys_irq_init (scpu u)) u;
          u = set_cpu (alt_irq_cpu_enable_interrupts (scpu u)) u
      in s\<lparr>drv := (u, snd (drv s))\<rparr>)"

definition alt_sys_init :: "'b board \<Rightarrow> 'b machine \<Rightarrow> 'b machine option" where
  "alt_sys_init bd s = do {
     u \<leftarrow> jtag_uart_init (alarms_of bd) (core_of bd) (isr_at bd) (timer_at bd) (state_at bd) (alarm_at bd)
           JTAG_UART_IRQ_INTERRUPT_CONTROLLER_ID JTAG_UART_IRQ (uart_of s);
     let s = s\<lparr>drv := (u, snd (drv s))\<rparr>;
     let (rc, s) = alt_dev_reg (hal_of bd) (dev_at bd) s;
     Some s }"

text \<open>A table of functions from its last entry down to its first.\<close>

fun run_down :: "('s \<Rightarrow> 's option) list \<Rightarrow> nat \<Rightarrow> 's \<Rightarrow> 's option" where
  "run_down fs 0 s = Some s"
| "run_down fs (Suc i) s = do { s \<leftarrow> (fs ! i) s; run_down fs i s }"

definition do_ctors :: "('s \<Rightarrow> 's option) list \<Rightarrow> 's \<Rightarrow> 's option" where
  "do_ctors ctors s = run_down ctors (length ctors) s"

definition do_dtors :: "('s \<Rightarrow> 's option) list \<Rightarrow> 's \<Rightarrow> 's option" where
  "do_dtors dtors s = run_down dtors (length dtors) s"

subsection \<open>main and exit\<close>

text \<open>The first part of \<open>alt_main\<close>, up to the redirection. There is no operating system: its
  initialisation and the semaphore are empty.\<close>

definition alt_main_init :: "'b board \<Rightarrow> 'b machine \<Rightarrow> 'b machine option" where
  "alt_main_init bd s = do {
     let s = alt_irq_init s;
     s \<leftarrow> alt_sys_init bd s;
     alt_io_redirect (hal_of bd) ALT_STDOUT ALT_STDIN ALT_STDERR s }"

text \<open>\<open>_exit\<close> does not return: the model gives the verdict for the simulator (\<open>True\<close>: pass) and the state in
  which the processor spins.\<close>

definition alt_exit :: "int \<Rightarrow> 's \<Rightarrow> bool \<times> 's" where
  "alt_exit exit_code s = (exit_code = 0, s)"

text \<open>The C library's \<open>exit\<close>: the registered functions, latest first, the flushing of its streams, then
  \<open>_exit\<close>. \<open>main\<close> is the application; it also gives the functions it has registered.\<close>

fun run_handlers :: "('s \<Rightarrow> 's option) list \<Rightarrow> 's \<Rightarrow> 's option" where
  "run_handlers [] s = Some s"
| "run_handlers (h # hs) s = do { s \<leftarrow> h s; run_handlers hs s }"

definition alt_main ::
  "'b board \<Rightarrow> ('b machine \<Rightarrow> 'b machine option) list \<Rightarrow> ('b machine \<Rightarrow> 'b machine option) list \<Rightarrow>
   ('b machine \<Rightarrow> 'b machine option) \<Rightarrow>
   ('b machine \<Rightarrow> (int \<times> ('b machine \<Rightarrow> 'b machine option) list \<times> 'b machine) option) \<Rightarrow>
   'b machine \<Rightarrow> (bool \<times> 'b machine) option" where
  "alt_main bd ctors dtors flush main s = do {
     s \<leftarrow> alt_main_init bd s;
     s \<leftarrow> do_ctors ctors s;
     let handlers = [do_dtors dtors];
     (result, more, s) \<leftarrow> main s;
     (rc, s) \<leftarrow> alt_close (hal_of bd) 1 s;
     s \<leftarrow> run_handlers (more @ handlers) s;
     s \<leftarrow> flush s;
     Some (alt_exit result s) }"

subsection \<open>The drivers of the board\<close>

text \<open>Behind the function pointers of the UART's device are the UART's functions: what the driver
  functions of the POSIX layer do when the call returns within the schedule.\<close>

definition bytes_of :: "string \<Rightarrow> u8 list" where
  "bytes_of = map of_char"

definition uart_behind :: "'b board \<Rightarrow> bool" where
  "uart_behind bd \<longleftrightarrow>
     (\<forall>i buf s rc xs u. jtag_uart_write_fd (core_of bd) (fd_list s ! i) (bytes_of buf) (snd (drv s)) (uart_of s) = Some (rc, xs, u) \<longrightarrow>
        drv_write (hal_of bd) (write_at bd) i buf s = (rc, s\<lparr>drv := (u, xs)\<rparr>)) \<and>
     (\<forall>i s rc xs u. jtag_uart_close_fd (core_of bd) (fd_list s ! i) (snd (drv s)) (uart_of s) = Some (rc, xs, u) \<longrightarrow>
        drv_close (hal_of bd) (close_at bd) i s = (rc, s\<lparr>drv := (u, xs)\<rparr>))"

text \<open>The linker's addresses are distinct and not null.\<close>

definition linked :: "'b board \<Rightarrow> ptr \<Rightarrow> bool" where
  "linked bd null_dev \<longleftrightarrow> distinct [0, null_dev, dev_at bd, alt_dev_list (hal_of bd), alt_fs_list (hal_of bd)]
     \<and> isr_at bd \<noteq> 0 \<and> write_at bd \<noteq> 0 \<and> close_at bd \<noteq> 0"


subsection \<open>Start-up\<close>

lemma alarm_start_no_clock: "tick_rate s = 0 \<Longrightarrow> alt_alarm_start e a n f c s = (- ENOTSUP, s)"
  by (simp add: alt_alarm_start_def alt_ticks_per_second_def)

lemma uart_init_some:
  assumes "irq < 32" "tick_rate s = 0"
  shows "\<exists>s'. jtag_uart_init e b isr tmo spa al ic irq s = Some s' \<and> scpu s' = registered irq isr spa (scpu s)
    \<and> tick_rate s' = 0"
proof -
  have "irq < 0x80000000" using assms(1) by (rule less_trans) simp
  then have r: "alt_ic_isr_register ic irq isr spa 0 c = Some (0, registered irq isr spa c)" for c
    using assms(1) by (simp add: alt_ic_isr_register_def iic_conv register_conv)
  show ?thesis
    using assms(2) r
    by (simp add: jtag_uart_init_def Let_def alarm_start_no_clock upd_sp_def wr_reg_def set_cpu_def)
qed

lemma registered_5:
  assumes "isr \<noteq> 0"
  shows "irq_active (registered 5 isr ctxt (c\<lparr>ienable := i, status := st\<rparr>)) = irq_active c OR 32"
    "ienable (registered 5 isr ctxt (c\<lparr>ienable := i, status := st\<rparr>)) = irq_active c OR 32"
    "status (registered 5 isr ctxt (c\<lparr>ienable := i, status := st\<rparr>)) = st"
    "irq_table (registered 5 isr ctxt (c\<lparr>ienable := i, status := st\<rparr>)) = (irq_table c)[5 := (isr, ctxt)]"
  using assms by (simp_all add: registered_def Let_def)

text \<open>The state in which the constructors and \<open>main\<close> are called.\<close>

definition ready :: "'b board \<Rightarrow> 'b machine \<Rightarrow> bool" where
  "ready bd s \<longleftrightarrow> hal_inv (hal_of bd) s
     \<and> descr s = [0 \<mapsto> (dev_at bd, O_RDONLY OR ALT_FD_DEV), 1 \<mapsto> (dev_at bd, O_WRONLY OR ALT_FD_DEV),
                  2 \<mapsto> (dev_at bd, O_WRONLY OR ALT_FD_DEV)]
     \<and> devs s (dev_at bd) = jtag_uart_dev bd
     \<and> jsp (uart_of s) = (jtag_instance JTAG_UART_BASE)\<lparr>irq_enable := JTAG_RE_MSK, timeout := INT_MAX\<rparr>
     \<and> scpu (uart_of s) = registered 5 (isr_at bd) (state_at bd) (cpu_init\<lparr>ienable := 0, status := 1\<rparr>)"

lemma uart_name: "c_string ''/dev/jtag_uart''"
  by (simp add: c_string_def)

text \<open>The UART in the device list, in front of the null device, and the standard streams on the
  latter.\<close>

lemma uart_listed:
  assumes l: "linked bd nd" and t: "named_list t (alt_dev_list (hal_of bd)) [nd]" "named_list t (alt_fs_list (hal_of bd)) []"
    "tab t = replicate 3 (nd, 0) @ replicate 29 (0, 0)" "alt_max_fd t = - 1"
    "devs t (dev_at bd) = jtag_uart_dev bd" "devs t nd = alt_dev_null nw"
    and s: "s = t\<lparr>dlinks := alt_llist_insert (alt_dev_list (hal_of bd)) (dev_at bd) (dlinks t)\<rparr>"
  shows "hal_inv (hal_of bd) s" "descr s = [0 \<mapsto> (nd, 0), 1 \<mapsto> (nd, 0), 2 \<mapsto> (nd, 0)]"
    "plain_device (hal_of bd) s [dev_at bd, nd] ''/dev/jtag_uart'' (dev_at bd)"
proof -
  note l = l [unfolded linked_def, simplified]
  have n: "named_list s (alt_dev_list (hal_of bd)) [dev_at bd, nd]"
    unfolding s by (rule reg_named [OF t(1), where dn = JTAG_UART_NAME])
      (use l t(5) uart_name in \<open>auto simp: jtag_uart_dev_def JTAG_UART_NAME_def\<close>)
  have n': "named_list s (alt_fs_list (hal_of bd)) []"
    using t dll_frame_insert [of "dlinks t" "alt_dev_list (hal_of bd)" "[nd]" "alt_fs_list (hal_of bd)" "[]" "dev_at bd"] l
    by (auto simp: named_list_def s)
  have tab: "tab s = replicate 3 (nd, 0) @ replicate 29 (0, 0)" "alt_max_fd s = - 1"
    using t(3,4) by (simp_all add: s tab_def)
  show "hal_inv (hal_of bd) s"
    using n n' l unfolding hal_inv_def tab by (auto simp: nth_append simp del: length_tab)
  show d: "descr s = [0 \<mapsto> (nd, 0), 1 \<mapsto> (nd, 0), 2 \<mapsto> (nd, 0)]"
    using l by (auto simp: fun_eq_iff descr_def tab nth_append less_Suc_eq numeral_3_eq_3 simp del: length_tab)
  have dv: "devs s (dev_at bd) = jtag_uart_dev bd" "devs s nd = alt_dev_null nw" using t(5,6) by (simp_all add: s)
  show "plain_device (hal_of bd) s [dev_at bd, nd] ''/dev/jtag_uart'' (dev_at bd)"
    unfolding plain_device_def using n l d
    by (auto simp: dv with_names_def first_or_null_def jtag_uart_dev_def JTAG_UART_NAME_def held_def
        intro!: exI [of _ 5] split: if_splits)
qed

lemma irq_init_power_on:
  assumes "i = alt_irq_init (power_on bd nd nw ds u w xs)"
  shows "scpu (uart_of i) = cpu_init\<lparr>ienable := 0, status := 1\<rparr>" "tick_rate (uart_of i) = 0"
    "jsp (uart_of i) = jtag_instance JTAG_UART_BASE" "jlog (uart_of i) = log w" "snd (drv i) = xs"
    "devs i = devs (power_on bd nd nw ds u w xs)" "dlinks i = dlinks (power_on bd nd nw ds u w xs)"
    "tab i = tab (power_on bd nd nw ds u w xs)" "alt_max_fd i = alt_max_fd (power_on bd nd nw ds u w xs)"
  unfolding assms
  by (simp_all add: alt_irq_init_def power_on_def hal_init_def Let_def set_cpu_def altera_nios2_qsys_irq_init_def
      alt_irq_cpu_enable_interrupts_def NIOS2_STATUS_PIE_MSK_def tab_def)

text \<open>The machine after \<open>alt_sys_init\<close>.\<close>

lemma sys_init_spec:
  assumes "linked bd nd"
  shows "\<exists>s. alt_sys_init bd (alt_irq_init (power_on bd nd nw ds u w xs)) = Some s \<and> hal_inv (hal_of bd) s
    \<and> plain_device (hal_of bd) s [dev_at bd, nd] ''/dev/jtag_uart'' (dev_at bd)
    \<and> descr s = [0 \<mapsto> (nd, 0), 1 \<mapsto> (nd, 0), 2 \<mapsto> (nd, 0)]
    \<and> devs s (dev_at bd) = jtag_uart_dev bd
    \<and> jsp (uart_of s) = (jtag_instance JTAG_UART_BASE)\<lparr>irq_enable := JTAG_RE_MSK, timeout := INT_MAX\<rparr>
    \<and> scpu (uart_of s) = registered 5 (isr_at bd) (state_at bd) (cpu_init\<lparr>ienable := 0, status := 1\<rparr>)
    \<and> jlog (uart_of s) = log w @ [IoWr (JTAG_UART_BASE + 4) JTAG_RE_MSK] \<and> snd (drv s) = xs
    \<and> jtag_uart_init (alarms_of bd) (core_of bd) (isr_at bd) (timer_at bd) (state_at bd) (alarm_at bd) 0 5
        (uart_of (alt_irq_init (power_on bd nd nw ds u w xs))) = Some (uart_of s)"
proof -
  let ?e = "hal_of bd"
  define i where "i = alt_irq_init (power_on bd nd nw ds u w xs)"
  note i = irq_init_power_on [OF i_def]
  have l: "nd \<noteq> 0" "alt_dev_list ?e \<noteq> alt_fs_list ?e" "nd \<noteq> alt_dev_list ?e" "nd \<noteq> alt_fs_list ?e" "dev_at bd \<noteq> 0" "nd \<noteq> dev_at bd"
    using assms by (auto simp: linked_def)
  obtain v where v: "jtag_uart_init (alarms_of bd) (core_of bd) (isr_at bd) (timer_at bd) (state_at bd) (alarm_at bd) 0 5 (uart_of i) = Some v"
    "scpu v = registered 5 (isr_at bd) (state_at bd) (scpu (uart_of i))" "tick_rate v = 0"
    using uart_init_some [of 5 "uart_of i"] i(2) by fastforce
  define t where "t = i\<lparr>drv := (v, xs)\<rparr>"
  define s where "s = t\<lparr>dlinks := alt_llist_insert (alt_dev_list ?e) (dev_at bd) (dlinks t)\<rparr>"
  have di: "devs i (dev_at bd) = jtag_uart_dev bd" "devs i nd = alt_dev_null nw" "dlinks t = dlinks i"
    using l(6) by (simp_all add: i(6) power_on_def hal_init_def t_def)
  have "named_list t lh ps = named_list (power_on bd nd nw ds u w xs) lh ps" for lh ps
    by (rule named_list_cong) (simp_all add: t_def i(6,7))
  with di have t: "named_list t (alt_dev_list ?e) [nd]" "named_list t (alt_fs_list ?e) []"
    "tab t = replicate 3 (nd, 0) @ replicate 29 (0, 0)" "alt_max_fd t = - 1"
    "devs t (dev_at bd) = jtag_uart_dev bd" "devs t nd = alt_dev_null nw"
    using hal_init_lists [OF l(1-4)] i(8,9) by (simp_all add: t_def power_on_def tab_def)
  have "alt_sys_init bd i = Some s"
    using v(1) i(5) di(1,3) l(5)
    by (simp add: alt_sys_init_def JTAG_UART_IRQ_INTERRUPT_CONTROLLER_ID_def JTAG_UART_IRQ_def alt_dev_reg_def
        alt_dev_llist_insert_def jtag_uart_dev_def s_def t_def [symmetric] Let_def)
  moreover have "uart_of s = v" "snd (drv s) = xs" "devs s (dev_at bd) = jtag_uart_dev bd"
    using t(5) by (simp_all add: s_def t_def)
  ultimately show ?thesis
    using uart_listed [OF assms t s_def] v init_conv [OF v(1)] i(1-4) unfolding i_def [symmetric]
    by (intro exI [of _ s]) (simp add: jtag_instance_def)
qed


lemma drivers_redirect:
  assumes "drivers_ok e" "hal_inv e s" "plain_device e s ps ''/dev/jtag_uart'' d"
  shows "\<exists>s'. alt_io_redirect e ALT_STDOUT ALT_STDIN ALT_STDERR s = Some s' \<and> hal_inv e s'
    \<and> descr s' = (descr s)(0 \<mapsto> (d, O_RDONLY OR ALT_FD_DEV), 1 \<mapsto> (d, O_WRONLY OR ALT_FD_DEV), 2 \<mapsto> (d, O_WRONLY OR ALT_FD_DEV))
    \<and> drv s' = drv s \<and> devs s' = devs s"
  using redirect_plain [OF assms(2,1) uart_name assms(3)] by (simp add: ALT_STDOUT_def ALT_STDIN_def ALT_STDERR_def)

lemma boot_spec:
  assumes "linked bd nd" "drivers_ok (hal_of bd)"
  shows "\<exists>s. alt_main_init bd (power_on bd nd nw ds u w xs) = Some s \<and> ready bd s
    \<and> jlog (uart_of s) = log w @ [IoWr (JTAG_UART_BASE + 4) JTAG_RE_MSK] \<and> snd (drv s) = xs
    \<and> jtag_uart_init (alarms_of bd) (core_of bd) (isr_at bd) (timer_at bd) (state_at bd) (alarm_at bd) 0 5
        (uart_of (alt_irq_init (power_on bd nd nw ds u w xs))) = Some (uart_of s)"
proof -
  obtain t where t: "alt_sys_init bd (alt_irq_init (power_on bd nd nw ds u w xs)) = Some t" "hal_inv (hal_of bd) t"
    "plain_device (hal_of bd) t [dev_at bd, nd] ''/dev/jtag_uart'' (dev_at bd)"
    "descr t = [0 \<mapsto> (nd, 0), 1 \<mapsto> (nd, 0), 2 \<mapsto> (nd, 0)]" "devs t (dev_at bd) = jtag_uart_dev bd"
    "jsp (uart_of t) = (jtag_instance JTAG_UART_BASE)\<lparr>irq_enable := JTAG_RE_MSK, timeout := INT_MAX\<rparr>"
    "scpu (uart_of t) = registered 5 (isr_at bd) (state_at bd) (cpu_init\<lparr>ienable := 0, status := 1\<rparr>)"
    "jlog (uart_of t) = log w @ [IoWr (JTAG_UART_BASE + 4) JTAG_RE_MSK]" "snd (drv t) = xs"
    "jtag_uart_init (alarms_of bd) (core_of bd) (isr_at bd) (timer_at bd) (state_at bd) (alarm_at bd) 0 5
        (uart_of (alt_irq_init (power_on bd nd nw ds u w xs))) = Some (uart_of t)"
    using sys_init_spec [OF assms(1), of nw ds u w xs] by blast
  obtain s where s: "alt_io_redirect (hal_of bd) ALT_STDOUT ALT_STDIN ALT_STDERR t = Some s" "hal_inv (hal_of bd) s"
    "descr s = (descr t)(0 \<mapsto> (dev_at bd, O_RDONLY OR ALT_FD_DEV), 1 \<mapsto> (dev_at bd, O_WRONLY OR ALT_FD_DEV),
        2 \<mapsto> (dev_at bd, O_WRONLY OR ALT_FD_DEV))" "drv s = drv t" "devs s = devs t"
    using drivers_redirect [OF assms(2) t(2,3)] by blast
  have "ready bd s" unfolding ready_def using s t by (simp add: fun_eq_iff)
  with s t show ?thesis by (simp add: alt_main_init_def)
qed

lemma ready_uart: "ready bd s \<Longrightarrow> jinv (jsp (uart_of s)) \<and> timeout (jsp (uart_of s)) = INT_MAX \<and> txq (uart_of s) = []"
  using instance_inv [of JTAG_UART_BASE]
  by (simp add: ready_def jinv_def jtag_instance_def txq_def ring_queue_def)

text \<open>The standard output refers to the UART.\<close>

definition console_open :: "'b board \<Rightarrow> 'b machine \<Rightarrow> bool" where
  "console_open bd s \<longleftrightarrow> descr s 1 = Some (dev_at bd, O_WRONLY OR ALT_FD_DEV) \<and> dev_at bd \<noteq> 0
     \<and> devs s (dev_at bd) = jtag_uart_dev bd \<and> jinv (jsp (uart_of s))"

lemma ready_console: "ready bd s \<Longrightarrow> linked bd nd \<Longrightarrow> console_open bd s"
  using ready_uart [of bd s] by (auto simp: console_open_def ready_def linked_def)

lemma console_fd:
  assumes "console_open bd s"
  shows "fd_at s 1 = Some (fd_list s ! 1)" "fd_device s (fd_list s ! 1) = Some (jtag_uart_dev bd)"
    "fd_flags (fd_list s ! 1) = O_WRONLY OR ALT_FD_DEV"
  using assms by (auto simp: console_open_def descr_def tab_def fd_at_def fd_device_def split: if_splits)

lemma console_flags: "(O_WRONLY OR ALT_FD_DEV) AND O_ACCMODE \<noteq> O_RDONLY" "(O_WRONLY OR ALT_FD_DEV) AND JTAG_O_NONBLOCK = 0"
  by (simp_all add: O_WRONLY_def ALT_FD_DEV_def O_ACCMODE_def O_RDONLY_def JTAG_O_NONBLOCK_def)

lemma console_not_nonblock: "\<not> (O_WRONLY OR ALT_FD_DEV) AND JTAG_O_NONBLOCK \<noteq> 0"
  using console_flags by simp

lemma run_down_rev: "k \<le> length fs \<Longrightarrow> run_down fs k s = run_handlers (rev (take k fs)) s"
  by (induction k arbitrary: s) (simp_all add: take_Suc_conv_app_nth cong: Option.bind_cong)

subsection \<open>Properties\<close>

text \<open>C25. Start-up. On a board with distinct linker addresses and drivers that keep to their own state, from
  reset \<open>alt_main\<close> gets as far as the constructors: the pool is sound and its only descriptors
  are the three standard ones, all referring to the JTAG UART, 0 for reading, 1 and 2 for writing;
  interrupts are on, of all lines exactly the UART's (5) is enabled, with its routine and state in
  the handler table; the driver is in its initial state without a time-out; and the only access
  to the hardware has enabled the core's receive interrupt.\<close>

theorem start_up:
  assumes "linked bd nd" and "drivers_ok (hal_of bd)"
  shows "\<exists>s. alt_main_init bd (power_on bd nd nw ds u w xs) = Some s \<and> hal_inv (hal_of bd) s
    \<and> descr s = [0 \<mapsto> (dev_at bd, O_RDONLY OR ALT_FD_DEV), 1 \<mapsto> (dev_at bd, O_WRONLY OR ALT_FD_DEV),
                 2 \<mapsto> (dev_at bd, O_WRONLY OR ALT_FD_DEV)]
    \<and> status (scpu (uart_of s)) = 1 \<and> ienable (scpu (uart_of s)) = 32
    \<and> irq_table (scpu (uart_of s)) ! 5 = (isr_at bd, state_at bd)
    \<and> jsp (uart_of s) = (jtag_instance JTAG_UART_BASE)\<lparr>irq_enable := JTAG_RE_MSK, timeout := INT_MAX\<rparr>
    \<and> jlog (uart_of s) = log w @ [IoWr (JTAG_UART_BASE + 4) JTAG_RE_MSK]"
proof -
  have "isr_at bd \<noteq> 0" using assms(1) by (simp add: linked_def)
  note r = registered_5 [OF this, of "state_at bd" 1 0 cpu_init]
  have "irq_active cpu_init = 0" "length (irq_table cpu_init) = 32" by (simp_all add: cpu_init_def)
  with r boot_spec [OF assms, of nw ds u w xs] show ?thesis
    unfolding ready_def by auto
qed

text \<open>C26. A write to the standard output, from the system call to the ring buffer. Assume that descriptor 1 is
  the UART's, with the UART's functions behind the pointers of its device (\<open>uart_behind\<close>) and a
  device that can be written; that the core keeps to the documentation of its two registers (\<open>documented_core\<close>);
  that the transmit buffer has room for the text; and that the schedule says for each of the at
  most 4 bytes + 6 points of interruption which interrupt occurs there, if any. Then \<open>write(1, buf)\<close> of
  any text, the empty one included, puts exactly the bytes of the text behind those still to be
  sent. It returns the length of the text and leaves errno alone, except for the empty text: for that the driver
  reports EIO, so the call returns -1 and sets errno.\<close>

theorem console_write:
  assumes "console_open bd s" and "uart_behind bd" and "write_at bd \<noteq> 0" and "documented_core (core_of bd) (jbase (jsp (uart_of s))) en full"
    and "length buf + length (txq (uart_of s)) < JTAG_BUF_LEN" and "4 * length buf + 6 \<le> length (snd (drv s))"
  shows "\<exists>s'. alt_write (hal_of bd) 1 buf s = Some (if buf = [] then - 1 else int (length buf), s')
    \<and> jflow (uart_of s) (bytes_of buf) [] (uart_of s') \<and> errno s' = (if buf = [] then EIO else errno s)"
proof -
  note fd = console_fd [OF assms(1)]
  have inv: "jinv (jsp (uart_of s))" using assms(1) by (simp add: console_open_def)
  have len: "length (bytes_of buf) = length buf" by (simp add: bytes_of_def)
  obtain rc xs v where w: "jtag_uart_write (core_of bd) (bytes_of buf) (O_WRONLY OR ALT_FD_DEV) (snd (drv s)) (uart_of s) = Some (rc, xs, v)"
    and rc: "bytes_of buf \<noteq> [] \<Longrightarrow> rc = int (length buf)"
    using write_returns [OF documented_serviced [OF assms(4)] inv, of "bytes_of buf" "snd (drv s)" "O_WRONLY OR ALT_FD_DEV"] assms(5,6)
    unfolding len by metis
  from jtag_uart_write_spec [OF w inv] obtain k where k: "k \<le> length buf" "jflow (uart_of s) (take k (bytes_of buf)) [] v"
    "rc = (if k \<noteq> 0 then int k else - EIO)"
    using console_not_nonblock unfolding writes_def len by metis
  have ne: "bytes_of buf = [] \<longleftrightarrow> buf = []" using len by (metis length_0_conv)
  have kl: "k = length buf"
    using k(1,3) rc by (cases "buf = []") (auto simp: ne EIO_def split: if_splits)
  with k(2) len have fl: "jflow (uart_of s) (bytes_of buf) [] v" by simp
  have rc': "rc = (if buf = [] then - EIO else int (length buf))" using k(3) kl by simp
  have d: "drv_write (hal_of bd) (write_at bd) 1 buf s = (rc, s\<lparr>drv := (v, xs)\<rparr>)"
    using assms(2) w fd(3) unfolding uart_behind_def jtag_uart_write_fd_def by metis
  have "alt_write (hal_of bd) 1 buf s = Some (if rc < 0 then (- 1, set_errno (- rc) (s\<lparr>drv := (v, xs)\<rparr>)) else (rc, s\<lparr>drv := (v, xs)\<rparr>))"
    using fd assms(3) console_flags(1) d by (simp add: alt_write_def on_fd_def jtag_uart_dev_def)
  with rc' fl show ?thesis
    by (cases "buf = []") (simp_all add: EIO_def set_errno_def)
qed

text \<open>C27. Shut-down. On a core that sends, with as many interrupts of the UART to come as there are bytes
  queued, the close of the standard output that follows the return of \<open>main\<close> returns, on a system
  that does not time out: by then every byte still in the transmit buffer has been sent to the
  core, in order, before the handlers and destructors run; the descriptor still refers to the
  UART afterwards.\<close>

theorem exit_drains_console:
  assumes "console_open bd s" and "uart_behind bd" and "close_at bd \<noteq> 0" and "timeout (jsp (uart_of s)) = INT_MAX"
    and "sends (core_of bd) I" and "I (uart_of s)" and "alt_irq_enabled (scpu (uart_of s)) \<noteq> 0"
    and "snd (drv s) = ys @ [p, q]" and "length (txq (uart_of s)) \<le> count_list ys Uart_irq"
  shows "\<exists>s' es. alt_close (hal_of bd) 1 s = Some (0, s') \<and> jlog (uart_of s') = jlog (uart_of s) @ es
    \<and> sent (jbase (jsp (uart_of s))) es = txq (uart_of s) \<and> txq (uart_of s') = [] \<and> console_open bd s'"
proof -
  note fd = console_fd [OF assms(1)]
  have inv: "jinv (jsp (uart_of s))" using assms(1) by (simp add: console_open_def)
  obtain rc xs v where cl: "jtag_uart_close (core_of bd) (O_WRONLY OR ALT_FD_DEV) (snd (drv s)) (uart_of s) = Some (rc, xs, v)"
    using close_returns [OF assms(5,6) inv assms(7) console_flags(2) assms(9), of p q] assms(8) by auto
  note c = jtag_uart_close_spec [OF cl inv]
  have rc: "rc = 0" using c console_flags(2) by auto
  from c have fl: "jflow (uart_of s) [] [] v" by (simp add: quiet_def)
  then have v: "jinv (jsp v)" "timeout (jsp v) = INT_MAX" using assms(4) by (simp_all add: jflow_def)
  have "host_inactive (jsp v) < timeout (jsp v)"
    by (rule no_timeout [OF _ v(1)]) (simp add: never_times_out_def v INT_MAX_def)
  with c rc have e: "txq v = []" by auto
  have "drv_close (hal_of bd) (close_at bd) 1 s = (rc, s\<lparr>drv := (v, xs)\<rparr>)"
    using assms(2) cl fd(3) unfolding uart_behind_def jtag_uart_close_fd_def by metis
  then have "alt_close (hal_of bd) 1 s = Some (0, s\<lparr>drv := (v, xs)\<rparr>)"
    using fd assms(3) rc by (simp add: alt_close_def on_fd_def jtag_uart_dev_def alt_release_fd_def)
  moreover have "console_open bd (s\<lparr>drv := (v, xs)\<rparr>)"
    using assms(1) v descr_tab [of "s\<lparr>drv := (v, xs)\<rparr>" s] by (simp add: console_open_def tab_def)
  ultimately show ?thesis using fl e by (fastforce simp: jflow_def)
qed

subsection \<open>A board\<close>

text \<open>For the witnesses: a core at the base address of the system that takes one byte per interrupt;
  its state is the write-interrupt enable bit and whether it has just been given one.\<close>

definition slow_read :: "bool \<times> bool \<Rightarrow> u32 \<Rightarrow> u32 \<times> bool \<times> bool" where
  "slow_read d a =
     (if a = JTAG_UART_BASE + 4
      then if fst d \<and> \<not> snd d then (JTAG_WI_MSK OR push_bit 16 1, d) else (0, fst d, False)
      else (0, d))"

definition slow_write :: "bool \<times> bool \<Rightarrow> u32 \<Rightarrow> u32 \<Rightarrow> bool \<times> bool" where
  "slow_write d a v = (if a = JTAG_UART_BASE + 4 then (v AND JTAG_WE_MSK \<noteq> 0, snd d)
     else if a = JTAG_UART_BASE then (fst d, True) else d)"

definition slow_bus :: "(bool \<times> bool) bus" where
  "slow_bus = \<lparr>bus_rd = slow_read, bus_wr = slow_write, bus_sleep = (\<lambda>d _. d)\<rparr>"

lemma slow_control:
  assumes "rd_reg slow_bus 1 s = (v, t)"
  shows "jsp t = jsp s" "jbase (jsp s) \<noteq> JTAG_UART_BASE \<Longrightarrow> v = 0"
    "jbase (jsp s) = JTAG_UART_BASE \<Longrightarrow> core_dev t = (fst (core_dev s), False)
       \<and> v = (if fst (core_dev s) \<and> \<not> snd (core_dev s) then JTAG_WI_MSK OR push_bit 16 1 else 0)"
  using assms by (auto simp: rd_reg_def IORD_conv slow_bus_def slow_read_def Let_def prod_eq_iff)

lemma slow_stop:
  assumes "jbase (jsp s) \<noteq> JTAG_UART_BASE \<or> \<not> fst (core_dev s) \<or> snd (core_dev s)"
  shows "\<exists>t. jtag_uart_irq slow_bus s = Some t \<and> jsp t = jsp s
    \<and> (jbase (jsp s) = JTAG_UART_BASE \<longrightarrow> core_dev t = (fst (core_dev s), False))"
proof -
  obtain v t where rd: "rd_reg slow_bus 1 s = (v, t)" by fastforce
  note c = slow_control [OF rd]
  have "v = 0" using c(2,3) assms by (cases "jbase (jsp s) = JTAG_UART_BASE") auto
  then have "jtag_uart_irq slow_bus s = Some t" by (subst jtag_uart_irq.simps) (simp add: rd)
  moreover have "jbase (jsp s) = JTAG_UART_BASE \<longrightarrow> core_dev t = (fst (core_dev s), False)"
    using c(3) assms by (cases "core_dev t") auto
  ultimately show ?thesis using c(1) by blast
qed

definition slow_inv :: "(bool \<times> bool) usys \<Rightarrow> bool" where
  "slow_inv s \<longleftrightarrow> core_dev s = (irq_enable (jsp s) AND JTAG_WE_MSK \<noteq> 0, False) \<and> jbase (jsp s) = JTAG_UART_BASE
     \<and> (txq s \<noteq> [] \<longrightarrow> irq_enable (jsp s) AND JTAG_WE_MSK \<noteq> 0)"

lemma mask_off: "(x AND NOT m) AND m = (0 :: u32)"
  by (rule bit_eqI) (auto simp: bit_simps)

text \<open>The write interrupt, with nothing left to send and with something.\<close>

lemma slow_write_off:
  assumes t: "jinv (jsp t)" "core_dev t = (True, False)" "jbase (jsp t) = JTAG_UART_BASE" "txq t = []"
    and v: "unat (drop_bit 16 (v AND JTAG_WSPACE_MSK)) = 1"
  shows "core_dev (isr_write slow_bus v t) = (False, False)
    \<and> jsp (isr_write slow_bus v t) = (jsp t)\<lparr>irq_enable := irq_enable (jsp t) AND NOT JTAG_WE_MSK\<rparr>"
proof -
  have "tx_out (jsp t) = tx_in (jsp t)" using ring_empty [OF jinv_rings(2) [OF t(1)]] t(4) by (simp add: txq_def)
  then have "isr_write slow_bus v t = irq_off slow_bus JTAG_WE_MSK t" using v by (simp add: isr_write_def)
  then show ?thesis
    using t(2,3) by (simp add: mask_off irq_off_def rd_reg_def wr_reg_def upd_sp_def IORD_conv IOWR_def
        IO_CALC_ADDRESS_NATIVE_def slow_bus_def slow_read_def slow_write_def Let_def)
qed

lemma slow_write_byte:
  assumes t: "jinv (jsp t)" "core_dev t = (True, False)" "jbase (jsp t) = JTAG_UART_BASE" "txq t \<noteq> []"
    and v: "unat (drop_bit 16 (v AND JTAG_WSPACE_MSK)) = 1"
  shows "core_dev (isr_write slow_bus v t) = (True, True)
    \<and> jsp (isr_write slow_bus v t) = (jsp t)\<lparr>tx_out := (tx_out (jsp t) + 1) mod JTAG_BUF_LEN\<rparr>
    \<and> length (txq (isr_write slow_bus v t)) < length (txq t)"
proof -
  note ok = jinv_rings(2) [OF t(1)]
  let ?u = "upd_sp (\<lambda>j. j\<lparr>tx_out := (tx_out j + 1) mod JTAG_BUF_LEN\<rparr>) (wr_reg slow_bus 0 (scast (tx_buf (jsp t) ! tx_out (jsp t))) t)"
  have e: "tx_out (jsp t) \<noteq> tx_in (jsp t)" using ring_empty [OF ok] t(4) by (auto simp: txq_def)
  have w: "isr_write slow_bus v t = ?u" using v e by (simp add: isr_write_def Let_def)
  have u: "core_dev ?u = (True, True)" "jsp ?u = (jsp t)\<lparr>tx_out := (tx_out (jsp t) + 1) mod JTAG_BUF_LEN\<rparr>"
    using t(2,3) by (simp_all add: wr_reg_def upd_sp_def IOWR_def IO_CALC_ADDRESS_NATIVE_def slow_bus_def slow_write_def Let_def)
  have one: "1 \<le> full_run JTAG_BUF_LEN (tx_out (jsp t)) (tx_in (jsp t))"
    using full_run_empty [OF ok] e by (auto simp: Suc_le_eq)
  have "tx_out (jsp t) < length (tx_buf (jsp t))" using ok by (simp add: ring_ok_def)
  then obtain c cs where "drop (tx_out (jsp t)) (tx_buf (jsp t)) = c # cs"
    by (cases "drop (tx_out (jsp t)) (tx_buf (jsp t))") simp_all
  with tx.get_law [OF ok one] have "txq t = c # txq ?u" by (simp add: txq_def)
  with u w show ?thesis by simp
qed

lemma slow_irq:
  assumes inv: "jinv (jsp s)"
  shows "\<exists>t. jtag_uart_irq slow_bus s = Some t
    \<and> (slow_inv s \<longrightarrow> slow_inv t \<and> (txq s \<noteq> [] \<longrightarrow> length (txq t) < length (txq s)))"
proof (cases "jbase (jsp s) \<noteq> JTAG_UART_BASE \<or> \<not> fst (core_dev s) \<or> snd (core_dev s)")
  case True
  from slow_stop [OF this] True show ?thesis by (auto simp: slow_inv_def txq_def)
next
  case False
  then have f: "jbase (jsp s) = JTAG_UART_BASE" "fst (core_dev s)" "\<not> snd (core_dev s)" by simp_all
  obtain v t where rd: "rd_reg slow_bus 1 s = (v, t)" by fastforce
  note c = slow_control [OF rd]
  from c(3) [OF f(1)] f have t: "v = JTAG_WI_MSK OR push_bit 16 1" "core_dev t = (True, False)" by simp_all
  have bits: "v AND JTAG_RI_MSK = 0" "v AND JTAG_WI_MSK \<noteq> 0" "v AND (JTAG_RI_MSK OR JTAG_WI_MSK) \<noteq> 0"
    "unat (drop_bit 16 (v AND JTAG_WSPACE_MSK)) = 1"
    by (simp_all add: t(1) JTAG_RI_MSK_def JTAG_WI_MSK_def JTAG_WSPACE_MSK_def)
  let ?u = "isr_write slow_bus v t"
  have step: "jtag_uart_irq slow_bus s = jtag_uart_irq slow_bus ?u"
    by (subst jtag_uart_irq.simps) (simp add: rd bits)
  have q: "txq t = txq s" "jbase (jsp t) = JTAG_UART_BASE" using c(1) f(1) by (simp_all add: txq_def)
  note it = inv [folded c(1)]
  show ?thesis
  proof (cases "txq s = []")
    case True
    note u = slow_write_off [OF it t(2) q(2) q(1) [THEN trans, OF True] bits(4)]
    with slow_stop [of ?u] obtain r where "jtag_uart_irq slow_bus ?u = Some r" "jsp r = jsp ?u" "core_dev r = (False, False)"
      using q(2) by auto
    with u step True q show ?thesis by (simp add: mask_off slow_inv_def txq_def)
  next
    case ne: False
    with q(1) have "txq t \<noteq> []" by simp
    note u = slow_write_byte [OF it t(2) q(2) this bits(4)]
    with slow_stop [of ?u] obtain r where r: "jtag_uart_irq slow_bus ?u = Some r" "jsp r = jsp ?u" "core_dev r = (True, False)"
      using q(2) by auto
    have "txq r = txq ?u" using r(2) by (simp add: txq_def)
    with u q(1) have "length (txq r) < length (txq s)" by simp
    moreover have "slow_inv r" if "slow_inv s"
      using that r u c(1) f ne by (simp add: slow_inv_def)
    ultimately show ?thesis using r(1) step by auto
  qed
qed

lemma slow_documented: "documented_core slow_bus JTAG_UART_BASE (\<lambda>d m. m = JTAG_WE_MSK \<and> fst d) (\<lambda>_. False)"
  by (auto simp: documented_core_def slow_bus_def slow_read_def slow_write_def JTAG_RI_MSK_def JTAG_WI_MSK_def
      JTAG_WSPACE_MSK_def split: if_splits)

lemma slow_core: "sends slow_bus slow_inv"
proof -
  have "slow_inv (snd (jtag_uart_timeout slow_bus s))" if s: "slow_inv s" for s
  proof -
    obtain v t where rd: "rd_reg slow_bus 1 s = (v, t)" by fastforce
    note c = slow_control [OF rd]
    have j: "jbase (jsp s) = JTAG_UART_BASE" "\<not> snd (core_dev s)" using s by (simp_all add: slow_inv_def)
    have b: "v AND JTAG_AC_MSK = 0" using c(3) [OF j(1)]
      by (auto simp: JTAG_AC_MSK_def JTAG_WI_MSK_def split: if_splits)
    have "core_dev t = core_dev s" using c(3) [OF j(1)] j(2) by (cases "core_dev s") simp
    with s c(1) b show ?thesis
      by (simp add: jtag_uart_timeout_def rd Let_def slow_inv_def txq_def upd_sp_def)
  qed
  with slow_irq show "sends slow_bus slow_inv" unfolding sends_def by blast
qed

definition board_env :: "'d bus \<Rightarrow> ('d usys \<times> preempt list) hal_env" where
  "board_env b = \<lparr>alt_dev_list = 0x10, alt_fs_list = 0x20, dev_tail = \<lambda>_ _. CHR ''x'', arg_tail = \<lambda>_. CHR ''/'',
     drv_open = \<lambda>_ _ _ _ _ s. (0, s),
     drv_close = \<lambda>_ i s. (case jtag_uart_close_fd b (fd_list s ! i) (snd (drv s)) (fst (drv s)) of
       Some (rc, xs, u) \<Rightarrow> (rc, s\<lparr>drv := (u, xs)\<rparr>) | None \<Rightarrow> (0, s)),
     drv_read = \<lambda>_ _ _ s. (0, [], s),
     drv_write = \<lambda>_ i t s. (case jtag_uart_write_fd b (fd_list s ! i) (bytes_of t) (snd (drv s)) (fst (drv s)) of
       Some (rc, xs, u) \<Rightarrow> (rc, s\<lparr>drv := (u, xs)\<rparr>) | None \<Rightarrow> (0, s)),
     drv_lseek = \<lambda>_ _ _ _ s. (0, s), drv_fstat = \<lambda>_ _ s. (0, 0, s), drv_ioctl = \<lambda>_ _ _ _ s. (0, s)\<rparr>"

definition demo_board :: "(bool \<times> bool) board" where
  "demo_board = \<lparr>hal_of = board_env slow_bus, alarms_of = \<lparr>alt_alarm_list = 0x100, call_back = (\<lambda>_ _ s. (0, s))\<rparr>,
     core_of = slow_bus, dev_at = 0x50, read_at = 0x1100, write_at = 0x1200, close_at = 0x1300, ioctl_at = 0x1400,
     isr_at = 0x1500, timer_at = 0x1600, state_at = 0x60, alarm_at = 0x68\<rparr>"

text \<open>Reset, start-up, \<open>write(1, "OK")\<close> without an interrupt, and the UART's state after it, computed.\<close>

definition demo_schedule :: "preempt list" where
  "demo_schedule = replicate 8 Run @ [Uart_irq, Run, Uart_irq, Timer_irq, Run, Run]"

definition demo_off :: "(bool \<times> bool) usys" where
  "demo_off = \<lparr>tick_rate = 0, nticks = 0, links = \<lparr>next_of = \<lambda>_. 0, previous_of = \<lambda>_. 0\<rparr>,
     alarms = (\<lambda>_. \<lparr>atime = 0, callback = 0, rollover = 0, acontext = 0\<rparr>), scpu = cpu_init\<lparr>status := 1\<rparr>,
     app = \<lparr>sp = jtag_instance JTAG_UART_BASE, jw = \<lparr>dev = (False, False), log = []\<rparr>\<rparr>\<rparr>"

definition demo_power_on :: "(bool \<times> bool) machine" where
  "demo_power_on = power_on demo_board 0x30 9 (\<lambda>_. alt_dev_null 0) demo_off (jw (app demo_off)) demo_schedule"

lemma demo_linked: "linked demo_board 0x30"
  by (simp add: linked_def demo_board_def board_env_def)

lemma demo_board_ok: "drivers_ok (hal_of demo_board)" "uart_behind demo_board"
  by (auto simp: drivers_ok_def uart_behind_def demo_board_def board_env_def same_table_def tab_def split: option.splits)

lemma demo_uart: "uart_of (alt_irq_init demo_power_on) = demo_off"
  by (simp add: demo_off_def demo_power_on_def power_on_def hal_init_def alt_irq_init_def set_cpu_def Let_def
      altera_nios2_qsys_irq_init_def alt_irq_cpu_enable_interrupts_def NIOS2_STATUS_PIE_MSK_def cpu_init_def)

lemma demo_value:
  "jtag_uart_init \<lparr>alt_alarm_list = 0x100, call_back = (\<lambda>_ _ s. (0, s))\<rparr> slow_bus 0x1500 0x1600 0x60 0x68 0 5 demo_off \<bind>
     (\<lambda>u. map_option (\<lambda>(rc, xs, v). (rc, xs, txq v, irq_enable (jsp v), core_dev v))
       (jtag_uart_write slow_bus (bytes_of ''OK'') (O_WRONLY OR ALT_FD_DEV) demo_schedule u))
   = Some (2, [Uart_irq, Run, Uart_irq, Timer_irq, Run, Run], [79, 75], 3, (True, False))"
  by code_simp

lemma demo_started:
  obtains s xs v where "alt_main_init demo_board demo_power_on = Some s" "ready demo_board s" "snd (drv s) = demo_schedule"
    "jtag_uart_write slow_bus (bytes_of ''OK'') (O_WRONLY OR ALT_FD_DEV) demo_schedule (uart_of s)
       = Some (2, [Uart_irq, Run, Uart_irq, Timer_irq, Run, Run], v)"
    "txq v = [79, 75]" "irq_enable (jsp v) = 3" "core_dev v = (True, False)"
proof -
  obtain s where s: "alt_main_init demo_board demo_power_on = Some s" "ready demo_board s" "snd (drv s) = demo_schedule"
    "jtag_uart_init (alarms_of demo_board) (core_of demo_board) (isr_at demo_board) (timer_at demo_board)
        (state_at demo_board) (alarm_at demo_board) 0 5 (uart_of (alt_irq_init demo_power_on)) = Some (uart_of s)"
    using boot_spec [OF demo_linked demo_board_ok(1), of 9 "\<lambda>_. alt_dev_null 0" demo_off "jw (app demo_off)" demo_schedule]
    unfolding demo_power_on_def [symmetric] by blast
  have i: "jtag_uart_init \<lparr>alt_alarm_list = 0x100, call_back = (\<lambda>_ _ s. (0, s))\<rparr> slow_bus 0x1500 0x1600 0x60 0x68 0 5 demo_off
      = Some (uart_of s)"
    using s(4) unfolding demo_uart by (simp add: demo_board_def)
  from demo_value [unfolded i] that [OF s(1-3)] show ?thesis by auto
qed

lemma start_up_witness:
  "\<exists>s. alt_main_init demo_board demo_power_on = Some s \<and> ienable (scpu (uart_of s)) = 32"
  using start_up [OF demo_linked demo_board_ok(1)] unfolding demo_power_on_def by blast

lemma console_write_witness:
  "\<exists>s s' s''. alt_main_init demo_board demo_power_on = Some s \<and> alt_write (hal_of demo_board) 1 ''OK'' s = Some (2, s')
     \<and> jflow (uart_of s) [79, 75] [] (uart_of s') \<and> alt_write (hal_of demo_board) 1 [] s = Some (- 1, s'') \<and> errno s'' = EIO"
proof -
  obtain s xs v where s: "alt_main_init demo_board demo_power_on = Some s" "ready demo_board s" "snd (drv s) = demo_schedule"
    by (rule demo_started)
  have w: "write_at demo_board \<noteq> 0"
    "documented_core (core_of demo_board) (jbase (jsp (uart_of s))) (\<lambda>d m. m = JTAG_WE_MSK \<and> fst d) (\<lambda>_. False)"
    using slow_documented s(2) by (simp_all add: demo_board_def ready_def jtag_instance_def)
  have b: "bytes_of ''OK'' = [79, 75]" by (simp add: bytes_of_def of_char_def)
  have room: "length ''OK'' + length (txq (uart_of s)) < JTAG_BUF_LEN" "length [] + length (txq (uart_of s)) < JTAG_BUF_LEN"
    "4 * length ''OK'' + 6 \<le> length (snd (drv s))" "4 * length [] + 6 \<le> length (snd (drv s))"
    using ready_uart [OF s(2)] s(3) by (simp_all add: demo_schedule_def)
  note wr = console_write [OF ready_console [OF s(2) demo_linked] demo_board_ok(2) w]
  from wr [OF room(1,3)] wr [OF room(2,4)] s(1) b show ?thesis by auto
qed

lemma exit_drains_console_witness:
  "\<exists>s s' es. console_open demo_board s \<and> txq (uart_of s) = [79, 75] \<and> alt_close (hal_of demo_board) 1 s = Some (0, s')
     \<and> sent JTAG_UART_BASE es = [79, 75] \<and> txq (uart_of s') = [] \<and> console_open demo_board s'"
proof -
  obtain s0 v where s0: "ready demo_board s0" and wr: "jtag_uart_write slow_bus (bytes_of ''OK'') (O_WRONLY OR ALT_FD_DEV)
      demo_schedule (uart_of s0) = Some (2, [Uart_irq, Run, Uart_irq, Timer_irq, Run, Run], v)"
    and v: "txq v = [79, 75]" "irq_enable (jsp v) = 3" "core_dev v = (True, False)"
    by (rule demo_started)
  define s where "s = s0\<lparr>drv := (v, [Uart_irq, Run, Uart_irq, Timer_irq, Run, Run])\<rparr>"
  note r = ready_uart [OF s0]
  from jtag_uart_write_spec [OF wr] r obtain k where "writes (uart_of s0) (take k (bytes_of ''OK'')) v" by blast
  then have f: "jinv (jsp v)" "jbase (jsp v) = JTAG_UART_BASE" "timeout (jsp v) = INT_MAX" "scpu v = scpu (uart_of s0)"
    using s0 by (simp_all add: writes_def jflow_def ready_def jtag_instance_def)
  have c: "console_open demo_board s"
    using ready_console [OF s0 demo_linked] f descr_tab [of s s0] by (simp add: s_def console_open_def tab_def)
  have b: "core_of demo_board = slow_bus" "close_at demo_board \<noteq> 0" by (simp_all add: demo_board_def)
  have "status (scpu (uart_of s0)) = 1" using s0 by (simp add: ready_def registered_5 demo_board_def)
  then have e: "alt_irq_enabled (scpu v) \<noteq> 0" using f(4) by (simp add: alt_irq_enabled_def NIOS2_STATUS_PIE_MSK_def)
  have i: "slow_inv v" using v f by (simp add: slow_inv_def JTAG_WE_MSK_def)
  have "sends (core_of demo_board) slow_inv" unfolding b by (rule slow_core)
  from exit_drains_console [OF c demo_board_ok(2) b(2) _ this, of "[Uart_irq, Run, Uart_irq, Timer_irq]" Run Run] i e v f c
  obtain s' es where "alt_close (hal_of demo_board) 1 s = Some (0, s')" "sent JTAG_UART_BASE es = [79, 75]"
    "txq (uart_of s') = []" "console_open demo_board s'" by (auto simp: s_def)
  moreover have "txq (uart_of s) = [79, 75]" using v by (simp add: s_def)
  ultimately show ?thesis using c by blast
qed

end
