(* ===== verification/Numerals.thy ===== *)
theory Numerals
  imports Prelude "HOL-Library.Char_ord"
begin

text \<open>
  Numerals: the reference that the two formatted-output routines are compared with. \<open>digits b n\<close> is
  the numeral of \<open>n\<close> to base \<open>b\<close>, most significant digit first, without leading zeros;
  \<open>numeral_value\<close> reads it back.
\<close>

fun digits :: "nat \<Rightarrow> nat \<Rightarrow> nat list" where
  "digits b n = (if b < 2 \<or> n < b then [n] else digits b (n div b) @ [n mod b])"

declare digits.simps [simp del]

definition numeral_value :: "nat \<Rightarrow> nat list \<Rightarrow> nat" where
  "numeral_value b ds = foldl (\<lambda>a d. a * b + d) 0 ds"

text \<open>The character of a digit, in upper or lower case.\<close>

definition digit_char :: "bool \<Rightarrow> nat \<Rightarrow> char" where
  "digit_char upper d = char_of (if d < 10 then 48 + d else if upper then 55 + d else 87 + d)"

lemma digits_small: "n < b \<Longrightarrow> digits b n = [n]"
  by (simp add: digits.simps)

lemma digits_step: "2 \<le> b \<Longrightarrow> b \<le> n \<Longrightarrow> digits b n = digits b (n div b) @ [n mod b]"
  by (subst digits.simps) simp

lemma digits_induct [consumes 1, case_names small step]:
  fixes b n :: nat
  assumes "2 \<le> b" "\<And>n. n < b \<Longrightarrow> P n" "\<And>n. b \<le> n \<Longrightarrow> P (n div b) \<Longrightarrow> P n"
  shows "P n"
proof (induction n rule: less_induct)
  case (less n)
  show ?case
  proof (cases "n < b")
    case False
    then have "n div b < n" using assms(1) by simp
    with less assms(3) False show ?thesis by simp
  qed (use assms(2) in simp)
qed

lemma digits_nonempty: "digits b n \<noteq> []"
  by (subst digits.simps) simp

lemma digits_length_pos: "0 < length (digits b n)"
  using digits_nonempty by blast

text \<open>Positions.\<close>

lemma digits_positional:
  assumes "2 \<le> b"
  shows "digits b n = map (\<lambda>i. n div b ^ i mod b) (rev [0..<length (digits b n)])"
  using assms
proof (induction n rule: digits_induct)
  case (small n)
  then show ?case by (simp add: digits_small)
next
  case (step n)
  let ?l = "length (digits b (n div b))"
  have "digits b n = map (\<lambda>i. n div b div b ^ i mod b) (rev [0..<?l]) @ [n mod b]"
    using digits_step [OF assms step(1)] step(2) by simp
  also have "map (\<lambda>i. n div b div b ^ i mod b) (rev [0..<?l]) = map (\<lambda>i. n div b ^ i mod b) (rev (map Suc [0..<?l]))"
    by (simp add: rev_map div_mult2_eq)
  also have "\<dots> @ [n mod b] = map (\<lambda>i. n div b ^ i mod b) (rev [0..<Suc ?l])"
    by (simp add: map_Suc_upt upt_conv_Cons del: upt_Suc)
  finally show ?case using digits_step [OF assms step(1)] by simp
qed

lemma digits_bounds:
  assumes "2 \<le> b"
  shows "n < b ^ length (digits b n) \<and> (0 < n \<longrightarrow> b ^ (length (digits b n) - 1) \<le> n)"
  using assms
proof (induction n rule: digits_induct)
  case (small n)
  then show ?case by (simp add: digits_small)
next
  case (step n)
  let ?l = "length (digits b (n div b))"
  have l: "length (digits b n) = Suc ?l" using digits_step [OF assms step(1)] by simp
  have pos: "0 < n div b" using step(1) assms by (simp add: div_greater_zero_iff)
  have "n < b ^ Suc ?l"
    using step(2) assms by (simp add: div_less_iff_less_mult mult.commute)
  moreover have "b ^ ?l \<le> n"
  proof -
    have "b ^ (?l - 1) * b \<le> n div b * b" using step(2) pos by simp
    also have "\<dots> \<le> n" by simp
    finally show ?thesis using digits_length_pos [of b "n div b"] by (simp add: power_eq_if mult.commute)
  qed
  ultimately show ?case using l by simp
qed

lemma digits_unique_length:
  assumes "2 \<le> b" "n < b ^ Suc k" "0 < k \<longrightarrow> b ^ k \<le> n"
  shows "length (digits b n) = Suc k"
proof -
  let ?l = "length (digits b n)"
  note bnd = digits_bounds [OF assms(1), of n]
  have b1: "1 < b" using assms(1) by simp
  have "?l - 1 < Suc k"
  proof (cases "n = 0")
    case True
    then show ?thesis using assms(1) by (simp add: digits_small)
  next
    case False
    with bnd have "b ^ (?l - 1) \<le> n" by simp
    with assms(2) have "b ^ (?l - 1) < b ^ Suc k" by (rule order.strict_trans1 [rotated])
    then show ?thesis by (rule power_less_imp_less_exp [OF b1])
  qed
  moreover have "k < ?l"
  proof (cases "k = 0")
    case True
    then show ?thesis using digits_length_pos by simp
  next
    case False
    with assms(3) have "b ^ k \<le> n" by simp
    with bnd have "b ^ k < b ^ ?l" by (blast intro: order.strict_trans1)
    then show ?thesis by (rule power_less_imp_less_exp [OF b1])
  qed
  ultimately show ?thesis by linarith
qed

text \<open>Reading back.\<close>

lemma value_digits:
  assumes "2 \<le> b"
  shows "numeral_value b (digits b n) = n"
  using assms
proof (induction n rule: digits_induct)
  case (step n)
  with digits_step [OF assms step(1)] show ?case by (simp add: numeral_value_def)
qed (simp add: digits_small numeral_value_def)

lemma digits_range:
  assumes "2 \<le> b"
  shows "d \<in> set (digits b n) \<Longrightarrow> d < b"
  using assms
proof (induction n rule: digits_induct)
  case (step n)
  have "0 < b" using assms by simp
  with digits_step [OF assms step(1)] step show ?case by auto
qed (simp add: digits_small)

lemma no_leading_zero:
  assumes "2 \<le> b"
  shows "0 < n \<Longrightarrow> hd (digits b n) \<noteq> 0"
  using assms
proof (induction n rule: digits_induct)
  case (step n)
  have "0 < n div b" using step assms by (simp add: div_greater_zero_iff)
  with digits_step [OF assms step(1)] step show ?case by (simp add: digits_nonempty)
qed (simp add: digits_small)

end
