(* ===== verification/Printf.thy ===== *)
theory Printf
  imports Numerals
begin

text \<open>
  \<open>alt_printf.c\<close>, the minimal \<open>printf\<close> of the HAL (\<open>%c\<close>, \<open>%x\<close>, \<open>%s\<close> and \<open>%%\<close>), against a pure
  formatter. The C library's \<open>putchar\<close>, to which \<open>alt_putchar.c\<close> passes every character when
  there are no direct drivers, is the parameter \<open>putchar\<close> on a state of its own. Format and
  arguments are C strings (their terminator is the end of the list); a \<open>char\<close> is signed.
  \<open>None\<close> is undefined behaviour: an argument that is missing or of the wrong type.
\<close>

datatype va_arg = Va_word u32 | Va_str string

definition char_int :: "char \<Rightarrow> u32" where
  "char_int c = scast (of_char c :: u8)"

definition alt_putchar :: "(u32 \<Rightarrow> 's \<Rightarrow> 's) \<Rightarrow> u32 \<Rightarrow> 's \<Rightarrow> 's" where
  "alt_putchar putchar c = putchar c"

text \<open>\<open>while (!(v & (0xF << digit_shift))) digit_shift -= 4;\<close> where a negative shift is undefined.\<close>

fun find_shift :: "u32 \<Rightarrow> nat \<Rightarrow> nat option" where
  "find_shift v digit_shift =
     (if v AND push_bit digit_shift 0xF \<noteq> 0 then Some digit_shift
      else if digit_shift < 4 then None
      else find_shift v (digit_shift - 4))"

text \<open>\<open>for (; digit_shift >= 0; digit_shift -= 4) ...\<close>\<close>

fun print_hex :: "(u32 \<Rightarrow> 's \<Rightarrow> 's) \<Rightarrow> u32 \<Rightarrow> nat \<Rightarrow> 's \<Rightarrow> 's" where
  "print_hex putchar v digit_shift s =
     (let digit = drop_bit digit_shift (v AND push_bit digit_shift 0xF);
          c = (if digit \<le> 9 then 0x30 + ucast digit else 0x61 + ucast digit - 10) :: u8;
          s = alt_putchar putchar (scast c) s
      in if digit_shift < 4 then s else print_hex putchar v (digit_shift - 4) s)"

declare find_shift.simps [simp del] print_hex.simps [simp del]

definition print_str :: "(u32 \<Rightarrow> 's \<Rightarrow> 's) \<Rightarrow> string \<Rightarrow> 's \<Rightarrow> 's" where
  "print_str putchar str s = fold (\<lambda>c. alt_putchar putchar (char_int c)) str s"

fun alt_printf :: "(u32 \<Rightarrow> 's \<Rightarrow> 's) \<Rightarrow> string \<Rightarrow> va_arg list \<Rightarrow> 's \<Rightarrow> 's option" where
  "alt_printf putchar [] args s = Some s"
| "alt_printf putchar (c # w) args s =
     (if c \<noteq> CHR ''%'' then alt_printf putchar w args (alt_putchar putchar (char_int c) s)
      else (case w of
              [] \<Rightarrow> Some s
            | c # w \<Rightarrow>
                (if c = CHR ''%'' then alt_printf putchar w args (alt_putchar putchar (char_int c) s)
                 else if c = CHR ''c''
                 then (case args of
                         Va_word v # args \<Rightarrow> alt_printf putchar w args (alt_putchar putchar v s)
                       | _ \<Rightarrow> None)
                 else if c = CHR ''x''
                 then (case args of
                         Va_word v # args \<Rightarrow>
                           (if v = 0 then alt_printf putchar w args (alt_putchar putchar 0x30 s)
                            else (case find_shift v 28 of
                                    None \<Rightarrow> None
                                  | Some digit_shift \<Rightarrow> alt_printf putchar w args (print_hex putchar v digit_shift s)))
                       | _ \<Rightarrow> None)
                 else if c = CHR ''s''
                 then (case args of
                         Va_str str # args \<Rightarrow> alt_printf putchar w args (print_str putchar str s)
                       | _ \<Rightarrow> None)
                 else alt_printf putchar w args s)))"

subsection \<open>The reference\<close>

definition hex_text :: "nat \<Rightarrow> u32 list" where
  "hex_text n = map (\<lambda>d. char_int (digit_char False d)) (digits 16 n)"

fun directive :: "char \<Rightarrow> va_arg list \<Rightarrow> (u32 list \<times> va_arg list) option" where
  "directive d args =
     (if d = CHR ''c'' then (case args of Va_word v # rest \<Rightarrow> Some ([v], rest) | _ \<Rightarrow> None)
      else if d = CHR ''x'' then (case args of Va_word v # rest \<Rightarrow> Some (hex_text (unat v), rest) | _ \<Rightarrow> None)
      else if d = CHR ''s'' then (case args of Va_str t # rest \<Rightarrow> Some (map char_int t, rest) | _ \<Rightarrow> None)
      else Some (if d = CHR ''%'' then [char_int d] else [], args))"

fun printf_text :: "string \<Rightarrow> va_arg list \<Rightarrow> u32 list option" where
  "printf_text [] args = Some []"
| "printf_text [c] args = Some (if c = CHR ''%'' then [] else [char_int c])"
| "printf_text (c # d # w) args =
     (if c \<noteq> CHR ''%'' then map_option ((#) (char_int c)) (printf_text (d # w) args)
      else Option.bind (directive d args) (\<lambda>(t, rest). map_option ((@) t) (printf_text w rest)))"

subsection \<open>Hexadecimal digits\<close>

lemma nibble: "drop_bit k (v AND push_bit k 0xF) = drop_bit k v AND 0xF" for v :: u32
  by (rule bit_eqI) (auto simp: bit_simps dest: bit_imp_le_length)

lemma nibble_value: "unat (drop_bit (4 * k) v AND 0xF) = unat v div 16 ^ k mod 16" for v :: u32
proof -
  have "drop_bit (4 * k) v AND 0xF = take_bit 4 (drop_bit (4 * k) v)"
    using mask_eq_exp_minus_1 [of 4, where ?'a = u32] by (simp add: take_bit_eq_mask)
  moreover have "unat (take_bit 4 (drop_bit (4 * k) v)) = unat v div 2 ^ (4 * k) mod 2 ^ 4"
    by (simp only: take_bit_eq_mod unat_mod unat_drop_bit_eq) (simp add: drop_bit_eq_div)
  ultimately show ?thesis by (simp add: power_mult)
qed

lemma nibble_zero:
  fixes v :: u32
  assumes "k < 8"
  shows "(v AND push_bit (4 * k) 0xF \<noteq> 0) = (unat v div 16 ^ k mod 16 \<noteq> 0)"
proof -
  have b15: "bit (15 :: u32) i \<longleftrightarrow> i < 4" for i
    using bit_mask_iff [where ?'a = u32, of 4 i] by (auto simp: mask_numeral)
  have "v AND push_bit (4 * k) 0xF = 0 \<longleftrightarrow> drop_bit (4 * k) v AND 0xF = 0"
  proof
    assume z: "v AND push_bit (4 * k) 0xF = 0"
    show "drop_bit (4 * k) v AND 0xF = 0"
      using nibble [of "4 * k" v] z by simp
  next
    assume z: "drop_bit (4 * k) v AND 0xF = 0"
    show "v AND push_bit (4 * k) 0xF = 0"
    proof (rule bit_eqI)
      fix i
      have "bit (drop_bit (4 * k) v AND 0xF) (i - 4 * k) = False" using z by simp
      then show "bit (v AND push_bit (4 * k) 0xF) i = bit (0 :: u32) i"
        by (auto simp: bit_simps b15)
    qed
  qed
  then show ?thesis
    using nibble_value [of k v] by (metis unat_0 unat_eq_zero)
qed

lemma hex_digit_char:
  fixes digit :: u32
  assumes "unat digit < 16"
  shows "scast ((if digit \<le> 9 then 0x30 + ucast digit else 0x61 + ucast digit - 10) :: u8) = char_int (digit_char False (unat digit))"
proof -
  have "\<forall>n \<in> set [0..<16]. scast ((if (of_nat n :: u32) \<le> 9 then 0x30 + ucast (of_nat n :: u32)
      else 0x61 + ucast (of_nat n :: u32) - 10) :: u8) = char_int (digit_char False n)"
    by code_simp
  moreover define n where "n = unat digit"
  have "digit = of_nat n" by (simp add: n_def)
  moreover have "n \<in> set [0..<16]" using assms by (simp add: n_def)
  ultimately show ?thesis unfolding n_def [symmetric] by blast
qed

lemma print_hex_spec:
  "k < 8 \<Longrightarrow> print_hex putchar v (4 * k) s
    = fold putchar (map (\<lambda>i. char_int (digit_char False (unat v div 16 ^ i mod 16))) (rev [0..<Suc k])) s"
proof (induction k arbitrary: s)
  case 0
  have "unat (v AND 0xF) = unat v mod 16" using nibble_value [of 0 v] by simp
  with hex_digit_char [of "v AND 0xF"] show ?case
    by (subst print_hex.simps) (simp add: alt_putchar_def)
next
  case (Suc k)
  have e: "unat (drop_bit (4 * Suc k) v AND 0xF) = unat v div 16 ^ Suc k mod 16"
    by (rule nibble_value)
  then have "unat (drop_bit (4 * Suc k) v AND 0xF) < 16" by simp
  note c = hex_digit_char [OF this]
  have "print_hex putchar v (4 * Suc k) s
      = print_hex putchar v (4 * k) (putchar (char_int (digit_char False (unat v div 16 ^ Suc k mod 16))) s)"
    by (subst print_hex.simps, unfold nibble Let_def c e alt_putchar_def) simp
  with Suc show ?case by simp
qed

lemma find_shift_spec:
  "k < 8 \<Longrightarrow> 0 < unat v \<Longrightarrow> unat v < 16 ^ Suc k \<Longrightarrow>
    \<exists>j. find_shift v (4 * k) = Some (4 * j) \<and> j < 8 \<and> length (digits 16 (unat v)) = Suc j"
proof (induction k)
  case 0
  then show ?case using nibble_zero [of 0 v]
    by (subst find_shift.simps) (simp add: digits_small)
next
  case (Suc k)
  let ?q = "unat v div 16 ^ Suc k"
  have q: "?q < 16" using Suc.prems(3) by (simp add: div_less_iff_less_mult)
  have z: "(v AND push_bit (4 * Suc k) 0xF \<noteq> 0) = (?q \<noteq> 0)"
    using nibble_zero [OF Suc.prems(1), of v] q by (simp only: mod_less)
  show ?case
  proof (cases "?q = 0")
    case True
    then have "unat v < 16 ^ Suc k" by (simp add: div_eq_0_iff)
    with z Suc.IH Suc.prems show ?thesis by (subst find_shift.simps) simp
  next
    case False
    then have "16 ^ Suc k \<le> unat v" by (metis div_less not_le)
    with digits_unique_length [of 16 "unat v" "Suc k"] Suc.prems(3) have "length (digits 16 (unat v)) = Suc (Suc k)" by simp
    moreover have "find_shift v (4 * Suc k) = Some (4 * Suc k)"
      using z False by (subst find_shift.simps) (simp only: if_True not_False_eq_True)
    ultimately show ?thesis using Suc.prems(1) by blast
  qed
qed

lemma hex_spec:
  assumes "v \<noteq> 0"
  shows "\<exists>sh. find_shift v 28 = Some sh \<and> print_hex putchar v sh s = fold putchar (hex_text (unat v)) s"
proof -
  have "0 < unat v" "unat v < 16 ^ Suc 7" using assms unat_lt_2p [of v] by (simp_all add: unat_gt_0)
  from find_shift_spec [OF _ this] obtain j where j: "find_shift v 28 = Some (4 * j)" "j < 8"
    "length (digits 16 (unat v)) = Suc j" by auto
  have "hex_text (unat v) = map (\<lambda>i. char_int (digit_char False (unat v div 16 ^ i mod 16))) (rev [0..<Suc j])"
    unfolding hex_text_def by (subst digits_positional) (simp_all add: j(3) o_def del: upt_Suc)
  with print_hex_spec [OF j(2), of putchar v s] j(1) show ?thesis by simp
qed

lemma hex_step:
  "v \<noteq> 0 \<Longrightarrow> (case find_shift v 28 of None \<Rightarrow> None | Some sh \<Rightarrow> f (print_hex putchar v sh s))
    = f (fold putchar (hex_text (unat v)) s)"
  using hex_spec [of v putchar s] by auto

lemma print_str_fold: "print_str putchar t s = fold putchar (map char_int t) s"
  by (simp add: print_str_def alt_putchar_def fold_map o_def)

lemma alt_printf_spec:
  "alt_printf putchar fmt args s = map_option (\<lambda>t. fold putchar t s) (printf_text fmt args)"
proof (induction fmt args arbitrary: s rule: printf_text.induct)
  case (3 c d w args)
  have z: "hex_text 0 = [0x30]" by code_simp
  show ?case
  proof (cases "c = CHR ''%''")
    case False
    with 3(1) show ?thesis by (simp add: alt_putchar_def option.map_comp o_def)
  next
    case True
    have IH: "directive d args = Some (t, rest) \<Longrightarrow>
        alt_printf putchar w rest s = map_option (\<lambda>t. fold putchar t s) (printf_text w rest)" for t rest s
      using 3(2) True by blast
    show ?thesis
      using True IH
      by (auto simp: alt_putchar_def print_str_fold option.map_comp o_def z hex_step
          split: list.splits va_arg.splits)
  qed
qed (simp_all add: alt_putchar_def)


subsection \<open>Properties\<close>

text \<open>C28. alt_printf prints exactly what the formatter says: for every format and every list of arguments the
  characters given to putchar, in order, are those of printf_text, and the call is defined exactly
  if every directive finds an argument of its type. An unknown directive prints nothing, and a
  percent sign at the end stops the output.\<close>

theorem alt_printf_text:
  "alt_printf putchar fmt args s = map_option (\<lambda>t. fold putchar t s) (printf_text fmt args)"
  by (rule alt_printf_spec)

text \<open>What \<open>%x\<close> prints reads back: it is the numeral of the argument to base 16 with lower-case digits,
  its value is the argument, it has no leading zero unless it is the single digit of 0, and at
  most eight digits.\<close>

theorem hex_roundtrip:
  "\<exists>ds. alt_printf (\<lambda>c out. out @ [c]) ''%x'' [Va_word v] [] = Some (map (\<lambda>d. char_int (digit_char False d)) ds)
     \<and> numeral_value 16 ds = unat v \<and> (v \<noteq> 0 \<longrightarrow> hd ds \<noteq> 0) \<and> (v = 0 \<longrightarrow> ds = [0])
     \<and> length ds \<le> 8 \<and> (\<forall>d \<in> set ds. d < 16)"
proof -
  let ?ds = "digits 16 (unat v)"
  have out: "fold (\<lambda>c out. out @ [c]) t a = a @ t" for t a :: "u32 list"
    by (induction t arbitrary: a) simp_all
  have "length ?ds \<le> 8"
  proof (rule ccontr)
    assume "\<not> length ?ds \<le> 8"
    then have "(16 :: nat) ^ 8 \<le> 16 ^ (length ?ds - 1)" by (intro power_increasing) simp_all
    moreover have "0 < unat v"
    proof (rule ccontr)
      assume "\<not> 0 < unat v"
      then have "length ?ds = 1" by (simp add: digits_small)
      with \<open>\<not> length ?ds \<le> 8\<close> show False by simp
    qed
    ultimately show False using digits_bounds [of 16 "unat v"] unat_lt_2p [of v] by simp
  qed
  moreover have "alt_printf (\<lambda>c out. out @ [c]) ''%x'' [Va_word v] [] = Some (map (\<lambda>d. char_int (digit_char False d)) ?ds)"
    unfolding alt_printf_spec by (simp add: out hex_text_def)
  moreover have "v = 0 \<longrightarrow> ?ds = [0]" by (simp add: digits_small)
  moreover have "v \<noteq> 0 \<longrightarrow> hd ?ds \<noteq> 0" using no_leading_zero [of 16 "unat v"] by (simp add: unat_gt_0)
  ultimately show ?thesis
    using value_digits [of 16 "unat v"] digits_range [of 16 _ "unat v"] by (intro exI [of _ ?ds] conjI) simp_all
qed

lemma hex_roundtrip_witness:
  "\<exists>ds. alt_printf (\<lambda>c out. out @ [c]) ''%x'' [Va_word 0xBEEF] [] = Some (map (\<lambda>d. char_int (digit_char False d)) ds)
     \<and> numeral_value 16 ds = 0xBEEF"
  using hex_roundtrip [of "0xBEEF"] by auto

end
