(* ===== verification/LogPrintf.thy ===== *)
theory LogPrintf
  imports Printf JtagUart
begin

text \<open>
  \<open>alt_log_printf.c\<close>, the logging facility of the HAL: its own formatted output (a state machine over
  the format string), which waits for the JTAG UART to have room and writes to its data register,
  and the functions that the logging macros call. The port is the JTAG UART (\<open>ALT_LOG_PORT_TYPE\<close>).
  \<open>None\<close>: the port never has room, or an argument is missing or of the wrong type. Field widths
  are unbounded integers: in C a width above \<open>INT_MAX\<close> overflows.
\<close>

subsection \<open>The port\<close>

partial_function (option) alt_log_txchar :: "'d bus \<Rightarrow> u32 \<Rightarrow> u32 \<Rightarrow> 'd world \<Rightarrow> 'd world option" where
  "alt_log_txchar b c bs w =
     (let (v, w) = IORD b bs 1 w
      in if v AND JTAG_WSPACE_MSK = 0 then alt_log_txchar b c bs w else Some (IOWR b bs 0 c w))"

declare alt_log_txchar.simps [code]

fun alt_log_repchar :: "'d bus \<Rightarrow> char \<Rightarrow> nat \<Rightarrow> u32 \<Rightarrow> 'd world \<Rightarrow> 'd world option" where
  "alt_log_repchar b c 0 bs w = Some w"
| "alt_log_repchar b c (Suc r) bs w = do { w \<leftarrow> alt_log_txchar b (char_int c) bs w; alt_log_repchar b c r bs w }"

subsection \<open>The state machine\<close>

datatype pf_state = Pf_chars | Pf_firstFmtChar | Pf_otherFmtChar

record fmt_state =
  pf :: pf_state
  fmtLeadingZero :: bool
  fmtLong :: bool
  fmtBeforeDecimal :: int
  fmtAfterDecimal :: int
  fmtBase :: u32
  fmtSigned :: bool
  fmtCase :: bool

definition fmt_start :: fmt_state where
  "fmt_start = \<lparr>pf = Pf_chars, fmtLeadingZero = False, fmtLong = False, fmtBeforeDecimal = 0,
     fmtAfterDecimal = 0, fmtBase = 0, fmtSigned = False, fmtCase = False\<rparr>"

text \<open>\<open>while ((vShrink = vShrink / fmtBase) > 0)\<close>: the largest place value and the number of digits.\<close>

partial_function (option) count_digits :: "u32 \<Rightarrow> u32 \<Rightarrow> u32 \<Rightarrow> int \<Rightarrow> (u32 \<times> int) option" where
  "count_digits bas vShrink p digitCount =
     (if vShrink div bas > 0 then count_digits bas (vShrink div bas) (p * bas) (digitCount + 1)
      else Some (p, digitCount))"

text \<open>\<open>while (p)\<close>: the digits.\<close>

partial_function (option) print_digits ::
  "'d bus \<Rightarrow> u32 \<Rightarrow> bool \<Rightarrow> u32 \<Rightarrow> u32 \<Rightarrow> u32 \<Rightarrow> 'd world \<Rightarrow> 'd world option" where
  "print_digits b bs upper bas v p w =
     (if p = 0 then Some w
      else do {
        let d = (ucast (v div p) + 0x30 :: u8);
        let d = (if d > 0x39 then d + (if upper then 0x41 else 0x61) - 0x30 - 10 else d);
        w \<leftarrow> alt_log_txchar b (ucast d) bs w;
        print_digits b bs upper bas (v mod p) (p div bas) w })"

declare count_digits.simps [code] print_digits.simps [code]

definition print_integer :: "'d bus \<Rightarrow> u32 \<Rightarrow> fmt_state \<Rightarrow> u32 \<Rightarrow> 'd world \<Rightarrow> 'd world option" where
  "print_integer b bs st v w = do {
     let sign = fmtSigned st \<and> v AND 0x80000000 \<noteq> 0;
     let v = (if sign then NOT v + 1 else v);
     (p, digitCount) \<leftarrow> count_digits (fmtBase st) v 1 1;
     let before = fmtBeforeDecimal st - digitCount;
     w \<leftarrow> (if fmtLeadingZero st
          then do {
            w \<leftarrow> (if sign then alt_log_txchar b (char_int (CHR ''-'')) bs w else Some w);
            alt_log_repchar b (CHR ''0'') (nat (if sign then before - 1 else before)) bs w }
          else do {
            w \<leftarrow> alt_log_repchar b (CHR '' '') (nat (if sign then before - 1 else before)) bs w;
            if sign then alt_log_txchar b (char_int (CHR ''-'')) bs w else Some w });
     print_digits b bs (fmtCase st) (fmtBase st) v p w }"

text \<open>The letter that ends a directive.\<close>

definition conversion ::
  "'d bus \<Rightarrow> u32 \<Rightarrow> fmt_state \<Rightarrow> char \<Rightarrow> va_arg list \<Rightarrow> 'd world \<Rightarrow> (va_arg list \<times> 'd world) option" where
  "conversion b bs st c args w =
     (if c \<in> {CHR ''d'', CHR ''i'', CHR ''u'', CHR ''o'', CHR ''x'', CHR ''X''}
      then (let st = (if c \<in> {CHR ''d'', CHR ''i''} then st
                      else if c = CHR ''u'' then st\<lparr>fmtSigned := False\<rparr>
                      else if c = CHR ''o'' then st\<lparr>fmtSigned := False, fmtBase := 8\<rparr>
                      else if c = CHR ''x'' then st\<lparr>fmtSigned := False, fmtBase := 16\<rparr>
                      else st\<lparr>fmtSigned := False, fmtBase := 16, fmtCase := True\<rparr>)
            in case args of
                 Va_word v # args \<Rightarrow> map_option (Pair args) (print_integer b bs st v w)
               | _ \<Rightarrow> None)
      else if c = CHR ''c''
      then do {
        w \<leftarrow> alt_log_repchar b (CHR '' '') (nat (fmtBeforeDecimal st - 1)) bs w;
        case args of
          Va_word v # args \<Rightarrow> map_option (Pair args) (alt_log_txchar b v bs w)
        | _ \<Rightarrow> None }
      else if c = CHR ''s''
      then (case args of
              Va_str s # args \<Rightarrow> do {
                w \<leftarrow> alt_log_repchar b (CHR '' '') (nat (fmtBeforeDecimal st - int (length s))) bs w;
                w \<leftarrow> fold (\<lambda>c w. Option.bind w (alt_log_txchar b (char_int c) bs)) s (Some w);
                Some (args, w) }
            | _ \<Rightarrow> None)
      else Some (args, w))"

text \<open>The case \<open>pfState_otherFmtChar\<close>.\<close>

definition other_fmt_char ::
  "'d bus \<Rightarrow> u32 \<Rightarrow> fmt_state \<Rightarrow> char \<Rightarrow> va_arg list \<Rightarrow> 'd world \<Rightarrow> (fmt_state \<times> va_arg list \<times> 'd world) option" where
  "other_fmt_char b bs st c args w =
     (if c = CHR ''.'' then Some (st\<lparr>fmtAfterDecimal := 0\<rparr>, args, w)
      else if of_char c \<ge> (48 :: nat) \<and> of_char c \<le> (57 :: nat)
      then (let d = (of_char c - 48 :: int)
            in Some (if fmtAfterDecimal st < 0
                     then st\<lparr>fmtBeforeDecimal := (if fmtBeforeDecimal st < 0 then 0 else fmtBeforeDecimal st * 10) + d\<rparr>
                     else st\<lparr>fmtAfterDecimal := fmtAfterDecimal st * 10 + d\<rparr>, args, w))
      else if c = CHR ''l'' then Some (st\<lparr>fmtLong := True\<rparr>, args, w)
      else map_option (Pair (st\<lparr>pf := Pf_chars\<rparr>)) (conversion b bs st c args w))"

definition log_char ::
  "'d bus \<Rightarrow> u32 \<Rightarrow> fmt_state \<Rightarrow> char \<Rightarrow> va_arg list \<Rightarrow> 'd world \<Rightarrow> (fmt_state \<times> va_arg list \<times> 'd world) option" where
  "log_char b bs st c args w =
     (case pf st of
        Pf_chars \<Rightarrow>
          (if c = CHR ''%''
           then Some (st\<lparr>fmtLeadingZero := False, fmtLong := False, fmtBase := 10, fmtSigned := True,
                        fmtCase := False, fmtBeforeDecimal := - 1, fmtAfterDecimal := - 1,
                        pf := Pf_firstFmtChar\<rparr>, args, w)
           else map_option (\<lambda>w. (st, args, w)) (alt_log_txchar b (char_int c) bs w))
      | Pf_firstFmtChar \<Rightarrow>
          (if c = CHR ''0'' then Some (st\<lparr>fmtLeadingZero := True, pf := Pf_otherFmtChar\<rparr>, args, w)
           else if c = CHR ''%''
           then map_option (\<lambda>w. (st\<lparr>pf := Pf_chars\<rparr>, args, w)) (alt_log_txchar b (char_int c) bs w)
           else other_fmt_char b bs (st\<lparr>pf := Pf_otherFmtChar\<rparr>) c args w)
      | Pf_otherFmtChar \<Rightarrow> other_fmt_char b bs st c args w)"

fun log_chars :: "'d bus \<Rightarrow> u32 \<Rightarrow> fmt_state \<Rightarrow> string \<Rightarrow> va_arg list \<Rightarrow> 'd world \<Rightarrow> 'd world option" where
  "log_chars b bs st [] args w = Some w"
| "log_chars b bs st (c # cs) args w = do {
     (st, args, w) \<leftarrow> log_char b bs st c args w;
     log_chars b bs st cs args w }"

definition alt_log_private_printf :: "'d bus \<Rightarrow> string \<Rightarrow> u32 \<Rightarrow> va_arg list \<Rightarrow> 'd world \<Rightarrow> 'd world option" where
  "alt_log_private_printf b fmt bs args w = log_chars b bs fmt_start fmt args w"

definition alt_log_printf_proc :: "'d bus \<Rightarrow> u32 \<Rightarrow> string \<Rightarrow> va_arg list \<Rightarrow> 'd world \<Rightarrow> (int \<times> 'd world) option" where
  "alt_log_printf_proc b port fmt args w = map_option (Pair 0) (alt_log_private_printf b fmt port args w)"


subsection \<open>What the logging macros call\<close>

definition ALT_LOG_WRITE_ECHO_LEN :: nat where "ALT_LOG_WRITE_ECHO_LEN = 15"
definition ALT_LOG_JTAG_UART_TICKS_DIVISOR :: u32 where "ALT_LOG_JTAG_UART_TICKS_DIVISOR = 10"

record log_state =
  log_write_on :: bool
  log_sys_clk_on :: bool
  log_alarm_on :: bool
  log_isr_on :: bool
  sys_clk_count :: u32
  clock_in_sec :: u32
  log_write_buf :: string

abbreviation crlf :: string where "crlf \<equiv> [CHR 0x0D, CHR 0x0A]"

text \<open>The control register of the JTAG UART, field by field.\<close>

definition print_control_reg :: "'d bus \<Rightarrow> u32 \<Rightarrow> jtag_state \<Rightarrow> u32 \<Rightarrow> string \<Rightarrow> 'd world \<Rightarrow> 'd world option" where
  "print_control_reg b port j bs header w =
     (let (control, w) = IORD b bs 1 w;
          space = drop_bit 16 (control AND JTAG_WSPACE_MSK);
          we = drop_bit 1 (control AND JTAG_WE_MSK);
          re = drop_bit 0 (control AND JTAG_RE_MSK);
          ri = drop_bit 8 (control AND JTAG_RI_MSK);
          wi = drop_bit 9 (control AND JTAG_WI_MSK);
          ac = drop_bit 10 (control AND JTAG_AC_MSK)
      in map_option snd (alt_log_printf_proc b port
           (''%s SW CirBuf = %d, HW FIFO wspace=%d AC=%d WI=%d RI=%d WE=%d RE=%d'' @ crlf)
           [Va_str header, Va_word (of_nat (tx_out j) - of_nat (tx_in j)), Va_word space, Va_word ac, Va_word wi,
            Va_word ri, Va_word we, Va_word re] w))"

text \<open>The alarm's routine; the result is the number of ticks to the next call.\<close>

definition jtag_uart_report_log ::
  "'d bus \<Rightarrow> u32 \<Rightarrow> u32 \<Rightarrow> log_state \<Rightarrow> jtag_state \<Rightarrow> 'd world \<Rightarrow> (u32 \<times> 'd world) option" where
  "jtag_uart_report_log b port ticks l j w =
     (if log_alarm_on l
      then map_option (Pair (ticks div ALT_LOG_JTAG_UART_TICKS_DIVISOR)) (print_control_reg b port j (jbase j) ''JTAG Alarm:'' w)
      else Some (0, w))"

definition log_startup_info :: "'d bus \<Rightarrow> u32 \<Rightarrow> jtag_state \<Rightarrow> u32 \<Rightarrow> 'd world \<Rightarrow> 'd world option" where
  "log_startup_info b port j bs w = print_control_reg b port j bs ''JTAG Startup Info:'' w"

definition log_isr_proc :: "'d bus \<Rightarrow> u32 \<Rightarrow> log_state \<Rightarrow> u32 \<Rightarrow> jtag_state \<Rightarrow> 'd world \<Rightarrow> 'd world option" where
  "log_isr_proc b port l bs j w =
     (if log_isr_on l then print_control_reg b port j bs ''JTAG IRQ:'' w else Some w)"

text \<open>The C library's \<open>strncpy\<close>: up to the terminator, then zeros.\<close>

definition strncpy :: "nat \<Rightarrow> string \<Rightarrow> string" where
  "strncpy n src = (let t = takeWhile (\<lambda>c. c \<noteq> CHR 0x00) (take n src) in t @ replicate (n - length t) (CHR 0x00))"

fun escape_ctrl_d :: "nat \<Rightarrow> string \<Rightarrow> string" where
  "escape_ctrl_d 0 buf = buf"
| "escape_ctrl_d (Suc n) buf =
     (let buf = escape_ctrl_d n buf in if buf ! n = CHR 0x04 then buf[n := CHR ''D''] else buf)"

text \<open>\<open>data\<close> are the \<open>len\<close> bytes written; a zero in them ends what is printed.\<close>

definition alt_log_write :: "'d bus \<Rightarrow> u32 \<Rightarrow> string \<Rightarrow> log_state \<Rightarrow> 'd world \<Rightarrow> (log_state \<times> 'd world) option" where
  "alt_log_write b port data l w =
     (if log_write_on l
      then (let len = (if ALT_LOG_WRITE_ECHO_LEN > length data then length data else ALT_LOG_WRITE_ECHO_LEN)
            in if len < 2 then Some (l, w)
               else (let buf = strncpy len data @ drop len (log_write_buf l);
                         buf = buf[len - 1 := CHR 0x0A];
                         buf = buf[len := CHR 0x0D];
                         buf = buf[len + 1 := CHR 0x00];
                         buf = escape_ctrl_d len buf
                     in map_option (\<lambda>(_, w). (l\<lparr>log_write_buf := buf\<rparr>, w))
                          (alt_log_printf_proc b port ''Write Echo: %s'' [Va_str (takeWhile (\<lambda>c. c \<noteq> CHR 0x00) buf)] w)))
      else Some (l, w))"

text \<open>\<open>ticks\<close> is the number of ticks in a second; the comparison is unsigned.\<close>

definition alt_log_system_clock :: "'d bus \<Rightarrow> u32 \<Rightarrow> u32 \<Rightarrow> log_state \<Rightarrow> 'd world \<Rightarrow> (log_state \<times> 'd world) option" where
  "alt_log_system_clock b port ticks l w =
     (if log_sys_clk_on l
      then (let l = l\<lparr>sys_clk_count := sys_clk_count l + 1\<rparr>
            in if sys_clk_count l > ticks
               then (let l = l\<lparr>sys_clk_count := 0\<rparr>
                     in map_option (\<lambda>(_, w). (l\<lparr>clock_in_sec := clock_in_sec l + 1\<rparr>, w))
                          (alt_log_printf_proc b port (''System Clock On %u'' @ crlf) [Va_word (clock_in_sec l)] w))
               else Some (l, w))
      else Some (l, w))"

end
