(* ===== verification/LogProps.thy ===== *)
theory LogProps
  imports LogPrintf JtagProps
begin

text \<open>
  The logging facility against a reference that parses a format and lays out its fields as a
  whole (\<open>log_text\<close>), the echo of a write, and the period of the clock message.
\<close>

subsection \<open>The reference\<close>

fun send :: "'d bus \<Rightarrow> u32 \<Rightarrow> u32 list \<Rightarrow> 'd world \<Rightarrow> 'd world option" where
  "send b bs [] w = Some w"
| "send b bs (c # cs) w = Option.bind (alt_log_txchar b c bs w) (send b bs cs)"

definition is_digit :: "char \<Rightarrow> bool" where
  "is_digit c \<longleftrightarrow> of_char c \<ge> (48 :: nat) \<and> of_char c \<le> (57 :: nat)"

definition is_flag :: "char \<Rightarrow> bool" where
  "is_flag c \<longleftrightarrow> c = CHR ''.'' \<or> is_digit c \<or> c = CHR ''l''"

text \<open>The width of a field: the number before the point, or -1 if there is none.\<close>

definition width :: "string \<Rightarrow> int" where
  "width fl = (let ds = filter is_digit (takeWhile (\<lambda>c. c \<noteq> CHR ''.'') fl)
     in if ds = [] then - 1 else int (numeral_value 10 (map (\<lambda>c. of_char c - 48) ds)))"

definition padding :: "char \<Rightarrow> int \<Rightarrow> u32 list" where
  "padding c n = replicate (nat n) (char_int c)"

text \<open>A number right-aligned in its field, with the sign before zeros and after blanks.\<close>

definition number_text :: "bool \<Rightarrow> int \<Rightarrow> nat \<Rightarrow> bool \<Rightarrow> int \<Rightarrow> u32 list" where
  "number_text zero wd base upper k =
     (let ds = map (\<lambda>d. char_int (digit_char upper d)) (digits base (nat \<bar>k\<bar>));
          sg = (if k < 0 then [char_int (CHR ''-'')] else []);
          n = wd - int (length ds) - int (length sg)
      in if zero then sg @ padding (CHR ''0'') n @ ds else padding (CHR '' '') n @ sg @ ds)"

definition field :: "bool \<Rightarrow> int \<Rightarrow> char \<Rightarrow> va_arg list \<Rightarrow> (u32 list \<times> va_arg list) option" where
  "field zero wd l args =
     (if l \<in> {CHR ''d'', CHR ''i'', CHR ''u'', CHR ''o'', CHR ''x'', CHR ''X''}
      then (case args of
              Va_word v # rest \<Rightarrow>
                Some (number_text zero wd
                        (if l = CHR ''o'' then 8 else if l \<in> {CHR ''x'', CHR ''X''} then 16 else 10)
                        (l = CHR ''X'') (if l \<in> {CHR ''d'', CHR ''i''} then sint v else uint v), rest)
            | _ \<Rightarrow> None)
      else if l = CHR ''c''
      then (case args of Va_word v # rest \<Rightarrow> Some (padding (CHR '' '') (wd - 1) @ [v], rest) | _ \<Rightarrow> None)
      else if l = CHR ''s''
      then (case args of
              Va_str t # rest \<Rightarrow> Some (padding (CHR '' '') (wd - int (length t)) @ map char_int t, rest)
            | _ \<Rightarrow> None)
      else Some ([], args))"

lemma drop_shorter: "dropWhile P xs = l # ls \<Longrightarrow> length ls < length xs"
  by (metis Suc_le_lessD length_Cons length_dropWhile_le)

function log_text :: "string \<Rightarrow> va_arg list \<Rightarrow> u32 list option" where
  "log_text [] args = Some []"
| "log_text (c # cs) args =
     (if c \<noteq> CHR ''%'' then map_option ((#) (char_int c)) (log_text cs args)
      else (case cs of
              [] \<Rightarrow> Some []
            | d # ds \<Rightarrow>
                if d = CHR ''%'' then map_option ((#) (char_int d)) (log_text ds args)
                else (let rest = (if d = CHR ''0'' then ds else cs)
                      in case dropWhile is_flag rest of
                           [] \<Rightarrow> Some []
                         | l # ls \<Rightarrow>
                             Option.bind (field (d = CHR ''0'') (width (takeWhile is_flag rest)) l args)
                               (\<lambda>(t, args). map_option ((@) t) (log_text ls args)))))"
  by pat_completeness auto

termination
  by (relation "measure (\<lambda>(cs, args). length cs)") (auto dest: drop_shorter split: if_splits)

subsection \<open>Numbers\<close>

lemma send_append: "send b bs (t @ u) w = Option.bind (send b bs t w) (send b bs u)"
  by (induction t arbitrary: w) (auto simp: bind_eq_Some_conv split: Option.bind_splits)

lemma repchar_send: "alt_log_repchar b c n bs w = send b bs (replicate n (char_int c)) w"
  by (induction n arbitrary: w) (auto cong: Option.bind_cong)

lemma str_send: "fold (\<lambda>c w. Option.bind w (alt_log_txchar b (char_int c) bs)) t (Some w) = send b bs (map char_int t) w"
proof -
  have none: "fold (\<lambda>c w. Option.bind w (alt_log_txchar b (char_int c) bs)) t None = None" for t
    by (induction t) simp_all
  show ?thesis
    by (induction t arbitrary: w) (auto simp: none split: Option.bind_splits)
qed

lemma count_digits_spec:
  assumes "2 \<le> unat bas"
  shows "count_digits bas v p n
    = Some (p * bas ^ (length (digits (unat bas) (unat v)) - 1), n + int (length (digits (unat bas) (unat v))) - 1)"
proof -
  have "\<forall>v p n. unat v = k \<longrightarrow> count_digits bas v p n
    = Some (p * bas ^ (length (digits (unat bas) k) - 1), n + int (length (digits (unat bas) k)) - 1)" for k
    using assms
  proof (induction k rule: digits_induct)
    case (small k)
    then show ?case
      by (intro allI impI, subst count_digits.simps)
         (simp add: digits_small word_less_nat_alt unat_div)
  next
    case (step k)
    have pos: "0 < k div unat bas" using step(1) assms by (simp add: div_greater_zero_iff)
    have l: "length (digits (unat bas) k) = Suc (length (digits (unat bas) (k div unat bas)))"
      using digits_step [OF assms step(1)] by simp
    show ?case
    proof (intro allI impI)
      fix v p :: u32 and n
      assume v: "unat v = k"
      then have "0 < v div bas" "unat (v div bas) = k div unat bas" using pos by (simp_all add: word_less_nat_alt unat_div)
      with step(2) have "count_digits bas v p n = Some (p * bas * bas ^ (length (digits (unat bas) (k div unat bas)) - 1),
          n + 1 + int (length (digits (unat bas) (k div unat bas))) - 1)"
        by (subst count_digits.simps) simp
      moreover have "bas * bas ^ (length (digits (unat bas) (k div unat bas)) - 1) = bas ^ (length (digits (unat bas) k) - 1)"
        using l digits_length_pos [of "unat bas" "k div unat bas"] by (simp add: power_eq_if)
      ultimately show "count_digits bas v p n
        = Some (p * bas ^ (length (digits (unat bas) k) - 1), n + int (length (digits (unat bas) k)) - 1)"
        using l by (simp add: mult.assoc)
    qed
  qed
  then show ?thesis by blast
qed

lemma digit_byte:
  assumes "n < 16"
  shows "ucast (let d = (ucast (of_nat n :: u32) + 0x30 :: u8)
    in if d > 0x39 then d + (if up then 0x41 else 0x61) - 0x30 - 10 else d) = char_int (digit_char up n)"
proof -
  have "\<forall>n \<in> set [0..<16]. \<forall>up \<in> set [False, True]. ucast (let d = (ucast (of_nat n :: u32) + 0x30 :: u8)
    in if d > 0x39 then d + (if up then 0x41 else 0x61) - 0x30 - 10 else d) = char_int (digit_char up n)"
    by code_simp
  moreover have "n \<in> set [0..<16]" "up \<in> set [False, True]" using assms by auto
  ultimately show ?thesis by blast
qed

lemma low_digits:
  fixes x B :: nat
  assumes "i < k" "0 < B"
  shows "x mod B ^ k div B ^ i mod B = x div B ^ i mod B"
proof -
  have k: "B ^ k = B ^ i * B ^ (k - i)" using assms(1) by (simp add: power_add [symmetric])
  have "x mod B ^ k div B ^ i = x div B ^ i mod B ^ (k - i)"
    unfolding k mod_mult2_eq using assms(2) by simp
  moreover have "B dvd B ^ (k - i)" using assms(1) by (simp add: dvd_power)
  ultimately show ?thesis by (simp add: mod_mod_cancel)
qed

lemma print_digits_spec:
  assumes "2 \<le> unat bas" "unat bas \<le> 16"
  shows "unat p = unat bas ^ k \<Longrightarrow> unat v < unat bas ^ Suc k \<Longrightarrow>
    print_digits b bs up bas v p w
      = send b bs (map (\<lambda>i. char_int (digit_char up (unat v div unat bas ^ i mod unat bas))) (rev [0..<Suc k])) w"
proof (induction k arbitrary: v p w)
  case 0
  let ?n = "unat v"
  have p: "p = 1" using 0 by (simp add: word_unat_eq_iff)
  have n: "?n < 16" "?n mod unat bas = ?n" using 0 assms by simp_all
  have "unat (p div bas) = 0" unfolding unat_div p using assms(1) by simp
  then have z: "p div bas = 0" by (simp only: unat_eq_zero)
  have stop: "print_digits b bs up bas (v mod p) (p div bas) w = Some w" for w
    unfolding z by (subst print_digits.simps) simp
  show ?case
    using digit_byte [OF n(1), of up] n(2) stop
    by (subst print_digits.simps) (simp add: p Let_def cong: Option.bind_cong)
next
  case (Suc k)
  let ?B = "unat bas"
  let ?n = "unat v div ?B ^ Suc k"
  have B: "0 < ?B" using assms by simp
  have p0: "p \<noteq> 0" using Suc.prems(1) B by (metis power_eq_0_iff unat_0 less_irrefl)
  have n: "?n < ?B" using Suc.prems(2) B by (simp add: div_less_iff_less_mult mult.commute)
  then have n16: "?n < 16" using assms(2) by simp
  have "unat (v div p) = ?n" unfolding unat_div Suc.prems(1) ..
  then have q: "v div p = of_nat ?n" by (metis of_nat_unat ucast_id)
  have rest: "unat (v mod p) = unat v mod ?B ^ Suc k" "unat (p div bas) = ?B ^ k"
    using Suc.prems(1) B by (simp_all add: unat_mod unat_div)
  have lt: "unat (v mod p) < ?B ^ Suc k" using rest(1) B by simp
  note IH = Suc.IH [OF rest(2) lt]
  have low: "map (\<lambda>i. char_int (digit_char up (unat (v mod p) div ?B ^ i mod ?B))) (rev [0..<Suc k])
      = map (\<lambda>i. char_int (digit_char up (unat v div ?B ^ i mod ?B))) (rev [0..<Suc k])"
    unfolding rest(1) using low_digits [of _ "Suc k" ?B "unat v"] B by simp
  have "print_digits b bs up bas v p w
      = Option.bind (alt_log_txchar b (char_int (digit_char up ?n)) bs w)
          (print_digits b bs up bas (v mod p) (p div bas))"
    unfolding digit_byte [OF n16, of up, symmetric] q [symmetric]
    by (subst print_digits.simps) (simp add: p0 Let_def)
  also have "\<dots> = send b bs (char_int (digit_char up ?n) # map (\<lambda>i. char_int (digit_char up (unat v div ?B ^ i mod ?B))) (rev [0..<Suc k])) w"
    using IH low by (simp cong: Option.bind_cong del: upt_Suc)
  finally show ?case using n by simp
qed

lemma sign_bit: "v AND 0x80000000 \<noteq> 0 \<longleftrightarrow> sint v < 0" for v :: u32
proof -
  have "v AND 0x80000000 \<noteq> 0 \<longleftrightarrow> bit v 31"
    using bit_iff_and_push_bit_not_eq_0 [of v 31] by simp
  also have "\<dots> \<longleftrightarrow> sint v < 0" using bit_last_iff [of v] by simp
  finally show ?thesis .
qed

lemma magnitude: "sint v < 0 \<Longrightarrow> int (unat (- v)) = - sint v" for v :: u32
proof -
  assume neg: "sint v < 0"
  then have u: "sint v = uint v - 4294967296" using unat_lt_2p [of v] by (simp add: sint32_conv split: if_splits)
  have "\<not> v < 0x80000000" using neg by (auto simp: sint32_conv split: if_splits)
  then have "2147483648 \<le> uint v" by (simp add: word_less_def)
  moreover have "uint v < 4294967296" using uint_lt2p [of v] by simp
  ultimately have "0 \<le> 4294967296 - uint v" "4294967296 - uint v < 4294967296" by linarith+
  then have a: "(4294967296 - uint v) mod 4294967296 = 4294967296 - uint v" by (rule mod_pos_pos_trivial)
  have "uint (- v) = (- uint v) mod 4294967296" by (simp add: uint_word_ariths)
  also have "\<dots> = (4294967296 - uint v) mod 4294967296" by (simp add: mod_diff_left_eq [symmetric, of 4294967296])
  finally have "uint (- v) = 4294967296 - uint v" unfolding a .
  with u show ?thesis by simp
qed

lemma print_integer_spec:
  assumes "2 \<le> unat (fmtBase st)" "unat (fmtBase st) \<le> 16"
  shows "print_integer b bs st v w = send b bs (number_text (fmtLeadingZero st) (fmtBeforeDecimal st)
    (unat (fmtBase st)) (fmtCase st) (if fmtSigned st then sint v else uint v)) w"
proof -
  let ?B = "unat (fmtBase st)"
  define k where "k = (if fmtSigned st then sint v else uint v)"
  define m where "m = (if fmtSigned st \<and> v AND 0x80000000 \<noteq> 0 then NOT v + 1 else v)"
  have neg: "(fmtSigned st \<and> v AND 0x80000000 \<noteq> 0) = (k < 0)"
    by (simp add: sign_bit k_def)
  have m: "unat m = nat \<bar>k\<bar>"
  proof (cases "k < 0")
    case True
    then have "fmtSigned st" "sint v < 0" by (auto simp: k_def split: if_splits)
    with magnitude [of v] sign_bit [of v] have "int (unat m) = - k"
      by (simp only: m_def k_def minus_eq_not_plus_1 [symmetric] if_True simp_thms)
    then have "unat m = nat (- k)" by (metis nat_int)
    with True show ?thesis by simp
  next
    case False
    with neg have "m = v" by (auto simp: m_def)
    moreover have "int (unat v) = k" using False neg sign_bit [of v] unat_lt_2p [of v]
      by (auto simp: k_def sint32_conv split: if_splits)
    ultimately show ?thesis using False by (metis abs_of_nonneg nat_int not_less)
  qed
  define L where "L = length (digits ?B (unat m))"
  have L: "0 < L" unfolding L_def by (rule digits_length_pos)
  have cd: "count_digits (fmtBase st) m 1 1 = Some (fmtBase st ^ (L - 1), int L)"
    using count_digits_spec [OF assms(1), of m 1 1] by (simp add: L_def)
  have b1: "?B ^ (L - 1) \<le> unat m \<or> L = 1"
    using digits_bounds [OF assms(1), of "unat m"] digits_small [of 0 ?B] assms(1) by (cases "unat m = 0") (simp_all add: L_def)
  have p: "unat (fmtBase st ^ (L - 1)) = ?B ^ (L - 1)"
  proof -
    have "?B ^ (L - 1) < 2 ^ 32" using b1 unat_lt_2p [of m] by auto
    moreover have "fmtBase st ^ (L - 1) = of_nat (?B ^ (L - 1))" by (simp add: of_nat_power)
    then have "unat (fmtBase st ^ (L - 1)) = ?B ^ (L - 1) mod 2 ^ 32" by (simp only: unat_of_nat len_bit0 len_num1) simp
    ultimately show ?thesis by simp
  qed
  have ms: "unat m < ?B ^ Suc (L - 1)" using digits_bounds [OF assms(1), of "unat m"] L by (simp add: L_def)
  have ds: "map (\<lambda>i. char_int (digit_char (fmtCase st) (unat m div ?B ^ i mod ?B))) (rev [0..<Suc (L - 1)])
      = map (\<lambda>d. char_int (digit_char (fmtCase st) d)) (digits ?B (unat m))"
    using L by (subst digits_positional [OF assms(1)]) (simp add: o_def L_def [symmetric] del: upt_Suc)
  have pd: "print_digits b bs (fmtCase st) (fmtBase st) m (fmtBase st ^ (L - Suc 0))
      = send b bs (map (\<lambda>d. char_int (digit_char (fmtCase st) d)) (digits ?B (unat m)))"
    by (rule ext) (simp only: One_nat_def [symmetric] print_digits_spec [OF assms p ms] ds)
  show ?thesis
    unfolding k_def [symmetric]
    by (simp add: print_integer_def neg m_def [symmetric, unfolded neg] cd pd Let_def number_text_def m [symmetric] L_def [symmetric]
        padding_def repchar_send send_append algebra_simps cong: Option.bind_cong)
qed


subsection \<open>Formats\<close>

text \<open>The state in the middle of a directive.\<close>

definition in_directive :: "fmt_state \<Rightarrow> bool" where
  "in_directive st \<longleftrightarrow> pf st = Pf_otherFmtChar \<and> fmtBase st = 10 \<and> fmtSigned st \<and> \<not> fmtCase st"

lemma conversion_spec:
  assumes "in_directive st"
  shows "conversion b bs st c args w
    = Option.bind (field (fmtLeadingZero st) (fmtBeforeDecimal st) c args) (\<lambda>(t, args). map_option (Pair args) (send b bs t w))"
  using assms
  by (simp add: conversion_def field_def in_directive_def print_integer_spec padding_def repchar_send str_send send_append
      split: list.splits va_arg.splits cong: Option.bind_cong)
     (auto simp: map_conv_bind_option split: list.splits va_arg.splits Option.bind_splits)

fun flag_step :: "int \<times> int \<Rightarrow> char \<Rightarrow> int \<times> int" where
  "flag_step (before, after) c =
     (if c = CHR ''.'' then (before, 0)
      else if is_digit c
      then (if after < 0 then ((if before < 0 then 0 else before * 10) + (of_char c - 48), after)
            else (before, after * 10 + (of_char c - 48)))
      else (before, after))"

declare flag_step.simps [simp del]

lemma digit_pos: "is_digit c \<Longrightarrow> 0 \<le> (of_char c - 48 :: int)"
  by (simp add: is_digit_def) (metis of_nat_le_iff of_nat_numeral of_nat_of_char)

lemma flag_step_after:
  "0 \<le> after \<Longrightarrow> fst (foldl flag_step (before, after) fl) = before"
proof (induction fl arbitrary: after)
  case (Cons c fl)
  have "fst (flag_step (before, after) c) = before" "0 \<le> snd (flag_step (before, after) c)"
    using Cons.prems digit_pos [of c] by (simp_all add: flag_step.simps)
  then obtain a where "flag_step (before, after) c = (before, a)" "0 \<le> a"
    by (cases "flag_step (before, after) c") simp
  with Cons.IH show ?case by simp
qed simp

lemma step_digit:
  assumes "is_digit c" "c \<noteq> CHR ''.''" "after < 0" "- 1 \<le> before"
  shows "flag_step (before, after) c = (max 0 before * 10 + (of_char c - 48), after)"
  using assms by (simp add: flag_step.simps)

lemma flag_step_before:
  "after < 0 \<Longrightarrow> \<forall>c \<in> set fl. c \<noteq> CHR ''.'' \<Longrightarrow> - 1 \<le> before \<Longrightarrow>
    foldl flag_step (before, after) fl
     = (if filter is_digit fl = [] then before
        else foldl (\<lambda>a d. a * 10 + d) (max 0 before) (map (\<lambda>c. of_char c - 48) (filter is_digit fl)), after)"
proof (induction fl arbitrary: before)
  case (Cons c fl)
  show ?case
  proof (cases "is_digit c")
    case True
    define n where "n = max 0 before * 10 + (of_char c - 48)"
    have n: "0 \<le> n" "max 0 n = n" using digit_pos [OF True] by (simp_all add: n_def)
    have "flag_step (before, after) c = (n, after)"
      using step_digit [OF True] Cons.prems by (simp add: n_def)
    then have "foldl flag_step (before, after) (c # fl) = foldl flag_step (n, after) fl" by simp
    also have "\<dots> = (if filter is_digit fl = [] then n
        else foldl (\<lambda>a d. a * 10 + d) n (map (\<lambda>c. of_char c - 48) (filter is_digit fl)), after)"
      using Cons.IH [of n] Cons.prems n by simp
    finally show ?thesis using True by (simp add: n_def)
  next
    case False
    then have "flag_step (before, after) c = (before, after)" using Cons.prems by (simp add: flag_step.simps)
    with Cons False show ?thesis by simp
  qed
qed simp

lemma value_int: "int (numeral_value 10 (map (\<lambda>c. of_char c - 48) ds)) = foldl (\<lambda>a d. a * 10 + d) 0 (map (\<lambda>c. of_char c - 48) ds)"
  if "\<forall>c \<in> set ds. is_digit c"
  using that
proof (induction ds rule: rev_induct)
  case (snoc c ds)
  then have "(48 :: nat) \<le> of_char c" by (simp add: is_digit_def)
  then have "int (of_char c - 48) = of_char c - 48" by (simp add: of_nat_diff of_nat_of_char)
  with snoc show ?case by (simp add: numeral_value_def)
qed (simp add: numeral_value_def)

lemma width_before:
  assumes "\<forall>c \<in> set a. c \<noteq> CHR ''.''"
  shows "foldl flag_step (- 1, - 1) a
    = (if filter is_digit a = [] then - 1 else int (numeral_value 10 (map (\<lambda>c. of_char c - 48) (filter is_digit a))), - 1)"
proof -
  have "\<forall>c \<in> set (filter is_digit a). is_digit c" by simp
  note v = value_int [OF this]
  show ?thesis
    unfolding v by (subst flag_step_before [OF _ assms]) simp_all
qed

lemma width_after: "z = [] \<or> hd z = CHR ''.'' \<Longrightarrow> fst (foldl flag_step (n, - 1) z) = n"
  using flag_step_after [of 0 n] by (cases z) (simp_all add: flag_step.simps)

lemma width_steps: "fst (foldl flag_step (- 1, - 1) fl) = width fl"
proof -
  define a where "a = takeWhile (\<lambda>c. c \<noteq> CHR ''.'') fl"
  define z where "z = dropWhile (\<lambda>c. c \<noteq> CHR ''.'') fl"
  have split: "fl = a @ z" by (simp add: a_def z_def)
  have "\<forall>c \<in> set a. c \<noteq> CHR ''.''" unfolding a_def by (blast dest: set_takeWhileD)
  note wb = width_before [OF this]
  have w: "width fl = (if filter is_digit a = [] then - 1 else int (numeral_value 10 (map (\<lambda>c. of_char c - 48) (filter is_digit a))))"
    unfolding width_def a_def Let_def ..
  have "z = [] \<or> hd z = CHR ''.''" using hd_dropWhile [of "\<lambda>c. c \<noteq> CHR ''.''" fl] by (auto simp: z_def)
  note wa = width_after [OF this]
  have "foldl flag_step (- 1, - 1) fl = foldl flag_step (width fl, - 1) z"
    unfolding w by (subst split, unfold foldl_append wb) (rule refl)
  then show ?thesis by (simp only: wa)
qed


lemma flag_char:
  assumes "in_directive st" "is_flag c"
  shows "\<exists>st'. log_char b bs st c args w = Some (st', args, w) \<and> in_directive st'
    \<and> fmtLeadingZero st' = fmtLeadingZero st
    \<and> (fmtBeforeDecimal st', fmtAfterDecimal st') = flag_step (fmtBeforeDecimal st, fmtAfterDecimal st) c"
  using assms
  by (auto simp: log_char_def other_fmt_char_def in_directive_def is_flag_def is_digit_def flag_step.simps Let_def)

lemma final_char:
  assumes "in_directive st" "\<not> is_flag c"
  shows "log_char b bs st c args w = Option.bind (field (fmtLeadingZero st) (fmtBeforeDecimal st) c args)
    (\<lambda>(t, args). map_option (\<lambda>w. (st\<lparr>pf := Pf_chars\<rparr>, args, w)) (send b bs t w))"
proof -
  have "log_char b bs st c args w = map_option (Pair (st\<lparr>pf := Pf_chars\<rparr>)) (conversion b bs st c args w)"
    using assms by (auto simp: log_char_def other_fmt_char_def in_directive_def is_flag_def is_digit_def)
  then show ?thesis
    by (simp add: conversion_spec [OF assms(1)] map_conv_bind_option o_def split: Option.bind_splits prod.splits)
qed

definition logs_text :: "'d bus \<Rightarrow> u32 \<Rightarrow> nat \<Rightarrow> bool" where
  "logs_text b bs N \<longleftrightarrow> (\<forall>st cs args w. pf st = Pf_chars \<longrightarrow> length cs < N \<longrightarrow>
     log_chars b bs st cs args w = Option.bind (log_text cs args) (\<lambda>t. send b bs t w))"

text \<open>The rest of a directive and of the format, for a given width.\<close>

definition rest_text :: "bool \<Rightarrow> int \<Rightarrow> string \<Rightarrow> va_arg list \<Rightarrow> u32 list option" where
  "rest_text zero wd cs args = (case dropWhile is_flag cs of
     [] \<Rightarrow> Some []
   | l # ls \<Rightarrow> Option.bind (field zero wd l args) (\<lambda>(t, args). map_option ((@) t) (log_text ls args)))"

lemma rest_text_simps:
  "rest_text zero wd [] args = Some []"
  "is_flag c \<Longrightarrow> rest_text zero wd (c # cs) args = rest_text zero wd cs args"
  "\<not> is_flag c \<Longrightarrow> rest_text zero wd (c # cs) args
     = Option.bind (field zero wd c args) (\<lambda>(t, args). map_option ((@) t) (log_text cs args))"
  by (simp_all add: rest_text_def)

lemma log_text_directive:
  "log_text (CHR ''%'' # d # ds) args =
     (if d = CHR ''%'' then map_option ((#) (char_int d)) (log_text ds args)
      else let rest = (if d = CHR ''0'' then ds else d # ds)
        in rest_text (d = CHR ''0'') (width (takeWhile is_flag rest)) rest args)"
  by (simp add: rest_text_def Let_def)

lemma directive_rest:
  assumes H: "logs_text b bs N"
  shows "in_directive st \<Longrightarrow> length cs \<le> N \<Longrightarrow> log_chars b bs st cs args w =
    Option.bind (rest_text (fmtLeadingZero st)
        (fst (foldl flag_step (fmtBeforeDecimal st, fmtAfterDecimal st) (takeWhile is_flag cs))) cs args)
      (\<lambda>t. send b bs t w)"
proof (induction cs arbitrary: st)
  case (Cons c cs)
  show ?case
  proof (cases "is_flag c")
    case True
    from flag_char [OF Cons.prems(1) True, of b bs args w] obtain st' where
      "log_char b bs st c args w = Some (st', args, w)" "in_directive st'" "fmtLeadingZero st' = fmtLeadingZero st"
      "(fmtBeforeDecimal st', fmtAfterDecimal st') = flag_step (fmtBeforeDecimal st, fmtAfterDecimal st) c" by blast
    with Cons.IH [of st'] Cons.prems(2) True show ?thesis by (simp add: rest_text_simps)
  next
    case False
    have h: "log_chars b bs (st\<lparr>pf := Pf_chars\<rparr>) cs a v = Option.bind (log_text cs a) (\<lambda>t. send b bs t v)" for a v
      using H Cons.prems(2) unfolding logs_text_def by simp
    show ?thesis
    proof (cases "field (fmtLeadingZero st) (fmtBeforeDecimal st) c args")
      case None
      with False final_char [OF Cons.prems(1) False, of b bs args w] show ?thesis by (simp add: rest_text_simps)
    next
      case (Some x)
      obtain t a where x: "x = (t, a)" by fastforce
      have "log_chars b bs st (c # cs) args w
        = Option.bind (send b bs t w) (\<lambda>v. Option.bind (log_text cs a) (\<lambda>u. send b bs u v))"
        using Some x final_char [OF Cons.prems(1) False, of b bs args w] h
        by (simp add: map_conv_bind_option)
      also have "\<dots> = Option.bind (log_text cs a) (\<lambda>u. send b bs (t @ u) w)"
        by (cases "log_text cs a") (auto simp: send_append split: Option.bind_splits)
      finally show ?thesis using False Some x by (simp add: rest_text_simps map_conv_bind_option)
    qed
  qed
qed (simp add: rest_text_simps)

lemma log_text_simps:
  "log_text [] args = Some []" "log_text [CHR ''%''] args = Some []"
  "c \<noteq> CHR ''%'' \<Longrightarrow> log_text (c # cs) args = map_option ((#) (char_int c)) (log_text cs args)"
  by simp_all

declare log_text.simps [simp del]

lemma plain_char:
  assumes H: "logs_text b bs N" and st: "pf st = Pf_chars" and len: "length cs < N"
  shows "Option.bind (alt_log_txchar b c bs w) (log_chars b bs st cs args)
    = Option.bind (map_option ((#) c) (log_text cs args)) (\<lambda>t. send b bs t w)"
  using H st len unfolding logs_text_def
  by (cases "log_text cs args") (auto split: Option.bind_splits)

text \<open>After the per cent sign.\<close>

lemma directive_first:
  assumes H: "logs_text b bs N" and len: "length ds < N" and st: "pf st = Pf_firstFmtChar" "in_directive (st\<lparr>pf := Pf_otherFmtChar\<rparr>)"
    and w: "\<not> fmtLeadingZero st" "fmtBeforeDecimal st = - 1" "fmtAfterDecimal st = - 1"
  shows "log_chars b bs st (d # ds) args w = Option.bind (log_text (CHR ''%'' # d # ds) args) (\<lambda>t. send b bs t w)"
proof -
  define st1 where "st1 = st\<lparr>pf := Pf_otherFmtChar\<rparr>"
  define st2 where "st2 = st\<lparr>fmtLeadingZero := True, pf := Pf_otherFmtChar\<rparr>"
  have d: "in_directive st1" "in_directive st2" using st(2) by (simp_all add: in_directive_def st1_def st2_def)
  have f: "fmtLeadingZero st1 = False" "fmtBeforeDecimal st1 = - 1" "fmtAfterDecimal st1 = - 1"
    "fmtLeadingZero st2 = True" "fmtBeforeDecimal st2 = - 1" "fmtAfterDecimal st2 = - 1"
    using w by (simp_all add: st1_def st2_def)
  consider (zero) "d = CHR ''0''" | (pct) "d = CHR ''%''" | (other) "d \<noteq> CHR ''0''" "d \<noteq> CHR ''%''" by blast
  then show ?thesis
  proof cases
    case zero
    then have "log_chars b bs st (d # ds) args w = log_chars b bs st2 ds args w"
      using st by (simp add: log_char_def st1_def st2_def)
    with directive_rest [OF H d(2), of ds args w] len show ?thesis
      unfolding log_text_directive f width_steps zero by simp
  next
    case pct
    have "log_chars b bs st (d # ds) args w
      = Option.bind (alt_log_txchar b (char_int d) bs w) (log_chars b bs (st\<lparr>pf := Pf_chars\<rparr>) ds args)"
      using pct st by (auto simp: log_char_def map_conv_bind_option split: Option.bind_splits)
    then show ?thesis
      unfolding plain_char [OF H _ len, of "st\<lparr>pf := Pf_chars\<rparr>", simplified] log_text_directive using pct by simp
  next
    case other
    then have "log_chars b bs st (d # ds) args w = log_chars b bs st1 (d # ds) args w"
      using st by (simp add: log_char_def st1_def)
    with directive_rest [OF H d(1), of "d # ds" args w] len other show ?thesis
      unfolding log_text_directive f width_steps by simp
  qed
qed

lemma log_chars_spec: "logs_text b bs N"
proof (induction N)
  case (Suc N)
  have "log_chars b bs st cs args w = Option.bind (log_text cs args) (\<lambda>t. send b bs t w)"
    if st: "pf st = Pf_chars" and len: "length cs < Suc N" for st cs args and w :: "'a world"
  proof (cases cs)
    case cs: (Cons c cs')
    show ?thesis
    proof (cases "c = CHR ''%''")
      case False
      have "log_chars b bs st cs args w = Option.bind (alt_log_txchar b (char_int c) bs w) (log_chars b bs st cs' args)"
        using cs False st by (auto simp: log_char_def map_conv_bind_option split: Option.bind_splits)
      with plain_char [OF Suc st, of cs' "char_int c" w args] cs len False show ?thesis by (simp add: log_text_simps)
    next
      case True
      let ?st0 = "st\<lparr>fmtLeadingZero := False, fmtLong := False, fmtBase := 10, fmtSigned := True,
            fmtCase := False, fmtBeforeDecimal := - 1, fmtAfterDecimal := - 1, pf := Pf_firstFmtChar\<rparr>"
      have s0: "log_chars b bs st cs args w = log_chars b bs ?st0 cs' args w"
        using cs True st by (simp add: log_char_def)
      show ?thesis
      proof (cases cs')
        case Nil
        with s0 cs True show ?thesis by (simp add: log_text_simps)
      next
        case (Cons d ds)
        with len cs have "length ds < N" by simp
        with s0 cs Cons True directive_first [OF Suc, of ds ?st0 d args w] show ?thesis
          by (simp add: in_directive_def)
      qed
    qed
  qed (simp add: log_text_simps)
  then show ?case by (simp add: logs_text_def)
qed (simp add: logs_text_def)

lemma private_printf_spec: "alt_log_private_printf b fmt bs args w = Option.bind (log_text fmt args) (\<lambda>t. send b bs t w)"
  using log_chars_spec [of b bs "Suc (length fmt)"]
  by (simp add: logs_text_def alt_log_private_printf_def fmt_start_def)


subsection \<open>The echo of a write\<close>

lemma escape_spec: "n \<le> length buf \<Longrightarrow>
  escape_ctrl_d n buf = map (\<lambda>c. if c = CHR 0x04 then CHR ''D'' else c) (take n buf) @ drop n buf"
proof (induction n)
  case (Suc n)
  have l: "length (map f (take n buf)) = n" for f :: "char \<Rightarrow> char" using Suc.prems by simp
  have d: "drop n buf = buf ! n # drop (Suc n) buf" using Suc.prems by (simp add: Cons_nth_drop_Suc)
  have t: "take (Suc n) buf = take n buf @ [buf ! n]" using Suc.prems by (simp add: take_Suc_conv_app_nth)
  show ?case
    using Suc l by (simp add: Let_def nth_append list_update_append d t)
qed simp

text \<open>What is echoed of the data: all but the last of at most 15 bytes, up to a zero, control-D
  replaced; the line end only if there is no zero.\<close>

definition echo_text :: "string \<Rightarrow> string" where
  "echo_text data =
     (let t = take (min 15 (length data) - 1) data
      in if CHR 0x00 \<in> set t then map (\<lambda>c. if c = CHR 0x04 then CHR ''D'' else c) (takeWhile (\<lambda>c. c \<noteq> CHR 0x00) t)
         else map (\<lambda>c. if c = CHR 0x04 then CHR ''D'' else c) t @ [CHR 0x0A, CHR 0x0D])"

lemma strncpy_take: "m \<le> n \<Longrightarrow> n \<le> length src \<Longrightarrow> take m (strncpy n src) = strncpy m src"
proof -
  assume mn: "m \<le> n" "n \<le> length src"
  let ?P = "\<lambda>c. c \<noteq> CHR 0x00"
  let ?z = "CHR 0x00"
  have "take m (take n src) = take m src" using mn(1) by (simp add: min_absorb1)
  then have e: "take n src = take m src @ drop m (take n src)" using append_take_drop_id [of m "take n src"] by simp
  show ?thesis
  proof (cases "?z \<in> set (take m src)")
    case True
    obtain x where x: "x \<in> set (take m src)" "\<not> ?P x" using True by auto
    have "takeWhile ?P (take n src) = takeWhile ?P (take m src)"
      by (subst e, rule takeWhile_append1 [where P = ?P, OF x])
    moreover have "length (takeWhile ?P (take m src)) \<le> m" using length_takeWhile_le [of ?P "take m src"] by simp
    ultimately show ?thesis using mn by (simp add: strncpy_def Let_def)
  next
    case False
    then have a: "takeWhile ?P (take m src) = take m src" by (auto simp: takeWhile_eq_all_conv)
    have "takeWhile ?P (take n src) = take m src @ takeWhile ?P (drop m (take n src))"
      by (subst e, subst takeWhile_append2) (use False in auto)
    then show ?thesis unfolding strncpy_def Let_def a using mn by simp
  qed
qed

lemma strncpy_length: "length (strncpy n src) = n"
  using length_takeWhile_le [of "\<lambda>c. c \<noteq> CHR 0x00" "take n src"] by (simp add: strncpy_def Let_def)

lemma write_buffer:
  assumes "2 \<le> n" "length s = n" "length r = 17 - n" "n \<le> 15"
  shows "(((s @ r)[n - 1 := a])[n := b])[n + 1 := c] = take (n - 1) s @ [a, b, c] @ drop 2 r"
proof -
  obtain s' x where s: "s = s' @ [x]" "length s' = n - 1" using assms(1,2) by (cases s rule: rev_cases) auto
  have "2 \<le> length r" using assms by simp
  then obtain y z r' where r: "r = y # z # r'" by (metis Suc_le_length_iff numeral_2_eq_2)
  have n: "n = Suc (length s')" using s(2) assms(1) by simp
  show ?thesis unfolding s(1) r n by (simp add: list_update_append)
qed

lemma echo_spec:
  assumes "2 \<le> length data" "length (log_write_buf l) = 17"
  defines "n \<equiv> min 15 (length data)"
  defines "buf \<equiv> escape_ctrl_d n (((((strncpy n data @ drop n (log_write_buf l))[n - 1 := CHR 0x0A])[n := CHR 0x0D])[n + 1 := CHR 0x00]))"
  shows "takeWhile (\<lambda>c. c \<noteq> CHR 0x00) buf = echo_text data \<and> length buf = 17"
proof -
  let ?P = "\<lambda>c. c \<noteq> CHR 0x00"
  let ?esc = "\<lambda>c. if c = CHR 0x04 then CHR ''D'' else c"
  have n: "2 \<le> n" "n \<le> 15" "n \<le> length data" using assms by (simp_all add: n_def)
  let ?u = "take (n - 1) data"
  let ?r = "drop 2 (drop n (log_write_buf l))"
  have b: "((((strncpy n data @ drop n (log_write_buf l))[n - 1 := CHR 0x0A])[n := CHR 0x0D])[n + 1 := CHR 0x00])
      = strncpy (n - 1) data @ [CHR 0x0A, CHR 0x0D, CHR 0x00] @ ?r"
    using write_buffer [OF n(1), of "strncpy n data" "drop n (log_write_buf l)"] n assms(2)
    by (simp add: strncpy_length strncpy_take)
  have buf: "buf = map ?esc (strncpy (n - 1) data) @ [CHR 0x0A, CHR 0x0D, CHR 0x00] @ ?r"
    unfolding buf_def b using n by (subst escape_spec) (simp_all add: strncpy_length Let_def take_Cons' drop_Cons')
  have len: "length buf = 17" using buf n assms(2) by (simp add: strncpy_length)
  have esc: "?P (?esc c) = ?P c" for c by simp
  have tw: "takeWhile ?P (map ?esc xs) = map ?esc (takeWhile ?P xs)" for xs
    by (induction xs) auto
  have "takeWhile ?P buf = echo_text data"
  proof (cases "CHR 0x00 \<in> set ?u")
    case True
    then obtain ys zs where u: "?u = ys @ CHR 0x00 # zs" "CHR 0x00 \<notin> set ys" using split_list_first by fastforce
    then have "takeWhile ?P ?u = ys" by (simp add: takeWhile_tail) (metis (mono_tags) takeWhile_eq_all_conv)
    moreover have "length ?u = length ys + 1 + length zs" by (simp only: u(1)) simp
    ultimately have "length (takeWhile ?P ?u) < n - 1" using n by simp
    then obtain k where k: "n - 1 - length (takeWhile ?P ?u) = Suc k" using n by (cases "n - 1 - length (takeWhile ?P ?u)") auto
    have "strncpy (n - 1) data = takeWhile ?P ?u @ CHR 0x00 # replicate k (CHR 0x00)"
      unfolding strncpy_def Let_def k by simp
    then have "takeWhile ?P buf = takeWhile ?P (map ?esc (takeWhile ?P ?u))"
      unfolding buf by (simp add: takeWhile_tail)
    with True show ?thesis by (simp add: echo_text_def n_def [symmetric] tw Let_def)
  next
    case False
    then have u: "takeWhile ?P ?u = ?u" by (auto simp: takeWhile_eq_all_conv)
    have "strncpy (n - 1) data = ?u" unfolding strncpy_def Let_def u using n by simp
    moreover have "takeWhile ?P (map ?esc ?u @ [CHR 0x0A, CHR 0x0D, CHR 0x00] @ ?r) = map ?esc ?u @ [CHR 0x0A, CHR 0x0D]"
      using False by (subst takeWhile_append2) auto
    ultimately show ?thesis using False by (simp add: buf echo_text_def n_def [symmetric] Let_def)
  qed
  with len show ?thesis by simp
qed

lemma printf_proc_send: "alt_log_printf_proc b port fmt args w
    = Option.bind (log_text fmt args) (\<lambda>t. map_option (Pair 0) (send b port t w))"
  by (simp add: alt_log_printf_proc_def private_printf_spec map_conv_bind_option)

lemma echo_format: "log_text ''Write Echo: %s'' [Va_str t] = Some (map char_int ''Write Echo: '' @ map char_int t)"
  by (simp add: log_text.simps field_def is_flag_def is_digit_def width_def padding_def)


subsection \<open>The system clock message\<close>

fun clock_calls :: "'d bus \<Rightarrow> u32 \<Rightarrow> u32 \<Rightarrow> nat \<Rightarrow> log_state \<Rightarrow> 'd world \<Rightarrow> (log_state \<times> 'd world) option" where
  "clock_calls b port ticks 0 l w = Some (l, w)"
| "clock_calls b port ticks (Suc n) l w =
     Option.bind (clock_calls b port ticks n l w) (\<lambda>(l, w). alt_log_system_clock b port ticks l w)"

lemma clock_call:
  assumes "alt_log_system_clock b port ticks l w = Some (l', w')" "log_sys_clk_on l" "sys_clk_count l \<le> ticks" "ticks \<noteq> - 1"
  shows "log_sys_clk_on l' \<and> sys_clk_count l' \<le> ticks
    \<and> (if sys_clk_count l = ticks then sys_clk_count l' = 0 \<and> clock_in_sec l' = clock_in_sec l + 1
       else sys_clk_count l' = sys_clk_count l + 1 \<and> clock_in_sec l' = clock_in_sec l)"
proof -
  have inc: "sys_clk_count l + 1 > ticks \<longleftrightarrow> sys_clk_count l = ticks"
  proof
    assume "sys_clk_count l + 1 > ticks"
    with assms(3) show "sys_clk_count l = ticks"
      by (metis inc_le leD order_le_imp_less_or_eq)
  next
    assume "sys_clk_count l = ticks"
    with assms(4) show "sys_clk_count l + 1 > ticks"
      by (metis inc_less_eq_self_iff_eq not_le)
  qed
  show ?thesis
    using assms(1,2,3) inc
    by (auto simp: alt_log_system_clock_def Let_def not_less inc_le split: if_splits)
qed


lemma clock_calls_spec:
  assumes "ticks \<noteq> - 1"
  shows "clock_calls b port ticks n l w = Some (l', w') \<Longrightarrow> log_sys_clk_on l \<Longrightarrow> sys_clk_count l = 0 \<Longrightarrow>
    log_sys_clk_on l' \<and> unat (sys_clk_count l') = n mod (unat ticks + 1)
    \<and> clock_in_sec l' = clock_in_sec l + of_nat (n div (unat ticks + 1))"
proof (induction n arbitrary: l' w')
  case (Suc n)
  from Suc.prems(1) obtain l1 w1 where c: "clock_calls b port ticks n l w = Some (l1, w1)"
    "alt_log_system_clock b port ticks l1 w1 = Some (l', w')" by (auto simp: bind_eq_Some_conv)
  from Suc.IH [OF c(1) Suc.prems(2,3)] have l1: "log_sys_clk_on l1" "unat (sys_clk_count l1) = n mod (unat ticks + 1)"
    "clock_in_sec l1 = clock_in_sec l + of_nat (n div (unat ticks + 1))" by simp_all
  have "n mod (unat ticks + 1) \<le> unat ticks" using mod_less_divisor [of "unat ticks + 1" n] by linarith
  then have le: "sys_clk_count l1 \<le> ticks" using l1(2) by (simp add: word_le_nat_alt)
  note cc = clock_call [OF c(2) l1(1) le assms]
  show ?case
  proof (cases "sys_clk_count l1 = ticks")
    case True
    then have "n mod (unat ticks + 1) = unat ticks" using l1(2) by simp
    then have "Suc n mod (unat ticks + 1) = 0" "Suc n div (unat ticks + 1) = Suc (n div (unat ticks + 1))"
      by (simp_all add: mod_Suc div_Suc)
    with cc l1 True show ?thesis by simp
  next
    case False
    then have ne: "n mod (unat ticks + 1) \<noteq> unat ticks" using l1(2) by (metis word_unat_eq_iff)
    have "sys_clk_count l1 \<noteq> - 1" using False le by (metis antisym max_word_max word_n1_ge)
    then have "unat (sys_clk_count l1 + 1) = Suc (unat (sys_clk_count l1))"
      by (metis add.commute add_eq_0_iff unatSuc)
    moreover have "Suc n mod (unat ticks + 1) = Suc (n mod (unat ticks + 1))" "Suc n div (unat ticks + 1) = n div (unat ticks + 1)"
      using ne by (simp_all add: mod_Suc div_Suc)
    ultimately show ?thesis using cc l1 False by simp
  qed
qed simp

text \<open>A port with room.\<close>

definition port_ready :: "'d bus \<Rightarrow> bool" where
  "port_ready b \<longleftrightarrow> (\<forall>d a. fst (bus_rd b d a) AND JTAG_WSPACE_MSK \<noteq> 0)"

lemma send_ready: "port_ready b \<Longrightarrow> \<exists>w'. send b port t w = Some w'"
proof (induction t arbitrary: w)
  case (Cons c t)
  obtain v w1 where r: "IORD b port 1 w = (v, w1)" by fastforce
  then have "v AND JTAG_WSPACE_MSK \<noteq> 0" using Cons.prems by (auto simp: port_ready_def IORD_conv)
  then have "alt_log_txchar b c port w = Some (IOWR b port 0 c w1)"
    by (subst alt_log_txchar.simps) (simp add: r)
  with Cons show ?case by simp
qed simp

lemma txchar_sent:
  "alt_log_txchar b c port w = Some w' \<Longrightarrow> \<exists>es. log w' = log w @ es \<and> sent port es = [ucast c]"
proof (induction rule: alt_log_txchar.raw_induct [rotated, consumes 1, case_names step])
  case (step rec b c port w w')
  obtain v w1 where r: "IORD b port 1 w = (v, w1)" by fastforce
  note lg = log_IORD [OF r]
  show ?case
  proof (cases "v AND JTAG_WSPACE_MSK = 0")
    case True
    with step(2) r have "rec b c port w1 = Some w'" by simp
    from step(1) [OF this] obtain es where "log w' = log w1 @ es" "sent port es = [ucast c]" by blast
    with lg show ?thesis by (intro exI [of _ "IoRd (port + 4) v # es"]) simp
  next
    case False
    with step(2) r have "w' = IOWR b port 0 c w1" by simp
    with lg show ?thesis
      by (intro exI [of _ "[IoRd (port + 4) v, IoWr port c]"]) (simp add: hal_simps)
  qed
qed

lemma send_sent: "send b port t w = Some w' \<Longrightarrow> \<exists>es. log w' = log w @ es \<and> sent port es = map ucast t"
proof (induction t arbitrary: w)
  case (Cons c t)
  then obtain w1 where c: "alt_log_txchar b c port w = Some w1" "send b port t w1 = Some w'"
    by (auto simp: bind_eq_Some_conv)
  from Cons.IH [OF c(2)] txchar_sent [OF c(1)] obtain es1 es2 where
    "log w' = log w1 @ es2" "sent port es2 = map ucast t" "log w1 = log w @ es1" "sent port es1 = [ucast c]" by blast
  then show ?case by (intro exI [of _ "es1 @ es2"]) simp
qed simp

subsection \<open>Properties\<close>

text \<open>C29. The logging printf, a state machine over the characters of the format that sends as it goes, does
  exactly what the reference does: parse each directive (flags, width, letter), lay the field out
  (numbers to base 8, 10 or 16, right-aligned, signed for \<open>%d\<close> and \<open>%i\<close> down to the least
  int), and send the resulting characters in order. Both are undefined on a missing or mistyped
  argument and both wait for ever when the port stays full.\<close>

theorem log_printf_text:
  "alt_log_private_printf b fmt bs args w = Option.bind (log_text fmt args) (\<lambda>t. send b bs t w)"
  by (rule private_printf_spec)

text \<open>On a port that has room every logging call with matching arguments returns 0, and what it has
  written to the port's data register is the formatted text and nothing else.\<close>

theorem log_output:
  assumes "port_ready b" and "log_text fmt args = Some t"
  shows "\<exists>w' es. alt_log_printf_proc b port fmt args w = Some (0, w') \<and> log w' = log w @ es \<and> sent port es = map ucast t"
proof -
  obtain w' where s: "send b port t w = Some w'" using send_ready [OF assms(1)] by blast
  with send_sent [OF s] assms(2) show ?thesis by (simp add: printf_proc_send)
qed

definition room_bus :: "nat bus" where
  "room_bus = \<lparr>bus_rd = \<lambda>d _. (0x400000, d), bus_wr = \<lambda>d _ _. d + 1, bus_sleep = \<lambda>d _. d\<rparr>"

lemma room_ready: "port_ready room_bus"
  by (simp add: port_ready_def room_bus_def JTAG_WSPACE_MSK_def)

lemma log_output_witness:
  "\<exists>w' es. alt_log_printf_proc room_bus 0x1000 ''%5d|%-|%04x'' [Va_word (- 42), Va_word 0xBEE] \<lparr>dev = 0, log = []\<rparr> = Some (0, w')
     \<and> sent 0x1000 es = map of_char ''  -42||0bee''"
proof -
  have "log_text ''%5d|%-|%04x'' [Va_word (- 42), Va_word 0xBEE] = Some (map char_int ''  -42||0bee'')"
    by code_simp
  from log_output [OF room_ready this, of "0x1000" "\<lparr>dev = 0, log = []\<rparr>"]
  show ?thesis by (auto simp: char_int_def)
qed

text \<open>The echo of a write: with the flag on and at least two bytes written, the call prints
  "Write Echo: " and then all but the last of at most 15 bytes (so at most 14), up to a zero byte,
  each control-D as D, and a line end unless a zero byte came first; the buffer's 17 bytes are not
  overrun. Shorter writes are not echoed at all.\<close>

theorem write_echo:
  assumes "log_write_on l" and "length (log_write_buf l) = 17"
  shows "\<exists>buf. length buf = 17 \<and> alt_log_write b port data l w =
    (if length data < 2 then Some (l, w)
     else map_option (\<lambda>w'. (l\<lparr>log_write_buf := buf\<rparr>, w')) (send b port (map char_int (''Write Echo: '' @ echo_text data)) w))"
proof (cases "length data < 2")
  case True
  with assms show ?thesis by (intro exI [of _ "log_write_buf l"]) (simp add: alt_log_write_def ALT_LOG_WRITE_ECHO_LEN_def)
next
  case False
  define n where "n = min 15 (length data)"
  have n: "(if ALT_LOG_WRITE_ECHO_LEN > length data then length data else ALT_LOG_WRITE_ECHO_LEN) = n"
    by (simp add: n_def ALT_LOG_WRITE_ECHO_LEN_def)
  have n2: "\<not> n < 2" using False by (simp add: n_def)
  have two: "2 \<le> length data" using False by simp
  define buf where "buf = escape_ctrl_d n (((((strncpy n data @ drop n (log_write_buf l))[n - 1 := CHR 0x0A])[n := CHR 0x0D])[n + 1 := CHR 0x00]))"
  note e = echo_spec [OF two assms(2), folded n_def, folded buf_def]
  have "alt_log_write b port data l w
    = map_option (\<lambda>w'. (l\<lparr>log_write_buf := buf\<rparr>, w')) (send b port (map char_int (''Write Echo: '' @ echo_text data)) w)"
    unfolding alt_log_write_def n Let_def buf_def [symmetric] printf_proc_send e [THEN conjunct1] echo_format
    using assms(1) n2 by (simp add: option.map_comp o_def)
  with e False show ?thesis by auto
qed

definition log_all :: log_state where
  "log_all = \<lparr>log_write_on = True, log_sys_clk_on = True, log_alarm_on = True, log_isr_on = True,
     sys_clk_count = 0, clock_in_sec = 0, log_write_buf = replicate 17 (CHR 0x00)\<rparr>"

lemma write_echo_witness:
  "\<exists>l' w'. alt_log_write room_bus 0x1000 ''Hello, world!'' log_all \<lparr>dev = 0, log = []\<rparr> = Some (l', w')
     \<and> send room_bus 0x1000 (map char_int (''Write Echo: Hello, world'' @ [CHR 0x0A, CHR 0x0D])) \<lparr>dev = 0, log = []\<rparr> = Some w'"
proof -
  have e: "''Write Echo: '' @ echo_text ''Hello, world!'' = ''Write Echo: Hello, world'' @ [CHR 0x0A, CHR 0x0D]"
    by code_simp
  have l: "log_write_on log_all" "length (log_write_buf log_all) = 17" by (simp_all add: log_all_def)
  obtain w' where "send room_bus 0x1000 (map char_int (''Write Echo: Hello, world'' @ [CHR 0x0A, CHR 0x0D])) \<lparr>dev = 0, log = []\<rparr> = Some w'"
    using send_ready [OF room_ready] by blast
  with write_echo [OF l, of room_bus "0x1000" "''Hello, world!''" "\<lparr>dev = 0, log = []\<rparr>", unfolded e]
  show ?thesis by auto
qed

lemma clock_runs: "port_ready b \<Longrightarrow> \<exists>l' w'. clock_calls b port I n l w = Some (l', w')"
proof (induction n)
  case (Suc n)
  then obtain l1 w1 where c: "clock_calls b port I n l w = Some (l1, w1)" by blast
  have t: "\<exists>t. log_text (''System Clock On %u'' @ crlf) [Va_word v] = Some t" for v
    by (simp add: log_text.simps field_def is_flag_def is_digit_def)
  obtain t where t: "log_text (''System Clock On %u'' @ crlf) [Va_word (clock_in_sec l1)] = Some t" using t by blast
  obtain w' where "send b port t w1 = Some w'" using send_ready [OF Suc.prems] by blast
  with t c show ?case by (simp add: alt_log_system_clock_def Let_def printf_proc_send)
qed simp

text \<open>The "system clock on" message, called once per tick with the interval (the ticks in a second) I,
  on a port that has room: every call returns;
  from a cleared counter, after n calls the counter is n mod (I + 1) and n div (I + 1) messages
  have been printed. The period is I + 1 ticks, not the I of the comment: the number of seconds
  it prints falls behind by one every I messages.\<close>

theorem clock_period:
  assumes "port_ready b" and "log_sys_clk_on l" and "sys_clk_count l = 0" and "I \<noteq> - 1"
  shows "\<exists>l' w'. clock_calls b port I n l w = Some (l', w')
    \<and> unat (sys_clk_count l') = n mod (unat I + 1) \<and> clock_in_sec l' = clock_in_sec l + of_nat (n div (unat I + 1))"
proof -
  obtain l' w' where "clock_calls b port I n l w = Some (l', w')" using clock_runs [OF assms(1)] by blast
  with clock_calls_spec [OF assms(4) this assms(2,3)] show ?thesis by blast
qed

lemma clock_period_witness:
  "\<exists>l' w'. clock_calls room_bus 0x1000 2 4 log_all \<lparr>dev = 0, log = []\<rparr> = Some (l', w')
     \<and> unat (sys_clk_count l') = 1 \<and> clock_in_sec l' = 1"
  using clock_period [OF room_ready, of log_all 2 "0x1000" 4 "\<lparr>dev = 0, log = []\<rparr>"] by (simp add: log_all_def)

end
