(* ===== verification/Heap.thy ===== *)
theory Heap
  imports Irq
begin

text \<open>
  The data segment: \<open>alt_sbrk.c\<close>, without a maximal heap size and without stack checking, as this
  system is configured, and what a client of an allocator that only grows may rely on. The
  linker's heap limit is an argument; the state is the end of the heap and the processor, whose
  interrupts the call masks. Addresses are 32-bit words and their sums wrap.
\<close>

subsection \<open>sbrk\<close>

definition word_align :: "u32 \<Rightarrow> u32" where
  "word_align a = (a + 3) AND NOT 3"

text \<open>\<open>incr\<close> is a C \<open>int\<close>. Returns the old end, or -1, and the new end.\<close>

definition alt_sbrk :: "u32 \<Rightarrow> u32 \<Rightarrow> u32 \<Rightarrow> cpu \<Rightarrow> u32 \<times> u32 \<times> cpu" where
  "alt_sbrk heap_limit incr heap_end c =
     (let (ctxt, c) = alt_irq_disable_all c;
          heap_end = word_align heap_end
      in if heap_end + incr > heap_limit then (- 1, heap_end, alt_irq_enable_all ctxt c)
         else (let prev_heap_end = heap_end;
                   heap_end = heap_end + incr
               in (prev_heap_end, heap_end, alt_irq_enable_all ctxt c)))"

subsection \<open>Growing allocators\<close>

text \<open>\<open>alloc n s\<close> gives a block of \<open>n\<close> bytes or -1. What lies below the frontier is never given
  out again. The first contract is void once a call has failed, the second is not.\<close>

fun alloc_all :: "(u32 \<Rightarrow> 's \<Rightarrow> u32 \<times> 's) \<Rightarrow> u32 list \<Rightarrow> 's \<Rightarrow> (u32 \<times> u32) list \<times> 's" where
  "alloc_all f [] s = ([], s)"
| "alloc_all f (n # ns) s =
     (let (p, s) = f n s; (bs, s) = alloc_all f ns s in ((p, n) # bs, s))"

definition before :: "u32 \<times> u32 \<Rightarrow> u32 \<times> u32 \<Rightarrow> bool" where
  "before b b' \<longleftrightarrow> unat (fst b) + unat (snd b) \<le> unat (fst b')"

definition within :: "nat \<Rightarrow> nat \<Rightarrow> u32 \<times> u32 \<Rightarrow> bool" where
  "within lo hi b \<longleftrightarrow> lo \<le> unat (fst b) \<and> unat (fst b) + unat (snd b) \<le> hi"

lemma within_before: "within lo m b \<Longrightarrow> within m hi b' \<Longrightarrow> before b b'"
  by (simp add: within_def before_def)

lemma within_mono: "within lo hi b \<Longrightarrow> lo' \<le> lo \<Longrightarrow> hi \<le> hi' \<Longrightarrow> within lo' hi' b"
  by (auto simp: within_def)

locale allocator =
  fixes alloc :: "u32 \<Rightarrow> 's \<Rightarrow> u32 \<times> 's"
    and ok :: "'s \<Rightarrow> bool"
    and frontier :: "'s \<Rightarrow> nat"
    and size_ok :: "u32 \<Rightarrow> bool"
    and good :: "u32 \<times> u32 \<Rightarrow> bool"
  assumes alloc_law: "ok s \<Longrightarrow> size_ok n \<Longrightarrow> alloc n s = (p, s') \<Longrightarrow> p \<noteq> - 1 \<Longrightarrow>
    ok s' \<and> good (p, n) \<and> within (frontier s) (frontier s') (p, n)"
begin

lemma grows: "ok s \<Longrightarrow> size_ok n \<Longrightarrow> alloc n s = (p, s') \<Longrightarrow> p \<noteq> - 1 \<Longrightarrow> frontier s \<le> frontier s'"
  using alloc_law [of s n p s'] by (auto simp: within_def)

lemma blocks_disjoint:
  assumes "alloc_all alloc ns s = (bs, s')" and "ok s" and "\<forall>n \<in> set ns. size_ok n" and "\<forall>b \<in> set bs. fst b \<noteq> - 1"
  shows "ok s' \<and> frontier s \<le> frontier s' \<and> sorted_wrt before bs
    \<and> (\<forall>b \<in> set bs. good b \<and> within (frontier s) (frontier s') b)"
  using assms
proof (induction ns arbitrary: s bs)
  case (Cons n ns)
  obtain p s1 where a: "alloc n s = (p, s1)" by fastforce
  obtain cs where cs: "alloc_all alloc ns s1 = (cs, s')" "bs = (p, n) # cs"
    using Cons.prems(1) a by (auto simp: Let_def split: prod.splits)
  from Cons.prems a cs have "p \<noteq> - 1" "size_ok n" by auto
  note l = alloc_law [OF Cons.prems(2) this(2) a this(1), THEN conjunct2, THEN conjunct2] grows [OF Cons.prems(2) this(2) a this(1)]
    alloc_law [OF Cons.prems(2) this(2) a this(1), THEN conjunct1]
    alloc_law [OF Cons.prems(2) this(2) a this(1), THEN conjunct2, THEN conjunct1]
  with Cons.IH [OF cs(1)] Cons.prems cs(2)
  have ih: "ok s'" "frontier s1 \<le> frontier s'" "sorted_wrt before cs" "\<forall>b \<in> set cs. good b"
    "\<forall>b \<in> set cs. within (frontier s1) (frontier s') b" by auto
  have "before (p, n) b" if "b \<in> set cs" for b using l(1) ih(5) that within_before by blast
  moreover have "within (frontier s) (frontier s') (p, n)" using within_mono [OF l(1) order_refl ih(2)] .
  moreover have "within (frontier s) (frontier s') b" if "b \<in> set cs" for b
    using within_mono [OF ih(5) [rule_format, OF that] l(2) order_refl] .
  ultimately show ?case using ih l cs(2) by auto
qed auto

end

locale total_allocator = allocator +
  assumes fail_law: "ok s \<Longrightarrow> size_ok n \<Longrightarrow> alloc n s = (- 1, s') \<Longrightarrow> ok s' \<and> frontier s \<le> frontier s'"
begin

lemma granted_disjoint:
  assumes "alloc_all alloc ns s = (bs, s')" and "ok s" and "\<forall>n \<in> set ns. size_ok n"
  shows "ok s' \<and> frontier s \<le> frontier s' \<and> sorted_wrt before (filter (\<lambda>b. fst b \<noteq> - 1) bs)
    \<and> (\<forall>b \<in> set bs. fst b \<noteq> - 1 \<longrightarrow> good b \<and> within (frontier s) (frontier s') b)"
  using assms
proof (induction ns arbitrary: s bs)
  case (Cons n ns)
  obtain p s1 where a: "alloc n s = (p, s1)" by fastforce
  obtain cs where cs: "alloc_all alloc ns s1 = (cs, s')" "bs = (p, n) # cs"
    using Cons.prems(1) a by (auto simp: Let_def split: prod.splits)
  have n: "size_ok n" using Cons.prems by simp
  have l: "ok s1" "frontier s \<le> frontier s1" "p \<noteq> - 1 \<longrightarrow> within (frontier s) (frontier s1) (p, n)"
    "p \<noteq> - 1 \<longrightarrow> good (p, n)"
    using alloc_law [OF Cons.prems(2) n a] grows [OF Cons.prems(2) n a] fail_law [OF Cons.prems(2) n] a by auto
  with Cons.IH [OF cs(1)] Cons.prems
  have ih: "ok s'" "frontier s1 \<le> frontier s'" "sorted_wrt before (filter (\<lambda>b. fst b \<noteq> - 1) cs)"
    "\<forall>b \<in> set cs. fst b \<noteq> - 1 \<longrightarrow> within (frontier s1) (frontier s') b"
    "\<forall>b \<in> set cs. fst b \<noteq> - 1 \<longrightarrow> good b" by auto
  have "before (p, n) b" if "p \<noteq> - 1" "b \<in> set cs" "fst b \<noteq> - 1" for b
    using l(3) ih(4) that within_before by blast
  moreover have "within (frontier s) (frontier s') (p, n)" if "p \<noteq> - 1"
    using within_mono [OF l(3) [rule_format, OF that] order_refl ih(2)] .
  moreover have "within (frontier s) (frontier s') b" if "b \<in> set cs" "fst b \<noteq> - 1" for b
    using within_mono [OF ih(4) [rule_format, OF that] l(2) order_refl] .
  ultimately show ?case using ih l cs(2) by auto
qed auto

end

subsection \<open>sbrk is one\<close>

text \<open>The next word boundary, for addresses that do not wrap.\<close>

definition aligned_up :: "nat \<Rightarrow> nat" where
  "aligned_up a = (a + 3) div 4 * 4"

lemma aligned_up_bounds: "a \<le> aligned_up a" "aligned_up a < a + 4" "4 dvd aligned_up a"
  by (simp_all add: aligned_up_def)

lemma clear_low_bits:
  assumes "\<And>n. n < 32 \<Longrightarrow> bit (m :: u32) n \<longleftrightarrow> n < 2"
  shows "x AND NOT m = push_bit 2 (drop_bit 2 x)"
proof (rule bit_word_eqI)
  fix n assume n: "n < LENGTH(32)"
  show "bit (x AND NOT m) n \<longleftrightarrow> bit (push_bit 2 (drop_bit 2 x)) n"
  proof (cases "n < 2")
    case False
    then obtain k where "n = k + 2" by (metis add.commute le_Suc_ex not_less)
    with n assms [of n] show ?thesis by (simp add: bit_simps)
  qed (use n assms [of n] in \<open>simp add: bit_simps\<close>)
qed

lemma and_not_three: "(x :: u32) AND NOT 3 = push_bit 2 (drop_bit 2 x)"
proof (rule clear_low_bits)
  fix n :: nat assume "n < 32"
  then show "bit (3 :: u32) n \<longleftrightarrow> n < 2"
    using bit_mask_iff [of 2 n, where 'a = "32 word"] by (simp add: mask_eq_exp_minus_1)
qed

lemma unat_word_align:
  assumes "unat a + 3 < 2 ^ 32"
  shows "unat (word_align a) = aligned_up (unat a)"
proof -
  have s: "unat (a + 3) = unat a + 3" using assms by (simp add: unat_word_ariths)
  have "(unat a + 3) div 4 * 4 < 2 ^ 32" using assms by simp
  then show ?thesis
    unfolding word_align_def and_not_three aligned_up_def
    by (simp add: drop_bit_eq_div push_bit_eq_mult unat_word_ariths unat_div s)
qed

lemma word_add_int: "0 \<le> int (unat a) + sint b \<Longrightarrow> int (unat a) + sint b < 2 ^ 32 \<Longrightarrow>
    int (unat (a + b)) = int (unat a) + sint b" for a b :: u32
  using uint_lt2p [of a] uint_lt2p [of b] mod_pos_pos_trivial [of "uint a + uint b - 2 ^ 32" "2 ^ 32"]
  by (auto simp: sint32_conv uint_word_ariths split: if_splits)

lemma irq_bracket: "alt_irq_enable_all (status c) (c\<lparr>status := v\<rparr>) = c"
  by (simp add: alt_irq_enable_all_def)

lemma sbrk_spec:
  assumes "unat e + 3 < 2 ^ 31" and "0 \<le> int (aligned_up (unat e)) + sint incr"
  shows "alt_sbrk limit incr e c =
    (if int (aligned_up (unat e)) + sint incr > int (unat limit) then (- 1, word_align e, c)
     else (word_align e, word_align e + incr, c))"
    and "int (unat (word_align e + incr)) = int (aligned_up (unat e)) + sint incr"
proof -
  have a: "unat (word_align e) = aligned_up (unat e)" using assms(1) by (intro unat_word_align) simp
  have "aligned_up (unat e) < 2 ^ 31 + 1" using assms(1) by (simp add: aligned_up_def)
  moreover have "sint incr < 2 ^ 31" using sint_lt [of incr] by simp
  ultimately show n: "int (unat (word_align e + incr)) = int (aligned_up (unat e)) + sint incr"
    using word_add_int [of "word_align e" incr] assms(2) unfolding a by simp
  then have "limit < word_align e + incr \<longleftrightarrow> int (unat limit) < int (aligned_up (unat e)) + sint incr"
    by (metis of_nat_less_iff word_less_nat_alt)
  then show "alt_sbrk limit incr e c =
    (if int (aligned_up (unat e)) + sint incr > int (unat limit) then (- 1, word_align e, c)
     else (word_align e, word_align e + incr, c))"
    by (simp add: alt_sbrk_def alt_irq_disable_all_def irq_bracket Let_def del: of_nat_unat)
qed


text \<open>For a request that is not negative.\<close>

lemma sbrk_grow:
  assumes "unat e + 3 < 2 ^ 31" and "0 \<le> sint n"
  shows "alt_sbrk limit n e c =
    (if aligned_up (unat e) + unat n > unat limit then (- 1, word_align e, c) else (word_align e, word_align e + n, c))"
    and "unat (word_align e + n) = aligned_up (unat e) + unat n" and "word_align e \<noteq> - 1"
proof -
  have sn: "sint n = int (unat n)" using assms(2) uint_lt2p [of n] by (auto simp: sint32_conv split: if_splits)
  have "0 \<le> int (aligned_up (unat e)) + sint n" using assms(2) by simp
  note sp = sbrk_spec [OF assms(1) this, unfolded sn]
  have "int (unat limit) < int (aligned_up (unat e)) + int (unat n) \<longleftrightarrow> unat limit < aligned_up (unat e) + unat n"
    by (metis of_nat_add of_nat_less_iff)
  with sp(1) [of limit c] show "alt_sbrk limit n e c =
    (if aligned_up (unat e) + unat n > unat limit then (- 1, word_align e, c) else (word_align e, word_align e + n, c))"
    by (simp del: of_nat_unat)
  show "unat (word_align e + n) = aligned_up (unat e) + unat n"
    using sp(2) by (metis of_nat_add of_nat_eq_iff)
  have w: "unat (word_align e) = aligned_up (unat e)" using assms(1) by (intro unat_word_align) simp
  show "word_align e \<noteq> - 1"
  proof
    assume "word_align e = - 1"
    then have "unat (word_align e) = 2 ^ 32 - 1" by (simp add: unsigned_minus_1_eq_mask mask_eq_exp_minus_1)
    with w assms(1) aligned_up_bounds(2) [of "unat e"] show False by simp
  qed
qed

definition heap_ok :: "u32 \<Rightarrow> u32 \<times> cpu \<Rightarrow> bool" where
  "heap_ok limit s \<longleftrightarrow> unat limit + 7 < 2 ^ 31 \<and> unat (fst s) \<le> aligned_up (unat limit)"

lemma aligned_up_mono: "a \<le> aligned_up b \<Longrightarrow> aligned_up a \<le> aligned_up b"
  unfolding aligned_up_def by presburger

interpretation sb: total_allocator "\<lambda>n (e, c). alt_sbrk limit n e c" "heap_ok limit" "\<lambda>s. unat (fst s)"
  "\<lambda>n. 0 \<le> sint n" "\<lambda>(p, n). 4 dvd unat p \<and> unat p + unat n \<le> unat limit" for limit
proof
  fix s n p s'
  assume h: "heap_ok limit s" "0 \<le> sint n" "(case s of (e, c) \<Rightarrow> alt_sbrk limit n e c) = (p, s')"
  obtain e c where s: "s = (e, c)" by fastforce
  note lim = aligned_up_bounds [of "unat limit"]
  have e: "unat e + 3 < 2 ^ 31" "unat e \<le> aligned_up (unat limit)" "unat limit + 7 < 2 ^ 31"
    using h(1) lim by (simp_all add: s heap_ok_def)
  have w: "unat (word_align e) = aligned_up (unat e)" using e(1) by (intro unat_word_align) simp
  note b = aligned_up_bounds [of "unat e"] aligned_up_mono [OF e(2)]
  note g = sbrk_grow [OF e(1) h(2)]
  have r: "(p, s') = (if aligned_up (unat e) + unat n > unat limit then (- 1, word_align e, c)
     else (word_align e, word_align e + n, c))"
    using g(1) h(3) s by simp
  show "heap_ok limit s' \<and> (case (p, n) of (p, n) \<Rightarrow> 4 dvd unat p \<and> unat p + unat n \<le> unat limit)
    \<and> within (unat (fst s)) (unat (fst s')) (p, n)" if "p \<noteq> - 1"
    using r g(2) that b w e s lim by (auto simp: heap_ok_def within_def split: if_splits)
next
  fix s n s'
  assume h: "heap_ok limit s" "0 \<le> sint n" "(case s of (e, c) \<Rightarrow> alt_sbrk limit n e c) = (- 1, s')"
  obtain e c where s: "s = (e, c)" by fastforce
  have e: "unat e + 3 < 2 ^ 31" "unat e \<le> aligned_up (unat limit)"
    using h(1) aligned_up_bounds [of "unat limit"] by (simp_all add: s heap_ok_def)
  have w: "unat (word_align e) = aligned_up (unat e)" using e(1) by (intro unat_word_align) simp
  have "s' = (word_align e, c)" using sbrk_grow(1,3) [OF e(1) h(2)] h(3) s by (simp split: if_splits)
  then show "heap_ok limit s' \<and> unat (fst s) \<le> unat (fst s')"
    using h(1) s w aligned_up_bounds(1) [of "unat e"] aligned_up_mono [OF e(2)] by (simp add: heap_ok_def)
qed

lemma sbrk_irq: "snd (snd (alt_sbrk limit n e c)) = c"
  by (simp add: alt_sbrk_def Let_def alt_irq_disable_all_def irq_bracket)

lemma sbrks_irq: "alloc_all (\<lambda>n (e, c). alt_sbrk limit n e c) ns (e, c) = (bs, e', c') \<Longrightarrow> c' = c"
proof (induction ns arbitrary: e bs)
  case (Cons n ns)
  obtain p e1 where "alt_sbrk limit n e c = (p, e1, c)" using sbrk_irq [of limit n e c] by (metis prod.collapse)
  with Cons show ?case by (auto simp: Let_def split: prod.splits)
qed simp

subsection \<open>Properties\<close>

text \<open>C30. Blocks of sbrk. From an empty heap, over any sequence of requests that are not negative: a granted
  block is word-aligned and lies between the start and the limit of the heap; blocks granted
  later lie above those granted before, so no two overlap; a request is refused only if the block
  would end above the limit; and the interrupt state is as before.\<close>

theorem sbrk_blocks:
  assumes "alloc_all (\<lambda>n (e, c). alt_sbrk limit n e c) ns (start, c) = (bs, e', c')"
    and "unat start \<le> unat limit" and "unat limit + 7 < 2 ^ 31" and "\<forall>n \<in> set ns. 0 \<le> sint n"
  shows "c' = c \<and> sorted_wrt before (filter (\<lambda>b. fst b \<noteq> - 1) bs)
    \<and> (\<forall>(p, n) \<in> set bs. p \<noteq> - 1 \<longrightarrow> 4 dvd unat p \<and> unat start \<le> unat p \<and> unat p + unat n \<le> unat limit)
    \<and> (\<forall>n. 0 \<le> sint n \<and> fst (alt_sbrk limit n e' c') = - 1 \<longrightarrow> unat (word_align e') + unat n > unat limit)"
proof -
  have "heap_ok limit (start, c)" using assms(2,3) aligned_up_bounds(1) [of "unat limit"] by (simp add: heap_ok_def)
  note g = sb.granted_disjoint [OF assms(1) this assms(4)]
  then have "unat e' + 3 < 2 ^ 31" using aligned_up_bounds(2) [of "unat limit"] by (simp add: heap_ok_def)
  then have w: "unat (word_align e') = aligned_up (unat e')" "unat e' + 3 < 2 ^ 31" by (simp_all add: unat_word_align)
  have "unat (word_align e') + unat n > unat limit" if "0 \<le> sint n" "fst (alt_sbrk limit n e' c') = - 1" for n
    using sbrk_grow(1,3) [OF w(2) that(1)] that(2) w(1) by (simp split: if_splits)
  with g sbrks_irq [OF assms(1)] show ?thesis by (fastforce simp: within_def)
qed

lemma sbrk_blocks_witness:
  "fst (alloc_all (\<lambda>n (e, c). alt_sbrk 0x1100 n e c) [5, 0x200, 0x20] (0x1002, cpu_init)) = [(0x1004, 5), (- 1, 0x200), (0x100C, 0x20)]
   \<and> sorted_wrt before [(0x1004, 5), (0x100C, 0x20)]"
proof -
  have v: "alloc_all (\<lambda>n (e, c). alt_sbrk 0x1100 n e c) [5, 0x200, 0x20] (0x1002, cpu_init)
      = ([(0x1004, 5), (- 1, 0x200), (0x100C, 0x20)], 0x102C, cpu_init)"
    by (simp add: alt_sbrk_def word_align_def alt_irq_disable_all_def alt_irq_enable_all_def cpu_init_def Let_def)
  from sbrk_blocks [OF v] v show ?thesis by simp
qed

text \<open>Nothing stops a negative request from moving the end below the start of the heap.\<close>

lemma sbrk_below_start:
  "alloc_all (\<lambda>n (e, c). alt_sbrk 0x1100 n e c) [- 16, 16] (0x1000, c) = ([(0x1000, - 16), (0xFF0, 16)], 0x1000, c)"
  by (simp add: alt_sbrk_def word_align_def alt_irq_disable_all_def alt_irq_enable_all_def Let_def)

end
