(* ===== verification/Gmon.thy ===== *)
theory Gmon
  imports Heap Alarm
begin

text \<open>
  Profiling: \<open>alt_gmon.c\<close>. The call graph (64 lists of functions, each with the list of its
  callers) in memory taken from \<open>sbrk\<close> in slabs, and the histogram of the program counter, filled
  by an alarm. The linker's addresses are the environment. The code's assembler part
  (\<open>alt_mcount.S\<close>), which counts the calls already known and looks up the rest, is not modelled:
  the list and the entry it found are arguments.
\<close>

subsection \<open>State\<close>

definition PCSAMPLE_BYTES_PER_BUCKET :: u32 where "PCSAMPLE_BYTES_PER_BUCKET = 32"
definition HASH_BUCKETS :: nat where "HASH_BUCKETS = 64"

record mcount_fn_arc =
  anext :: ptr
  from_pc :: u32
  acount :: u32

record mcount_fn_entry =
  enext :: ptr
  self_pc :: u32
  arc_head :: ptr

record gmon =
  heap_end :: u32
  pcsample_need_init :: int
  fn_heads :: "ptr list"
  fn_entries :: "ptr \<Rightarrow> mcount_fn_entry"
  fn_arcs :: "ptr \<Rightarrow> mcount_fn_arc"
  s_pcsamples :: u32
  halfwords :: "u32 \<Rightarrow> u16"
  alt_gmon_data :: "u32 list"
  mcount_slab_ptr :: u32
  mcount_slab_size :: u32

type_synonym gsys = "gmon sys"

record gmon_env =
  s_low_pc :: u32
  s_high_pc :: u32
  heap_limit :: u32
  sample_alarm :: ptr
  sample_function :: u32
  gmon_alarms :: "gmon alarm_env"

definition upd_gmon :: "(gmon \<Rightarrow> gmon) \<Rightarrow> gsys \<Rightarrow> gsys" where
  "upd_gmon f s = s\<lparr>app := f (app s)\<rparr>"


subsection \<open>The call graph\<close>







subsection \<open>The histogram\<close>

text \<open>\<open>pc\<close> is the exception return address.\<close>

definition nios2_pcsample :: "gmon_env \<Rightarrow> u32 \<Rightarrow> gsys \<Rightarrow> u32 \<times> gsys" where
  "nios2_pcsample e pc s =
     (1, if pc \<ge> s_low_pc e \<and> pc < s_high_pc e \<and> s_pcsamples (app s) \<noteq> 0
         then (let bucket = (pc - s_low_pc e) div PCSAMPLE_BYTES_PER_BUCKET
               in upd_gmon (\<lambda>g. let a = s_pcsamples g + bucket * 2
                                in g\<lparr>halfwords := (halfwords g)(a := halfwords g a + 1)\<rparr>) s)
         else s)"

subsection \<open>The lists in memory\<close>

type_synonym arc = "ptr \<times> u32 \<times> u32"
type_synonym fn_node = "ptr \<times> u32 \<times> arc list"




fun add_arc :: "ptr \<Rightarrow> arc \<Rightarrow> fn_node list \<Rightarrow> fn_node list" where
  "add_arc fn a [] = []"
| "add_arc fn a ((q, f, as) # es) = (if q = fn then (q, f, a # as) # es else (q, f, as) # add_arc fn a es)"







subsection \<open>The slabs are an allocator\<close>


lemma upd_gmon_simps [simp]:
  "app (upd_gmon f s) = f (app s)" "scpu (upd_gmon f s) = scpu s" "tick_rate (upd_gmon f s) = tick_rate s"
  by (simp_all add: upd_gmon_def)




subsection \<open>The representation\<close>










subsection \<open>Recording a call\<close>


definition histogram_bytes :: "gmon_env \<Rightarrow> u32" where
  "histogram_bytes e = (s_high_pc e - s_low_pc e) div PCSAMPLE_BYTES_PER_BUCKET * 2"




lemma add_arc_first: "add_arc q a ((q, f, as) # es) = (q, f, a # as) # es"
  by simp




subsection \<open>The specification\<close>

text \<open>The call graph without the pointers; a call from a new place adds an arc with count 1.\<close>

type_synonym callers = "u32 \<times> (u32 \<times> u32) list"

definition strip :: "fn_node list \<Rightarrow> callers list" where
  "strip = map (\<lambda>(q, f, as). (f, map snd as))"



lemma strip_simps [simp]: "strip [] = []" "strip ((q, f, as) # es) = (f, map snd as) # strip es"
  by (simp_all add: strip_def)




text \<open>The initial memory image, with the heap at \<open>h\<close>.\<close>

definition gmon_init :: "gmon_env \<Rightarrow> u32 \<Rightarrow> gmon" where
  "gmon_init e h = \<lparr>heap_end = h, pcsample_need_init = 1, fn_heads = replicate HASH_BUCKETS 0,
     fn_entries = (\<lambda>_. \<lparr>enext = 0, self_pc = 0, arc_head = 0\<rparr>), fn_arcs = (\<lambda>_. \<lparr>anext = 0, from_pc = 0, acount = 0\<rparr>),
     s_pcsamples = 0, halfwords = (\<lambda>_. 0),
     alt_gmon_data = [0x6e6f6d67, 9, 0, s_low_pc e, s_high_pc e, PCSAMPLE_BYTES_PER_BUCKET, 0, 0, 0],
     mcount_slab_ptr = 0, mcount_slab_size = 0\<rparr>"


subsection \<open>Properties\<close>


definition demo_text :: gmon_env where
  "demo_text = \<lparr>s_low_pc = 0x1000, s_high_pc = 0x1050, heap_limit = 0x9000, sample_alarm = 0x1F00, sample_function = 0x1008,
     gmon_alarms = \<lparr>alt_alarm_list = 0x1E00, call_back = (\<lambda>_ _ s. (1, s))\<rparr>\<rparr>"

definition demo_profile :: gsys where
  "demo_profile = \<lparr>tick_rate = 100, nticks = 0, links = ALT_LLIST_HEAD 0x1E00 \<lparr>next_of = \<lambda>_. 0, previous_of = \<lambda>_. 0\<rparr>,
     alarms = (\<lambda>_. \<lparr>atime = 0, callback = 0, rollover = 0, acontext = 0\<rparr>), scpu = cpu_init\<lparr>status := 1\<rparr>,
     app = gmon_init demo_text 0x2000\<rparr>"


text \<open>C32. A sample of the program counter inside the profiled text increments (modulo 2^16) exactly the
  halfword of its 32-byte bucket, and one outside changes nothing; the halfword lies in the
  histogram that was allocated unless the length of the text is not a multiple of 32 and the
  program counter is in its last, partial bucket, for which no room was reserved: then the
  sample changes whatever follows the histogram on the heap.\<close>

theorem pcsample_bounds:
  assumes "s_low_pc e \<le> s_high_pc e" and "s_pcsamples (app s) = p" and "p \<noteq> 0" and "nios2_pcsample e pc s = (r, s')"
  shows "r = 1
    \<and> (pc < s_low_pc e \<or> s_high_pc e \<le> pc \<longrightarrow> s' = s)
    \<and> (s_low_pc e \<le> pc \<and> pc < s_high_pc e \<longrightarrow>
        (\<exists>i. unat i = 2 * ((unat pc - unat (s_low_pc e)) div 32)
          \<and> app s' = (app s)\<lparr>halfwords := (halfwords (app s))(p + i := halfwords (app s) (p + i) + 1)\<rparr>
          \<and> (i < histogram_bytes e \<longleftrightarrow> unat pc < unat (s_low_pc e) + 32 * ((unat (s_high_pc e) - unat (s_low_pc e)) div 32))))"
proof -
  let ?i = "(pc - s_low_pc e) div PCSAMPLE_BYTES_PER_BUCKET * 2"
  have small: "unat (x div 32 * 2) = 2 * (unat x div 32)" for x :: u32
  proof -
    have "unat x div 32 * 2 < 2 ^ 32" using unat_lt_2p [of x] by simp
    then show ?thesis by (simp add: unat_word_ariths unat_div)
  qed
  have h: "unat (histogram_bytes e) = 2 * ((unat (s_high_pc e) - unat (s_low_pc e)) div 32)"
    using assms(1) by (simp add: histogram_bytes_def PCSAMPLE_BYTES_PER_BUCKET_def small unat_sub word_le_nat_alt)
  have "unat ?i = 2 * ((unat pc - unat (s_low_pc e)) div 32)
      \<and> (?i < histogram_bytes e \<longleftrightarrow> unat pc < unat (s_low_pc e) + 32 * ((unat (s_high_pc e) - unat (s_low_pc e)) div 32))"
    if in_text: "s_low_pc e \<le> pc" "pc < s_high_pc e"
  proof -
    have i: "unat ?i = 2 * ((unat pc - unat (s_low_pc e)) div 32)"
      using in_text by (simp add: PCSAMPLE_BYTES_PER_BUCKET_def small unat_sub word_le_nat_alt)
    have "(unat pc - unat (s_low_pc e)) div 32 < n \<longleftrightarrow> unat pc < unat (s_low_pc e) + 32 * n" for n
      using in_text(1) by (auto simp: word_le_nat_alt)
    with i h show ?thesis by (simp add: word_less_nat_alt)
  qed
  then show ?thesis using assms(2-4)
    by (auto simp: nios2_pcsample_def Let_def not_le not_less)
qed

lemma pcsample_bounds_witness:
  "\<exists>i s'. nios2_pcsample demo_text 0x1044 (upd_gmon (\<lambda>g. g\<lparr>s_pcsamples := 0x2000\<rparr>) demo_profile) = (1, s')
     \<and> halfwords (app s') (0x2000 + i) = 1 \<and> unat i = 4 \<and> \<not> i < histogram_bytes demo_text"
proof -
  let ?s = "upd_gmon (\<lambda>g. g\<lparr>s_pcsamples := 0x2000\<rparr>) demo_profile"
  obtain r s' where s': "nios2_pcsample demo_text 0x1044 ?s = (r, s')" by fastforce
  have e: "s_low_pc demo_text \<le> s_high_pc demo_text" "s_pcsamples (app ?s) = 0x2000" "(0x2000 :: u32) \<noteq> 0"
    by (simp_all add: demo_text_def)
  note b = pcsample_bounds [OF e s']
  have in_text: "s_low_pc demo_text \<le> 0x1044 \<and> 0x1044 < s_high_pc demo_text" by (simp add: demo_text_def)
  with b obtain i where i: "unat i = 2 * ((unat (0x1044 :: u32) - unat (s_low_pc demo_text)) div 32)"
    "app s' = (app ?s)\<lparr>halfwords := (halfwords (app ?s))(0x2000 + i := halfwords (app ?s) (0x2000 + i) + 1)\<rparr>"
    "i < histogram_bytes demo_text \<longleftrightarrow>
      unat (0x1044 :: u32) < unat (s_low_pc demo_text) + 32 * ((unat (s_high_pc demo_text) - unat (s_low_pc demo_text)) div 32)"
    by blast
  have "r = 1" using b by blast
  moreover have "halfwords (app s') (0x2000 + i) = 1" by (simp add: i(2) demo_profile_def gmon_init_def)
  moreover have "unat i = 4" "\<not> i < histogram_bytes demo_text" using i(1,3) by (simp_all add: demo_text_def)
  ultimately show ?thesis using s' by blast
qed

end
