(* ===== verification/Cache.thy ===== *)
theory Cache
  imports Prelude
begin

text \<open>
  Cache maintenance: \<open>alt_dcache_flush.c\<close>, \<open>alt_dcache_flush_all.c\<close>,
  \<open>alt_dcache_flush_no_writeback.c\<close>, \<open>alt_icache_flush.c\<close>, \<open>alt_icache_flush_all.c\<close>,
  \<open>alt_remap_cached.c\<close>, \<open>alt_remap_uncached.c\<close>, \<open>alt_uncached_malloc.c\<close> and
  \<open>alt_uncached_free.c\<close>, for any cache configuration of the processor: the macros of \<open>system.h\<close> are a
  record. A function gives the cache instructions it executes; \<open>None\<close> says that its loop does
  not end. What the instructions do to the caches, and the C library's \<open>malloc\<close> and \<open>free\<close>, are
  parameters.
\<close>

subsection \<open>Configuration and instructions\<close>

record cache_cfg =
  NIOS2_DCACHE_SIZE :: u32
  NIOS2_DCACHE_LINE_SIZE :: u32
  NIOS2_ICACHE_SIZE :: u32
  NIOS2_ICACHE_LINE_SIZE :: u32
  NIOS2_FLUSHDA_SUPPORTED :: bool
  NIOS2_INITDA_SUPPORTED :: bool
  NIOS2_MMU_PRESENT :: bool

text \<open>The processor of this system has no caches.\<close>

definition this_cpu :: cache_cfg where
  "this_cpu = \<lparr>NIOS2_DCACHE_SIZE = 0, NIOS2_DCACHE_LINE_SIZE = 0, NIOS2_ICACHE_SIZE = 0,
     NIOS2_ICACHE_LINE_SIZE = 0, NIOS2_FLUSHDA_SUPPORTED = True, NIOS2_INITDA_SUPPORTED = False,
     NIOS2_MMU_PRESENT = False\<rparr>"

datatype cache_insn = Flushda u32 | Flushd u32 | Initda u32 | Flushi u32 | Flushp

subsection \<open>The loops\<close>

text \<open>The loop over the lines from \<open>i\<close> to \<open>end\<close>; it also gives the final \<open>i\<close>.\<close>

partial_function (option) flush_loop ::
  "(u32 \<Rightarrow> cache_insn) \<Rightarrow> u32 \<Rightarrow> u32 \<Rightarrow> u32 \<Rightarrow> (cache_insn list \<times> u32) option" where
  "flush_loop insn line_size end_at i =
     (if i < end_at
      then Option.bind (flush_loop insn line_size end_at (i + line_size)) (\<lambda>(t, j). Some (insn i # t, j))
      else Some ([], i))"

text \<open>The loop and the extra line for an unaligned start.\<close>

definition flush_range :: "(u32 \<Rightarrow> cache_insn) \<Rightarrow> u32 \<Rightarrow> u32 \<Rightarrow> u32 \<Rightarrow> cache_insn list option" where
  "flush_range insn line_size start len =
     (case flush_loop insn line_size (start + len) start of
        None \<Rightarrow> None
      | Some (t, i) \<Rightarrow> Some (t @ (if start AND (line_size - 1) \<noteq> 0 then [insn i] else [])))"

definition ALT_FLUSH_DATA :: "cache_cfg \<Rightarrow> u32 \<Rightarrow> cache_insn" where
  "ALT_FLUSH_DATA cfg i = (if NIOS2_FLUSHDA_SUPPORTED cfg then Flushda i else Flushd i)"

definition alt_dcache_flush :: "cache_cfg \<Rightarrow> u32 \<Rightarrow> u32 \<Rightarrow> cache_insn list option" where
  "alt_dcache_flush cfg start len =
     (if NIOS2_DCACHE_SIZE cfg > 0
      then (let len = (if \<not> NIOS2_FLUSHDA_SUPPORTED cfg \<and> len > NIOS2_DCACHE_SIZE cfg
                       then NIOS2_DCACHE_SIZE cfg else len)
            in flush_range (ALT_FLUSH_DATA cfg) (NIOS2_DCACHE_LINE_SIZE cfg) start len)
      else Some [])"

definition alt_dcache_flush_all :: "cache_cfg \<Rightarrow> cache_insn list option" where
  "alt_dcache_flush_all cfg =
     (if NIOS2_DCACHE_SIZE cfg > 0
      then map_option fst (flush_loop Flushd (NIOS2_DCACHE_LINE_SIZE cfg) (NIOS2_DCACHE_SIZE cfg) 0)
      else Some [])"

definition alt_dcache_flush_no_writeback :: "cache_cfg \<Rightarrow> u32 \<Rightarrow> u32 \<Rightarrow> cache_insn list option" where
  "alt_dcache_flush_no_writeback cfg start len =
     (if NIOS2_INITDA_SUPPORTED cfg then flush_range Initda (NIOS2_DCACHE_LINE_SIZE cfg) start len
      else Some [])"

definition alt_icache_flush :: "cache_cfg \<Rightarrow> u32 \<Rightarrow> u32 \<Rightarrow> cache_insn list option" where
  "alt_icache_flush cfg start len =
     (if NIOS2_ICACHE_SIZE cfg > 0
      then (let len = (if len > NIOS2_ICACHE_SIZE cfg then NIOS2_ICACHE_SIZE cfg else len)
            in map_option (\<lambda>t. t @ [Flushp]) (flush_range Flushi (NIOS2_ICACHE_LINE_SIZE cfg) start len))
      else Some [])"

definition alt_icache_flush_all :: "cache_cfg \<Rightarrow> cache_insn list option" where
  "alt_icache_flush_all cfg =
     (if NIOS2_ICACHE_SIZE cfg > 0 then alt_icache_flush cfg 0 (NIOS2_ICACHE_SIZE cfg) else Some [])"

subsection \<open>Uncached aliases\<close>

definition BYPASS_DCACHE_MASK :: "cache_cfg \<Rightarrow> u32" where
  "BYPASS_DCACHE_MASK cfg = (if NIOS2_MMU_PRESENT cfg then push_bit 29 1 else push_bit 31 1)"

definition alt_remap_cached :: "cache_cfg \<Rightarrow> u32 \<Rightarrow> u32 \<Rightarrow> u32" where
  "alt_remap_cached cfg ptr len = ptr AND NOT (BYPASS_DCACHE_MASK cfg)"

definition alt_remap_uncached :: "cache_cfg \<Rightarrow> u32 \<Rightarrow> u32 \<Rightarrow> (u32 \<times> cache_insn list) option" where
  "alt_remap_uncached cfg ptr len =
     (case alt_dcache_flush cfg ptr len of
        None \<Rightarrow> None
      | Some t \<Rightarrow> Some (ptr OR BYPASS_DCACHE_MASK cfg, t))"

definition alt_uncached_malloc ::
  "cache_cfg \<Rightarrow> (u32 \<Rightarrow> 's \<Rightarrow> u32 \<times> 's) \<Rightarrow> u32 \<Rightarrow> 's \<Rightarrow> (u32 \<times> cache_insn list \<times> 's) option" where
  "alt_uncached_malloc cfg malloc n s =
     (let (ptr, s) = malloc n s
      in case alt_dcache_flush cfg ptr n of
           None \<Rightarrow> None
         | Some t \<Rightarrow> Some (if ptr \<noteq> 0 then ptr OR BYPASS_DCACHE_MASK cfg else 0, t, s))"

definition alt_uncached_free :: "cache_cfg \<Rightarrow> (u32 \<Rightarrow> 's \<Rightarrow> 's) \<Rightarrow> u32 \<Rightarrow> 's \<Rightarrow> 's" where
  "alt_uncached_free cfg free ptr s = free (ptr AND NOT (BYPASS_DCACHE_MASK cfg)) s"

subsection \<open>The loop in closed form\<close>

definition lines :: "u32 \<Rightarrow> u32 \<Rightarrow> nat \<Rightarrow> u32 list" where
  "lines i line_size n = map (\<lambda>k. i + of_nat k * line_size) [0..<n]"

definition steps :: "u32 \<Rightarrow> u32 \<Rightarrow> u32 \<Rightarrow> nat" where
  "steps i end_at line_size = (unat end_at - unat i + (unat line_size - 1)) div unat line_size"

text \<open>The highest address of the form \<open>i + k * line_size\<close>, with sums that wrap.\<close>

definition top_line :: "u32 \<Rightarrow> nat \<Rightarrow> nat" where
  "top_line i k = unat i mod 2 ^ k + (2 ^ 32 - 2 ^ k)"

lemma lines_Suc: "lines i L (Suc n) = i # lines (i + L) L n"
proof -
  have "[0..<Suc n] = 0 # map Suc [0..<n]" by (simp only: map_Suc_upt upt_conv_Cons zero_less_Suc)
  then show ?thesis by (simp add: lines_def algebra_simps del: upt_Suc)
qed

lemma lines_0 [simp]: "lines i L 0 = []"
  by (simp add: lines_def)

lemma last_multiple:
  fixes x d q :: nat
  assumes "x < q * d"
  shows "x \<le> x mod d + (q * d - d)" "x < x mod d + (q * d - d) \<Longrightarrow> x + d < q * d"
proof -
  have d: "0 < d" using assms by (cases d) auto
  define a where "a = x div d"
  have x: "x = a * d + x mod d" unfolding a_def using div_mult_mod_eq [of x d] by simp
  have a: "a < q" using assms unfolding a_def by (simp add: div_less_iff_less_mult d)
  then obtain b where b: "q = Suc (a + b)" using less_iff_Suc_add by blast
  show "x \<le> x mod d + (q * d - d)" using x b by (simp add: algebra_simps)
  assume "x < x mod d + (q * d - d)"
  with x b have "0 < b" by (cases b) (simp_all add: algebra_simps)
  then obtain c where "b = Suc c" using gr0_implies_Suc by blast
  moreover have "x mod d < d" using d by simp
  ultimately show "x + d < q * d" using x b by (simp add: algebra_simps)
qed

lemma two_32: "k < 32 \<Longrightarrow> (2 :: nat) ^ (32 - k) * 2 ^ k = 2 ^ 32"
  by (simp flip: power_add)

lemma below_top_line: "k < 32 \<Longrightarrow> unat i \<le> top_line i k"
  using last_multiple(1) [of "unat i" "2 ^ (32 - k)" "2 ^ k"] unat_lt_2p [of i]
  by (simp add: top_line_def two_32 del: numeral_power_eq_of_nat_cancel_iff)

text \<open>A step that stays below it does not wrap.\<close>

lemma line_step:
  assumes "k < 32" "unat L = 2 ^ k" "unat i < top_line i k"
  shows "unat (i + L) = unat i + 2 ^ k" "top_line (i + L) k = top_line i k"
proof -
  have "unat i + 2 ^ k < 2 ^ 32"
    using last_multiple(2) [of "unat i" "2 ^ (32 - k)" "2 ^ k"] unat_lt_2p [of i] assms
    by (simp add: top_line_def two_32)
  then show u: "unat (i + L) = unat i + 2 ^ k" by (simp add: unat_word_ariths assms(2))
  show "top_line (i + L) k = top_line i k" by (simp add: top_line_def u)
qed

lemma flush_loop_spec:
  assumes "k < 32" "unat L = 2 ^ k"
  shows "unat e \<le> top_line i k \<Longrightarrow>
    flush_loop insn L e i = Some (map insn (lines i L (steps i e L)), i + of_nat (steps i e L) * L)"
proof (induction "unat e - unat i" arbitrary: i rule: less_induct)
  case less
  show ?case
  proof (cases "i < e")
    case False
    then have "steps i e L = 0" using assms by (simp add: steps_def word_le_nat_alt not_less)
    with False show ?thesis by (simp add: flush_loop.simps)
  next
    case True
    have n: "unat (i + L) = unat i + 2 ^ k" "top_line (i + L) k = top_line i k"
      using line_step [OF assms] True less.prems by (simp_all add: word_less_nat_alt)
    have s: "steps i e L = Suc (steps (i + L) e L)"
    proof (cases "unat i + 2 ^ k \<le> unat e")
      case le: True
      then have "unat e - unat i + (2 ^ k - 1) = 2 ^ k + (unat e - (unat i + 2 ^ k) + (2 ^ k - 1))" by simp
      then show ?thesis unfolding steps_def n(1) assms(2) by (simp add: div_add_self1)
    next
      case False
      then have "(unat e - unat i + (2 ^ k - 1)) div 2 ^ k = 1" using True
        by (intro div_nat_eqI) (simp_all add: word_less_nat_alt)
      with False show ?thesis unfolding steps_def n(1) assms(2) by simp
    qed
    have "flush_loop insn L e (i + L) = Some (map insn (lines (i + L) L (steps (i + L) e L)), i + L + of_nat (steps (i + L) e L) * L)"
      using True n less.prems assms(2) by (intro less.hyps) (simp_all add: word_less_nat_alt diff_less_mono2)
    with True show ?thesis by (subst flush_loop.simps) (simp add: s lines_Suc algebra_simps)
  qed
qed

lemma step_mod:
  assumes "k < 32" "unat L = 2 ^ k"
  shows "unat (i + L) mod 2 ^ k = unat (i :: u32) mod 2 ^ k"
proof -
  have "(2 :: nat) ^ k dvd 2 ^ 32" using assms(1) by (intro le_imp_power_dvd) simp
  then show ?thesis by (simp add: unat_word_ariths assms(2) mod_mod_cancel)
qed

lemma flush_loop_end:
  assumes "flush_loop insn L e i = Some (t, j)" "k < 32" "unat L = 2 ^ k"
  shows "e \<le> j \<and> unat j mod 2 ^ k = unat i mod 2 ^ k"
proof -
  have "unat L = 2 ^ k \<longrightarrow> e \<le> snd r \<and> unat (snd r) mod 2 ^ k = unat i mod 2 ^ k"
    if "flush_loop insn L e i = Some r" for insn L e i r
    using that
  proof (induction rule: flush_loop.raw_induct [rotated, consumes 1, case_names step])
    case (step loop insn L e i r)
    then show ?case using step_mod [OF assms(2), of L i]
      by (auto simp: not_less bind_eq_Some_conv split: if_splits)
  qed
  with assms show ?thesis by fastforce
qed

lemma flush_loop_returns_iff:
  assumes "k < 32" "unat L = 2 ^ k"
  shows "flush_loop insn L e i \<noteq> None \<longleftrightarrow> unat e \<le> top_line i k"
proof
  assume "flush_loop insn L e i \<noteq> None"
  then obtain t j where "flush_loop insn L e i = Some (t, j)" by auto
  from flush_loop_end [OF this assms] have "e \<le> j" "top_line j k = top_line i k" by (simp_all add: top_line_def)
  with below_top_line [OF assms(1), of j] show "unat e \<le> top_line i k" by (simp add: word_le_nat_alt)
qed (simp add: flush_loop_spec [OF assms])

subsection \<open>Which lines a range touches\<close>

definition line_of :: "u32 \<Rightarrow> u32 \<Rightarrow> nat" where
  "line_of line_size a = unat a div unat line_size"

definition index_of :: "u32 \<Rightarrow> u32 \<Rightarrow> u32 \<Rightarrow> nat" where
  "index_of cache_size line_size a = line_of line_size a mod (unat cache_size div unat line_size)"

text \<open>The number of lines that are flushed for a range.\<close>

definition line_count :: "nat \<Rightarrow> nat \<Rightarrow> nat \<Rightarrow> nat" where
  "line_count start len d = (len + (d - 1)) div d + (if start mod d = 0 then 0 else 1)"

definition in_range :: "u32 \<Rightarrow> u32 \<Rightarrow> u32 \<Rightarrow> bool" where
  "in_range start len b \<longleftrightarrow> unat start \<le> unat b \<and> unat b < unat start + unat len"

lemma lines_in_range:
  fixes s b len d :: nat
  assumes "s \<le> b" "b < s + len" "0 < d"
  shows "b div d - s div d < line_count s len d"
proof -
  define m where "m = s mod d"
  define q where "q = s div d"
  have s: "s = q * d + m" unfolding m_def q_def by simp
  have md: "m < d" unfolding m_def using assms(3) by simp
  obtain c where c: "b = q * d + c" using assms(1) s le_Suc_ex [of "q * d" b] by fastforce
  then have bd: "b div d = q + c div d" using assms(3) by simp
  have "c \<le> m + (len - 1)" using assms(1,2) s c by linarith
  then have le: "c div d \<le> (m + (len - 1)) div d" by (rule div_le_mono)
  have "c div d < line_count s len d"
  proof (cases "m = 0")
    case True
    have "len + (d - 1) = (len - 1) + d" using assms by linarith
    then have "(len + (d - 1)) div d = (len - 1) div d + 1" using div_add_self2 [of d "len - 1"] assms(3) [THEN gr_implies_not0] by metis
    then show ?thesis using le unfolding line_count_def m_def [symmetric] True by simp
  next
    case False
    have "m + (len - 1) \<le> len + (d - 1)" using md by linarith
    from div_le_mono [OF this, of d] le False show ?thesis unfolding line_count_def m_def [symmetric] by simp
  qed
  then show ?thesis unfolding bd q_def [symmetric] by simp
qed

lemma low_bits:
  assumes "k < 32" "unat L = 2 ^ k"
  shows "(x :: u32) AND (L - 1) \<noteq> 0 \<longleftrightarrow> unat x mod 2 ^ k \<noteq> 0"
proof -
  have "of_nat (unat L) = L" by simp
  then have "L = 2 ^ k" unfolding assms(2) by simp
  then have "x AND (L - 1) = take_bit k x" by (simp add: take_bit_eq_mask mask_eq_exp_minus_1)
  moreover have "unat (take_bit k x) = take_bit k (unat x)" by (rule unsigned_take_bit_eq)
  then have "unat (take_bit k x) = unat x mod 2 ^ k" unfolding take_bit_eq_mod [of k "unat x"] .
  ultimately show ?thesis by (metis unat_eq_zero)
qed

lemma flush_range_spec:
  assumes "k < 32" "unat L = 2 ^ k" "unat start + unat len + unat L \<le> 2 ^ 32"
  shows "flush_range insn L start len = Some (map insn (lines start L (line_count (unat start) (unat len) (unat L))))"
proof -
  have "(1 :: nat) \<le> 2 ^ k" by simp
  then have "unat start + unat len < 2 ^ 32" using assms(2,3) by linarith
  then have e: "unat (start + len) = unat start + unat len" by (simp add: unat_word_ariths)
  have "unat (start + len) \<le> top_line start k" using assms e by (simp add: top_line_def)
  note l = flush_loop_spec [OF assms(1,2) this, of insn]
  have n: "steps start (start + len) L = (unat len + (2 ^ k - 1)) div 2 ^ k"
    by (simp add: steps_def e assms(2))
  have "lines start L (Suc n) = lines start L n @ [start + of_nat n * L]" for n by (simp add: lines_def)
  with low_bits [OF assms(1,2), of start] show ?thesis
    by (simp add: flush_range_def l n line_count_def assms(2))
qed

lemma nth_line:
  assumes "unat L = 2 ^ k" "unat start + unat len + unat L \<le> 2 ^ 32" "j < line_count (unat start) (unat len) (unat L)"
  shows "unat (start + of_nat j * L) = unat start + j * 2 ^ k" "line_of L (start + of_nat j * L) = line_of L start + j"
proof -
  have "j \<le> (unat len + (2 ^ k - 1)) div 2 ^ k" using assms by (simp add: line_count_def split: if_splits)
  then have "j * 2 ^ k \<le> unat len + (2 ^ k - 1)"
    by (meson div_times_less_eq_dividend le_trans mult_le_mono1)
  moreover have "(1 :: nat) \<le> 2 ^ k" by simp
  ultimately have b: "unat start + j * 2 ^ k < 2 ^ 32" using assms by linarith
  have "of_nat (unat L) = L" by simp
  then have "L = of_nat (2 ^ k)" unfolding assms(1) by simp
  then have "of_nat j * L = of_nat (j * 2 ^ k)" by simp
  moreover have "j * 2 ^ k < 2 ^ 32" using b by linarith
  then have "unat (of_nat (j * 2 ^ k) :: u32) = j * 2 ^ k"
    by (simp only: unsigned_of_nat len_bit0 len_num1) (simp add: take_bit_nat_eq_self)
  ultimately have "unat (of_nat j * L) = j * 2 ^ k" by metis
  with b show u: "unat (start + of_nat j * L) = unat start + j * 2 ^ k" by (simp add: unat_word_ariths)
  show "line_of L (start + of_nat j * L) = line_of L start + j" by (simp add: line_of_def u assms(1))
qed

lemma covered_by_line:
  assumes "unat L = 2 ^ k" "unat start + unat len + unat L \<le> 2 ^ 32" "in_range start len b"
  shows "\<exists>a \<in> set (lines start L (line_count (unat start) (unat len) (unat L))). line_of L a = line_of L b"
proof -
  let ?j = "line_of L b - line_of L start"
  have j: "?j < line_count (unat start) (unat len) (unat L)"
    unfolding line_of_def using assms(1,3) by (intro lines_in_range) (auto simp: in_range_def)
  have "line_of L start \<le> line_of L b" using assms(3) unfolding line_of_def in_range_def by (intro div_le_mono) simp
  with nth_line(2) [OF assms(1,2) j] have "line_of L (start + of_nat ?j * L) = line_of L b" by simp
  with j show ?thesis by (auto simp: lines_def)
qed

lemma mod_hit:
  fixes l s n :: nat
  assumes "0 < n"
  shows "\<exists>j<n. (s + j) mod n = l mod n"
proof -
  let ?j = "(l + (n - s mod n)) mod n"
  have "s mod n < n" using assms by simp
  then have "s + (l + (n - s mod n)) = l + s div n * n + n"
    using div_mult_mod_eq [of s n] by linarith
  then have "(s + (l + (n - s mod n))) mod n = (l + s div n * n + n) mod n" by (rule arg_cong)
  then have "(s + (l + (n - s mod n))) mod n = l mod n" by (metis mod_add_self2 mod_mult_self1)
  then have "(s + ?j) mod n = l mod n" by (simp add: mod_add_right_eq)
  with assms show ?thesis by (intro exI [of _ ?j]) simp
qed

text \<open>A cache size is a multiple of the line size, which is a power of two.\<close>

definition sizes_ok :: "u32 \<Rightarrow> u32 \<Rightarrow> bool" where
  "sizes_ok cache_size line_size \<longleftrightarrow> 0 < cache_size \<and> unat line_size dvd unat cache_size
     \<and> (\<exists>k<32. unat line_size = 2 ^ k)"

text \<open>As many lines as the cache has hit every index.\<close>

lemma every_index:
  assumes "sizes_ok csize L" "unat start + unat csize + unat L \<le> 2 ^ 32"
  shows "\<exists>a \<in> set (lines start L (line_count (unat start) (unat csize) (unat L))). index_of csize L a = index_of csize L b"
proof -
  obtain k where k: "unat L = 2 ^ k" "k < 32" using assms(1) by (auto simp: sizes_ok_def)
  define n where "n = unat csize div unat L"
  have sz: "unat csize = n * 2 ^ k" using assms(1) by (simp add: n_def k sizes_ok_def)
  then have "0 < n" using assms(1) by (auto simp: sizes_ok_def word_less_nat_alt intro: gr0I)
  from mod_hit [OF this, of "line_of L start" "line_of L b"]
  obtain j where j: "j < n" "(line_of L start + j) mod n = line_of L b mod n" by blast
  have "(2 :: nat) ^ k - 1 < 2 ^ k" by simp
  then have "(2 ^ k - 1 + n * 2 ^ k) div 2 ^ k = n" by (simp only: div_mult_self1 div_less)
  then have "(n * 2 ^ k + (2 ^ k - 1)) div 2 ^ k = n" by (simp only: add.commute)
  then have "n \<le> line_count (unat start) (unat csize) (unat L)" by (simp add: line_count_def sz k)
  with j(1) have jc: "j < line_count (unat start) (unat csize) (unat L)" by simp
  from nth_line(2) [OF k(1) assms(2) jc] j(2)
  have "index_of csize L (start + of_nat j * L) = index_of csize L b" by (simp add: index_of_def n_def)
  with jc show ?thesis by (auto simp: lines_def)
qed

lemma covered_by_index:
  assumes "sizes_ok csize L" "len' = (if len > csize then csize else len)"
    "unat start + unat len' + unat L \<le> 2 ^ 32" "in_range start len b"
  shows "\<exists>a \<in> set (lines start L (line_count (unat start) (unat len') (unat L))).
    index_of csize L a = index_of csize L b"
proof (cases "len > csize")
  case False
  obtain k where k: "unat L = 2 ^ k" using assms(1) by (auto simp: sizes_ok_def)
  have "len' = len" using False assms(2) by simp
  with covered_by_line [OF k, of start len b] assms(3,4) show ?thesis unfolding index_of_def by metis
qed (use assms every_index [OF assms(1), of start b] in simp)

subsection \<open>The caches\<close>

text \<open>What the processor manual says of the instructions: \<open>flushda\<close> and \<open>initda\<close> take the line
  of an address out of the data cache if it is there, \<open>flushd\<close> and \<open>flushi\<close> the line with the
  index of the address; the flushes write a dirty line back to memory, \<open>initda\<close> does not; the
  processor reads from memory what is not in the data cache.\<close>

record 'c cache_unit =
  exec :: "cache_insn \<Rightarrow> 'c \<Rightarrow> 'c"
  in_dcache :: "'c \<Rightarrow> u32 \<Rightarrow> bool"
  in_icache :: "'c \<Rightarrow> u32 \<Rightarrow> bool"
  cpu_reads :: "'c \<Rightarrow> u32 \<Rightarrow> u8"
  mem_holds :: "'c \<Rightarrow> u32 \<Rightarrow> u8"

fun takes_out :: "cache_cfg \<Rightarrow> cache_insn \<Rightarrow> u32 \<Rightarrow> bool" where
  "takes_out cfg (Flushda a) b \<longleftrightarrow> line_of (NIOS2_DCACHE_LINE_SIZE cfg) a = line_of (NIOS2_DCACHE_LINE_SIZE cfg) b"
| "takes_out cfg (Initda a) b \<longleftrightarrow> line_of (NIOS2_DCACHE_LINE_SIZE cfg) a = line_of (NIOS2_DCACHE_LINE_SIZE cfg) b"
| "takes_out cfg (Flushd a) b \<longleftrightarrow> index_of (NIOS2_DCACHE_SIZE cfg) (NIOS2_DCACHE_LINE_SIZE cfg) a
     = index_of (NIOS2_DCACHE_SIZE cfg) (NIOS2_DCACHE_LINE_SIZE cfg) b"
| "takes_out cfg _ b \<longleftrightarrow> False"

fun takes_out_insn :: "cache_cfg \<Rightarrow> cache_insn \<Rightarrow> u32 \<Rightarrow> bool" where
  "takes_out_insn cfg (Flushi a) b \<longleftrightarrow> index_of (NIOS2_ICACHE_SIZE cfg) (NIOS2_ICACHE_LINE_SIZE cfg) a
     = index_of (NIOS2_ICACHE_SIZE cfg) (NIOS2_ICACHE_LINE_SIZE cfg) b"
| "takes_out_insn cfg _ b \<longleftrightarrow> False"

fun discards :: "cache_insn \<Rightarrow> bool" where
  "discards (Initda a) = True"
| "discards _ = False"

definition documented :: "cache_cfg \<Rightarrow> 'c cache_unit \<Rightarrow> bool" where
  "documented cfg u \<longleftrightarrow> (\<forall>x c b.
     (in_dcache u (exec u x c) b \<longrightarrow> in_dcache u c b \<and> \<not> takes_out cfg x b)
     \<and> (in_icache u (exec u x c) b \<longrightarrow> in_icache u c b \<and> \<not> takes_out_insn cfg x b)
     \<and> (if discards x then mem_holds u (exec u x c) b = mem_holds u c b
        else cpu_reads u (exec u x c) b = cpu_reads u c b)
     \<and> (\<not> in_dcache u c b \<longrightarrow> cpu_reads u c b = mem_holds u c b))"

abbreviation run :: "'c cache_unit \<Rightarrow> cache_insn list \<Rightarrow> 'c \<Rightarrow> 'c" where
  "run u t \<equiv> fold (exec u) t"

lemma documentedD:
  assumes "documented cfg u"
  shows "in_dcache u (exec u x c) b \<Longrightarrow> in_dcache u c b \<and> \<not> takes_out cfg x b"
    and "in_icache u (exec u x c) b \<Longrightarrow> in_icache u c b \<and> \<not> takes_out_insn cfg x b"
    and "discards x \<Longrightarrow> mem_holds u (exec u x c) b = mem_holds u c b"
    and "\<not> discards x \<Longrightarrow> cpu_reads u (exec u x c) b = cpu_reads u c b"
    and "\<not> in_dcache u c b \<Longrightarrow> cpu_reads u c b = mem_holds u c b"
  using assms unfolding documented_def by meson+

lemma run_dcache:
  assumes "documented cfg u"
  shows "in_dcache u (run u t c) b \<Longrightarrow> in_dcache u c b \<and> (\<forall>x \<in> set t. \<not> takes_out cfg x b)"
proof (induction t arbitrary: c)
  case (Cons x t)
  have "run u (x # t) c = run u t (exec u x c)" by simp
  with Cons documentedD(1) [OF assms, of x c b] show ?case by (metis set_ConsD)
qed simp

lemma run_icache:
  assumes "documented cfg u"
  shows "in_icache u (run u t c) b \<Longrightarrow> in_icache u c b \<and> (\<forall>x \<in> set t. \<not> takes_out_insn cfg x b)"
proof (induction t arbitrary: c)
  case (Cons x t)
  have "run u (x # t) c = run u t (exec u x c)" by simp
  with Cons documentedD(2) [OF assms, of x c b] show ?case by (metis set_ConsD)
qed simp

lemma run_reads:
  assumes "documented cfg u"
  shows "\<forall>x \<in> set t. \<not> discards x \<Longrightarrow> cpu_reads u (run u t c) b = cpu_reads u c b"
  using documentedD(4) [OF assms] by (induction t arbitrary: c) simp_all

lemma run_discards:
  assumes "documented cfg u"
  shows "\<forall>x \<in> set t. discards x \<Longrightarrow> mem_holds u (run u t c) b = mem_holds u c b"
  using documentedD(3) [OF assms] by (induction t arbitrary: c) simp_all


subsection \<open>What the operations do to the caches\<close>

definition dcache_ok :: "cache_cfg \<Rightarrow> bool" where
  "dcache_ok cfg \<longleftrightarrow> sizes_ok (NIOS2_DCACHE_SIZE cfg) (NIOS2_DCACHE_LINE_SIZE cfg)"

definition icache_ok :: "cache_cfg \<Rightarrow> bool" where
  "icache_ok cfg \<longleftrightarrow> sizes_ok (NIOS2_ICACHE_SIZE cfg) (NIOS2_ICACHE_LINE_SIZE cfg)"

text \<open>A region whose last line is not at the very end of the address space.\<close>

definition fits :: "u32 \<Rightarrow> u32 \<Rightarrow> u32 \<Rightarrow> bool" where
  "fits line_size start len \<longleftrightarrow> unat start + unat len + unat line_size \<le> 2 ^ 32"

lemma fits_shorter: "fits L start len \<Longrightarrow> len' \<le> len \<Longrightarrow> fits L start len'"
  by (simp add: fits_def word_le_nat_alt)

lemma range_trace:
  assumes "sizes_ok csize L" "fits L start len"
  shows "flush_range insn L start len = Some (map insn (lines start L (line_count (unat start) (unat len) (unat L))))"
  using assms flush_range_spec [of _ L start len insn] by (auto simp: sizes_ok_def fits_def)

lemma range_covers:
  assumes "sizes_ok csize L" "fits L start len" "in_range start len b"
  shows "\<exists>a \<in> set (lines start L (line_count (unat start) (unat len) (unat L))). line_of L a = line_of L b"
  using assms covered_by_line [of L _ start len b] by (auto simp: sizes_ok_def fits_def)

lemma dcache_flush_spec:
  assumes "dcache_ok cfg" "fits (NIOS2_DCACHE_LINE_SIZE cfg) start len"
  shows "\<exists>t. alt_dcache_flush cfg start len = Some t \<and> (\<forall>x \<in> set t. \<not> discards x)
    \<and> (\<forall>b. in_range start len b \<longrightarrow> (\<exists>x \<in> set t. takes_out cfg x b))"
proof -
  let ?L = "NIOS2_DCACHE_LINE_SIZE cfg" and ?S = "NIOS2_DCACHE_SIZE cfg"
  define n where "n = (if \<not> NIOS2_FLUSHDA_SUPPORTED cfg \<and> len > ?S then ?S else len)"
  define as where "as = lines start ?L (line_count (unat start) (unat n) (unat ?L))"
  have ok: "sizes_ok ?S ?L" "0 < ?S" using assms(1) by (simp_all add: dcache_ok_def sizes_ok_def)
  have f: "fits ?L start n" using assms(2) by (rule fits_shorter) (simp add: n_def less_imp_le)
  have t: "alt_dcache_flush cfg start len = Some (map (ALT_FLUSH_DATA cfg) as)"
    using range_trace [OF ok(1) f] ok(2) by (simp add: alt_dcache_flush_def n_def as_def Let_def)
  have "\<exists>a \<in> set as. takes_out cfg (ALT_FLUSH_DATA cfg a) b" if r: "in_range start len b" for b
  proof (cases "NIOS2_FLUSHDA_SUPPORTED cfg")
    case True
    with range_covers [OF ok(1) f] r show ?thesis by (simp add: n_def as_def ALT_FLUSH_DATA_def)
  next
    case False
    with covered_by_index [OF ok(1), of n len start b] f r show ?thesis
      by (simp add: n_def as_def ALT_FLUSH_DATA_def fits_def)
  qed
  with t show ?thesis by (auto simp: ALT_FLUSH_DATA_def)
qed

lemma dcache_flush_coherent:
  assumes "dcache_ok cfg" "fits (NIOS2_DCACHE_LINE_SIZE cfg) start len" "documented cfg u"
  obtains t where "alt_dcache_flush cfg start len = Some t"
    "\<And>c b. in_range start len b \<Longrightarrow> \<not> in_dcache u (run u t c) b \<and> mem_holds u (run u t c) b = cpu_reads u c b"
proof -
  obtain t where t: "alt_dcache_flush cfg start len = Some t" "\<forall>x \<in> set t. \<not> discards x"
    "\<forall>b. in_range start len b \<longrightarrow> (\<exists>x \<in> set t. takes_out cfg x b)"
    using dcache_flush_spec [OF assms(1,2)] by blast
  have "\<not> in_dcache u (run u t c) b" if "in_range start len b" for c b
    using t(3) that run_dcache [OF assms(3)] by blast
  with t(1) documentedD(5) [OF assms(3)] run_reads [OF assms(3) t(2)] that show thesis by metis
qed

text \<open>Without write-back the region afterwards reads as memory holds it.\<close>

lemma no_writeback_discards:
  assumes "dcache_ok cfg" "NIOS2_INITDA_SUPPORTED cfg" "fits (NIOS2_DCACHE_LINE_SIZE cfg) start len" "documented cfg u"
  shows "\<exists>t. alt_dcache_flush_no_writeback cfg start len = Some t
    \<and> (\<forall>c b. in_range start len b \<longrightarrow> cpu_reads u (run u t c) b = mem_holds u c b)"
proof -
  let ?L = "NIOS2_DCACHE_LINE_SIZE cfg"
  let ?t = "map Initda (lines start ?L (line_count (unat start) (unat len) (unat ?L)))"
  have ok: "sizes_ok (NIOS2_DCACHE_SIZE cfg) ?L" using assms(1) by (simp add: dcache_ok_def)
  have "cpu_reads u (run u ?t c) b = mem_holds u c b" if "in_range start len b" for c b
  proof -
    have "\<exists>x \<in> set ?t. takes_out cfg x b" using range_covers [OF ok assms(3) that] by simp
    then have "\<not> in_dcache u (run u ?t c) b" using run_dcache [OF assms(4)] by blast
    moreover have "\<forall>x \<in> set ?t. discards x" by simp
    ultimately show ?thesis using documentedD(5) [OF assms(4)] run_discards [OF assms(4)] by metis
  qed
  with range_trace [OF ok assms(3), of Initda] assms(2) show ?thesis
    by (simp add: alt_dcache_flush_no_writeback_def)
qed

lemma sizes_small:
  assumes "sizes_ok csize L"
  shows "fits L 0 csize"
proof -
  obtain k where k: "unat L = 2 ^ k" "k < 32" using assms by (auto simp: sizes_ok_def)
  have "unat csize < 2 ^ (32 - k) * 2 ^ k" using unat_lt_2p [of csize] two_32 [OF k(2)] by simp
  then have "unat csize div 2 ^ k < 2 ^ (32 - k)" by (simp add: div_less_iff_less_mult)
  then have "(unat csize div 2 ^ k + 1) * 2 ^ k \<le> 2 ^ (32 - k) * 2 ^ k" by (intro mult_right_mono) auto
  moreover have "unat csize div 2 ^ k * 2 ^ k = unat csize" using assms k by (auto simp: sizes_ok_def)
  ultimately show ?thesis using two_32 [OF k(2)] k(1) by (simp add: fits_def algebra_simps)
qed

text \<open>Flushing everything empties the caches.\<close>

lemma icache_flush_spec:
  assumes "icache_ok cfg" "fits (NIOS2_ICACHE_LINE_SIZE cfg) start len" "documented cfg u"
  shows "\<exists>t. alt_icache_flush cfg start len = Some t \<and> last t = Flushp \<and> (\<forall>x \<in> set t. \<not> discards x)
    \<and> (\<forall>c b. in_range start len b \<longrightarrow> \<not> in_icache u (run u t c) b)"
proof -
  let ?L = "NIOS2_ICACHE_LINE_SIZE cfg" and ?S = "NIOS2_ICACHE_SIZE cfg"
  define n where "n = (if len > ?S then ?S else len)"
  define as where "as = lines start ?L (line_count (unat start) (unat n) (unat ?L))"
  have ok: "sizes_ok ?S ?L" "0 < ?S" using assms(1) by (simp_all add: icache_ok_def sizes_ok_def)
  have f: "fits ?L start n" using assms(2) by (rule fits_shorter) (simp add: n_def less_imp_le)
  have t: "alt_icache_flush cfg start len = Some (map Flushi as @ [Flushp])"
    using range_trace [OF ok(1) f] ok(2) by (simp add: alt_icache_flush_def n_def as_def Let_def)
  have "\<not> in_icache u (run u (map Flushi as @ [Flushp]) c) b" if r: "in_range start len b" for b c
  proof -
    have "\<exists>x \<in> set (map Flushi as @ [Flushp]). takes_out_insn cfg x b"
      using covered_by_index [OF ok(1), of n len start b] f r by (simp add: n_def as_def fits_def)
    then show ?thesis using run_icache [OF assms(3)] by blast
  qed
  with t show ?thesis by auto
qed

lemma flush_all_empties:
  assumes "documented cfg u"
  shows "dcache_ok cfg \<Longrightarrow> \<exists>t. alt_dcache_flush_all cfg = Some t
      \<and> (\<forall>c b. \<not> in_dcache u (run u t c) b \<and> mem_holds u (run u t c) b = cpu_reads u c b)" (is "?d \<Longrightarrow> ?D")
    and "icache_ok cfg \<Longrightarrow> \<exists>t. alt_icache_flush_all cfg = Some t
      \<and> (\<forall>c b. \<not> in_icache u (run u t c) b \<and> cpu_reads u (run u t c) b = cpu_reads u c b
               \<and> (in_dcache u (run u t c) b \<longrightarrow> in_dcache u c b))" (is "?i \<Longrightarrow> ?I")
proof -
  let ?L = "NIOS2_DCACHE_LINE_SIZE cfg" and ?S = "NIOS2_DCACHE_SIZE cfg"
  let ?t = "map Flushd (lines 0 ?L (line_count 0 (unat ?S) (unat ?L)))"
  assume "dcache_ok cfg"
  then have ok: "sizes_ok ?S ?L" "0 < ?S" by (simp_all add: dcache_ok_def sizes_ok_def)
  have r: "flush_range Flushd ?L 0 ?S = Some ?t" using range_trace [OF ok(1) sizes_small [OF ok(1)]] by simp
  have "map_option fst (flush_loop Flushd ?L ?S 0) = Some ?t"
    using r by (simp add: flush_range_def split: option.splits prod.splits)
  then have t: "alt_dcache_flush_all cfg = Some ?t" using ok(2) by (simp add: alt_dcache_flush_all_def)
  have e: "\<not> in_dcache u (run u ?t c) b" for c b
  proof -
    have "\<exists>x \<in> set ?t. takes_out cfg x b"
      using every_index [OF ok(1), of 0 b] sizes_small [OF ok(1)] by (simp add: fits_def)
    then show ?thesis using run_dcache [OF assms] by blast
  qed
  have "\<forall>x \<in> set ?t. \<not> discards x" by simp
  from documentedD(5) [OF assms e] run_reads [OF assms this]
  have "mem_holds u (run u ?t c) b = cpu_reads u c b" for c b by metis
  with t e show ?D by blast
next
  let ?L = "NIOS2_ICACHE_LINE_SIZE cfg" and ?S = "NIOS2_ICACHE_SIZE cfg"
  let ?t = "map Flushi (lines 0 ?L (line_count 0 (unat ?S) (unat ?L))) @ [Flushp]"
  assume "icache_ok cfg"
  then have ok: "sizes_ok ?S ?L" "0 < ?S" by (simp_all add: icache_ok_def sizes_ok_def)
  have t: "alt_icache_flush_all cfg = Some ?t"
    using range_trace [OF ok(1) sizes_small [OF ok(1)], of Flushi] ok(2)
    by (simp add: alt_icache_flush_all_def alt_icache_flush_def)
  moreover have "\<not> in_icache u (run u ?t c) b" for c b
  proof -
    have "\<exists>x \<in> set ?t. takes_out_insn cfg x b"
      using every_index [OF ok(1), of 0 b] sizes_small [OF ok(1)] by (simp add: fits_def)
    then show ?thesis using run_icache [OF assms] by blast
  qed
  moreover have "\<forall>x \<in> set ?t. \<not> discards x" by auto
  ultimately show ?I using run_reads [OF assms, of ?t] run_dcache [OF assms, of ?t] by blast
qed

subsection \<open>Properties\<close>

lemma bypass_bit: "ptr AND BYPASS_DCACHE_MASK cfg = 0 \<Longrightarrow>
    alt_remap_cached cfg (ptr OR BYPASS_DCACHE_MASK cfg) len = ptr"
  unfolding alt_remap_cached_def
proof (rule bit_word_eqI)
  fix n assume n: "n < LENGTH(32)" and z: "ptr AND BYPASS_DCACHE_MASK cfg = 0"
  have "\<not> (bit ptr n \<and> bit (BYPASS_DCACHE_MASK cfg) n)" using arg_cong [OF z, of "\<lambda>w. bit w n"] by (simp add: bit_and_iff)
  with n show "bit ((ptr OR BYPASS_DCACHE_MASK cfg) AND NOT (BYPASS_DCACHE_MASK cfg)) n \<longleftrightarrow> bit ptr n"
    by (auto simp: bit_and_iff bit_or_iff bit_not_iff)
qed

text \<open>C33. On a processor with a data cache that works as documented, for a region in cached memory:
  alt_remap_uncached returns, and its result is turned back into the pointer by
  alt_remap_cached; afterwards no byte of the region is in the cache and memory holds what the
  processor read there before - so the uncached alias reads the same data, whatever the state
  of the cache, the alignment and the length were, also when the length was cut to the size of
  the cache.\<close>

theorem uncached_alias_coherent:
  assumes "dcache_ok cfg" and "documented cfg u" and "fits (NIOS2_DCACHE_LINE_SIZE cfg) ptr len"
    and "ptr AND BYPASS_DCACHE_MASK cfg = 0"
  shows "\<exists>p t. alt_remap_uncached cfg ptr len = Some (p, t) \<and> alt_remap_cached cfg p len = ptr
    \<and> (\<forall>c b. in_range ptr len b \<longrightarrow>
         \<not> in_dcache u (run u t c) b \<and> mem_holds u (run u t c) b = cpu_reads u c b)"
proof -
  obtain t where "alt_dcache_flush cfg ptr len = Some t"
    "\<And>c b. in_range ptr len b \<Longrightarrow> \<not> in_dcache u (run u t c) b \<and> mem_holds u (run u t c) b = cpu_reads u c b"
    using dcache_flush_coherent [OF assms(1,3,2)] by blast
  with bypass_bit [OF assms(4)] show ?thesis by (auto simp: alt_remap_uncached_def)
qed

text \<open>A data cache of 1024 bytes in lines of 32, with \<open>flushd\<close> only, and a unit that works as
  documented: the cached bytes, the memory and the cached instructions.\<close>

definition demo_cfg :: cache_cfg where
  "demo_cfg = \<lparr>NIOS2_DCACHE_SIZE = 1024, NIOS2_DCACHE_LINE_SIZE = 32, NIOS2_ICACHE_SIZE = 2048,
     NIOS2_ICACHE_LINE_SIZE = 32, NIOS2_FLUSHDA_SUPPORTED = False, NIOS2_INITDA_SUPPORTED = True,
     NIOS2_MMU_PRESENT = False\<rparr>"

type_synonym demo_state = "(u32 \<Rightarrow> u8 option) \<times> (u32 \<Rightarrow> u8) \<times> (u32 \<Rightarrow> bool)"

definition demo_unit :: "cache_cfg \<Rightarrow> demo_state cache_unit" where
  "demo_unit cfg = \<lparr>
     exec = (\<lambda>x (d, m, i).
       (\<lambda>b. if takes_out cfg x b then None else d b,
        \<lambda>b. if takes_out cfg x b \<and> \<not> discards x then (case d b of None \<Rightarrow> m b | Some v \<Rightarrow> v) else m b,
        \<lambda>b. i b \<and> \<not> takes_out_insn cfg x b)),
     in_dcache = (\<lambda>(d, m, i) b. d b \<noteq> None),
     in_icache = (\<lambda>(d, m, i) b. i b),
     cpu_reads = (\<lambda>(d, m, i) b. case d b of None \<Rightarrow> m b | Some v \<Rightarrow> v),
     mem_holds = (\<lambda>(d, m, i) b. m b)\<rparr>"

lemma demo_documented: "documented cfg (demo_unit cfg)"
  by (auto simp: documented_def demo_unit_def split: option.splits)

lemma demo_cfg_ok: "dcache_ok demo_cfg" "icache_ok demo_cfg"
proof -
  have "(32 :: nat) = 2 ^ 5" by simp
  then have "\<exists>k<32. (32 :: nat) = 2 ^ k" by (intro exI [of _ 5]) simp
  then show "dcache_ok demo_cfg" "icache_ok demo_cfg"
    by (simp_all add: dcache_ok_def icache_ok_def sizes_ok_def demo_cfg_def)
qed

definition demo_dirty :: demo_state where
  "demo_dirty = (\<lambda>b. if b = 0x1021 then Some 7 else None, \<lambda>_. 0, \<lambda>_. False)"

lemma uncached_alias_witness:
  "\<exists>t. alt_remap_uncached demo_cfg 0x1010 40 = Some (0x80001010, t) \<and> alt_remap_cached demo_cfg 0x80001010 40 = 0x1010
     \<and> mem_holds (demo_unit demo_cfg) (run (demo_unit demo_cfg) t demo_dirty) 0x1021 = 7"
proof -
  have f: "fits (NIOS2_DCACHE_LINE_SIZE demo_cfg) 0x1010 40" by (simp add: fits_def demo_cfg_def)
  have m: "BYPASS_DCACHE_MASK demo_cfg = 0x80000000" by (simp add: BYPASS_DCACHE_MASK_def demo_cfg_def)
  have "(0x1010 :: u32) AND BYPASS_DCACHE_MASK demo_cfg = 0" unfolding m by simp
  from uncached_alias_coherent [OF demo_cfg_ok(1) demo_documented f this] obtain p t where
    pt: "alt_remap_uncached demo_cfg 0x1010 40 = Some (p, t)" "alt_remap_cached demo_cfg p 40 = 0x1010"
      "\<forall>c b. in_range 0x1010 40 b \<longrightarrow> mem_holds (demo_unit demo_cfg) (run (demo_unit demo_cfg) t c) b = cpu_reads (demo_unit demo_cfg) c b"
    by blast
  have p: "p = 0x80001010" using pt(1) by (simp add: alt_remap_uncached_def m split: option.splits)
  have "in_range 0x1010 40 0x1021" by (simp add: in_range_def)
  with pt(3) have "mem_holds (demo_unit demo_cfg) (run (demo_unit demo_cfg) t demo_dirty) 0x1021
      = cpu_reads (demo_unit demo_cfg) demo_dirty 0x1021" by blast
  moreover have "cpu_reads (demo_unit demo_cfg) demo_dirty 0x1021 = 7" by (simp add: demo_unit_def demo_dirty_def)
  ultimately show ?thesis using pt(1,2) p by auto
qed

text \<open>C34. alt_dcache_flush returns exactly when the (trimmed) region ends no higher than the last address of
  the address space that has the offset of the start within a line - otherwise the loop
  variable passes the end by wrapping round and the loop never stops. A region that itself wraps has
  an end below its start and returns at once, with at most one line flushed.\<close>

theorem dcache_flush_returns_iff:
  assumes "dcache_ok cfg"
    and "n = (if \<not> NIOS2_FLUSHDA_SUPPORTED cfg \<and> len > NIOS2_DCACHE_SIZE cfg then NIOS2_DCACHE_SIZE cfg else len)"
  shows "(alt_dcache_flush cfg start len \<noteq> None \<longleftrightarrow>
      unat (start + n) \<le> 2 ^ 32 - unat (NIOS2_DCACHE_LINE_SIZE cfg) + unat start mod unat (NIOS2_DCACHE_LINE_SIZE cfg))
    \<and> (start + n < start \<longrightarrow> (\<exists>t. alt_dcache_flush cfg start len = Some t \<and> length t \<le> 1))"
proof -
  let ?L = "NIOS2_DCACHE_LINE_SIZE cfg"
  obtain k where k: "k < 32" "unat ?L = 2 ^ k" using assms(1) by (auto simp: dcache_ok_def sizes_ok_def)
  have f: "alt_dcache_flush cfg start len = flush_range (ALT_FLUSH_DATA cfg) ?L start n"
    using assms(1) unfolding alt_dcache_flush_def dcache_ok_def sizes_ok_def assms(2) Let_def by simp
  have "flush_range (ALT_FLUSH_DATA cfg) ?L start n \<noteq> None \<longleftrightarrow> flush_loop (ALT_FLUSH_DATA cfg) ?L (start + n) start \<noteq> None"
    by (simp add: flush_range_def split: option.split)
  with flush_loop_returns_iff [OF k] have i: "alt_dcache_flush cfg start len \<noteq> None \<longleftrightarrow> unat (start + n) \<le> top_line start k"
    by (simp only: f)
  have "flush_range (ALT_FLUSH_DATA cfg) ?L start n
      = Some (if start AND (?L - 1) \<noteq> 0 then [ALT_FLUSH_DATA cfg start] else [])" if "start + n < start"
    using less_not_sym [OF that] unfolding flush_range_def by (subst flush_loop.simps) (simp only: if_False option.case prod.case append_Nil)
  then have w: "start + n < start \<longrightarrow> (\<exists>t. alt_dcache_flush cfg start len = Some t \<and> length t \<le> 1)"
    unfolding f by auto
  have "top_line start k = 2 ^ 32 - unat ?L + unat start mod unat ?L" unfolding top_line_def k(2) by (rule add.commute)
  with i w show ?thesis by metis
qed

lemma dcache_flush_returns_witness:
  "alt_dcache_flush demo_cfg 0xFFFFFF04 0xFA = None \<and> alt_dcache_flush demo_cfg 0xFFFFFF04 0xE0 \<noteq> None"
  using dcache_flush_returns_iff [OF demo_cfg_ok(1), of "0xFA" "0xFA" "0xFFFFFF04"]
    dcache_flush_returns_iff [OF demo_cfg_ok(1), of "0xE0" "0xE0" "0xFFFFFF04"]
  by (simp add: demo_cfg_def)

text \<open>Uncached allocation. With an allocator that gives null or a block of cached memory,
  alt_uncached_malloc gives null exactly when it does and otherwise the uncached alias of a block no
  byte of which is in the data cache; alt_uncached_free gives back to the allocator exactly the
  pointer it gave.\<close>

theorem uncached_malloc_free:
  assumes "dcache_ok cfg" and "documented cfg u" and "malloc n s = (ptr, s1)"
    and "fits (NIOS2_DCACHE_LINE_SIZE cfg) ptr n" and "ptr AND BYPASS_DCACHE_MASK cfg = 0"
  shows "\<exists>p t. alt_uncached_malloc cfg malloc n s = Some (p, t, s1)
    \<and> (p = 0 \<longleftrightarrow> ptr = 0) \<and> alt_uncached_free cfg free p s2 = free ptr s2
    \<and> (\<forall>c b. in_range ptr n b \<longrightarrow> \<not> in_dcache u (run u t c) b)"
proof -
  obtain t where t: "alt_dcache_flush cfg ptr n = Some t"
    "\<And>c b. in_range ptr n b \<Longrightarrow> \<not> in_dcache u (run u t c) b \<and> mem_holds u (run u t c) b = cpu_reads u c b"
    using dcache_flush_coherent [OF assms(1,4,2)] by blast
  have z: "BYPASS_DCACHE_MASK cfg \<noteq> 0" by (simp add: BYPASS_DCACHE_MASK_def)
  have "(ptr OR BYPASS_DCACHE_MASK cfg) AND BYPASS_DCACHE_MASK cfg = BYPASS_DCACHE_MASK cfg" by (rule word_ao_absorbs)
  with z have m: "ptr OR BYPASS_DCACHE_MASK cfg \<noteq> 0" by (intro notI) simp
  define p where "p = (if ptr \<noteq> 0 then ptr OR BYPASS_DCACHE_MASK cfg else 0)"
  have "p AND NOT (BYPASS_DCACHE_MASK cfg) = ptr"
    using bypass_bit [OF assms(5)] unfolding p_def alt_remap_cached_def by (cases "ptr = 0") simp_all
  then have "alt_uncached_free cfg free p s2 = free ptr s2" by (simp only: alt_uncached_free_def)
  moreover have "alt_uncached_malloc cfg malloc n s = Some (p, t, s1)"
    by (simp only: alt_uncached_malloc_def assms(3) t(1) Let_def prod.case option.case p_def)
  moreover have "p = 0 \<longleftrightarrow> ptr = 0" using m by (simp add: p_def)
  ultimately show ?thesis using t(2) by (intro exI [of _ p] exI [of _ t] conjI) simp_all
qed

definition demo_malloc :: "u32 \<Rightarrow> u32 list \<Rightarrow> u32 \<times> u32 list" where
  "demo_malloc n s = (0x1010, 0x1010 # s)"

lemma uncached_malloc_witness:
  "\<exists>p t. alt_uncached_malloc demo_cfg demo_malloc 40 [] = Some (p, t, [0x1010]) \<and> p \<noteq> 0
     \<and> alt_uncached_free demo_cfg removeAll p [0x1010] = []"
proof -
  have f: "fits (NIOS2_DCACHE_LINE_SIZE demo_cfg) 0x1010 40" by (simp add: fits_def demo_cfg_def)
  have m: "(0x1010 :: u32) AND BYPASS_DCACHE_MASK demo_cfg = 0" by (simp add: BYPASS_DCACHE_MASK_def demo_cfg_def)
  have a: "demo_malloc 40 [] = (0x1010, [0x1010])" by (simp add: demo_malloc_def)
  from uncached_malloc_free [where malloc = demo_malloc, OF demo_cfg_ok(1) demo_documented a f m, of removeAll "[0x1010]"] obtain p t where
    "alt_uncached_malloc demo_cfg demo_malloc 40 [] = Some (p, t, [0x1010])" "p \<noteq> 0"
    "alt_uncached_free demo_cfg removeAll p [0x1010] = removeAll 0x1010 [0x1010]" by auto
  then show ?thesis by auto
qed

end
