(* ===== verification/Load.thy ===== *)
theory Load
  imports Cache "HOL-Library.Monad_Syntax"
begin

text \<open>
  Loading: \<open>alt_load_section\<close> of \<open>HAL/inc/sys/alt_load.h\<close> and \<open>alt_load.c\<close>, which copy the initialised
  data, the exception handler and the constants from their load addresses to where the program
  expects them and then bring the caches in step. Memory is a map from the addresses of 32-bit words to their
  contents as the processor reads them; all sections are word-aligned, as the code assumes of the linker
  script. \<open>None\<close> says that a loop does not end.
\<close>

subsection \<open>Sections\<close>

type_synonym word_mem = "u32 \<Rightarrow> u32"

partial_function (option) load_loop :: "u32 \<Rightarrow> u32 \<Rightarrow> u32 \<Rightarrow> word_mem \<Rightarrow> word_mem option" where
  "load_loop src dst end_at m =
     (if dst \<noteq> end_at then load_loop (src + 4) (dst + 4) end_at (m(dst := m src)) else Some m)"

definition alt_load_section :: "u32 \<Rightarrow> u32 \<Rightarrow> u32 \<Rightarrow> word_mem \<Rightarrow> word_mem option" where
  "alt_load_section src dst end_at m = (if dst \<noteq> src then load_loop src dst end_at m else Some m)"

text \<open>The linker's symbols.\<close>

record load_syms =
  flash_rwdata_start :: u32
  ram_rwdata_start :: u32
  ram_rwdata_end :: u32
  flash_rodata_start :: u32
  ram_rodata_start :: u32
  ram_rodata_end :: u32
  flash_exceptions_start :: u32
  ram_exceptions_start :: u32
  ram_exceptions_end :: u32

text \<open>Also gives the cache instructions executed.\<close>

definition alt_load :: "cache_cfg \<Rightarrow> load_syms \<Rightarrow> word_mem \<Rightarrow> (word_mem \<times> cache_insn list) option" where
  "alt_load cfg l m = do {
     m \<leftarrow> alt_load_section (flash_rwdata_start l) (ram_rwdata_start l) (ram_rwdata_end l) m;
     m \<leftarrow> alt_load_section (flash_exceptions_start l) (ram_exceptions_start l) (ram_exceptions_end l) m;
     m \<leftarrow> alt_load_section (flash_rodata_start l) (ram_rodata_start l) (ram_rodata_end l) m;
     t \<leftarrow> alt_dcache_flush_all cfg;
     t' \<leftarrow> alt_icache_flush_all cfg;
     Some (m, t @ t') }"

subsection \<open>The copy loop\<close>

fun copied :: "u32 \<Rightarrow> u32 \<Rightarrow> nat \<Rightarrow> word_mem \<Rightarrow> word_mem" where
  "copied src dst 0 m = m"
| "copied src dst (Suc n) m = copied (src + 4) (dst + 4) n (m(dst := m src))"

lemma load_loop_copies:
  "4 * n < 2 ^ 32 \<Longrightarrow> end_at = dst + of_nat (4 * n) \<Longrightarrow> load_loop src dst end_at m = Some (copied src dst n m)"
proof (induction n arbitrary: src dst m)
  case 0
  then show ?case by (subst load_loop.simps) simp
next
  case (Suc n)
  have "(of_nat (4 * Suc n) :: u32) \<noteq> 0"
  proof
    assume "(of_nat (4 * Suc n) :: u32) = 0"
    then have "2 ^ 32 dvd 4 * Suc n" by (simp only: word_of_nat_eq_0_iff len_bit0 len_num1) simp
    with Suc.prems(1) show False using dvd_imp_le [of "2 ^ 32" "4 * Suc n"] by simp
  qed
  then have "dst \<noteq> end_at" using Suc.prems(2) by simp
  moreover have "load_loop (src + 4) (dst + 4) end_at (m(dst := m src)) = Some (copied (src + 4) (dst + 4) n (m(dst := m src)))"
    using Suc.prems by (intro Suc.IH) (simp_all add: algebra_simps)
  ultimately show ?case by (subst load_loop.simps) simp
qed

text \<open>The words of a section, and a section of \<open>n\<close> words whose copy going upwards is safe.\<close>

definition in_words :: "u32 \<Rightarrow> nat \<Rightarrow> u32 \<Rightarrow> bool" where
  "in_words dst n a \<longleftrightarrow> unat dst \<le> unat a \<and> unat a < unat dst + 4 * n \<and> 4 dvd unat a - unat dst"

definition copy_ok :: "u32 \<Rightarrow> u32 \<Rightarrow> nat \<Rightarrow> bool" where
  "copy_ok src dst n \<longleftrightarrow> unat src + 4 * n < 2 ^ 32 \<and> unat dst + 4 * n < 2 ^ 32
     \<and> (unat dst \<le> unat src \<or> unat src + 4 * n \<le> unat dst)"

lemma in_words_Suc:
  assumes "unat dst + 4 < 2 ^ 32"
  shows "in_words dst (Suc n) a \<longleftrightarrow> a = dst \<or> in_words (dst + 4) n a"
proof -
  have u: "unat (dst + 4) = unat dst + 4" using assms by (simp add: unat_word_ariths)
  have "in_words (dst + 4) n a \<longleftrightarrow> in_words dst (Suc n) a \<and> a \<noteq> dst"
  proof
    assume i: "in_words dst (Suc n) a \<and> a \<noteq> dst"
    then have "unat dst \<le> unat a" "unat a \<noteq> unat dst" "4 dvd unat a - unat dst"
      by (auto simp: in_words_def word_unat_eq_iff)
    then have "unat dst + 4 \<le> unat a" by presburger
    moreover from this have "unat a - unat dst = unat a - (unat dst + 4) + 4" by simp
    then have "4 dvd unat a - (unat dst + 4)" using \<open>4 dvd unat a - unat dst\<close> by (metis dvd_add_left_iff dvd_refl)
    ultimately show "in_words (dst + 4) n a" using i by (simp add: in_words_def u)
  next
    assume i: "in_words (dst + 4) n a"
    then have "unat a - unat dst = unat a - (unat dst + 4) + 4" by (simp add: in_words_def u)
    moreover have "unat dst + 4 \<le> unat a" "unat a < unat dst + 4 + 4 * n" "4 dvd unat a - (unat dst + 4)"
      using i by (simp_all add: in_words_def u)
    moreover from this have "4 dvd unat a - unat dst" by presburger
    ultimately show "in_words dst (Suc n) a \<and> a \<noteq> dst" by (auto simp: in_words_def)
  qed
  moreover have "in_words dst (Suc n) dst" by (simp add: in_words_def)
  ultimately show ?thesis by blast
qed

lemma offset_unat:
  assumes "unat src + 4 * n < 2 ^ 32" "in_words dst n a"
  shows "unat (src + (a - dst)) = unat src + (unat a - unat dst)"
proof -
  have "unat (a - dst) = unat a - unat dst" using assms(2) by (simp add: in_words_def unat_sub word_le_nat_alt)
  moreover have "unat src + (unat a - unat dst) < 2 ^ 32" using assms unfolding in_words_def by linarith
  ultimately show ?thesis by (simp add: unat_word_ariths)
qed

lemma copied_spec:
  "copy_ok src dst n \<Longrightarrow> copied src dst n m a = (if in_words dst n a then m (src + (a - dst)) else m a)"
proof (induction n arbitrary: src dst m)
  case 0
  then show ?case by (auto simp: in_words_def)
next
  case (Suc n)
  note ok = Suc.prems [unfolded copy_ok_def]
  then have u: "unat (src + 4) = unat src + 4" "unat (dst + 4) = unat dst + 4"
    by (simp_all add: unat_word_ariths)
  have ih: "copied src dst (Suc n) m a
      = (if in_words (dst + 4) n a then (m(dst := m src)) (src + 4 + (a - (dst + 4))) else (m(dst := m src)) a)"
    unfolding copied.simps using ok by (intro Suc.IH) (auto simp: copy_ok_def u)
  have w: "in_words dst (Suc n) a \<longleftrightarrow> a = dst \<or> in_words (dst + 4) n a" using ok by (intro in_words_Suc) simp
  show ?case
  proof (cases "in_words (dst + 4) n a")
    case True
    then have d: "in_words dst (Suc n) a" and ge: "unat dst + 4 \<le> unat a" by (simp_all add: w) (simp add: in_words_def u)
    have "unat (src + (a - dst)) = unat src + (unat a - unat dst)" using ok d by (intro offset_unat) simp_all
    then have "unat (src + (a - dst)) \<noteq> unat dst" using ok d ge by (auto simp: in_words_def)
    then have ne: "src + (a - dst) \<noteq> dst" by metis
    have "src + 4 + (a - (dst + 4)) = src + (a - dst)" by simp
    from ih [unfolded this fun_upd_apply if_not_P [OF ne]] show ?thesis unfolding if_P [OF True] if_P [OF d] .
  next
    case False
    with w ih show ?thesis by (auto simp: in_words_def)
  qed
qed

text \<open>A section that is already in place is left alone.\<close>

lemma load_section_spec:
  assumes "src = dst \<or> copy_ok src dst n" "end_at = dst + of_nat (4 * n)"
  shows "\<exists>m'. alt_load_section src dst end_at m = Some m'
    \<and> (\<forall>a. m' a = (if in_words dst n a then m (src + (a - dst)) else m a))"
proof (cases "src = dst")
  case False
  then have "copy_ok src dst n" using assms(1) by simp
  with False load_loop_copies [of n end_at dst src m] copied_spec [of src dst n m] assms(2) show ?thesis
    by (simp add: alt_load_section_def copy_ok_def)
qed (simp add: alt_load_section_def)

lemma dvd_unat_step: "4 dvd unat (x + 4 :: u32) \<longleftrightarrow> 4 dvd unat x"
proof -
  have "unat (x + 4) = (unat x + 4) mod 2 ^ 32" by (simp add: unat_word_ariths)
  moreover have "4 dvd (unat x + 4) mod 2 ^ 32 \<longleftrightarrow> 4 dvd unat x + 4" by (rule dvd_mod_iff) simp
  moreover have "4 dvd unat x + 4 \<longleftrightarrow> 4 dvd unat x" by (metis dvd_add_left_iff dvd_refl)
  ultimately show ?thesis by simp
qed

lemma load_loop_end: "load_loop src dst end_at m = Some m' \<Longrightarrow> 4 dvd unat (end_at - dst)"
proof (induction rule: load_loop.raw_induct [rotated, consumes 1, case_names step])
  case (step loop src dst end_at m m')
  then show ?case using dvd_unat_step [of "end_at - (dst + 4)"] by (simp split: if_splits)
qed

lemma load_section_returns_iff:
  "alt_load_section src dst end_at m \<noteq> None \<longleftrightarrow> dst = src \<or> 4 dvd unat (end_at - dst)"
proof (cases "4 dvd unat (end_at - dst)")
  case True
  then obtain n where n: "unat (end_at - dst) = 4 * n" by (elim dvdE)
  have "of_nat (unat (end_at - dst)) = end_at - dst" by simp
  then have "end_at = dst + of_nat (4 * n)" unfolding n by (metis add.commute diff_add_cancel)
  moreover have "4 * n < 2 ^ 32" using unat_lt_2p [of "end_at - dst"] n by simp
  ultimately show ?thesis using True load_loop_copies by (simp add: alt_load_section_def)
next
  case False
  then show ?thesis using load_loop_end by (fastforce simp: alt_load_section_def)
qed

subsection \<open>Properties\<close>

text \<open>The linker's layout: each section has its load address, its address and its length in words.\<close>

type_synonym layout = "(u32 \<times> u32 \<times> nat) list"

definition section_ok :: "u32 \<times> u32 \<times> nat \<Rightarrow> bool" where
  "section_ok = (\<lambda>(src, dst, n). (src = dst \<and> unat dst + 4 * n < 2 ^ 32) \<or> copy_ok src dst n)"

definition apart :: "u32 \<Rightarrow> nat \<Rightarrow> u32 \<Rightarrow> nat \<Rightarrow> bool" where
  "apart p n q k \<longleftrightarrow> unat p + 4 * n \<le> unat q \<or> unat q + 4 * k \<le> unat p"

text \<open>No section is loaded over an earlier one or over the image of a later one.\<close>

fun layout_ok :: "layout \<Rightarrow> bool" where
  "layout_ok [] = True"
| "layout_ok ((src, dst, n) # ss) \<longleftrightarrow> section_ok (src, dst, n)
     \<and> list_all (\<lambda>(src', dst', n'). apart dst n dst' n' \<and> apart dst n src' n') ss \<and> layout_ok ss"

fun load_sections :: "layout \<Rightarrow> word_mem \<Rightarrow> word_mem option" where
  "load_sections [] m = Some m"
| "load_sections ((src, dst, n) # ss) m = do {
     m \<leftarrow> alt_load_section src dst (dst + of_nat (4 * n)) m; load_sections ss m }"

lemma apart_words: "apart p n q k \<Longrightarrow> in_words p n a \<Longrightarrow> \<not> in_words q k a"
  by (auto simp: apart_def in_words_def)

lemma layout_section: "layout_ok ss \<Longrightarrow> s \<in> set ss \<Longrightarrow> section_ok s"
  by (induction ss rule: layout_ok.induct) auto

lemma load_sections_spec:
  "layout_ok ss \<Longrightarrow> \<exists>m'. load_sections ss m = Some m'
    \<and> (\<forall>(src, dst, n) \<in> set ss. \<forall>a. in_words dst n a \<longrightarrow> m' a = m (src + (a - dst)))
    \<and> (\<forall>a. (\<forall>(src, dst, n) \<in> set ss. \<not> in_words dst n a) \<longrightarrow> m' a = m a)"
proof (induction ss arbitrary: m rule: layout_ok.induct)
  case (2 src dst n ss)
  obtain m1 where m1: "alt_load_section src dst (dst + of_nat (4 * n)) m = Some m1"
    "\<And>a. m1 a = (if in_words dst n a then m (src + (a - dst)) else m a)"
    using load_section_spec [of src dst n "dst + of_nat (4 * n)" m] 2(2) by (auto simp: section_ok_def)
  obtain m2 where m2: "load_sections ss m1 = Some m2"
    "\<forall>(src, dst, n) \<in> set ss. \<forall>a. in_words dst n a \<longrightarrow> m2 a = m1 (src + (a - dst))"
    "\<forall>a. (\<forall>(src, dst, n) \<in> set ss. \<not> in_words dst n a) \<longrightarrow> m2 a = m1 a"
    using 2(1) [of m1] 2(2) by auto
  have later: "m1 (src' + (a - dst')) = m (src' + (a - dst'))"
    if s: "(src', dst', n') \<in> set ss" "in_words dst' n' a" for src' dst' n' a
  proof -
    have "layout_ok ss" "list_all (\<lambda>(src', dst', n'). apart dst n dst' n' \<and> apart dst n src' n') ss" using 2(2) by simp_all
    then have ap: "apart dst n src' n'" and ok: "section_ok (src', dst', n')"
      using s(1) layout_section by (auto simp: list_all_iff)
    have off: "unat src' + 4 * n' < 2 ^ 32" using ok by (auto simp: section_ok_def copy_ok_def)
    define d where "d = unat a - unat dst'"
    have "unat (src' + (a - dst')) = unat src' + d" unfolding d_def using off s(2) by (rule offset_unat)
    moreover have "d < 4 * n'" "4 dvd d" using s(2) unfolding in_words_def d_def by linarith+
    ultimately have "in_words src' n' (src' + (a - dst'))" by (simp add: in_words_def)
    with apart_words [OF ap] have "\<not> in_words dst n (src' + (a - dst'))" by blast
    then show ?thesis by (simp add: m1(2))
  qed
  have first: "m2 a = m (src + (a - dst))" if "in_words dst n a" for a
  proof -
    have "\<forall>(src', dst', n') \<in> set ss. \<not> in_words dst' n' a" using 2(2) apart_words that by (fastforce simp: list_all_iff)
    with m2(3) have "m2 a = m1 a" by blast
    with that show ?thesis by (simp add: m1(2))
  qed
  have "load_sections ((src, dst, n) # ss) m = Some m2" by (simp only: load_sections.simps m1(1) m2(1) Option.bind.bind_lunit)
  moreover have "m2 a = m (src' + (a - dst'))" if "(src', dst', n') \<in> set ((src, dst, n) # ss)" "in_words dst' n' a" for src' dst' n' a
    using that first later m2(2) by (cases "(src', dst', n') = (src, dst, n)") fastforce+
  moreover have "m2 a = m a" if "\<forall>(src, dst, n) \<in> set ((src, dst, n) # ss). \<not> in_words dst n a" for a
    using that m2(3) by (simp add: m1(2))
  ultimately show ?case by fastforce
qed simp

definition words_between :: "u32 \<Rightarrow> u32 \<Rightarrow> nat" where
  "words_between p q = unat (q - p) div 4"

definition syms_layout :: "load_syms \<Rightarrow> layout" where
  "syms_layout l =
     [(flash_rwdata_start l, ram_rwdata_start l, words_between (ram_rwdata_start l) (ram_rwdata_end l)),
      (flash_exceptions_start l, ram_exceptions_start l, words_between (ram_exceptions_start l) (ram_exceptions_end l)),
      (flash_rodata_start l, ram_rodata_start l, words_between (ram_rodata_start l) (ram_rodata_end l))]"

definition syms_aligned :: "load_syms \<Rightarrow> bool" where
  "syms_aligned l \<longleftrightarrow> 4 dvd unat (ram_rwdata_end l - ram_rwdata_start l)
     \<and> 4 dvd unat (ram_exceptions_end l - ram_exceptions_start l)
     \<and> 4 dvd unat (ram_rodata_end l - ram_rodata_start l)"

lemma end_of_words:
  assumes "4 dvd unat (q - p)"
  shows "p + of_nat (4 * words_between p q) = q"
proof -
  have "4 * words_between p q = unat (q - p)" using assms by (simp add: words_between_def)
  moreover have "of_nat (unat (q - p)) = q - p" by simp
  ultimately show ?thesis by (metis add.commute diff_add_cancel)
qed

lemma alt_load_sections:
  assumes "syms_aligned l"
  shows "alt_load cfg l m = do {
     m \<leftarrow> load_sections (syms_layout l) m; t \<leftarrow> alt_dcache_flush_all cfg; t' \<leftarrow> alt_icache_flush_all cfg; Some (m, t @ t') }"
proof -
  have "load_sections (syms_layout l) m = do {
     m \<leftarrow> alt_load_section (flash_rwdata_start l) (ram_rwdata_start l) (ram_rwdata_end l) m;
     m \<leftarrow> alt_load_section (flash_exceptions_start l) (ram_exceptions_start l) (ram_exceptions_end l) m;
     alt_load_section (flash_rodata_start l) (ram_rodata_start l) (ram_rodata_end l) m }"
    using assms unfolding syms_layout_def load_sections.simps syms_aligned_def by (simp only: end_of_words) simp
  then show ?thesis by (simp add: alt_load_def)
qed

text \<open>On the processor of this system there is nothing to flush.\<close>

lemma alt_load_this_cpu:
  "syms_aligned l \<Longrightarrow> alt_load this_cpu l m = map_option (\<lambda>m. (m, [])) (load_sections (syms_layout l) m)"
  by (cases "load_sections (syms_layout l) m")
    (simp_all add: alt_load_sections alt_dcache_flush_all_def alt_icache_flush_all_def this_cpu_def)

text \<open>A cache that the processor does not have holds nothing.\<close>

definition absent_empty :: "cache_cfg \<Rightarrow> 'c cache_unit \<Rightarrow> 'c \<Rightarrow> bool" where
  "absent_empty cfg u c \<longleftrightarrow> (\<forall>b. (NIOS2_DCACHE_SIZE cfg = 0 \<longrightarrow> \<not> in_dcache u c b)
     \<and> (NIOS2_ICACHE_SIZE cfg = 0 \<longrightarrow> \<not> in_icache u c b))"

lemma dcache_flushed:
  assumes "NIOS2_DCACHE_SIZE cfg = 0 \<or> dcache_ok cfg"
  shows "\<exists>t. alt_dcache_flush_all cfg = Some t \<and> (NIOS2_DCACHE_SIZE cfg = 0 \<longrightarrow> t = [])
    \<and> (documented cfg u \<longrightarrow> (\<forall>c b. absent_empty cfg u c \<longrightarrow>
          \<not> in_dcache u (run u t c) b \<and> mem_holds u (run u t c) b = cpu_reads u c b))"
proof (cases "NIOS2_DCACHE_SIZE cfg = 0")
  case True
  then show ?thesis
    using documentedD(5) [of cfg u] by (simp add: alt_dcache_flush_all_def absent_empty_def)
next
  case False
  with assms have ok: "dcache_ok cfg" by simp
  show ?thesis
  proof (cases "documented cfg u")
    case True
    from flush_all_empties(1) [OF True ok] False show ?thesis by blast
  next
    case nd: False
    from flush_all_empties(1) [OF demo_documented ok] False nd show ?thesis by blast
  qed
qed

lemma icache_flushed:
  assumes "NIOS2_ICACHE_SIZE cfg = 0 \<or> icache_ok cfg"
  shows "\<exists>t. alt_icache_flush_all cfg = Some t \<and> (NIOS2_ICACHE_SIZE cfg = 0 \<longrightarrow> t = [])
    \<and> (documented cfg u \<longrightarrow> (\<forall>c b. (NIOS2_ICACHE_SIZE cfg = 0 \<longrightarrow> \<not> in_icache u c b) \<longrightarrow>
          \<not> in_icache u (run u t c) b \<and> cpu_reads u (run u t c) b = cpu_reads u c b
          \<and> (in_dcache u (run u t c) b \<longrightarrow> in_dcache u c b)))"
proof (cases "NIOS2_ICACHE_SIZE cfg = 0")
  case True
  then show ?thesis by (simp add: alt_icache_flush_all_def)
next
  case False
  with assms have ok: "icache_ok cfg" by simp
  show ?thesis
  proof (cases "documented cfg u")
    case True
    from flush_all_empties(2) [OF True ok] False show ?thesis by blast
  next
    case nd: False
    from flush_all_empties(2) [OF demo_documented ok] False nd show ?thesis by blast
  qed
qed

lemma both_flushed:
  assumes "NIOS2_DCACHE_SIZE cfg = 0 \<or> dcache_ok cfg" "NIOS2_ICACHE_SIZE cfg = 0 \<or> icache_ok cfg"
  shows "\<exists>t t'. alt_dcache_flush_all cfg = Some t \<and> alt_icache_flush_all cfg = Some t'
    \<and> (NIOS2_DCACHE_SIZE cfg = 0 \<longrightarrow> t = []) \<and> (NIOS2_ICACHE_SIZE cfg = 0 \<longrightarrow> t' = [])
    \<and> (documented cfg u \<longrightarrow> (\<forall>c b. absent_empty cfg u c \<longrightarrow> \<not> in_dcache u (run u (t @ t') c) b
        \<and> \<not> in_icache u (run u (t @ t') c) b \<and> mem_holds u (run u (t @ t') c) b = cpu_reads u c b))"
proof -
  obtain t where t: "alt_dcache_flush_all cfg = Some t" "NIOS2_DCACHE_SIZE cfg = 0 \<longrightarrow> t = []"
    "documented cfg u \<longrightarrow> (\<forall>c b. absent_empty cfg u c \<longrightarrow>
       \<not> in_dcache u (run u t c) b \<and> mem_holds u (run u t c) b = cpu_reads u c b)"
    using dcache_flushed [OF assms(1)] by blast
  obtain t' where t': "alt_icache_flush_all cfg = Some t'" "NIOS2_ICACHE_SIZE cfg = 0 \<longrightarrow> t' = []"
    "documented cfg u \<longrightarrow> (\<forall>c b. (NIOS2_ICACHE_SIZE cfg = 0 \<longrightarrow> \<not> in_icache u c b) \<longrightarrow>
          \<not> in_icache u (run u t' c) b \<and> cpu_reads u (run u t' c) b = cpu_reads u c b
          \<and> (in_dcache u (run u t' c) b \<longrightarrow> in_dcache u c b))"
    using icache_flushed [OF assms(2)] by blast
  have "\<not> in_dcache u (run u (t @ t') c) b \<and> \<not> in_icache u (run u (t @ t') c) b
      \<and> mem_holds u (run u (t @ t') c) b = cpu_reads u c b"
    if d: "documented cfg u" and a: "absent_empty cfg u c" for c b
  proof -
    have split: "run u (t @ t') c = run u t' (run u t c)" by simp
    have "NIOS2_ICACHE_SIZE cfg = 0 \<longrightarrow> \<not> in_icache u (run u t c) b"
      using a run_icache [OF d] by (meson absent_empty_def)
    then have i: "\<not> in_icache u (run u t' (run u t c)) b" "cpu_reads u (run u t' (run u t c)) b = cpu_reads u (run u t c) b"
      "in_dcache u (run u t' (run u t c)) b \<longrightarrow> in_dcache u (run u t c) b" using t'(3) d by blast+
    have n: "\<not> in_dcache u (run u t c) b" "mem_holds u (run u t c) b = cpu_reads u c b" using t(3) d a by blast+
    show ?thesis unfolding split using i n documentedD(5) [OF d] by metis
  qed
  with t(1,2) t'(1,2) show ?thesis by blast
qed

text \<open>C35. Loading. If the linker has laid the sections out so that none is loaded over an earlier one or over
  the image of a later one, alt_load returns; afterwards every word of the initialised data, of the
  exception handler and of the constants is the word of its image (a section whose load address is
  its address is left alone), and no other word has changed. This holds without caches, as on the
  processor of this system, where no cache instruction is executed, and with caches whose line size is a
  power of two that divides their size. On caches that work as documented both are then empty and memory holds all
  that the processor has written, so the new code and data are what is fetched.\<close>

theorem alt_load_installs:
  assumes "syms_aligned l" and "layout_ok (syms_layout l)"
    and "NIOS2_DCACHE_SIZE cfg = 0 \<or> dcache_ok cfg" and "NIOS2_ICACHE_SIZE cfg = 0 \<or> icache_ok cfg"
  shows "\<exists>m' t. alt_load cfg l m = Some (m', t)
    \<and> (\<forall>(src, dst, n) \<in> set (syms_layout l). \<forall>a. in_words dst n a \<longrightarrow> m' a = m (src + (a - dst)))
    \<and> (\<forall>a. (\<forall>(src, dst, n) \<in> set (syms_layout l). \<not> in_words dst n a) \<longrightarrow> m' a = m a)
    \<and> (NIOS2_DCACHE_SIZE cfg = 0 \<and> NIOS2_ICACHE_SIZE cfg = 0 \<longrightarrow> t = [])
    \<and> (documented cfg u \<longrightarrow> (\<forall>c b. absent_empty cfg u c \<longrightarrow>
          \<not> in_dcache u (run u t c) b \<and> \<not> in_icache u (run u t c) b \<and> mem_holds u (run u t c) b = cpu_reads u c b))"
proof -
  obtain m' where m': "load_sections (syms_layout l) m = Some m'"
    "\<forall>(src, dst, n) \<in> set (syms_layout l). \<forall>a. in_words dst n a \<longrightarrow> m' a = m (src + (a - dst))"
    "\<forall>a. (\<forall>(src, dst, n) \<in> set (syms_layout l). \<not> in_words dst n a) \<longrightarrow> m' a = m a"
    using load_sections_spec [OF assms(2), of m] by blast
  obtain t t' where t: "alt_dcache_flush_all cfg = Some t" "alt_icache_flush_all cfg = Some t'"
    "NIOS2_DCACHE_SIZE cfg = 0 \<longrightarrow> t = []" "NIOS2_ICACHE_SIZE cfg = 0 \<longrightarrow> t' = []"
    "documented cfg u \<longrightarrow> (\<forall>c b. absent_empty cfg u c \<longrightarrow> \<not> in_dcache u (run u (t @ t') c) b
        \<and> \<not> in_icache u (run u (t @ t') c) b \<and> mem_holds u (run u (t @ t') c) b = cpu_reads u c b)"
    using both_flushed [OF assms(3,4)] by metis
  have "alt_load cfg l m = Some (m', t @ t')"
    by (simp add: alt_load_sections [OF assms(1)] m'(1) t(1,2))
  with m'(2,3) t(3-5) show ?thesis by blast
qed

text \<open>Three words of data and the constants in flash, the exception handler in place.\<close>

definition demo_syms :: load_syms where
  "demo_syms = \<lparr>flash_rwdata_start = 0x100, ram_rwdata_start = 0x8000, ram_rwdata_end = 0x800C,
     flash_rodata_start = 0x200, ram_rodata_start = 0x8100, ram_rodata_end = 0x8108,
     flash_exceptions_start = 0x20, ram_exceptions_start = 0x20, ram_exceptions_end = 0x40\<rparr>"

lemma alt_load_witness:
  "\<exists>m t m'. alt_load this_cpu demo_syms (\<lambda>a. a) = Some (m, []) \<and> m 0x8004 = 0x104 \<and> m 0x8104 = 0x204 \<and> m 0x24 = 0x24
     \<and> m 0x9000 = 0x9000 \<and> alt_load demo_cfg demo_syms (\<lambda>a. a) = Some (m', t)
     \<and> mem_holds (demo_unit demo_cfg) (run (demo_unit demo_cfg) t demo_dirty) 0x1021 = 7"
proof -
  have l: "syms_layout demo_syms = [(0x100, 0x8000, 3), (0x20, 0x20, 8), (0x200, 0x8100, 2)]"
    by (simp add: syms_layout_def demo_syms_def words_between_def)
  have ok: "layout_ok (syms_layout demo_syms)"
    by (simp add: l section_ok_def copy_ok_def apart_def)
  have al: "syms_aligned demo_syms" by (simp add: syms_aligned_def demo_syms_def)
  have nc: "NIOS2_DCACHE_SIZE this_cpu = 0" "NIOS2_ICACHE_SIZE this_cpu = 0" by (simp_all add: this_cpu_def)
  from alt_load_installs [OF al ok disjI1 [OF nc(1)] disjI1 [OF nc(2)], of "\<lambda>a. a" "demo_unit this_cpu"] obtain m t0 where
    m: "alt_load this_cpu demo_syms (\<lambda>a. a) = Some (m, t0)"
      "\<forall>(src, dst, n) \<in> set (syms_layout demo_syms). \<forall>a. in_words dst n a \<longrightarrow> m a = src + (a - dst)"
      "\<forall>a. (\<forall>(src, dst, n) \<in> set (syms_layout demo_syms). \<not> in_words dst n a) \<longrightarrow> m a = a"
      "NIOS2_DCACHE_SIZE this_cpu = 0 \<and> NIOS2_ICACHE_SIZE this_cpu = 0 \<longrightarrow> t0 = []" by blast
  have t0: "t0 = []" using m(4) nc by simp
  have w: "in_words 0x8000 3 0x8004" "in_words 0x8100 2 0x8104" "in_words 0x20 8 0x24"
    "\<not> in_words 0x8000 3 0x9000" "\<not> in_words 0x8100 2 0x9000" "\<not> in_words 0x20 8 0x9000"
    by (simp_all add: in_words_def)
  have "m 0x8004 = 0x104" "m 0x8104 = 0x204" "m 0x24 = 0x24" using m(2) w(1-3) unfolding l by fastforce+
  moreover have "m 0x9000 = 0x9000" using m(3) w(4-6) unfolding l by simp
  moreover have "absent_empty demo_cfg (demo_unit demo_cfg) demo_dirty"
    by (simp add: absent_empty_def demo_cfg_def)
  then obtain m' t where "alt_load demo_cfg demo_syms (\<lambda>a. a) = Some (m', t)"
    "mem_holds (demo_unit demo_cfg) (run (demo_unit demo_cfg) t demo_dirty) 0x1021 = cpu_reads (demo_unit demo_cfg) demo_dirty 0x1021"
    using alt_load_installs [OF al ok disjI2 [OF demo_cfg_ok(1)] disjI2 [OF demo_cfg_ok(2)], of "\<lambda>a. a" "demo_unit demo_cfg"]
      demo_documented by blast
  moreover have "cpu_reads (demo_unit demo_cfg) demo_dirty 0x1021 = 7" by (simp add: demo_unit_def demo_dirty_def)
  ultimately have "alt_load this_cpu demo_syms (\<lambda>a. a) = Some (m, []) \<and> m 0x8004 = 0x104 \<and> m 0x8104 = 0x204 \<and> m 0x24 = 0x24
     \<and> m 0x9000 = 0x9000 \<and> alt_load demo_cfg demo_syms (\<lambda>a. a) = Some (m', t)
     \<and> mem_holds (demo_unit demo_cfg) (run (demo_unit demo_cfg) t demo_dirty) 0x1021 = 7"
    using m(1) unfolding t0 by simp
  then show ?thesis by (intro exI)
qed

end
