(* ===== verification/Nios.thy ===== *)
theory Nios
  imports Prelude
begin

text \<open>
  The Nios II instructions that the assembler files of \<open>HAL/src\<close> use. Code is a list of
  instructions and labels, as in the source; a position in it is the list of what is still to
  come, and a branch to a label continues with what follows the label. Registers are numbered as in the
  architecture. The words of memory that the code addresses itself (the stack and the instruction that
  raised an exception) are a function of the byte address; the code only uses aligned words.
  Everything the called C functions work on, and the status and ipending control registers, are the
  world \<open>'w\<close>, a parameter, as are the C functions themselves.
\<close>

subsection \<open>State\<close>

abbreviation (input) ET :: nat where "ET \<equiv> 24"
abbreviation (input) BT :: nat where "BT \<equiv> 25"
abbreviation (input) GP :: nat where "GP \<equiv> 26"
abbreviation (input) SP :: nat where "SP \<equiv> 27"
abbreviation (input) FP :: nat where "FP \<equiv> 28"
abbreviation (input) EA :: nat where "EA \<equiv> 29"
abbreviation (input) BA :: nat where "BA \<equiv> 30"
abbreviation (input) RA :: nat where "RA \<equiv> 31"

record 'w nios =
  regs :: "nat \<Rightarrow> u32"
  memw :: "u32 \<Rightarrow> u32"
  estatus :: u32
  pc :: u32
  world :: 'w

text \<open>Register 0 reads as zero, whatever is written to it.\<close>

definition rd :: "'w nios \<Rightarrow> nat \<Rightarrow> u32" where
  "rd s r = (if r = 0 then 0 else regs s r)"

definition wr :: "nat \<Rightarrow> u32 \<Rightarrow> 'w nios \<Rightarrow> 'w nios" where
  "wr r v s = (if r = 0 then s else s\<lparr>regs := (regs s)(r := v)\<rparr>)"

subsection \<open>Instructions\<close>

datatype cfunction = Alt_irq_handler | Alt_instruction_exception_entry

datatype asm_label =
    Lnot_irq | Lexception_exit | Lnot_trap | Alt_exception_unknown
  | Ldivide | Ldiv_abs_a | Ldiv_abs_b | Lunsigned_division | Ldivide_loop | Ldiv_skip
  | Lmul_immed | Lmultiply | Lmultiply_loop | Lmulx_skip | Lmul_skip | Lmulxsu_skip | Lmulxss_skip
  | Lstore_result | Lnot_muldiv

datatype control = Estatus | Ipending

text \<open>Operands in the order of the assembler: the destination first.\<close>

datatype instr =
    Addi nat nat int | Andi nat nat u32 | Ori nat nat u32 | Xori nat nat u32 | Movhi nat u32
  | Add nat nat nat | Sub nat nat nat | Or nat nat nat | Xor nat nat nat
  | Slli nat nat nat | Srli nat nat nat | Srai nat nat nat | Roli nat nat nat | Ror nat nat nat
  | Cmplt nat nat nat | Cmpltu nat nat nat
  | Ldw nat int nat | Stw nat int nat
  | Rdctl nat control | Wrctl control nat
  | Beq nat nat asm_label | Bne nat nat asm_label | Bge nat nat asm_label | Bltu nat nat asm_label
  | Br asm_label | Call cfunction | Break | Eret
  | Label asm_label

text \<open>The assembler's pseudo-instructions.\<close>

abbreviation (input) Movi :: "nat \<Rightarrow> int \<Rightarrow> instr" where "Movi r i \<equiv> Addi r 0 i"
abbreviation (input) Mov :: "nat \<Rightarrow> nat \<Rightarrow> instr" where "Mov r q \<equiv> Add r q 0"
abbreviation (input) Subi :: "nat \<Rightarrow> nat \<Rightarrow> int \<Rightarrow> instr" where "Subi r q i \<equiv> Addi r q (- i)"

record 'w nios_env =
  ipending_of :: "'w \<Rightarrow> u32"
  status_of :: "'w \<Rightarrow> u32"
  set_status :: "u32 \<Rightarrow> 'w \<Rightarrow> 'w"
  call_c :: "cfunction \<Rightarrow> 'w nios \<Rightarrow> 'w nios option"

text \<open>The instructions that go on to the next one.\<close>

fun exec :: "'w nios_env \<Rightarrow> instr \<Rightarrow> 'w nios \<Rightarrow> 'w nios" where
  "exec m (Addi r q i) s = wr r (rd s q + word_of_int i) s"
| "exec m (Andi r q i) s = wr r (rd s q AND i) s"
| "exec m (Ori r q i) s = wr r (rd s q OR i) s"
| "exec m (Xori r q i) s = wr r (rd s q XOR i) s"
| "exec m (Movhi r i) s = wr r (push_bit 16 i) s"
| "exec m (Add r p q) s = wr r (rd s p + rd s q) s"
| "exec m (Sub r p q) s = wr r (rd s p - rd s q) s"
| "exec m (Or r p q) s = wr r (rd s p OR rd s q) s"
| "exec m (Xor r p q) s = wr r (rd s p XOR rd s q) s"
| "exec m (Slli r q i) s = wr r (push_bit i (rd s q)) s"
| "exec m (Srli r q i) s = wr r (drop_bit i (rd s q)) s"
| "exec m (Srai r q i) s = wr r (signed_drop_bit i (rd s q)) s"
| "exec m (Roli r q i) s = wr r (word_rotl i (rd s q)) s"
| "exec m (Ror r p q) s = wr r (word_rotr (unat (rd s q AND 31)) (rd s p)) s"
| "exec m (Cmplt r p q) s = wr r (of_bool (sint (rd s p) < sint (rd s q))) s"
| "exec m (Cmpltu r p q) s = wr r (of_bool (rd s p < rd s q)) s"
| "exec m (Ldw r i q) s = wr r (memw s (rd s q + word_of_int i)) s"
| "exec m (Stw r i q) s = s\<lparr>memw := (memw s)(rd s q + word_of_int i := rd s r)\<rparr>"
| "exec m (Rdctl r Estatus) s = wr r (estatus s) s"
| "exec m (Rdctl r Ipending) s = wr r (ipending_of m (world s)) s"
| "exec m (Wrctl Estatus r) s = s\<lparr>estatus := rd s r\<rparr>"
| "exec m i s = s"

text \<open>\<open>Broken\<close> is the debugger entered by a break instruction, \<open>Lost\<close> a C function that does
  not return.\<close>

datatype 'w config = At "instr list" "'w nios" | Returned "'w nios" | Broken "'w nios" | Lost

fun goto :: "asm_label \<Rightarrow> instr list \<Rightarrow> instr list" where
  "goto l [] = []"
| "goto l (i # is) = (if i = Label l then is else goto l is)"

text \<open>The return from an exception: \<open>status = estatus; pc = ea\<close>. Code that runs past its end
  stays there.\<close>

definition eret :: "'w nios_env \<Rightarrow> 'w nios \<Rightarrow> 'w nios" where
  "eret m s = s\<lparr>world := set_status m (estatus s) (world s), pc := rd s EA\<rparr>"

fun step :: "'w nios_env \<Rightarrow> instr list \<Rightarrow> 'w config \<Rightarrow> 'w config" where
  "step m code (At (i # is) s) =
     (let branch = (\<lambda>c l. At (if c then goto l code else is) s)
      in case i of
           Beq p q l \<Rightarrow> branch (rd s p = rd s q) l
         | Bne p q l \<Rightarrow> branch (rd s p \<noteq> rd s q) l
         | Bge p q l \<Rightarrow> branch (sint (rd s q) \<le> sint (rd s p)) l
         | Bltu p q l \<Rightarrow> branch (rd s p < rd s q) l
         | Br l \<Rightarrow> branch True l
         | Call f \<Rightarrow> (case call_c m f s of None \<Rightarrow> Lost | Some s' \<Rightarrow> At is s')
         | Break \<Rightarrow> Broken s
         | Eret \<Rightarrow> Returned (eret m s)
         | _ \<Rightarrow> At is (exec m i s))"
| "step m code c = c"

definition nios_steps :: "'w nios_env \<Rightarrow> instr list \<Rightarrow> nat \<Rightarrow> 'w config \<Rightarrow> 'w config" where
  "nios_steps m code n = step m code ^^ n"

text \<open>What the processor does when it takes an exception between two instructions: \<open>pc\<close> is the
  address of the instruction that is not executed.\<close>

definition NIOS2_PIE :: u32 where "NIOS2_PIE = 1"

definition take_exception :: "'w nios_env \<Rightarrow> 'w nios \<Rightarrow> 'w nios" where
  "take_exception m s =
     wr EA (pc s + 4)
       (s\<lparr>estatus := status_of m (world s),
          world := set_status m (status_of m (world s) AND NOT NIOS2_PIE) (world s)\<rparr>)"

subsection \<open>Running blocks\<close>

definition executes :: "'w nios_env \<Rightarrow> instr list \<Rightarrow> nat \<Rightarrow> 'w config \<Rightarrow> 'w config \<Rightarrow> bool" where
  "executes m code n c d \<longleftrightarrow> (\<exists>k\<le>n. nios_steps m code k c = d)"

text \<open>A few steps are computed.\<close>

lemma nios_steps_simps:
  "nios_steps m code 0 c = c"
  "nios_steps m code (Suc n) c = nios_steps m code n (step m code c)"
  "nios_steps m code (numeral k) c = nios_steps m code (pred_numeral k) (step m code c)"
  unfolding nios_steps_def numeral_eq_Suc by (simp_all add: funpow_swap1)

lemma executes_run: "nios_steps m code k c = d \<Longrightarrow> k \<le> n \<Longrightarrow> executes m code n c d"
  unfolding executes_def by blast

lemma executes_refl [simp]: "executes m code n c c"
  unfolding executes_def nios_steps_def by (rule exI [of _ 0]) simp

lemma executes_trans:
  assumes "executes m code a c d" "executes m code b d e" "a + b \<le> n"
  shows "executes m code n c e"
proof -
  obtain i j where "i \<le> a" "j \<le> b" "nios_steps m code i c = d" "nios_steps m code j d = e"
    using assms(1,2) unfolding executes_def by blast
  then have "nios_steps m code (j + i) c = e" by (simp add: nios_steps_def funpow_add)
  then show ?thesis
    using \<open>i \<le> a\<close> \<open>j \<le> b\<close> assms(3) unfolding executes_def by (intro exI [of _ "j + i"]) simp
qed

lemma executes_one: "step m code c = d \<Longrightarrow> executes m code 1 c d"
  unfolding executes_def nios_steps_def by (intro exI [of _ 1]) simp

lemma executes_step:
  assumes "step m code c = d" "executes m code n d e"
  shows "executes m code (Suc n) c e"
  by (rule executes_trans [OF executes_one [OF assms(1)] assms(2)]) simp

lemma executes_mono: "executes m code a c d \<Longrightarrow> a \<le> n \<Longrightarrow> executes m code n c d"
  unfolding executes_def using order.trans by blast

fun straight :: "instr \<Rightarrow> bool" where
  "straight (Beq p q l) = False"
| "straight (Bne p q l) = False"
| "straight (Bge p q l) = False"
| "straight (Bltu p q l) = False"
| "straight (Br l) = False"
| "straight (Call f) = False"
| "straight Break = False"
| "straight Eret = False"
| "straight i = True"

lemma step_branches [simp]:
  "step m code (At (Beq p q l # is) s) = At (if rd s p = rd s q then goto l code else is) s"
  "step m code (At (Bne p q l # is) s) = At (if rd s p = rd s q then is else goto l code) s"
  "step m code (At (Bge p q l # is) s) = At (if sint (rd s q) \<le> sint (rd s p) then goto l code else is) s"
  "step m code (At (Bltu p q l # is) s) = At (if rd s p < rd s q then goto l code else is) s"
  "step m code (At (Br l # is) s) = At (goto l code) s"
  "step m code (At (Call f # is) s) = (case call_c m f s of None \<Rightarrow> Lost | Some s' \<Rightarrow> At is s')"
  "step m code (At (Break # is) s) = Broken s"
  "step m code (At (Eret # is) s) = Returned (eret m s)"
  "step m code (At [] s) = At [] s"
  by simp_all

lemma step_straight: "straight i \<Longrightarrow> step m code (At (i # is) s) = At is (exec m i s)"
  by (cases i) simp_all

declare step.simps(1) [simp del]

lemma executes_block:
  "list_all straight b \<Longrightarrow> executes m code (length b) (At (b @ rest) s) (At rest (fold (exec m) b s))"
proof (induction b arbitrary: s)
  case (Cons i b)
  then have "step m code (At (i # b @ rest) s) = At (b @ rest) (exec m i s)"
    by (simp add: step_straight)
  with Cons show ?case
    by (auto intro: executes_step)
qed simp

text \<open>Reaching the end of a block, then what follows.\<close>

lemma run_block:
  assumes "executes m code n (At rest t) e"
    and "list_all straight b" "fold (exec m) b s = t" "length b + n \<le> k"
  shows "executes m code k (At (b @ rest) s) e"
  using executes_trans [OF executes_block [OF assms(2)]] assms(1,3,4) by metis

lemma goto_append: "Label l \<notin> set xs \<Longrightarrow> goto l (xs @ ys) = goto l ys"
  by (induction xs) auto

text \<open>The ends of a run are fixed points, so that a bound on the number of steps is enough fuel.\<close>

fun ended :: "'w config \<Rightarrow> bool" where
  "ended (At is s) = False"
| "ended c = True"

lemma ended_stays: "ended c \<Longrightarrow> nios_steps m code n c = c"
  unfolding nios_steps_def by (induction n) (cases c; simp)+

lemma executes_steps: "executes m code n c d \<Longrightarrow> ended d \<Longrightarrow> nios_steps m code n c = d"
proof -
  assume d: "ended d" and "executes m code n c d"
  then obtain k where k: "k \<le> n" "nios_steps m code k c = d" unfolding executes_def by blast
  have "nios_steps m code n c = nios_steps m code ((n - k) + k) c"
    using k(1) by simp
  also have "\<dots> = nios_steps m code (n - k) (nios_steps m code k c)"
    unfolding nios_steps_def by (simp only: funpow_add comp_apply)
  also have "\<dots> = d" using k(2) by (simp add: ended_stays [OF d])
  finally show ?thesis .
qed

subsection \<open>Reading what was written\<close>

lemma rd_0 [simp]: "rd s 0 = 0" by (simp add: rd_def)

lemma rd_wr [simp]: "rd (wr r v s) q = (if q = 0 then 0 else if q = r then v else rd s q)"
  by (simp add: rd_def wr_def)

lemma rd_upd [simp]:
  "rd (s\<lparr>memw := x\<rparr>) q = rd s q" "rd (s\<lparr>estatus := e\<rparr>) q = rd s q"
  "rd (s\<lparr>world := w\<rparr>) q = rd s q" "rd (s\<lparr>pc := p\<rparr>) q = rd s q"
  by (simp_all add: rd_def)

lemma wr_sel [simp]:
  "memw (wr r v s) = memw s" "estatus (wr r v s) = estatus s" "world (wr r v s) = world s" "pc (wr r v s) = pc s"
  by (simp_all add: wr_def)

end
