(* ===== verification/ExcCode.thy ===== *)
theory ExcCode
  imports Nios
begin

text \<open>
  The code at the exception address, section by section: the entry and the exit
  (\<open>alt_exception_entry.S\<close>), the test for an interrupt and the call of its dispatcher
  (\<open>alt_irq_entry.S\<close>), the handler of trap instructions (\<open>alt_exception_trap.S\<close>) and the
  emulation of multiplications and divisions (\<open>alt_exception_muldiv.S\<close>), put together in the order of the
  linker script. The configuration has no separate exception stack, no stack check and no
  interrupt-vector instruction.
\<close>

subsection \<open>Entry and exit\<close>

definition exceptions_entry :: "instr list" where
  "exceptions_entry =
    [Addi SP SP (- 76),
     Stw RA 0 SP,
     Stw 1 8 SP,
     Stw 2 12 SP,
     Stw 3 16 SP,
     Stw 4 20 SP,
     Stw 5 24 SP,
     Stw 6 28 SP,
     Stw 7 32 SP,
     Rdctl 5 Estatus,
     Stw 8 36 SP,
     Stw 9 40 SP,
     Stw 10 44 SP,
     Stw 11 48 SP,
     Stw 12 52 SP,
     Stw 13 56 SP,
     Stw 14 60 SP,
     Stw 15 64 SP,
     Stw 5 68 SP,
     Addi 15 EA (- 4),
     Stw 15 72 SP]"

definition exceptions_exit :: "instr list" where
  "exceptions_exit =
    [Ldw 5 68 SP,
     Ldw EA 72 SP,
     Ldw RA 0 SP,
     Wrctl Estatus 5,
     Ldw 1 8 SP,
     Ldw 2 12 SP,
     Ldw 3 16 SP,
     Ldw 4 20 SP,
     Ldw 5 24 SP,
     Ldw 6 28 SP,
     Ldw 7 32 SP,
     Ldw 8 36 SP,
     Ldw 9 40 SP,
     Ldw 10 44 SP,
     Ldw 11 48 SP,
     Ldw 12 52 SP,
     Ldw 13 56 SP,
     Ldw 14 60 SP,
     Ldw 15 64 SP,
     Addi SP SP 76,
     Eret]"

subsection \<open>Interrupts\<close>

definition exceptions_irqtest :: "instr list" where
  "exceptions_irqtest =
    [Rdctl 4 Ipending,
     Andi 2 5 1,
     Beq 2 0 Lnot_irq,
     Beq 4 0 Lnot_irq]"

definition exceptions_irqhandler :: "instr list" where
  "exceptions_irqhandler = [Call Alt_irq_handler]"

definition exceptions_irqreturn :: "instr list" where
  "exceptions_irqreturn = [Br Lexception_exit]"

definition exceptions_notirq :: "instr list" where
  "exceptions_notirq =
    [Stw EA 72 SP,
     Ldw 2 (- 4) EA]"

subsection \<open>Unknown exceptions and traps\<close>

definition exceptions_unknown :: "bool \<Rightarrow> bool \<Rightarrow> instr list" where
  "exceptions_unknown instruction_related_exception_api has_debug_stub =
    (if instruction_related_exception_api
     then [Addi 4 EA (- 4),
           Call Alt_instruction_exception_entry,
           Bne 2 0 Lexception_exit,
           Addi 15 EA (- 4),
           Stw 15 72 SP]
     else [Label Alt_exception_unknown,
           if has_debug_stub then Break else Br Alt_exception_unknown])"

definition alt_exception_trap :: "instr list" where
  "alt_exception_trap =
    [Movhi 3 0x003b,
     Ori 3 3 0x683a,
     Bne 2 3 Lnot_trap,
     Break,
     Br Lexception_exit,
     Label Lnot_trap]"

subsection \<open>Multiplications and divisions\<close>

text \<open>The instruction's fields.\<close>

definition muldiv_fields :: "instr list" where
  "muldiv_fields =
    [Roli 3 2 7,
     Roli 4 3 3,
     Roli 6 4 2,
     Srai 4 4 16,
     Xori 6 6 0x42,
     Roli 7 6 5,
     Andi 5 2 0x3f,
     Xori 3 3 0x40,
     Andi 3 3 0x7c,
     Andi 6 6 0x7c,
     Andi 7 7 0x7c]"

definition muldiv_save :: "instr list" where
  "muldiv_save =
    [Addi SP SP (- 60),
     Stw 0 64 SP,
     Stw 16 0 SP,
     Stw 17 4 SP,
     Stw 18 8 SP,
     Stw 19 12 SP,
     Stw 20 16 SP,
     Stw 21 20 SP,
     Stw 22 24 SP,
     Stw 23 28 SP,
     Stw GP 40 SP,
     Stw SP 44 SP,
     Stw FP 48 SP,
     Movi 14 32]"

definition muldiv_operand_a :: "instr list" where
  "muldiv_operand_a =
    [Add 3 3 SP,
     Ldw 3 0 3,
     Movi 15 0x24]"

definition muldiv_operand_b :: "instr list" where
  "muldiv_operand_b =
    [Add 6 6 SP,
     Ldw 6 0 6,
     Srli 4 4 5,
     Andi 4 4 0x3f,
     Movi 8 0x3a]"

definition muldiv_select :: "instr list" where
  "muldiv_select =
    [Bne 5 8 Lnot_muldiv,
     Beq 4 15 Ldivide,
     Movi 15 0x27,
     Beq 4 15 Lmultiply,
     Movi 15 0x07,
     Beq 4 15 Lmultiply,
     Movi 15 0x17,
     Beq 4 15 Lmultiply,
     Movi 15 0x1f,
     Beq 4 15 Lmultiply,
     Movi 15 0x25,
     Bne 4 15 Lnot_muldiv]"

definition divide_prepare :: "instr list" where
  "divide_prepare =
    [Label Ldivide,
     Movi 17 0,
     Xori 15 4 0x25,
     Bne 15 0 Lunsigned_division,
     Xor 17 3 6,
     Bge 3 0 Ldiv_abs_a,
     Sub 3 0 3,
     Label Ldiv_abs_a,
     Bge 6 0 Ldiv_abs_b,
     Sub 6 0 6,
     Label Ldiv_abs_b,
     Label Lunsigned_division,
     Movi 13 0]"

definition divide_loop :: "instr list" where
  "divide_loop =
    [Label Ldivide_loop,
     Slli 13 13 1,
     Cmplt 15 3 0,
     Or 13 13 15,
     Slli 3 3 1,
     Bltu 13 6 Ldiv_skip,
     Ori 3 3 1,
     Sub 13 13 6,
     Label Ldiv_skip,
     Subi 14 14 1,
     Bne 14 0 Ldivide_loop]"

definition divide_finish :: "instr list" where
  "divide_finish =
    [Mov 9 3,
     Bge 17 0 Lstore_result,
     Sub 9 0 9,
     Br Lstore_result]"

definition multiply_prepare :: "instr list" where
  "multiply_prepare =
    [Label Lmul_immed,
     Mov 7 6,
     Mov 6 4,
     Movi 4 0x27,
     Label Lmultiply,
     Movi 9 0,
     Movi 10 0,
     Mov 11 6,
     Mov 12 6,
     Movi 16 1]"

definition multiply_loop :: "instr list" where
  "multiply_loop =
    [Label Lmultiply_loop,
     Slli 9 9 1,
     Andi 15 12 1,
     Beq 15 0 Lmulx_skip,
     Add 10 10 3,
     Cmpltu 15 10 3,
     Ror 15 15 16,
     Label Lmulx_skip,
     Bge 6 0 Lmul_skip,
     Add 9 9 3,
     Label Lmul_skip,
     Srli 10 10 1,
     Or 10 10 15,
     Slli 6 6 1,
     Srli 12 12 1,
     Subi 14 14 1,
     Bne 14 0 Lmultiply_loop]"

definition multiply_finish :: "instr list" where
  "multiply_finish =
    [Xori 15 4 0x27,
     Beq 15 0 Lstore_result,
     Mov 9 10,
     Xori 15 4 0x07,
     Beq 15 0 Lstore_result,
     Bge 3 0 Lmulxsu_skip,
     Sub 9 9 11,
     Label Lmulxsu_skip,
     Xori 15 4 0x17,
     Beq 15 0 Lstore_result,
     Bge 11 0 Lmulxss_skip,
     Sub 9 9 3,
     Label Lmulxss_skip]"

definition muldiv_store :: "instr list" where
  "muldiv_store =
    [Label Lstore_result,
     Add 7 7 SP,
     Stw 9 0 7,
     Ldw 16 0 SP,
     Ldw 17 4 SP,
     Ldw 18 8 SP,
     Ldw 19 12 SP,
     Ldw 20 16 SP,
     Ldw 21 20 SP,
     Ldw 22 24 SP,
     Ldw 23 28 SP,
     Ldw FP 48 SP,
     Addi SP SP 60,
     Br Lexception_exit,
     Label Lnot_muldiv,
     Addi SP SP 60]"

definition alt_exception_muldiv :: "instr list" where
  "alt_exception_muldiv =
     muldiv_fields @ muldiv_save @ muldiv_operand_a @ [Beq 5 15 Lmul_immed] @ muldiv_operand_b @ muldiv_select
     @ divide_prepare @ divide_loop @ divide_finish
     @ multiply_prepare @ multiply_loop @ multiply_finish @ muldiv_store"

subsection \<open>The sections in the order of the linker script\<close>

record exc_build =
  ALT_NO_INSTRUCTION_EMULATION :: bool
  ALT_TRAP_HANDLER :: bool
  ALT_INCLUDE_INSTRUCTION_RELATED_EXCEPTION_API :: bool
  HAS_DEBUG_STUB :: bool

text \<open>This board support package: none of the options, and a debug stub.\<close>

definition this_exc_build :: exc_build where
  "this_exc_build = \<lparr>ALT_NO_INSTRUCTION_EMULATION = True, ALT_TRAP_HANDLER = False,
     ALT_INCLUDE_INSTRUCTION_RELATED_EXCEPTION_API = False, HAS_DEBUG_STUB = True\<rparr>"

text \<open>\<open>crt0.S\<close> refers to the optional handlers.\<close>

definition exceptions_soft :: "exc_build \<Rightarrow> instr list" where
  "exceptions_soft b =
     (if ALT_NO_INSTRUCTION_EMULATION b then [] else alt_exception_muldiv)
     @ (if ALT_TRAP_HANDLER b then alt_exception_trap else [])"

definition unknown_of :: "exc_build \<Rightarrow> instr list" where
  "unknown_of b = exceptions_unknown (ALT_INCLUDE_INSTRUCTION_RELATED_EXCEPTION_API b) (HAS_DEBUG_STUB b)"

definition exceptions_section :: "exc_build \<Rightarrow> instr list" where
  "exceptions_section b =
     exceptions_entry @ exceptions_irqtest @ exceptions_irqhandler @ exceptions_irqreturn
     @ [Label Lnot_irq] @ exceptions_notirq @ exceptions_soft b @ unknown_of b
     @ [Label Lexception_exit] @ exceptions_exit"

end
