(* ===== verification/ExcEntry.thy ===== *)
theory ExcEntry
  imports ExcCode
begin

text \<open>
  What the entry and the exit of the exception handler do to registers and memory, the path of an
  interrupt, and the path of an instruction's exception up to its handler. Addresses are relative to a
  base \<open>b\<close> 136 bytes below the interrupted program's stack pointer: the entry's frame is the
  76 bytes below the stack pointer, the emulation of instructions uses the 60 below these, and together they
  are an array of 32 registers.
\<close>

subsection \<open>The frame\<close>

text \<open>The word that holds register \<open>r\<close>.\<close>

definition slot :: "u32 \<Rightarrow> nat \<Rightarrow> u32" where
  "slot b r = push_bit 2 (of_nat r XOR 16) + b"

text \<open>The registers that the entry saves and the exit restores.\<close>

definition entry_saved :: "nat list" where
  "entry_saved = [1, 2, 3, 4, 5, 6, 7, 8, 9, 10, 11, 12, 13, 14, 15, RA]"

text \<open>Addresses that a store into the \<open>n\<close> bytes from \<open>b\<close> on does not touch.\<close>

definition outside :: "u32 \<Rightarrow> u32 \<Rightarrow> u32 \<Rightarrow> bool" where
  "outside b n a \<longleftrightarrow> n \<le> a - b"

lemma outside_neq: "outside b n a \<Longrightarrow> i < n \<Longrightarrow> a \<noteq> i + b"
  by (auto simp: outside_def)

lemma outside_mono: "outside b n a \<Longrightarrow> m \<le> n \<Longrightarrow> outside b m a"
  unfolding outside_def by (rule order_trans)

lemmas nios_simps = wr_def rd_def add.assoc

lemma entry_state:
  assumes "regs s SP = 136 + b"
  shows "fold (exec m) exceptions_entry s =
    s\<lparr>regs := (regs s)(SP := 60 + b, 5 := estatus s, 15 := regs s EA - 4),
      memw := (memw s)
        (60 + b := regs s RA, 68 + b := regs s 1, 72 + b := regs s 2, 76 + b := regs s 3,
         80 + b := regs s 4, 84 + b := regs s 5, 88 + b := regs s 6, 92 + b := regs s 7,
         96 + b := regs s 8, 100 + b := regs s 9, 104 + b := regs s 10, 108 + b := regs s 11,
         112 + b := regs s 12, 116 + b := regs s 13, 120 + b := regs s 14, 124 + b := regs s 15,
         128 + b := estatus s, 132 + b := regs s EA - 4)\<rparr>"
  using assms by (simp add: exceptions_entry_def nios_simps)

text \<open>The frame that the exit relies on: saved registers, the status and the address to return to.\<close>

definition framed :: "u32 \<Rightarrow> (nat \<Rightarrow> u32) \<Rightarrow> u32 \<Rightarrow> u32 \<Rightarrow> 'w nios \<Rightarrow> bool" where
  "framed b g st ret s \<longleftrightarrow> regs s SP = 60 + b \<and> (\<forall>r \<in> set entry_saved. memw s (slot b r) = g r)
     \<and> memw s (128 + b) = st \<and> memw s (132 + b) = ret"

text \<open>The state after the exit's last instruction.\<close>

definition resumed :: "'w nios_env \<Rightarrow> u32 \<Rightarrow> (nat \<Rightarrow> u32) \<Rightarrow> u32 \<Rightarrow> u32 \<Rightarrow> 'w nios \<Rightarrow> 'w nios" where
  "resumed m b g st ret s =
     s\<lparr>regs := (\<lambda>r. if r \<in> set entry_saved then g r else regs s r)(SP := 136 + b, EA := ret),
       estatus := st, pc := ret, world := set_status m st (world s)\<rparr>"

lemma exit_returns:
  assumes f: "framed b g st ret s"
  shows "executes m code 21 (At exceptions_exit s) (Returned (resumed m b g st ret s))"
proof -
  define body where "body = butlast exceptions_exit"
  have split: "exceptions_exit = body @ [Eret]" and str: "list_all straight body" and len: "length body = 20"
    by (simp_all add: body_def exceptions_exit_def)
  have "eret m (fold (exec m) body s) = resumed m b g st ret s"
    using f by (simp add: body_def exceptions_exit_def eret_def resumed_def framed_def entry_saved_def
        slot_def nios_simps fun_eq_iff)
  then have "executes m code 1 (At [Eret] (fold (exec m) body s)) (Returned (resumed m b g st ret s))"
    by (intro executes_one) simp
  then show ?thesis
    unfolding split by (rule run_block [OF _ str refl]) (simp add: len)
qed

subsection \<open>Positions in the code\<close>

definition after_unknown :: "instr list" where
  "after_unknown = Label Lexception_exit # exceptions_exit"

definition after_soft :: "exc_build \<Rightarrow> instr list" where
  "after_soft b = unknown_of b @ after_unknown"

definition after_muldiv :: "exc_build \<Rightarrow> instr list" where
  "after_muldiv b = (if ALT_TRAP_HANDLER b then alt_exception_trap else []) @ after_soft b"

definition after_notirq :: "exc_build \<Rightarrow> instr list" where
  "after_notirq b = (if ALT_NO_INSTRUCTION_EMULATION b then [] else alt_exception_muldiv) @ after_muldiv b"

definition after_entry :: "exc_build \<Rightarrow> instr list" where
  "after_entry b = exceptions_irqtest @ Call Alt_irq_handler # Br Lexception_exit # Label Lnot_irq
     # exceptions_notirq @ after_notirq b"

lemma section_conv: "exceptions_section b = exceptions_entry @ after_entry b"
  by (simp add: exceptions_section_def after_entry_def after_notirq_def after_muldiv_def after_soft_def after_unknown_def
      exceptions_soft_def exceptions_irqhandler_def exceptions_irqreturn_def)

lemmas section_code =
  exceptions_entry_def exceptions_irqtest_def exceptions_notirq_def exceptions_unknown_def
  alt_exception_trap_def exceptions_soft_def unknown_of_def

lemmas muldiv_code =
  alt_exception_muldiv_def muldiv_fields_def muldiv_save_def muldiv_operand_a_def muldiv_operand_b_def
  muldiv_select_def divide_prepare_def divide_loop_def divide_finish_def multiply_prepare_def
  multiply_loop_def multiply_finish_def muldiv_store_def

lemma goto_not_irq: "goto Lnot_irq (exceptions_section b) = exceptions_notirq @ after_notirq b"
  by (simp add: section_conv after_entry_def exceptions_entry_def exceptions_irqtest_def)

lemma goto_exit: "goto Lexception_exit (exceptions_section b) = exceptions_exit"
proof -
  have "Label Lexception_exit \<notin> set alt_exception_muldiv" "Label Lexception_exit \<notin> set alt_exception_trap"
    "Label Lexception_exit \<notin> set (unknown_of b)"
    by (simp_all add: section_code muldiv_code)
  then show ?thesis
    by (simp add: section_conv after_entry_def after_notirq_def after_muldiv_def after_soft_def after_unknown_def goto_append
        exceptions_entry_def exceptions_irqtest_def exceptions_notirq_def)
qed

subsection \<open>From the exception address to its cause\<close>

text \<open>The state in which an interrupt's dispatcher is called, or the handlers of other exceptions
  begin.\<close>

definition frame_entered :: "u32 \<Rightarrow> 'w nios \<Rightarrow> u32 \<Rightarrow> 'w nios \<Rightarrow> bool" where
  "frame_entered b s ret t \<longleftrightarrow> framed b (regs s) (estatus s) ret t \<and> world t = world s
     \<and> (\<forall>r. r \<notin> set entry_saved \<union> {SP} \<longrightarrow> regs t r = regs s r)
     \<and> (\<forall>a. outside (60 + b) 76 a \<longrightarrow> memw t a = memw s a)"

definition irq_taken :: "'w nios_env \<Rightarrow> 'w nios \<Rightarrow> bool" where
  "irq_taken m s \<longleftrightarrow> estatus s AND 1 \<noteq> 0 \<and> ipending_of m (world s) \<noteq> 0"

lemma outside_base: "outside (60 + b) 76 a \<Longrightarrow> i < 76 \<Longrightarrow> a \<noteq> (60 + i) + b"
  using outside_neq [of "60 + b" 76 a i] by (simp add: algebra_simps)

lemmas outside_frame =
  outside_base [where i = 0, simplified] outside_base [where i = 8, simplified] outside_base [where i = 12, simplified]
  outside_base [where i = 16, simplified] outside_base [where i = 20, simplified] outside_base [where i = 24, simplified]
  outside_base [where i = 28, simplified] outside_base [where i = 32, simplified] outside_base [where i = 36, simplified]
  outside_base [where i = 40, simplified] outside_base [where i = 44, simplified] outside_base [where i = 48, simplified]
  outside_base [where i = 52, simplified] outside_base [where i = 56, simplified] outside_base [where i = 60, simplified]
  outside_base [where i = 64, simplified] outside_base [where i = 68, simplified] outside_base [where i = 72, simplified]

lemma enter_irq:
  assumes sp: "regs s SP = 136 + b" and irq: "irq_taken m s"
  shows "\<exists>t. executes m (exceptions_section e) 25 (At (exceptions_section e) s)
      (At (Call Alt_irq_handler # Br Lexception_exit # Label Lnot_irq # exceptions_notirq @ after_notirq e) t)
    \<and> frame_entered b s (regs s EA - 4) t"
proof -
  define s1 where "s1 = fold (exec m) exceptions_entry s"
  define t where "t = wr 2 (estatus s AND 1) (wr 4 (ipending_of m (world s)) s1)"
  note s1 = s1_def [unfolded entry_state [OF sp]]
  have "executes m (exceptions_section e) 4 (At (after_entry e) s1)
      (At (Call Alt_irq_handler # Br Lexception_exit # Label Lnot_irq # exceptions_notirq @ after_notirq e) t)"
    unfolding after_entry_def exceptions_irqtest_def append_Cons append_Nil
    by (rule executes_run [of _ _ 4])
      (use irq in \<open>simp_all add: nios_steps_simps step_straight irq_taken_def t_def s1 nios_simps\<close>)
  then have "executes m (exceptions_section e) 25 (At (exceptions_entry @ after_entry e) s)
      (At (Call Alt_irq_handler # Br Lexception_exit # Label Lnot_irq # exceptions_notirq @ after_notirq e) t)"
    by (rule run_block [OF _ _ s1_def [symmetric]]) (simp_all add: exceptions_entry_def)
  moreover have "frame_entered b s (regs s EA - 4) t"
    using outside_frame
    by (simp add: frame_entered_def framed_def t_def s1 entry_saved_def slot_def nios_simps)
  ultimately show ?thesis unfolding section_conv [symmetric] by blast
qed

lemma enter_not_irq:
  assumes sp: "regs s SP = 136 + b" and irq: "\<not> irq_taken m s" and out: "outside (60 + b) 76 (regs s EA - 4)"
  shows "\<exists>t. executes m (exceptions_section e) 27 (At (exceptions_section e) s) (At (after_notirq e) t)
    \<and> frame_entered b s (regs s EA) t \<and> regs t 2 = memw s (regs s EA - 4)"
proof -
  define s1 where "s1 = fold (exec m) exceptions_entry s"
  define s2 where "s2 = wr 2 (estatus s AND 1) (wr 4 (ipending_of m (world s)) s1)"
  define t where "t = fold (exec m) exceptions_notirq s2"
  note s1 = s1_def [unfolded entry_state [OF sp]]
  have t: "t = wr 2 (memw s2 (regs s EA - 4)) (s2\<lparr>memw := (memw s2)(132 + b := regs s EA)\<rparr>)"
    using outside_frame [OF out] by (simp add: t_def exceptions_notirq_def s2_def s1 nios_simps)
  have "executes m (exceptions_section e) 2 (At (exceptions_notirq @ after_notirq e) s2) (At (after_notirq e) t)"
    by (rule run_block [OF executes_refl _ t_def [symmetric]]) (simp_all add: exceptions_notirq_def)
  then have "executes m (exceptions_section e) 6 (At (after_entry e) s1) (At (after_notirq e) t)"
  proof (rule executes_trans [rotated])
    show "executes m (exceptions_section e) 4 (At (after_entry e) s1) (At (exceptions_notirq @ after_notirq e) s2)"
    proof (cases "estatus s AND 1 = 0")
      case True
      then have "executes m (exceptions_section e) 3 (At (after_entry e) s1) (At (exceptions_notirq @ after_notirq e) s2)"
        unfolding after_entry_def exceptions_irqtest_def append_Cons append_Nil
        by (intro executes_run [of _ _ 3])
          (simp_all add: nios_steps_simps step_straight s2_def s1 nios_simps goto_not_irq)
      then show ?thesis by (rule executes_mono) simp
    next
      case False
      then show ?thesis
        unfolding after_entry_def exceptions_irqtest_def append_Cons append_Nil
        using irq by (intro executes_run [of _ _ 4])
          (simp_all add: nios_steps_simps step_straight irq_taken_def s2_def s1 nios_simps goto_not_irq)
    qed
  qed simp
  then have "executes m (exceptions_section e) 27 (At (exceptions_entry @ after_entry e) s) (At (after_notirq e) t)"
    by (rule run_block [OF _ _ s1_def [symmetric]]) (simp_all add: exceptions_entry_def)
  moreover have "frame_entered b s (regs s EA) t" "regs t 2 = memw s (regs s EA - 4)"
    using outside_frame outside_frame [OF out]
    by (simp_all add: frame_entered_def framed_def t s2_def s1 entry_saved_def slot_def nios_simps)
  ultimately show ?thesis unfolding section_conv [symmetric] by blast
qed

subsection \<open>Calls of C functions\<close>

text \<open>The calling convention, as the compiler documents it: a function gives back the callee-saved
  registers and those it may not use, and leaves its caller's frame alone. The exception's return
  address register is not among them, since an exception taken during the call changes it.\<close>

definition follows_abi :: "'w nios_env \<Rightarrow> cfunction \<Rightarrow> bool" where
  "follows_abi m f \<longleftrightarrow> (\<forall>s s'. call_c m f s = Some s' \<longrightarrow>
     (\<forall>r. r \<notin> set entry_saved \<union> {EA} \<longrightarrow> regs s' r = regs s r)
     \<and> (\<forall>a. a - regs s SP < 76 \<longrightarrow> memw s' a = memw s a))"

lemma slot_in_frame: "r \<in> set entry_saved \<Longrightarrow> slot b r - (60 + b) < 76"
  by (auto simp: entry_saved_def slot_def)

lemma framed_call:
  assumes "follows_abi m f" "framed b g st ret t" "call_c m f t = Some u"
  shows "framed b g st ret u"
proof -
  have u: "regs u SP = 60 + b" "\<And>a. a - (60 + b) < 76 \<Longrightarrow> memw u a = memw t a"
    using assms by (auto simp: follows_abi_def framed_def entry_saved_def)
  have "memw u (128 + b) = memw t (128 + b)" "memw u (132 + b) = memw t (132 + b)"
    using u(2) [of "128 + b"] u(2) [of "132 + b"] by simp_all
  then show ?thesis
    using assms(2) u slot_in_frame [of _ b] by (simp add: framed_def)
qed

lemma resumed_regs:
  assumes sp: "g SP = 136 + b" and other: "\<And>r. r \<notin> set entry_saved \<union> {EA, SP} \<Longrightarrow> regs u r = g r"
  shows "regs (resumed m b g st ret u) = g(EA := ret)"
  using sp other by (auto simp: resumed_def fun_eq_iff entry_saved_def)

subsection \<open>Interrupts\<close>

lemma interrupt_path:
  assumes sp: "regs s SP = 136 + b" and irq: "irq_taken m s" and abi: "follows_abi m Alt_irq_handler"
  shows "\<exists>t. world t = world s \<and>
    (case call_c m Alt_irq_handler t of
       None \<Rightarrow> executes m (exceptions_section e) 60 (At (exceptions_section e) s) Lost
     | Some u \<Rightarrow> executes m (exceptions_section e) 60 (At (exceptions_section e) s)
           (Returned (resumed m b (regs s) (estatus s) (regs s EA - 4) u))
         \<and> regs (resumed m b (regs s) (estatus s) (regs s EA - 4) u) = (regs s)(EA := regs s EA - 4))"
proof -
  let ?c = "exceptions_section e"
  let ?rest = "Br Lexception_exit # Label Lnot_irq # exceptions_notirq @ after_notirq e"
  obtain t where t: "executes m ?c 25 (At ?c s) (At (Call Alt_irq_handler # ?rest) t)"
    and en: "frame_entered b s (regs s EA - 4) t"
    using enter_irq [OF sp irq] by blast
  show ?thesis
  proof (rule exI [of _ t], intro conjI)
    show "world t = world s" using en by (simp add: frame_entered_def)
    show "case call_c m Alt_irq_handler t of
       None \<Rightarrow> executes m ?c 60 (At ?c s) Lost
     | Some u \<Rightarrow> executes m ?c 60 (At ?c s) (Returned (resumed m b (regs s) (estatus s) (regs s EA - 4) u))
         \<and> regs (resumed m b (regs s) (estatus s) (regs s EA - 4) u) = (regs s)(EA := regs s EA - 4)"
    proof (cases "call_c m Alt_irq_handler t")
      case None
      then have "executes m ?c 1 (At (Call Alt_irq_handler # ?rest) t) Lost" by (intro executes_one) simp
      from executes_trans [OF t this, of 60] None show ?thesis by simp
    next
      case (Some u)
      have f: "framed b (regs s) (estatus s) (regs s EA - 4) u"
        using framed_call [OF abi _ Some] en by (simp add: frame_entered_def)
      have "executes m ?c 2 (At (Call Alt_irq_handler # ?rest) t) (At exceptions_exit u)"
        by (rule executes_run [of _ _ 2]) (simp_all add: nios_steps_simps Some goto_exit)
      from executes_trans [OF executes_trans [OF t this order_refl] exit_returns [OF f], of 60]
      have run: "executes m ?c 60 (At ?c s) (Returned (resumed m b (regs s) (estatus s) (regs s EA - 4) u))"
        by simp
      have "regs u r = regs s r" if "r \<notin> set entry_saved \<union> {EA, SP}" for r
        using that abi Some en by (auto simp: follows_abi_def frame_entered_def entry_saved_def)
      from run resumed_regs [where g = "regs s", OF sp this] Some show ?thesis by simp
    qed
  qed
qed

subsection \<open>Other exceptions\<close>

definition trap_instruction :: u32 where "trap_instruction = 0x003b683a"

lemma goto_not_trap: "ALT_TRAP_HANDLER e \<Longrightarrow> goto Lnot_trap (exceptions_section e) = after_soft e"
proof -
  assume trap: "ALT_TRAP_HANDLER e"
  have "Label Lnot_trap \<notin> set alt_exception_muldiv" by (simp add: muldiv_code)
  moreover have "goto Lnot_trap (after_muldiv e) = after_soft e"
    using trap by (simp add: after_muldiv_def alt_exception_trap_def)
  ultimately show ?thesis
    by (simp add: section_conv after_entry_def after_notirq_def exceptions_entry_def exceptions_irqtest_def
        exceptions_notirq_def goto_append)
qed

text \<open>A handler of instruction-related exceptions: what it returns selects between the two addresses.\<close>

definition api_state :: "u32 \<Rightarrow> 'w nios \<Rightarrow> 'w nios" where
  "api_state b u =
     (if rd u 2 \<noteq> 0 then u
      else wr 15 (regs u EA - 4) (u\<lparr>memw := (memw u)(132 + b := regs u EA - 4)\<rparr>))"

lemma api_path:
  assumes api: "ALT_INCLUDE_INSTRUCTION_RELATED_EXCEPTION_API e" and abi: "follows_abi m Alt_instruction_exception_entry"
    and f: "framed b g st ret t" and call: "call_c m Alt_instruction_exception_entry (wr 4 (regs t EA - 4) t) = Some u"
  shows "executes m (exceptions_section e) 27 (At (after_soft e) t)
    (Returned (resumed m b g st (if rd u 2 \<noteq> 0 then ret else regs u EA - 4) (api_state b u)))"
proof -
  let ?c = "exceptions_section e"
  have "framed b g st ret (wr 4 (regs t EA - 4) t)" using f by (simp add: framed_def nios_simps)
  from framed_call [OF abi this call] have u: "framed b g st ret u" .
  have f': "framed b g st (if rd u 2 \<noteq> 0 then ret else regs u EA - 4) (api_state b u)"
    using u by (auto simp: framed_def api_state_def nios_simps slot_def entry_saved_def)
  have step: "executes m ?c 6 (At (after_soft e) t) (At exceptions_exit (api_state b u))"
    if "rd u 2 = 0"
    using api that call u by (intro executes_run [of _ _ 6])
      (simp_all add: nios_steps_simps after_soft_def unknown_of_def exceptions_unknown_def after_unknown_def step_straight
        api_state_def rd_def framed_def wr_def)
  moreover have "executes m ?c 3 (At (after_soft e) t) (At exceptions_exit (api_state b u))"
    if "rd u 2 \<noteq> 0"
    using api that call by (intro executes_run [of _ _ 3])
      (simp_all add: nios_steps_simps after_soft_def unknown_of_def exceptions_unknown_def step_straight
        api_state_def rd_def wr_def goto_exit)
  ultimately have "executes m ?c 6 (At (after_soft e) t) (At exceptions_exit (api_state b u))"
    using executes_mono [of m ?c 3 _ _ 6] by (cases "rd u 2 = 0") auto
  from executes_trans [OF this exit_returns [OF f']] show ?thesis by simp
qed

lemma api_path_lost:
  assumes "ALT_INCLUDE_INSTRUCTION_RELATED_EXCEPTION_API e"
    and "call_c m Alt_instruction_exception_entry (wr 4 (regs t EA - 4) t) = None"
  shows "executes m (exceptions_section e) 27 (At (after_soft e) t) Lost"
  using assms by (intro executes_run [of _ _ 2])
    (simp_all add: nios_steps_simps after_soft_def unknown_of_def exceptions_unknown_def step_straight rd_def wr_def)

text \<open>Without the interface a debugger gets the exception, or the code loops for ever.\<close>

lemma no_api_path:
  assumes "\<not> ALT_INCLUDE_INSTRUCTION_RELATED_EXCEPTION_API e"
  shows "HAS_DEBUG_STUB e \<Longrightarrow> executes m code 2 (At (after_soft e) t) (Broken t)"
  using assms by (intro executes_run [of _ _ 2])
    (simp_all add: nios_steps_simps after_soft_def unknown_of_def exceptions_unknown_def step_straight)

lemma trap_path:
  assumes "ALT_TRAP_HANDLER e"
  shows "executes m (exceptions_section e) 4 (At (after_muldiv e) t)
    (if regs t 2 = trap_instruction then Broken (wr 3 trap_instruction t) else At (after_soft e) (wr 3 trap_instruction t))"
  using assms by (intro executes_run [of _ _ "if regs t 2 = trap_instruction then 4 else 3"])
    (simp_all add: nios_steps_simps after_muldiv_def alt_exception_trap_def step_straight nios_simps
      trap_instruction_def goto_not_trap)

end
