(* ===== verification/MulDivArith.thy ===== *)
theory MulDivArith
  imports Prelude "HOL-Library.Signed_Division"
begin

text \<open>
  The two loops of \<open>alt_exception_muldiv.S\<close> as functions on words, one application for each round,
  and what 32 rounds compute: quotient and remainder, the lower and the upper half of the
  product.
\<close>

subsection \<open>Division\<close>

text \<open>Remainder and dividend-quotient register after a round.\<close>

definition divide_round :: "u32 \<Rightarrow> u32 \<times> u32 \<Rightarrow> u32 \<times> u32" where
  "divide_round d rq =
     (let r = push_bit 1 (fst rq) OR of_bool (sint (snd rq) < 0);
          q = push_bit 1 (snd rq)
      in if r < d then (r, q) else (r - d, q OR 1))"

lemma sint_neg_iff: "sint (x :: u32) < 0 \<longleftrightarrow> 2147483648 \<le> unat x"
  using unat_lt_2p [of x] by (simp add: sint32_conv word_less_nat_alt del: of_nat_unat)

lemma unat_shift1: "unat (push_bit 1 x :: u32) = 2 * unat x mod 4294967296"
proof -
  have "unat (push_bit 1 x :: u32) = take_bit 32 (push_bit 1 (unat x))"
    by (simp only: unsigned_push_bit_eq) simp
  then show ?thesis by (simp add: take_bit_eq_mod push_bit_eq_mult mult.commute)
qed

lemma or_1_even: "even (unat (x :: u32)) \<Longrightarrow> unat (x OR 1) = unat x + 1"
proof -
  assume "even (unat x)"
  then have "of_bool (even (unat x)) = (1 :: nat)" by simp
  moreover have "unat (x OR 1) = unat x OR 1" by (simp only: unsigned_or_eq unsigned_1)
  ultimately show "unat (x OR 1) = unat x + 1" by (simp only: or_one_eq)
qed

lemma or_bit_even: "even (unat (x :: u32)) \<Longrightarrow> unat (x OR of_bool b) = unat x + of_bool b"
  by (cases b) (simp_all add: or_1_even)

text \<open>The invariant after \<open>k\<close> rounds: the remainder and the quotient of the dividend's upper
  \<open>k\<close> bits, and its lower bits still to come. Division by zero has its own quotient: ones only.\<close>

definition quot :: "nat \<Rightarrow> nat \<Rightarrow> nat \<Rightarrow> nat" where
  "quot k x d = (if d = 0 then 2 ^ k - 1 else x div d)"

lemma div_mod_unique: "(x :: nat) = c * d + t \<Longrightarrow> t < d \<Longrightarrow> x mod d = t \<and> x div d = c"
  by auto

lemma quot_Suc:
  fixes d :: nat
  assumes "b < 2" and x'_def: "x' = 2 * x + b"
  shows "2 * (x mod d) + b < d \<Longrightarrow> x' mod d = 2 * (x mod d) + b \<and> quot (Suc k) x' d = 2 * quot k x d"
    and "\<not> 2 * (x mod d) + b < d \<Longrightarrow> x' mod d = 2 * (x mod d) + b - d \<and> quot (Suc k) x' d = 2 * quot k x d + 1"
proof -
  define q r where "q = x div d" and "r = x mod d"
  have "x = q * d + r" by (simp add: q_def r_def)
  then have "x' = (2 * q) * d + (2 * r + b)" by (simp add: x'_def algebra_simps)
  then have eq: "x' = (2 * (x div d)) * d + (2 * (x mod d) + b)" by (simp only: q_def r_def)
  show "x' mod d = 2 * (x mod d) + b \<and> quot (Suc k) x' d = 2 * quot k x d"
    if "2 * (x mod d) + b < d"
    using that eq by (simp add: quot_def)
  show "x' mod d = 2 * (x mod d) + b - d \<and> quot (Suc k) x' d = 2 * quot k x d + 1"
    if ge: "\<not> 2 * (x mod d) + b < d"
  proof (cases "d = 0")
    case True
    obtain p where "(2 :: nat) ^ k = Suc p" by (metis not0_implies_Suc power_not_zero zero_neq_numeral)
    then show ?thesis using True by (simp add: quot_def x'_def)
  next
    case False
    then have "x mod d < d" by simp
    with assms(1) ge have lt: "2 * (x mod d) + b - d < d" by simp
    have "x' = (2 * (x div d) + 1) * d + (2 * (x mod d) + b - d)"
      using eq ge by (simp add: algebra_simps)
    from div_mod_unique [OF this lt] show ?thesis using False by (simp add: quot_def)
  qed
qed

definition divide_inv :: "nat \<Rightarrow> u32 \<Rightarrow> u32 \<Rightarrow> u32 \<times> u32 \<Rightarrow> bool" where
  "divide_inv k n d rq \<longleftrightarrow>
     unat (fst rq) = unat n div 2 ^ (32 - k) mod unat d \<and>
     unat (snd rq) = unat n * 2 ^ k mod 4294967296 + quot k (unat n div 2 ^ (32 - k)) (unat d)"

lemma quot_le: "x < 2 ^ k \<Longrightarrow> quot k x d < 2 ^ k"
  by (auto simp: quot_def intro: le_less_trans [OF div_le_dividend])

text \<open>One more bit of the dividend.\<close>

lemma next_bit:
  fixes n :: nat
  assumes "k < 32" "n < 4294967296"
  shows "n div 2 ^ (32 - Suc k) = 2 * (n div 2 ^ (32 - k)) + of_bool (2147483648 \<le> n * 2 ^ k mod 4294967296)"
    and "n div 2 ^ (32 - Suc k) < 2 ^ Suc k"
proof -
  define m where "m = 31 - k"
  have k: "32 - k = Suc m" "32 - Suc k = m" "m + k = 31" using assms(1) by (auto simp: m_def)
  have p: "(4294967296 :: nat) = 2 ^ Suc m * 2 ^ k" "(2147483648 :: nat) = 2 ^ m * 2 ^ k"
    using k(3) by (simp_all flip: power_add power_Suc)
  have "n * 2 ^ k mod 4294967296 = (n mod 2 ^ Suc m) * 2 ^ k"
    unfolding p(1) by (rule mod_mult_mult2)
  then have top: "2147483648 \<le> n * 2 ^ k mod 4294967296 \<longleftrightarrow> 2 ^ m \<le> n mod 2 ^ Suc m"
    unfolding p(2) by simp
  define q r where "q = n div 2 ^ Suc m" "r = n mod 2 ^ Suc m"
  have n: "n = 2 * q * 2 ^ m + r" and r: "r < 2 * 2 ^ m"
    using div_mult_mod_eq [of n "2 ^ Suc m"] by (simp_all add: q_r_def algebra_simps)
  have "n div 2 ^ m = 2 * q + r div 2 ^ m" unfolding n by simp
  moreover have "r div 2 ^ m = of_bool (2 ^ m \<le> r)"
    using r by (auto simp: div_nat_eqI)
  ultimately show "n div 2 ^ (32 - Suc k) = 2 * (n div 2 ^ (32 - k)) + of_bool (2147483648 \<le> n * 2 ^ k mod 4294967296)"
    unfolding top k by (simp add: q_r_def)
  have "n < 2 ^ Suc k * 2 ^ m"
    using assms(2) k(3) by (simp flip: power_add power_Suc add.commute)
  then show "n div 2 ^ (32 - Suc k) < 2 ^ Suc k"
    unfolding k by (simp add: less_mult_imp_div_less)
qed

lemma dvd_add_less:
  fixes a b p q :: nat
  assumes "p dvd a" "p dvd b" "q < p"
  shows "a + q < b \<longleftrightarrow> a < b"
proof
  assume "a < b"
  obtain i j where ij: "a = p * i" "b = p * j" using assms(1,2) by (auto elim!: dvdE)
  with \<open>a < b\<close> have "i < j" by simp
  then have "p * Suc i \<le> p * j" by (intro mult_le_mono2) simp
  with ij assms(3) show "a + q < b" by simp
qed simp

lemma pow_dvd_mod: "k \<le> 32 \<Longrightarrow> (2 :: nat) ^ k dvd x * 2 ^ k mod 4294967296"
  using le_imp_power_dvd [of k 32 "2 :: nat"] by (simp add: dvd_mod)

lemma divide_round_inv:
  assumes k: "k < 32" and inv: "divide_inv k n d rq"
  shows "divide_inv (Suc k) n d (divide_round d rq)"
proof -
  define x M where "x = unat n div 2 ^ (32 - k)" and "M = unat n * 2 ^ k mod 4294967296"
  define b :: nat where "b = of_bool (2147483648 \<le> M)"
  define q where "q = quot k x (unat d)"
  define x' where "x' = unat n div 2 ^ (32 - Suc k)"
  obtain r z where rq: "rq = (r, z)" by (cases rq)
  have r: "unat r = x mod unat d" and z: "unat z = M + q"
    using inv by (simp_all add: rq divide_inv_def x_def M_def q_def)
  have x': "x' = 2 * x + b" "x' < 2 ^ Suc k"
    using next_bit [OF k unat_lt_2p, of n] by (simp_all only: x_def x'_def b_def M_def)
  have p32: "(2 :: nat) ^ Suc k \<le> 2 ^ 32" using k by (intro power_increasing) simp_all
  have "x < 2 ^ k" using x' by simp
  then have q: "q < 2 ^ k" unfolding q_def by (rule quot_le)
  have dvd: "2 ^ k dvd M" "2 ^ k dvd (2147483648 :: nat)" "2 ^ Suc k dvd (2 * M mod 4294967296)" "2 ^ Suc k dvd (4294967296 :: nat)"
    using k pow_dvd_mod [of k "unat n"] pow_dvd_mod [of "Suc k" "unat n"]
      le_imp_power_dvd [of k 31 "2 :: nat"] le_imp_power_dvd [of "Suc k" 32 "2 :: nat"]
    by (simp_all add: M_def mod_mult_right_eq mult.left_commute)
  have neg: "sint z < 0 \<longleftrightarrow> b = 1"
    using dvd_add_less [OF dvd(1,2) q] by (auto simp: sint_neg_iff z b_def)
  have "2 * M mod 4294967296 + 2 * q < 4294967296"
    using q by (subst dvd_add_less [OF dvd(3,4)]) simp_all
  moreover have "2 * (M + q) mod 4294967296 = (2 * M mod 4294967296 + 2 * q) mod 4294967296"
    by (simp add: mod_add_left_eq)
  ultimately have z2: "unat (push_bit 1 z) = 2 * M mod 4294967296 + 2 * q"
    by (simp only: unat_shift1 z) simp
  have even: "even (unat (push_bit 1 z))" "even (unat (push_bit 1 r))"
    unfolding unat_shift1 by (simp_all add: dvd_mod)
  have M': "unat n * 2 ^ Suc k mod 4294967296 = 2 * M mod 4294967296"
    by (simp add: M_def mod_mult_right_eq mult.left_commute)
  define r2 where "r2 = push_bit 1 r OR of_bool (sint z < 0)"
  have "2 * (x mod unat d) + b \<le> x'" using x' by simp
  then have "2 * (x mod unat d) + b < 2 ^ 32"
    using x'(2) p32 by (meson le_less_trans less_le_trans)
  then have lt: "2 * (x mod unat d) + b < 4294967296" by simp
  have r2: "unat r2 = 2 * (x mod unat d) + b"
  proof -
    have "unat r2 = unat (push_bit 1 r) + of_bool (sint z < 0)"
      unfolding r2_def by (rule or_bit_even [OF even(2)])
    also have "\<dots> = 2 * (x mod unat d) + b"
      unfolding unat_shift1 r neg using lt by (simp add: b_def)
    finally show ?thesis .
  qed
  have b2: "b < 2" by (simp add: b_def)
  define zz where "zz = push_bit 1 z"
  have rnd: "divide_round d rq = (if r2 < d then (r2, zz) else (r2 - d, zz OR 1))"
    by (simp only: rq divide_round_def Let_def fst_conv snd_conv r2_def zz_def)
  have z2: "unat zz = 2 * M mod 4294967296 + 2 * q" and even: "even (unat zz)"
    using z2 even(1) by (simp_all only: zz_def)
  have x'31: "unat n div 2 ^ (31 - k) = x'" by (simp add: x'_def)
  note inv_def = divide_inv_def x'31 M' if_True if_False fst_conv snd_conv
  show ?thesis
  proof (cases "r2 < d")
    case True
    then have "2 * (x mod unat d) + b < unat d" by (simp add: word_less_nat_alt r2)
    from quot_Suc(1) [OF b2 x'(1) this, of k] show ?thesis
      unfolding rnd inv_def using True by (simp add: r2 z2 q_def inv_def del: power_Suc)
  next
    case False
    then have ge: "\<not> 2 * (x mod unat d) + b < unat d" by (simp add: word_less_nat_alt r2)
    have "unat (r2 - d) = 2 * (x mod unat d) + b - unat d"
      using False r2 by (simp add: unat_sub_if' word_less_nat_alt)
    moreover have "unat (zz OR 1) = 2 * M mod 4294967296 + (2 * q + 1)"
      using z2 by (simp add: or_1_even [OF even])
    ultimately show ?thesis
      using quot_Suc(2) [OF b2 x'(1) ge, of k] False
      unfolding rnd by (simp add: q_def inv_def del: power_Suc)
  qed
qed

lemma divide_rounds_inv: "k \<le> 32 \<Longrightarrow> divide_inv k n d ((divide_round d ^^ k) (0, n))"
proof (induction k)
  case 0
  show ?case using unat_lt_2p [of n] by (simp add: divide_inv_def quot_def)
next
  case (Suc k)
  then show ?case using divide_round_inv [of k n d] by simp
qed

definition divide_loop_result :: "u32 \<Rightarrow> u32 \<Rightarrow> u32" where
  "divide_loop_result n d = snd ((divide_round d ^^ 32) (0, n))"

lemma divide_loop_result: "divide_loop_result n d = (if d = 0 then - 1 else n div d)"
proof -
  have "unat (divide_loop_result n d) = quot 32 (unat n) (unat d)"
    using divide_rounds_inv [of 32 n d] by (simp add: divide_inv_def divide_loop_result_def mod_mult_self2_is_0)
  also have "\<dots> = unat (if d = 0 then - 1 else n div d)"
    using unat_eq_zero [of d] by (simp add: quot_def unat_div unsigned_minus_1_eq_mask mask_eq_exp_minus_1)
  finally show ?thesis by (simp only: word_unat_eq_iff)
qed

subsection \<open>Multiplication\<close>

text \<open>The registers \<open>mul_product\<close>, \<open>mulxuu_product\<close>, \<open>mul_multiplier\<close> and
  \<open>mulxuu_multiplier\<close> after a round with the multiplicand \<open>a\<close>.\<close>

definition multiply_round :: "u32 \<Rightarrow> u32 \<times> u32 \<times> u32 \<times> u32 \<Rightarrow> u32 \<times> u32 \<times> u32 \<times> u32" where
  "multiply_round a = (\<lambda>(lo, hi, ml, mx).
     let lo = push_bit 1 lo;
         lsb = mx AND 1;
         (hi, carry) = (if lsb = 0 then (hi, lsb) else (hi + a, word_rotr 1 (of_bool (hi + a < a))));
         lo = (if sint ml < 0 then lo + a else lo)
     in (lo, drop_bit 1 hi OR carry, push_bit 1 ml, drop_bit 1 mx))"

lemma word_rotr_1: "word_rotr 1 (1 :: u32) = 0x80000000"
proof (rule bit_word_eqI)
  fix n assume "n < LENGTH(32)"
  then have "n < 32" by simp
  then have "(n + 1) mod 32 = 0 \<longleftrightarrow> n = 31" by presburger
  with \<open>n < 32\<close> show "bit (word_rotr 1 (1 :: u32)) n = bit (0x80000000 :: u32) n"
    using bit_exp_iff [where ?'a = "32 word", of 31 n] by (auto simp: bit_word_rotr_iff bit_1_iff)
qed

lemma drop_bit_1_or: "drop_bit 1 x OR 0x80000000 = drop_bit 1 x + (0x80000000 :: u32)"
proof (rule disjunctive_add [symmetric])
  fix n show "\<not> bit (drop_bit 1 x) n \<or> \<not> bit (0x80000000 :: u32) n"
    using bit_exp_iff [where ?'a = "32 word", of 31 n] bit_imp_le_length [of x "Suc n"]
    by (auto simp: bit_drop_bit_eq)
qed

lemma half_sum:
  fixes h a :: u32
  shows "unat (drop_bit 1 (h + a) OR word_rotr 1 (of_bool (h + a < a))) = (unat h + unat a) div 2"
proof -
  have half: "unat (drop_bit 1 (h + a)) = unat (h + a) div 2"
    by (simp add: drop_bit_eq_div unat_div)
  have carry: "h + a < a \<longleftrightarrow> 4294967296 \<le> unat h + unat a"
    using unat_lt_2p [of h] unat_lt_2p [of a]
    by (auto simp: word_less_nat_alt unat_plus_if')
  show ?thesis
  proof (cases "h + a < a")
    case True
    then have "unat (h + a) = unat h + unat a - 4294967296"
      using carry by (simp add: unat_plus_if')
    with half carry True have h: "unat (drop_bit 1 (h + a)) + 2147483648 = (unat h + unat a) div 2"
      by simp
    then have "unat (drop_bit 1 (h + a) + 0x80000000) = (unat h + unat a) div 2"
      using unat_lt_2p [of h] unat_lt_2p [of a] by (subst unat_plus_if') simp
    with True show ?thesis
      by (simp only: of_bool_eq word_rotr_1 drop_bit_1_or)
  next
    case False
    then have "unat (h + a) = unat h + unat a"
      using carry by (simp add: unat_word_ariths)
    with half False show ?thesis by simp
  qed
qed

text \<open>After \<open>k\<close> rounds with the multiplier \<open>m\<close>: the multiples of its upper and of its lower
  \<open>k\<close> bits, the latter shifted right by \<open>k\<close>.\<close>

definition multiply_inv :: "nat \<Rightarrow> u32 \<Rightarrow> u32 \<Rightarrow> u32 \<times> u32 \<times> u32 \<times> u32 \<Rightarrow> bool" where
  "multiply_inv k a m p \<longleftrightarrow>
     (case p of (lo, hi, ml, mx) \<Rightarrow>
        lo = a * drop_bit (32 - k) m \<and> unat hi = unat a * (unat m mod 2 ^ k) div 2 ^ k
        \<and> ml = push_bit k m \<and> mx = drop_bit k m)"

lemma sint_neg_bit: "sint (x :: u32) < 0 \<longleftrightarrow> bit x 31"
proof -
  have "bit x 31 \<longleftrightarrow> odd (unat x div 2147483648)"
    using bit_iff_odd [of "unat x" 31] by (simp add: bit_unsigned_iff)
  moreover have "odd (unat x div 2147483648) \<longleftrightarrow> 2147483648 \<le> unat x"
  proof (cases "2147483648 \<le> unat x")
    case True
    then have "unat x div 2147483648 = 1" using unat_lt_2p [of x] by (intro div_nat_eqI) simp_all
    then show ?thesis using True by simp
  qed simp
  ultimately show ?thesis by (simp only: sint_neg_iff)
qed

lemma shift_in: "x = push_bit 1 (drop_bit 1 x) + of_bool (bit (x :: u32) 0)"
  using bits_ident [of 1 x] by (simp add: take_bit_Suc bit_0 flip: mod_2_eq_odd)

lemma drop_bit_next:
  assumes "k < 32"
  shows "drop_bit (32 - Suc k) (m :: u32) = push_bit 1 (drop_bit (32 - k) m) + of_bool (bit m (31 - k))"
proof -
  have "drop_bit (32 - k) m = drop_bit 1 (drop_bit (32 - Suc k) m)"
  proof -
    have "32 - k = 1 + (32 - Suc k)" using assms by simp
    then show ?thesis by (simp only: drop_bit_drop_bit)
  qed
  moreover have "bit m (31 - k) = bit (drop_bit (32 - Suc k) m) 0"
    by (simp add: bit_drop_bit_eq)
  ultimately show ?thesis by (simp only: shift_in [of "drop_bit (32 - Suc k) m", symmetric])
qed

lemma low_bits_next: "unat (m :: u32) mod 2 ^ Suc k = unat m mod 2 ^ k + of_bool (bit m k) * 2 ^ k"
proof -
  have "unat m mod 2 ^ Suc k = take_bit (Suc k) (unat m)" by (simp only: take_bit_eq_mod)
  also have "\<dots> = take_bit k (unat m) + of_bool (bit (unat m) k) * 2 ^ k"
    by (simp add: take_bit_Suc_from_most)
  finally show ?thesis by (simp add: take_bit_eq_mod bit_unsigned_iff bit_imp_le_length)
qed

lemma multiply_round_inv:
  assumes k: "k < 32" and inv: "multiply_inv k a m p"
  shows "multiply_inv (Suc k) a m (multiply_round a p)"
proof -
  obtain lo hi ml mx where p: "p = (lo, hi, ml, mx)" by (metis prod_cases4)
  have lo: "lo = a * drop_bit (32 - k) m" and hi: "unat hi = unat a * (unat m mod 2 ^ k) div 2 ^ k"
    and ml: "ml = push_bit k m" and mx: "mx = drop_bit k m"
    using inv by (simp_all add: p multiply_inv_def)
  have neg: "sint ml < 0 \<longleftrightarrow> bit m (31 - k)"
    using k by (simp add: sint_neg_bit ml bit_push_bit_iff)
  have lsb: "mx AND 1 = of_bool (bit m k)"
    by (simp add: mx and_one_eq mod_2_eq_odd bit_iff_odd_drop_bit)
  define lo' where "lo' = (if sint ml < 0 then push_bit 1 lo + a else push_bit 1 lo)"
  have lo': "lo' = a * drop_bit (32 - Suc k) m"
    unfolding lo'_def drop_bit_next [OF k] neg lo by (simp add: push_bit_eq_mult algebra_simps)
  define hi' where "hi' = (if bit m k then drop_bit 1 (hi + a) OR word_rotr 1 (of_bool (hi + a < a)) else drop_bit 1 hi)"
  have hi': "unat hi' = (unat hi + of_bool (bit m k) * unat a) div 2"
  proof (cases "bit m k")
    case True
    then show ?thesis by (simp only: hi'_def if_True half_sum) simp
  qed (simp add: hi'_def drop_bit_eq_div unat_div)
  have "unat a * (unat m mod 2 ^ Suc k) = unat a * (unat m mod 2 ^ k) + of_bool (bit m k) * unat a * 2 ^ k"
    unfolding low_bits_next by (simp add: algebra_simps)
  then have "unat a * (unat m mod 2 ^ Suc k) div 2 ^ k = unat hi + of_bool (bit m k) * unat a"
    by (simp add: hi)
  then have "unat hi' = unat a * (unat m mod 2 ^ Suc k) div 2 ^ k div 2" by (simp only: hi')
  then have hi'': "unat hi' = unat a * (unat m mod 2 ^ Suc k) div 2 ^ Suc k"
    by (simp only: div_mult2_eq [symmetric] power_Suc2)
  have "multiply_round a p = (lo', hi', push_bit 1 ml, drop_bit 1 mx)"
    by (simp add: p multiply_round_def lsb lo'_def hi'_def Let_def)
  then show ?thesis
    by (simp only: multiply_inv_def prod.case lo' hi'' ml mx push_bit_push_bit drop_bit_drop_bit) simp
qed

lemma multiply_rounds_inv: "k \<le> 32 \<Longrightarrow> multiply_inv k a m ((multiply_round a ^^ k) (0, 0, m, m))"
proof (induction k)
  case 0
  have "drop_bit 32 m = 0" using unat_lt_2p [of m] by (simp add: drop_bit_eq_div word_arith_nat_div)
  then show ?case by (simp add: multiply_inv_def)
next
  case (Suc k)
  then show ?case using multiply_round_inv [of k a m] by simp
qed

definition multiply_loop_result :: "u32 \<Rightarrow> u32 \<Rightarrow> u32 \<times> u32" where
  "multiply_loop_result a m = (case (multiply_round a ^^ 32) (0, 0, m, m) of (lo, hi, _, _) \<Rightarrow> (lo, hi))"

lemma multiply_loop_result:
  "multiply_loop_result a m = (a * m, word_of_nat (unat a * unat m div 4294967296))"
proof -
  obtain lo hi ml mx where r: "(multiply_round a ^^ 32) (0, 0, m, m) = (lo, hi, ml, mx)" by (metis prod_cases4)
  have "lo = a * m" "unat hi = unat a * unat m div 4294967296"
    using multiply_rounds_inv [of 32 a m] unat_lt_2p [of m] by (simp_all add: r multiply_inv_def)
  moreover have "hi = word_of_nat (unat hi)" by simp
  ultimately show ?thesis by (simp only: multiply_loop_result_def r prod.case)
qed

subsection \<open>The instructions\<close>

text \<open>What the architecture's manual says of each instruction: a quotient truncated towards zero, the
  lower word of the product, and the upper word of the product of the operands read as
  signed or unsigned.\<close>

datatype muldiv_op = DIVU | DIV | MUL | MULXUU | MULXSU | MULXSS

fun architecture_result :: "muldiv_op \<Rightarrow> u32 \<Rightarrow> u32 \<Rightarrow> u32" where
  "architecture_result DIVU a b = word_of_int (uint a div uint b)"
| "architecture_result DIV a b = word_of_int (sint a sdiv sint b)"
| "architecture_result MUL a b = word_of_int (sint a * sint b)"
| "architecture_result MULXUU a b = word_of_int (uint a * uint b div 2 ^ 32)"
| "architecture_result MULXSU a b = word_of_int (sint a * uint b div 2 ^ 32)"
| "architecture_result MULXSS a b = word_of_int (sint a * sint b div 2 ^ 32)"

text \<open>What the code leaves in the result register after the loops.\<close>

definition absolute :: "u32 \<Rightarrow> u32" where
  "absolute a = (if 0 \<le> sint a then a else - a)"

fun emulated_result :: "muldiv_op \<Rightarrow> u32 \<Rightarrow> u32 \<Rightarrow> u32" where
  "emulated_result DIVU a b = divide_loop_result a b"
| "emulated_result DIV a b =
     (let q = divide_loop_result (absolute a) (absolute b) in if 0 \<le> sint (a XOR b) then q else - q)"
| "emulated_result MUL a b = fst (multiply_loop_result a b)"
| "emulated_result MULXUU a b = snd (multiply_loop_result a b)"
| "emulated_result MULXSU a b =
     (let p = snd (multiply_loop_result a b) in if 0 \<le> sint a then p else p - b)"
| "emulated_result MULXSS a b =
     (let p = snd (multiply_loop_result a b);
          p = (if 0 \<le> sint a then p else p - b)
      in if 0 \<le> sint b then p else p - a)"

lemma sint_uint: "sint (x :: u32) = uint x - (if sint x < 0 then 4294967296 else 0)"
proof -
  have "uint x = int (unat x)" by simp
  then show ?thesis using sint32_conv [of x] unat_lt_2p [of x] by (simp add: word_less_nat_alt del: of_nat_unat)
qed

lemma absolute_conv: "uint (absolute a) = \<bar>sint a\<bar>"
proof (cases "0 \<le> sint a")
  case True
  then show ?thesis using sint_uint [of a] by (simp add: absolute_def)
next
  case False
  then have s: "sint a = uint a - 4294967296" using sint_uint [of a] by simp
  have u: "uint a < 4294967296" using uint_bounded [of a] by simp
  from False have "uint a \<noteq> 0" using s by (metis sint_0 uint_0_iff order_refl)
  with u have "uint (- a) = 4294967296 - uint a"
    by (simp add: uint_word_ariths zmod_zminus1_eq_if)
  then show ?thesis using False s u by (simp add: absolute_def)
qed

lemma absolute_eq_0: "absolute b = 0 \<longleftrightarrow> b = 0"
  by (simp add: absolute_def)

lemma sign_xor: "0 \<le> sint (a XOR b :: u32) \<longleftrightarrow> (sint a < 0 \<longleftrightarrow> sint b < 0)"
proof -
  have "0 \<le> sint (a XOR b) \<longleftrightarrow> \<not> bit (a XOR b) 31"
    using sint_neg_bit [of "a XOR b"] by (simp only: linorder_not_less [symmetric])
  then show ?thesis by (auto simp: sint_neg_bit bit_xor_iff)
qed

lemma signed_quotient:
  assumes "b \<noteq> 0"
  shows "emulated_result DIV a b = word_of_int (sint a sdiv sint b)"
proof -
  have q: "divide_loop_result (absolute a) (absolute b) = word_of_int (\<bar>sint a\<bar> div \<bar>sint b\<bar>)"
    using assms by (simp add: divide_loop_result absolute_eq_0 word_div_def absolute_conv)
  have "sint b \<noteq> 0" using assms by (simp only: signed_eq_0_iff not_False_eq_True)
  then show ?thesis
    unfolding emulated_result.simps q sign_xor Let_def
    by (auto simp: signed_divide_int_def sgn_if)
qed

lemma upper_unsigned: "snd (multiply_loop_result a b) = word_of_int (uint a * uint b div 2 ^ 32)"
proof -
  have "int (unat a * unat b div 4294967296) = uint a * uint b div 2 ^ 32"
    by (simp add: zdiv_int)
  then have "word_of_nat (unat a * unat b div 4294967296) = (word_of_int (uint a * uint b div 2 ^ 32) :: u32)"
    by (metis of_int_of_nat_eq)
  then show ?thesis by (simp only: multiply_loop_result snd_conv)
qed

lemma upper_signed:
  fixes u v :: int
  shows "word_of_int ((u - 4294967296) * v div 2 ^ 32) = (word_of_int (u * v div 2 ^ 32) - word_of_int v :: u32)"
proof -
  have "(u - 4294967296) * v = u * v + (- v) * 4294967296" by (simp add: algebra_simps)
  then have "(u - 4294967296) * v div 4294967296 = u * v div 4294967296 - v"
    by (simp only: div_mult_self1)
  then show ?thesis by simp
qed

lemma upper_signed_unsigned: "emulated_result MULXSU a b = word_of_int (sint a * uint b div 2 ^ 32)"
proof (cases "0 \<le> sint a")
  case True
  then show ?thesis using sint_uint [of a] upper_unsigned [of a b] by simp
next
  case False
  then have "sint a = uint a - 4294967296" using sint_uint [of a] by simp
  then show ?thesis using False upper_signed [of "uint a" "uint b"] upper_unsigned [of a b] by simp
qed

text \<open>The two agree on every operand, divisions by zero apart.\<close>

theorem emulated_result_correct:
  assumes "op \<in> {DIVU, DIV} \<Longrightarrow> b \<noteq> 0"
  shows "emulated_result op a b = architecture_result op a b"
proof (cases op)
  case DIVU
  then show ?thesis using assms by (simp add: divide_loop_result word_div_def)
next
  case DIV
  then show ?thesis using assms signed_quotient by simp
next
  case MUL
  then show ?thesis by (simp add: multiply_loop_result)
next
  case MULXUU
  then show ?thesis using upper_unsigned [of a b] by simp
next
  case MULXSU
  then show ?thesis using upper_signed_unsigned [of a b] by simp
next
  case MULXSS
  have "emulated_result MULXSS a b
      = (if 0 \<le> sint b then emulated_result MULXSU a b else emulated_result MULXSU a b - a)"
    by (simp add: Let_def)
  also have "\<dots> = word_of_int (sint a * sint b div 2 ^ 32)"
  proof (cases "0 \<le> sint b")
    case True
    then have "sint b = uint b" using sint_uint [of b] by simp
    then show ?thesis using True by (simp only: if_True upper_signed_unsigned)
  next
    case False
    then have "sint b = uint b - 4294967296" using sint_uint [of b] by simp
    then show ?thesis 
      using False upper_signed [of "uint b" "sint a"] upper_signed_unsigned [of a b]
      by (simp add: mult.commute del: emulated_result.simps)
  qed
  finally show ?thesis using MULXSS by simp
qed

end
