(* ===== verification/MulDiv.thy ===== *)
theory MulDiv
  imports ExcEntry MulDivArith
begin

text \<open>
  The emulation of multiplications and divisions (\<open>alt_exception_muldiv.S\<close>) as executed by the
  exception handler: the fields of the instruction, the array of the 32 registers that it completes below
  the entry's frame, the loops, and the result that the exit puts into the destination register.
\<close>

subsection \<open>Fields of an instruction\<close>

definition insn_A :: "u32 \<Rightarrow> u32" where "insn_A ir = drop_bit 27 ir"
definition insn_B :: "u32 \<Rightarrow> u32" where "insn_B ir = drop_bit 22 ir AND 31"
definition insn_C :: "u32 \<Rightarrow> u32" where "insn_C ir = drop_bit 17 ir AND 31"
definition insn_OP :: "u32 \<Rightarrow> u32" where "insn_OP ir = ir AND 0x3f"
definition insn_OPX :: "u32 \<Rightarrow> u32" where "insn_OPX ir = drop_bit 11 ir AND 0x3f"
definition insn_IMM16 :: "u32 \<Rightarrow> u32" where "insn_IMM16 ir = signed_take_bit 15 (drop_bit 6 ir)"

lemmas insn_defs = insn_A_def insn_B_def insn_C_def insn_OP_def insn_OPX_def insn_IMM16_def

lemma less_32_cases: "n < 32 \<Longrightarrow> n \<in> {0, 1, 2, 3, 4, 5, 6, 7, 8, 9, 10, 11, 12, 13, 14, 15, 16,
    17, 18, 19, 20, 21, 22, 23, 24, 25, 26, 27, 28, 29, 30, 31 :: nat}"
  by (simp add: numeral_eq_Suc less_Suc_eq)

lemma bit_above [simp]: "32 \<le> n \<Longrightarrow> \<not> bit (w :: u32) n"
  using bit_imp_le_length [of w n] by auto

text \<open>Two words are equal if their 32 bits are, one by one.\<close>

lemma bitwise_eqI:
  assumes "\<forall>n \<in> {0, 1, 2, 3, 4, 5, 6, 7, 8, 9, 10, 11, 12, 13, 14, 15, 16,
    17, 18, 19, 20, 21, 22, 23, 24, 25, 26, 27, 28, 29, 30, 31}. bit v n = bit w n"
  shows "v = (w :: u32)"
proof (rule bit_word_eqI)
  fix n assume "n < LENGTH(32)"
  then have "n < 32" by simp
  from bspec [OF assms less_32_cases [OF this]] show "bit v n = bit w n" .
qed

text \<open>The rotations bring the fields into place, four bytes apart.\<close>

lemma field_A: "(word_rotl 7 ir XOR 0x40) AND 0x7c = push_bit 2 (insn_A ir XOR 16)"
  by (rule bitwise_eqI) (simp add: insn_defs bit_simps)

lemma field_B: "(word_rotl 2 (word_rotl 3 (word_rotl 7 ir)) XOR 0x42) AND 0x7c = push_bit 2 (insn_B ir XOR 16)"
  by (rule bitwise_eqI) (simp add: insn_defs bit_simps)

lemma field_C: "word_rotl 5 (word_rotl 2 (word_rotl 3 (word_rotl 7 ir)) XOR 0x42) AND 0x7c = push_bit 2 (insn_C ir XOR 16)"
  by (rule bitwise_eqI) (simp add: insn_defs bit_simps)

lemma field_IMM16: "signed_drop_bit 16 (word_rotl 3 (word_rotl 7 ir)) = insn_IMM16 ir"
  by (rule bitwise_eqI) (simp add: insn_defs bit_simps)

lemma field_OPX: "drop_bit 5 (insn_IMM16 ir) AND 0x3f = insn_OPX ir"
  by (rule bitwise_eqI) (simp add: insn_defs bit_simps)

subsection \<open>Positions\<close>

definition at_store :: "exc_build \<Rightarrow> instr list" where
  "at_store e = tl muldiv_store @ after_muldiv e"

definition after_multiply_loop :: "exc_build \<Rightarrow> instr list" where
  "after_multiply_loop e = multiply_finish @ muldiv_store @ after_muldiv e"

definition at_multiply_loop :: "exc_build \<Rightarrow> instr list" where
  "at_multiply_loop e = tl multiply_loop @ after_multiply_loop e"

definition after_divide_loop :: "exc_build \<Rightarrow> instr list" where
  "after_divide_loop e = divide_finish @ multiply_prepare @ multiply_loop @ after_multiply_loop e"

definition at_divide_loop :: "exc_build \<Rightarrow> instr list" where
  "at_divide_loop e = tl divide_loop @ after_divide_loop e"

definition at_select :: "exc_build \<Rightarrow> instr list" where
  "at_select e = muldiv_select @ divide_prepare @ divide_loop @ after_divide_loop e"

lemmas position_defs = at_select_def at_divide_loop_def after_divide_loop_def at_multiply_loop_def
  after_multiply_loop_def at_store_def

lemma muldiv_conv:
  "alt_exception_muldiv @ after_muldiv e = muldiv_fields @ muldiv_save @ muldiv_operand_a
     @ Beq 5 15 Lmul_immed # muldiv_operand_b @ at_select e"
  by (simp add: alt_exception_muldiv_def position_defs)

lemma goto_muldiv:
  assumes "\<not> ALT_NO_INSTRUCTION_EMULATION e"
    and "Label l \<notin> set (muldiv_fields @ muldiv_save @ muldiv_operand_a @ Beq 5 15 Lmul_immed # muldiv_operand_b)"
    and "l \<noteq> Lnot_irq"
  shows "goto l (exceptions_section e) = goto l (at_select e)"
proof -
  have "goto l (exceptions_section e) = goto l (alt_exception_muldiv @ after_muldiv e)"
    using assms(1,3) by (simp add: section_conv after_entry_def after_notirq_def exceptions_entry_def
        exceptions_irqtest_def exceptions_notirq_def)
  also have "\<dots> = goto l (at_select e)"
    using assms(2) by (simp add: muldiv_conv goto_append)
  finally show ?thesis .
qed

lemmas at_select_code = position_defs muldiv_select_def divide_prepare_def divide_loop_def divide_finish_def
  multiply_prepare_def multiply_loop_def multiply_finish_def muldiv_store_def

lemma goto_emulation:
  assumes "\<not> ALT_NO_INSTRUCTION_EMULATION e"
  shows "goto Lstore_result (exceptions_section e) = at_store e"
    "goto Lnot_muldiv (exceptions_section e) = Addi SP SP 60 # after_muldiv e"
    "goto Ldivide (exceptions_section e) = tl divide_prepare @ divide_loop @ after_divide_loop e"
    "goto Ldiv_abs_a (exceptions_section e) = drop 8 divide_prepare @ divide_loop @ after_divide_loop e"
    "goto Ldiv_abs_b (exceptions_section e) = drop 11 divide_prepare @ divide_loop @ after_divide_loop e"
    "goto Lunsigned_division (exceptions_section e) = drop 12 divide_prepare @ divide_loop @ after_divide_loop e"
    "goto Ldivide_loop (exceptions_section e) = at_divide_loop e"
    "goto Ldiv_skip (exceptions_section e) = drop 9 divide_loop @ after_divide_loop e"
    "goto Lmul_immed (exceptions_section e) = tl multiply_prepare @ multiply_loop @ after_multiply_loop e"
    "goto Lmultiply (exceptions_section e) = drop 5 multiply_prepare @ multiply_loop @ after_multiply_loop e"
    "goto Lmultiply_loop (exceptions_section e) = at_multiply_loop e"
    "goto Lmulx_skip (exceptions_section e) = drop 8 multiply_loop @ after_multiply_loop e"
    "goto Lmul_skip (exceptions_section e) = drop 11 multiply_loop @ after_multiply_loop e"
    "goto Lmulxsu_skip (exceptions_section e) = drop 8 multiply_finish @ muldiv_store @ after_muldiv e"
    "goto Lmulxss_skip (exceptions_section e) = muldiv_store @ after_muldiv e"
  by (subst goto_muldiv [OF assms]; simp add: at_select_code muldiv_fields_def muldiv_save_def
      muldiv_operand_a_def muldiv_operand_b_def)+

subsection \<open>The loops\<close>

text \<open>A round of the division, and the branch back.\<close>

lemma divide_round_run:
  assumes emu: "\<not> ALT_NO_INSTRUCTION_EMULATION e"
  shows "\<exists>v. executes m (exceptions_section e) 10 (At (at_divide_loop e) s)
     (At (if regs s 14 = 1 then after_divide_loop e else at_divide_loop e)
       (s\<lparr>regs := (regs s)(13 := fst (divide_round (regs s 6) (regs s 13, regs s 3)),
                           3 := snd (divide_round (regs s 6) (regs s 13, regs s 3)),
                           14 := regs s 14 - 1, 15 := v)\<rparr>))"
proof -
  let ?r = "push_bit 1 (regs s 13) OR of_bool (sint (regs s 3) < 0)"
  show ?thesis
  proof (cases "?r < regs s 6")
    case True
    then show ?thesis
      by (intro exI [of _ "of_bool (sint (regs s 3) < 0)"] executes_run [of _ _ 7])
        (simp_all add: at_divide_loop_def divide_loop_def nios_steps_simps step_straight nios_simps goto_emulation [OF emu]
          divide_round_def fun_upd_twist)
  next
    case False
    then show ?thesis
      by (intro exI [of _ "of_bool (sint (regs s 3) < 0)"] executes_run [of _ _ 10])
        (simp_all add: at_divide_loop_def divide_loop_def nios_steps_simps step_straight nios_simps goto_emulation [OF emu]
          divide_round_def fun_upd_twist)
  qed
qed

lemma regs_upd_eq: "(\<And>r. f r = g r) \<Longrightarrow> s\<lparr>regs := f\<rparr> = s\<lparr>regs := g\<rparr>"
  by (rule arg_cong [of f g]) auto

text \<open>States that differ in some registers only.\<close>

definition same_but :: "nat set \<Rightarrow> 'w nios \<Rightarrow> 'w nios \<Rightarrow> bool" where
  "same_but R s t \<longleftrightarrow> t = s\<lparr>regs := regs t\<rparr> \<and> (\<forall>r. r \<notin> R \<longrightarrow> regs t r = regs s r)"

lemma same_but_upd: "same_but R (s\<lparr>regs := f\<rparr>) t \<Longrightarrow> (\<And>r. r \<notin> R \<Longrightarrow> f r = regs s r) \<Longrightarrow> same_but R s t"
  by (auto simp: same_but_def)

lemma same_but_trans: "same_but R s t \<Longrightarrow> same_but Q t u \<Longrightarrow> same_but (R \<union> Q) s u"
  by (auto simp: same_but_def) (metis nios.surjective nios.update_convs(1))

lemma same_but_set:
  assumes "same_but R s t" "\<And>r. r \<notin> R \<Longrightarrow> f r = regs t r"
  shows "same_but R s (t\<lparr>regs := f\<rparr>)"
proof -
  have "t\<lparr>regs := f\<rparr> = s\<lparr>regs := regs t\<rparr>\<lparr>regs := f\<rparr>" using assms(1) by (metis same_but_def)
  then show ?thesis using assms by (simp add: same_but_def)
qed

lemma same_but_mono: "same_but R s t \<Longrightarrow> R \<subseteq> Q \<Longrightarrow> same_but Q s t"
  by (auto simp: same_but_def)

lemma counter_last: "k < 32 \<Longrightarrow> (of_nat (Suc k) = (1 :: u32)) = (k = 0)"
proof -
  assume "k < 32"
  then have "unat (of_nat (Suc k) :: u32) = Suc k"
    by (simp only: unsigned_of_nat take_bit_eq_mod) simp
  moreover have "unat (1 :: u32) = Suc 0" by simp
  ultimately show ?thesis by (simp only: word_unat_eq_iff nat.inject)
qed

lemma divide_loop_run:
  assumes emu: "\<not> ALT_NO_INSTRUCTION_EMULATION e"
  shows "k < 32 \<Longrightarrow> regs s 14 = of_nat (Suc k) \<Longrightarrow>
    \<exists>t. executes m (exceptions_section e) (10 * Suc k) (At (at_divide_loop e) s) (At (after_divide_loop e) t)
      \<and> same_but {3, 13, 14, 15} s t
      \<and> (regs t 13, regs t 3) = (divide_round (regs s 6) ^^ Suc k) (regs s 13, regs s 3)"
proof (induction k arbitrary: s)
  case 0
  obtain v where "executes m (exceptions_section e) 10 (At (at_divide_loop e) s) (At (after_divide_loop e)
       (s\<lparr>regs := (regs s)(13 := fst (divide_round (regs s 6) (regs s 13, regs s 3)),
                           3 := snd (divide_round (regs s 6) (regs s 13, regs s 3)),
                           14 := regs s 14 - 1, 15 := v)\<rparr>))"
    using divide_round_run [OF emu, of m s] 0 by auto
  then show ?case by (intro exI conjI) (assumption | simp add: same_but_def)+
next
  case (Suc k)
  let ?rq = "divide_round (regs s 6) (regs s 13, regs s 3)"
  have c: "regs s 14 - 1 = of_nat (Suc k)" using Suc.prems by simp
  have "regs s 14 \<noteq> 1" using counter_last [of "Suc k"] Suc.prems by simp
  then obtain v where v: "executes m (exceptions_section e) 10 (At (at_divide_loop e) s) (At (at_divide_loop e)
       (s\<lparr>regs := (regs s)(13 := fst ?rq, 3 := snd ?rq, 14 := of_nat (Suc k), 15 := v)\<rparr>))"
    using divide_round_run [OF emu, of m s] unfolding c by auto
  let ?s = "s\<lparr>regs := (regs s)(13 := fst ?rq, 3 := snd ?rq, 14 := of_nat (Suc k), 15 := v)\<rparr>"
  obtain t where t: "executes m (exceptions_section e) (10 * Suc k) (At (at_divide_loop e) ?s) (At (after_divide_loop e) t)"
    "same_but {3, 13, 14, 15} ?s t" "(regs t 13, regs t 3) = (divide_round (regs s 6) ^^ Suc k) ?rq"
    using Suc.IH [of ?s] Suc.prems by auto
  have "executes m (exceptions_section e) (10 * Suc (Suc k)) (At (at_divide_loop e) s) (At (after_divide_loop e) t)"
    using executes_trans [OF v t(1)] by simp
  moreover have "same_but {3, 13, 14, 15} s t" by (rule same_but_upd [OF t(2)]) simp
  moreover have "(regs t 13, regs t 3) = (divide_round (regs s 6) ^^ Suc (Suc k)) (regs s 13, regs s 3)"
    using t(3) by (simp only: funpow_Suc_right comp_apply)
  ultimately show ?case by blast
qed

text \<open>A round of the multiplication: four cases, by the two bits that decide on the additions.\<close>

definition multiplied :: "'w nios \<Rightarrow> u32 \<times> u32 \<times> u32 \<times> u32 \<Rightarrow> u32 \<Rightarrow> u32 \<Rightarrow> 'w nios" where
  "multiplied s p n v =
     s\<lparr>regs := (regs s)(9 := fst p, 10 := fst (snd p), 6 := fst (snd (snd p)), 12 := snd (snd (snd p)), 14 := n, 15 := v)\<rparr>"

definition product_regs :: "'w nios \<Rightarrow> u32 \<times> u32 \<times> u32 \<times> u32" where
  "product_regs s = (regs s 9, regs s 10, regs s 6, regs s 12)"

lemma rotate_one: "word_rotr (unat ((1 :: u32) AND 31)) x = word_rotr 1 x"
  by simp

lemma multiply_round_run:
  assumes emu: "\<not> ALT_NO_INSTRUCTION_EMULATION e" and one: "regs s 16 = 1"
  shows "\<exists>v. executes m (exceptions_section e) 16 (At (at_multiply_loop e) s)
     (At (if regs s 14 = 1 then after_multiply_loop e else at_multiply_loop e)
       (multiplied s (multiply_round (regs s 3) (product_regs s)) (regs s 14 - 1) v))"
proof -
  note simps = at_multiply_loop_def multiply_loop_def nios_steps_simps step_straight nios_simps
    goto_emulation [OF emu] multiply_round_def fun_upd_twist multiplied_def product_regs_def one
  let ?carry = "word_rotr 1 (of_bool (regs s 10 + regs s 3 < regs s 3))"
  show ?thesis
  proof (cases "regs s 12 AND 1 = 0"; cases "0 \<le> sint (regs s 6)")
    assume "regs s 12 AND 1 = 0" "0 \<le> sint (regs s 6)"
    then show ?thesis by (intro exI [of _ 0] executes_run [of _ _ 10]) (simp_all add: simps)
  next
    assume "regs s 12 AND 1 = 0" "\<not> 0 \<le> sint (regs s 6)"
    then show ?thesis by (intro exI [of _ 0] executes_run [of _ _ 12]) (simp_all add: simps)
  next
    assume "regs s 12 AND 1 \<noteq> 0" "0 \<le> sint (regs s 6)"
    then show ?thesis by (intro exI [of _ ?carry] executes_run [of _ _ 14]) (simp_all add: simps)
  next
    assume "regs s 12 AND 1 \<noteq> 0" "\<not> 0 \<le> sint (regs s 6)"
    then show ?thesis by (intro exI [of _ ?carry] executes_run [of _ _ 16]) (simp_all add: simps)
  qed
qed

lemma multiplied_simps:
  "product_regs (multiplied s p n v) = p" "regs (multiplied s p n v) 14 = n"
  "regs (multiplied s p n v) 3 = regs s 3" "regs (multiplied s p n v) 16 = regs s 16"
  by (cases p; simp add: multiplied_def product_regs_def)+

lemma same_but_multiplied: "same_but {6, 9, 10, 12, 14, 15} s (multiplied s p n v)"
  by (simp add: same_but_def multiplied_def)

lemma multiply_loop_run:
  assumes emu: "\<not> ALT_NO_INSTRUCTION_EMULATION e"
  shows "k < 32 \<Longrightarrow> regs s 14 = of_nat (Suc k) \<Longrightarrow> regs s 16 = 1 \<Longrightarrow>
    \<exists>t. executes m (exceptions_section e) (16 * Suc k) (At (at_multiply_loop e) s) (At (after_multiply_loop e) t)
      \<and> same_but {6, 9, 10, 12, 14, 15} s t
      \<and> product_regs t = (multiply_round (regs s 3) ^^ Suc k) (product_regs s)"
proof (induction k arbitrary: s)
  case 0
  let ?p = "multiply_round (regs s 3) (product_regs s)"
  obtain v where "executes m (exceptions_section e) 16 (At (at_multiply_loop e) s)
      (At (after_multiply_loop e) (multiplied s ?p (regs s 14 - 1) v))"
    using multiply_round_run [OF emu, of s m] 0 by auto
  then show ?case
    using same_but_multiplied [of s ?p "regs s 14 - 1" v]
    by (intro exI [of _ "multiplied s ?p (regs s 14 - 1) v"]) (simp add: multiplied_simps)
next
  case (Suc k)
  let ?p = "multiply_round (regs s 3) (product_regs s)"
  have c: "regs s 14 - 1 = of_nat (Suc k)" using Suc.prems by simp
  have "regs s 14 \<noteq> 1" using counter_last [of "Suc k"] Suc.prems by simp
  then obtain v where v: "executes m (exceptions_section e) 16 (At (at_multiply_loop e) s)
      (At (at_multiply_loop e) (multiplied s ?p (of_nat (Suc k)) v))"
    using multiply_round_run [OF emu Suc.prems(3), of m] unfolding c by auto
  let ?s = "multiplied s ?p (of_nat (Suc k)) v"
  obtain t where t: "executes m (exceptions_section e) (16 * Suc k) (At (at_multiply_loop e) ?s) (At (after_multiply_loop e) t)"
    "same_but {6, 9, 10, 12, 14, 15} ?s t" "product_regs t = (multiply_round (regs s 3) ^^ Suc k) ?p"
    using Suc.IH [of ?s] Suc.prems by (auto simp: multiplied_simps)
  have "executes m (exceptions_section e) (16 * Suc (Suc k)) (At (at_multiply_loop e) s) (At (after_multiply_loop e) t)"
    using executes_trans [OF v t(1)] by simp
  moreover have "same_but {6, 9, 10, 12, 14, 15} s t"
    using same_but_trans [OF same_but_multiplied t(2)] by simp
  moreover have "product_regs t = (multiply_round (regs s 3) ^^ Suc (Suc k)) (product_regs s)"
    using t(3) by (simp only: funpow_Suc_right comp_apply)
  ultimately show ?case by blast
qed

subsection \<open>From the operands to the result\<close>

text \<open>The division: registers 3 and 6 are the operands, register 4 distinguishes the two
  instructions, and the result is in register 9.\<close>

definition divide_prepared :: "muldiv_op \<Rightarrow> 'w nios \<Rightarrow> 'w nios" where
  "divide_prepared op s =
     (if op = DIV
      then s\<lparr>regs := (regs s)(3 := absolute (regs s 3), 6 := absolute (regs s 6), 13 := 0, 15 := 0,
                             17 := regs s 3 XOR regs s 6)\<rparr>
      else s\<lparr>regs := (regs s)(13 := 0, 15 := 1, 17 := 0)\<rparr>)"

lemma divide_prepare_run:
  assumes emu: "\<not> ALT_NO_INSTRUCTION_EMULATION e" and r4: "regs s 4 = (if op = DIV then 0x25 else 0x24)"
  shows "executes m (exceptions_section e) 13 (At (tl divide_prepare @ divide_loop @ after_divide_loop e) s)
      (At (at_divide_loop e) (divide_prepared op s))"
proof -
  note simps = divide_prepare_def divide_loop_def at_divide_loop_def nios_steps_simps step_straight nios_simps
    goto_emulation [OF emu] divide_prepared_def absolute_def fun_upd_twist r4
  show ?thesis
  proof (cases "op = DIV"; cases "0 \<le> sint (regs s 3)"; cases "0 \<le> sint (regs s 6)")
    assume "op = DIV" "0 \<le> sint (regs s 3)" "0 \<le> sint (regs s 6)"
    then show ?thesis by (intro executes_run [of _ _ 9]) (simp_all add: simps)
  next
    assume "op = DIV" "0 \<le> sint (regs s 3)" "\<not> 0 \<le> sint (regs s 6)"
    then show ?thesis by (intro executes_run [of _ _ 11]) (simp_all add: simps)
  next
    assume "op = DIV" "\<not> 0 \<le> sint (regs s 3)" "0 \<le> sint (regs s 6)"
    then show ?thesis by (intro executes_run [of _ _ 11]) (simp add: simps, rule regs_upd_eq, simp, simp)
  next
    assume "op = DIV" "\<not> 0 \<le> sint (regs s 3)" "\<not> 0 \<le> sint (regs s 6)"
    then show ?thesis by (intro executes_run [of _ _ 13]) (simp_all add: simps)
  qed (intro executes_run [of _ _ 5]; simp add: simps)+
qed

lemma divide_finish_run:
  assumes emu: "\<not> ALT_NO_INSTRUCTION_EMULATION e"
  shows "executes m (exceptions_section e) 4 (At (after_divide_loop e) s)
    (At (at_store e) (s\<lparr>regs := (regs s)(9 := if 0 \<le> sint (regs s 17) then regs s 3 else - regs s 3)\<rparr>))"
  by (rule executes_run [of _ _ "if 0 \<le> sint (regs s 17) then 2 else 4"])
    (simp_all add: after_divide_loop_def divide_finish_def nios_steps_simps step_straight nios_simps goto_emulation [OF emu])

lemma divide_run:
  assumes emu: "\<not> ALT_NO_INSTRUCTION_EMULATION e" and op: "op \<in> {DIVU, DIV}"
    and r4: "regs s 4 = (if op = DIV then 0x25 else 0x24)" and r14: "regs s 14 = 32"
  shows "\<exists>t. executes m (exceptions_section e) 340 (At (tl divide_prepare @ divide_loop @ after_divide_loop e) s) (At (at_store e) t)
     \<and> same_but {3, 6, 9, 13, 14, 15, 17} s t \<and> regs t 9 = emulated_result op (regs s 3) (regs s 6)"
proof -
  let ?s = "divide_prepared op s"
  have "regs ?s 14 = of_nat (Suc 31)" using r14 by (simp add: divide_prepared_def)
  from divide_loop_run [OF emu _ this, of m] obtain t where
    t: "executes m (exceptions_section e) (10 * Suc 31) (At (at_divide_loop e) ?s) (At (after_divide_loop e) t)"
      "same_but {3, 13, 14, 15} ?s t" "(regs t 13, regs t 3) = (divide_round (regs ?s 6) ^^ Suc 31) (regs ?s 13, regs ?s 3)"
    by auto
  let ?t = "t\<lparr>regs := (regs t)(9 := if 0 \<le> sint (regs t 17) then regs t 3 else - regs t 3)\<rparr>"
  have run: "executes m (exceptions_section e) 340 (At (tl divide_prepare @ divide_loop @ after_divide_loop e) s) (At (at_store e) ?t)"
    by (rule executes_trans [OF divide_prepare_run [OF emu r4]
          executes_trans [OF t(1) divide_finish_run [OF emu] order_refl]]) simp
  have "same_but {3, 6, 13, 15, 17} s ?s" by (simp add: same_but_def divide_prepared_def)
  from same_but_mono [OF same_but_trans [OF this t(2)], of "{3, 6, 9, 13, 14, 15, 17}"]
  have same: "same_but {3, 6, 9, 13, 14, 15, 17} s ?t" by (intro same_but_set) auto
  have "regs t 3 = divide_loop_result (regs ?s 3) (regs ?s 6)"
  proof -
    have "snd (regs t 13, regs t 3) = snd ((divide_round (regs ?s 6) ^^ 32) (regs ?s 13, regs ?s 3))"
      unfolding t(3) by simp
    moreover have "regs ?s 13 = 0" by (simp add: divide_prepared_def)
    ultimately show ?thesis by (simp only: divide_loop_result_def snd_conv)
  qed
  moreover have "regs t 17 = regs ?s 17" using t(2) by (simp add: same_but_def)
  ultimately have "regs ?t 9 = emulated_result op (regs s 3) (regs s 6)"
    using op by (auto simp: divide_prepared_def Let_def)
  with run same show ?thesis by blast
qed

text \<open>The multiplication: the operands are in the registers 3 and 6, register 4 has the instruction.\<close>

fun opx_of :: "muldiv_op \<Rightarrow> u32" where
  "opx_of DIVU = 0x24"
| "opx_of DIV = 0x25"
| "opx_of MUL = 0x27"
| "opx_of MULXUU = 0x07"
| "opx_of MULXSU = 0x17"
| "opx_of MULXSS = 0x1f"

definition multiply_prepared :: "'w nios \<Rightarrow> 'w nios" where
  "multiply_prepared s = s\<lparr>regs := (regs s)(9 := 0, 10 := 0, 11 := regs s 6, 12 := regs s 6, 16 := 1)\<rparr>"

lemma multiply_prepare_run:
  "executes m code 6 (At (drop 5 multiply_prepare @ multiply_loop @ after_multiply_loop e) s)
     (At (at_multiply_loop e) (multiply_prepared s))"
  by (intro executes_run [of _ _ 6]) (simp_all add: multiply_prepare_def multiply_loop_def at_multiply_loop_def
      nios_steps_simps step_straight nios_simps multiply_prepared_def)

lemma multiply_finish_run:
  assumes emu: "\<not> ALT_NO_INSTRUCTION_EMULATION e" and op: "op \<in> {MUL, MULXUU, MULXSU, MULXSS}" and r4: "regs s 4 = opx_of op"
    and lo_hi: "(regs s 9, regs s 10) = multiply_loop_result (regs s 3) (regs s 11)"
  shows "executes m (exceptions_section e) 14 (At (after_multiply_loop e) s) (At (at_store e)
     (s\<lparr>regs := (regs s)(9 := emulated_result op (regs s 3) (regs s 11), 15 := if op = MULXSS then 8 else 0)\<rparr>))"
proof -
  note simps = after_multiply_loop_def multiply_finish_def muldiv_store_def at_store_def nios_steps_simps step_straight nios_simps
    goto_emulation [OF emu] r4 lo_hi [symmetric] fun_upd_twist
  from op consider "op = MUL" | "op = MULXUU" | "op = MULXSU" | "op = MULXSS" by auto
  then show ?thesis
  proof cases
    case 1
    then show ?thesis by (intro executes_run [of _ _ 2]) (simp_all add: simps)
  next
    case 2
    then show ?thesis by (intro executes_run [of _ _ 5]) (simp_all add: simps)
  next
    case 3
    show ?thesis
    proof (cases "0 \<le> sint (regs s 3)")
      case True
      with 3 show ?thesis by (intro executes_run [of _ _ 8]) (simp_all add: simps)
    next
      case False
      with 3 show ?thesis by (intro executes_run [of _ _ 10]) (simp_all add: simps)
    qed
  next
    case 4
    show ?thesis
    proof (cases "0 \<le> sint (regs s 3)"; cases "0 \<le> sint (regs s 11)")
      assume "0 \<le> sint (regs s 3)" "0 \<le> sint (regs s 11)"
      with 4 show ?thesis by (intro executes_run [of _ _ 10]) (simp_all add: simps)
    next
      assume "0 \<le> sint (regs s 3)" "\<not> 0 \<le> sint (regs s 11)"
      with 4 show ?thesis by (intro executes_run [of _ _ 12]) (simp_all add: simps)
    next
      assume "\<not> 0 \<le> sint (regs s 3)" "0 \<le> sint (regs s 11)"
      with 4 show ?thesis by (intro executes_run [of _ _ 12]) (simp_all add: simps)
    next
      assume "\<not> 0 \<le> sint (regs s 3)" "\<not> 0 \<le> sint (regs s 11)"
      with 4 show ?thesis by (intro executes_run [of _ _ 14]) (simp_all add: simps)
    qed
  qed
qed

lemma multiply_run:
  assumes emu: "\<not> ALT_NO_INSTRUCTION_EMULATION e" and op: "op \<in> {MUL, MULXUU, MULXSU, MULXSS}" and r4: "regs s 4 = opx_of op"
    and r14: "regs s 14 = 32"
  shows "\<exists>t. executes m (exceptions_section e) 540 (At (drop 5 multiply_prepare @ multiply_loop @ after_multiply_loop e) s) (At (at_store e) t)
     \<and> same_but {6, 9, 10, 11, 12, 14, 15, 16} s t \<and> regs t 9 = emulated_result op (regs s 3) (regs s 6)"
proof -
  let ?s = "multiply_prepared s"
  have "regs ?s 14 = of_nat (Suc 31)" "regs ?s 16 = 1" using r14 by (simp_all add: multiply_prepared_def)
  from multiply_loop_run [OF emu _ this, of m] obtain t where
    t: "executes m (exceptions_section e) (16 * Suc 31) (At (at_multiply_loop e) ?s) (At (after_multiply_loop e) t)"
      "same_but {6, 9, 10, 12, 14, 15} ?s t" "product_regs t = (multiply_round (regs ?s 3) ^^ Suc 31) (product_regs ?s)"
    by auto
  have kept: "regs t 3 = regs s 3" "regs t 11 = regs s 6" "regs t 4 = opx_of op"
    using t(2) r4 by (simp_all add: same_but_def multiply_prepared_def)
  have p0: "product_regs ?s = (0, 0, regs s 6, regs s 6)" "regs ?s 3 = regs s 3"
    by (simp_all add: product_regs_def multiply_prepared_def)
  have "(multiply_round (regs s 3) ^^ 32) (0, 0, regs s 6, regs s 6) = (regs t 9, regs t 10, regs t 6, regs t 12)"
    using t(3) unfolding p0 product_regs_def [of t] by simp
  then have lo_hi: "(regs t 9, regs t 10) = multiply_loop_result (regs t 3) (regs t 11)"
    by (simp only: multiply_loop_result_def kept prod.case)
  let ?t = "t\<lparr>regs := (regs t)(9 := emulated_result op (regs t 3) (regs t 11), 15 := if op = MULXSS then 8 else 0)\<rparr>"
  have run: "executes m (exceptions_section e) 540 (At (drop 5 multiply_prepare @ multiply_loop @ after_multiply_loop e) s) (At (at_store e) ?t)"
    by (rule executes_trans [OF multiply_prepare_run
          executes_trans [OF t(1) multiply_finish_run [OF emu op kept(3) lo_hi] order_refl]]) simp
  have "same_but {9, 10, 11, 12, 16} s ?s" by (simp add: same_but_def multiply_prepared_def)
  from same_but_mono [OF same_but_trans [OF this t(2)], of "{6, 9, 10, 11, 12, 14, 15, 16}"]
  have same: "same_but {6, 9, 10, 11, 12, 14, 15, 16} s ?t" by (intro same_but_set) auto
  have "regs ?t 9 = emulated_result op (regs s 3) (regs s 6)" using kept by simp
  with run same show ?thesis by blast
qed

subsection \<open>Decoding\<close>

text \<open>Which instruction is emulated, its second operand and its destination.\<close>

definition muldiv_insn :: "u32 \<Rightarrow> muldiv_op option" where
  "muldiv_insn ir =
     (if insn_OP ir = 0x24 then Some MUL
      else if insn_OP ir = 0x3a then find (\<lambda>op. insn_OPX ir = opx_of op) [DIVU, MUL, MULXUU, MULXSU, MULXSS, DIV]
      else None)"

definition insn_src2 :: "u32 \<Rightarrow> 'w nios \<Rightarrow> u32" where
  "insn_src2 ir s = (if insn_OP ir = 0x24 then insn_IMM16 ir else rd s (unat (insn_B ir)))"

definition insn_dest :: "u32 \<Rightarrow> nat" where
  "insn_dest ir = unat (if insn_OP ir = 0x24 then insn_B ir else insn_C ir)"

text \<open>The array of the registers in memory, and which of its elements hold the interrupted program's
  values: not those of \<open>et\<close>, \<open>bt\<close>, \<open>sp\<close>, \<open>ea\<close> and \<open>ba\<close>.\<close>

definition reg_array :: "u32 \<Rightarrow> 'w nios \<Rightarrow> u32 \<Rightarrow> u32" where
  "reg_array b t = (memw t)
     (64 + b := 0, b := regs t 16, 4 + b := regs t 17, 8 + b := regs t 18, 12 + b := regs t 19,
      16 + b := regs t 20, 20 + b := regs t 21, 24 + b := regs t 22, 28 + b := regs t 23,
      40 + b := regs t GP, 44 + b := b, 48 + b := regs t FP)"

definition readable :: "nat list" where
  "readable = [0, 1, 2, 3, 4, 5, 6, 7, 8, 9, 10, 11, 12, 13, 14, 15, 16, 17, 18, 19, 20, 21, 22, 23, GP, FP, RA]"

text \<open>The elements whose registers are loaded again, and the one of register 0.\<close>

definition writable :: "nat list" where
  "writable = [0, 1, 2, 3, 4, 5, 6, 7, 8, 9, 10, 11, 12, 13, 14, 15, 16, 17, 18, 19, 20, 21, 22, 23, FP, RA]"

lemma entered_upper: "frame_entered b s ret t \<Longrightarrow> r \<in> {16..23} \<union> {GP, FP, EA} \<Longrightarrow> regs t r = regs s r"
  by (auto simp: frame_entered_def entry_saved_def)

lemma reg_array_read:
  assumes "frame_entered b s ret t" "r \<in> set readable"
  shows "reg_array b t (push_bit 2 (of_nat r XOR 16) + b) = rd s r"
proof -
  from assms(2) consider "r = 0" | "r \<in> set entry_saved" | "r \<in> {16, 17, 18, 19, 20, 21, 22, 23, GP, FP}"
    by (auto simp: readable_def entry_saved_def)
  then show ?thesis
  proof cases
    case 1
    then show ?thesis by (simp add: reg_array_def)
  next
    case 2
    then have "memw t (slot b r) = rd s r" using assms(1) by (auto simp: frame_entered_def framed_def rd_def entry_saved_def)
    moreover from 2 have "reg_array b t (slot b r) = memw t (slot b r)"
      unfolding entry_saved_def by (auto simp: reg_array_def slot_def)
    ultimately show ?thesis by (simp only: slot_def)
  next
    case 3
    then have "regs t r = rd s r" using entered_upper [OF assms(1), of r] by (auto simp: rd_def)
    moreover from 3 have "reg_array b t (push_bit 2 (of_nat r XOR 16) + b) = regs t r"
      by (auto simp: reg_array_def)
    ultimately show ?thesis by simp
  qed
qed

text \<open>The stack pointer is stored after it has been moved, so as an operand it has the wrong value.\<close>

lemma sp_operand:
  assumes "regs s SP = 136 + b"
  shows "reg_array b t (push_bit 2 (of_nat SP XOR 16) + b) = rd s SP - 136"
  using assms by (simp add: reg_array_def rd_def)

definition decoded :: "u32 \<Rightarrow> u32 \<Rightarrow> 'w nios \<Rightarrow> 'w nios" where
  "decoded b ir t =
     t\<lparr>regs := (regs t)(3 := reg_array b t (push_bit 2 (insn_A ir XOR 16) + b), 4 := insn_IMM16 ir, 5 := insn_OP ir,
         6 := push_bit 2 (insn_B ir XOR 16), 7 := push_bit 2 (insn_C ir XOR 16), 14 := 32, 15 := 0x24, SP := b),
       memw := reg_array b t\<rparr>"

lemma fields_state:
  assumes ir: "regs t 2 = ir"
  shows "fold (exec m) muldiv_fields t = t\<lparr>regs := (regs t)(3 := push_bit 2 (insn_A ir XOR 16), 4 := insn_IMM16 ir,
     5 := insn_OP ir, 6 := push_bit 2 (insn_B ir XOR 16), 7 := push_bit 2 (insn_C ir XOR 16))\<rparr>"
proof -
  note fields = field_A [of ir] field_B [of ir] field_C [of ir] field_IMM16 [of ir] insn_OP_def [of ir, symmetric]
  show ?thesis
    unfolding fields [symmetric]
    by (simp add: muldiv_fields_def nios_simps ir fun_upd_twist)
qed

lemma save_state:
  assumes sp: "regs t SP = 60 + b"
  shows "fold (exec m) muldiv_save t = t\<lparr>regs := (regs t)(14 := 32, SP := b), memw := reg_array b t\<rparr>"
  using sp by (simp add: muldiv_save_def nios_simps reg_array_def add.commute [of b] fun_upd_twist)

lemma reg_array_regs: "(\<And>r. 16 \<le> r \<Longrightarrow> f r = regs t r) \<Longrightarrow> reg_array b (t\<lparr>regs := f\<rparr>) = reg_array b t"
  by (simp add: reg_array_def)

lemma decode_run:
  assumes sp: "regs t SP = 60 + b" and ir: "regs t 2 = ir"
  shows "executes m code 28 (At (alt_exception_muldiv @ after_muldiv e) t)
    (At (Beq 5 15 Lmul_immed # muldiv_operand_b @ at_select e) (decoded b ir t))"
proof -
  define t1 where "t1 = fold (exec m) muldiv_fields t"
  define t2 where "t2 = fold (exec m) muldiv_save t1"
  have t1: "t1 = t\<lparr>regs := (regs t)(3 := push_bit 2 (insn_A ir XOR 16), 4 := insn_IMM16 ir,
     5 := insn_OP ir, 6 := push_bit 2 (insn_B ir XOR 16), 7 := push_bit 2 (insn_C ir XOR 16))\<rparr>"
    unfolding t1_def by (rule fields_state [OF ir])
  have "regs t1 SP = 60 + b" using sp by (simp add: t1)
  from save_state [OF this] have "t2 = t1\<lparr>regs := (regs t1)(14 := 32, SP := b), memw := reg_array b t1\<rparr>"
    unfolding t2_def .
  moreover have "reg_array b t1 = reg_array b t" unfolding t1 by (rule reg_array_regs) simp
  ultimately have t2: "t2 = t1\<lparr>regs := (regs t1)(14 := 32, SP := b), memw := reg_array b t\<rparr>" by simp
  have "fold (exec m) muldiv_operand_a t2 = decoded b ir t"
    unfolding t2 t1 by (simp add: muldiv_operand_a_def nios_simps decoded_def fun_upd_twist)
  then have "fold (exec m) (muldiv_fields @ muldiv_save @ muldiv_operand_a) t = decoded b ir t"
    by (simp only: fold_append comp_apply t1_def [symmetric] t2_def [symmetric])
  moreover have "list_all straight (muldiv_fields @ muldiv_save @ muldiv_operand_a)"
    "length (muldiv_fields @ muldiv_save @ muldiv_operand_a) \<le> 28"
    by (simp_all add: muldiv_fields_def muldiv_save_def muldiv_operand_a_def)
  ultimately have "executes m code 28 (At ((muldiv_fields @ muldiv_save @ muldiv_operand_a) @ Beq 5 15 Lmul_immed # muldiv_operand_b @ at_select e) t)
      (At (Beq 5 15 Lmul_immed # muldiv_operand_b @ at_select e) (decoded b ir t))"
    by (intro run_block [OF executes_refl [where n = 0]]) simp_all
  then show ?thesis by (simp add: muldiv_conv)
qed

text \<open>The choice of the operation.\<close>

definition selecting :: "u32 \<Rightarrow> u32 \<Rightarrow> 'w nios \<Rightarrow> bool" where
  "selecting OP OPX s \<longleftrightarrow> regs s 5 = OP \<and> regs s 4 = OPX \<and> regs s 8 = 0x3a \<and> regs s 15 = 0x24"

lemma select_divide:
  assumes emu: "\<not> ALT_NO_INSTRUCTION_EMULATION e" and op: "op \<in> {DIVU, DIV}" and sel: "selecting 0x3a (opx_of op) s"
  shows "\<exists>v. executes m (exceptions_section e) 13 (At (at_select e) s)
    (At (tl divide_prepare @ divide_loop @ after_divide_loop e) (s\<lparr>regs := (regs s)(15 := v)\<rparr>))"
proof -
  note simps = selecting_def nios_steps_simps at_select_def muldiv_select_def divide_prepare_def step_straight nios_simps goto_emulation [OF emu]
  from op consider "op = DIVU" | "op = DIV" by auto
  then show ?thesis
  proof cases
    case 1
    have "(regs s)(15 := 0x24) = regs s" using sel by (intro fun_upd_idem) (simp add: selecting_def)
    with 1 sel show ?thesis by (intro exI [of _ "0x24"] executes_run [of _ _ 2]) (simp_all add: simps)
  next
    case 2
    with sel show ?thesis by (intro exI [of _ "0x25"] executes_run [of _ _ 13]) (simp_all add: simps)
  qed
qed

lemma select_multiply:
  assumes emu: "\<not> ALT_NO_INSTRUCTION_EMULATION e" and op: "op \<in> {MUL, MULXUU, MULXSU, MULXSS}" and sel: "selecting 0x3a (opx_of op) s"
  shows "executes m (exceptions_section e) 10 (At (at_select e) s)
    (At (drop 5 multiply_prepare @ multiply_loop @ after_multiply_loop e) (s\<lparr>regs := (regs s)(15 := opx_of op)\<rparr>))"
proof -
  note simps = selecting_def nios_steps_simps at_select_def muldiv_select_def step_straight nios_simps goto_emulation [OF emu]
  from op consider "op = MUL" | "op = MULXUU" | "op = MULXSU" | "op = MULXSS" by auto
  then show ?thesis
  proof cases
    case 1
    with sel show ?thesis by (intro executes_run [of _ _ 4]) (simp_all add: simps)
  next
    case 2
    with sel show ?thesis by (intro executes_run [of _ _ 6]) (simp_all add: simps)
  next
    case 3
    with sel show ?thesis by (intro executes_run [of _ _ 8]) (simp_all add: simps)
  next
    case 4
    with sel show ?thesis by (intro executes_run [of _ _ 10]) (simp_all add: simps)
  qed
qed

lemma select_none:
  assumes emu: "\<not> ALT_NO_INSTRUCTION_EMULATION e"
    and sel: "selecting OP OPX s" "OP = 0x3a \<Longrightarrow> OPX \<notin> {0x24, 0x25, 0x27, 0x07, 0x17, 0x1f}"
  shows "\<exists>v. executes m (exceptions_section e) 13 (At (at_select e) s) (At (after_muldiv e) (s\<lparr>regs := (regs s)(15 := v, SP := regs s SP + 60)\<rparr>))"
proof (cases "OP = 0x3a")
  case True
  with sel show ?thesis
    by (intro exI [of _ "0x25"] executes_run [of _ _ 13])
      (simp_all add: selecting_def nios_steps_simps at_select_def muldiv_select_def step_straight nios_simps goto_emulation [OF emu])
next
  case False
  have "(regs s)(15 := 0x24) = regs s" using sel by (intro fun_upd_idem) (simp add: selecting_def)
  with False sel show ?thesis
    by (intro exI [of _ "0x24"] executes_run [of _ _ 2])
      (simp_all add: selecting_def nios_steps_simps at_select_def muldiv_select_def step_straight nios_simps goto_emulation [OF emu])
qed

subsection \<open>The result's way to its register\<close>

definition slot_offset :: "nat \<Rightarrow> nat" where
  "slot_offset r = (if r < 16 then 4 * r + 64 else 4 * r - 64)"

lemma slot_offset: "r < 32 \<Longrightarrow> push_bit 2 (of_nat r XOR 16) = (of_nat (slot_offset r) :: u32)"
  by (drule less_32_cases) (auto simp: slot_offset_def)

lemma unat_slot_offset: "r < 32 \<Longrightarrow> unat (of_nat (slot_offset r) :: u32) = slot_offset r \<and> slot_offset r \<le> 124"
  by (auto simp: slot_offset_def unsigned_of_nat take_bit_eq_mod simp del: of_nat_mult of_nat_add of_nat_diff)

lemma slot_inj:
  assumes "r < 32" "c < 32"
  shows "slot b r = slot b c \<longleftrightarrow> r = c"
proof
  assume "slot b r = slot b c"
  then have "(of_nat (slot_offset r) :: u32) = of_nat (slot_offset c)"
    by (simp only: slot_def slot_offset [OF assms(1)] slot_offset [OF assms(2)] add_right_cancel)
  then have "slot_offset r = slot_offset c"
    using unat_slot_offset [OF assms(1)] unat_slot_offset [OF assms(2)] by (metis (no_types))
  then show "r = c" using assms by (auto simp: slot_offset_def split: if_splits)
qed simp

lemma slot_low:
  assumes "c < 32"
  shows "slot b c \<noteq> 128 + b" "slot b c \<noteq> 132 + b" "slot b c - b < 136"
proof -
  define x :: u32 where "x = of_nat (slot_offset c)"
  have "unat x \<le> 124" using unat_slot_offset [OF assms] by (simp add: x_def)
  then have le: "x \<le> 124" by (simp add: word_le_nat_alt)
  have slot: "slot b c = x + b" by (simp only: slot_def slot_offset [OF assms] x_def)
  have "x < 128" by (rule le_less_trans [OF le]) simp
  moreover have "x < 132" by (rule le_less_trans [OF le]) simp
  moreover have "x < 136" by (rule le_less_trans [OF le]) simp
  ultimately show "slot b c \<noteq> 128 + b" "slot b c \<noteq> 132 + b" "slot b c - b < 136"
    by (auto simp: slot)
qed

definition result_stored :: "u32 \<Rightarrow> (u32 \<Rightarrow> u32) \<Rightarrow> 'w nios \<Rightarrow> 'w nios" where
  "result_stored b M u = u\<lparr>memw := M, regs := (regs u)(7 := regs u 7 + b, 16 := M b, 17 := M (4 + b), 18 := M (8 + b),
     19 := M (12 + b), 20 := M (16 + b), 21 := M (20 + b), 22 := M (24 + b), 23 := M (28 + b), FP := M (48 + b),
     SP := 60 + b)\<rparr>"

lemma store_run:
  assumes emu: "\<not> ALT_NO_INSTRUCTION_EMULATION e" and sp: "regs u SP = b"
  shows "executes m (exceptions_section e) 13 (At (at_store e) u)
    (At exceptions_exit (result_stored b ((memw u)(regs u 7 + b := regs u 9)) u))"
proof -
  define M where "M = (memw u)(regs u 7 + b := regs u 9)"
  have "executes m (exceptions_section e) 2 (At (at_store e) u)
     (At (drop 3 muldiv_store @ after_muldiv e) (u\<lparr>memw := M, regs := (regs u)(7 := regs u 7 + b)\<rparr>))"
    using sp by (intro executes_run [of _ _ 2])
      (simp_all add: at_store_def muldiv_store_def nios_steps_simps step_straight nios_simps M_def)
  moreover have "executes m (exceptions_section e) 11
     (At (drop 3 muldiv_store @ after_muldiv e) (u\<lparr>memw := M, regs := (regs u)(7 := regs u 7 + b)\<rparr>))
     (At exceptions_exit (result_stored b M u))"
    using sp by (intro executes_run [of _ _ 11])
      (simp_all add: muldiv_store_def nios_steps_simps step_straight nios_simps goto_exit result_stored_def add.commute [of b] fun_upd_twist)
  ultimately show ?thesis unfolding M_def by (rule executes_trans) simp
qed

definition with_result :: "nat \<Rightarrow> u32 \<Rightarrow> (nat \<Rightarrow> u32) \<Rightarrow> nat \<Rightarrow> u32" where
  "with_result c v g = (if c = 0 then g else g(c := v))"

lemma writable_less: "c \<in> set writable \<Longrightarrow> c < 32 \<and> c \<notin> {ET, BT, GP, SP, EA, BA}"
  by (auto simp: writable_def)

text \<open>Elements of the array as addresses.\<close>

lemma slot_16_to_23: "slot b 16 = b" "slot b 17 = 4 + b" "slot b 18 = 8 + b" "slot b 19 = 12 + b"
  "slot b 20 = 16 + b" "slot b 21 = 20 + b" "slot b 22 = 24 + b" "slot b 23 = 28 + b" "slot b FP = 48 + b"
  by (simp_all add: slot_def)

lemma stored_frame:
  assumes en: "frame_entered b s ret t" and c: "c \<in> set writable" and u: "memw u = reg_array b t" "regs u 7 = push_bit 2 (of_nat c XOR 16)"
    and up: "\<And>r. r \<notin> {1..17} \<union> {SP} \<Longrightarrow> regs u r = regs t r"
    and u'_def: "u' = result_stored b ((memw u)(regs u 7 + b := v)) u" and g_def: "g = with_result c v (regs s)"
  shows "framed b g (estatus s) ret u'" and "r \<notin> set entry_saved \<union> {EA, SP} \<Longrightarrow> regs u' r = g r"
proof -
  note cl = writable_less [OF c]
  have M: "memw u' = (reg_array b t)(slot b c := v)" by (simp add: u'_def result_stored_def u slot_def)
  have read: "memw u' (slot b q) = g q" if "q \<in> set readable" "q \<noteq> 0" for q
  proof -
    have "q < 32" using that(1) by (auto simp: readable_def)
    moreover have "reg_array b t (slot b q) = rd s q"
      using reg_array_read [OF en that(1)] by (simp only: slot_def)
    ultimately show ?thesis
      using that(2) cl by (auto simp: M slot_inj g_def with_result_def rd_def)
  qed
  have far: "memw u' (128 + b) = memw t (128 + b)" "memw u' (132 + b) = memw t (132 + b)"
    using slot_low(1,2) [of c b] cl by (simp_all add: M reg_array_def)
  have sub: "set entry_saved \<subseteq> set readable - {0}" by (simp add: entry_saved_def readable_def)
  have sp: "regs u' SP = 60 + b" by (simp add: u'_def result_stored_def)
  show "framed b g (estatus s) ret u'"
    using en sub read far sp by (auto simp: framed_def frame_entered_def)
  show "regs u' r = g r" if "r \<notin> set entry_saved \<union> {EA, SP}" for r
  proof (cases "r \<in> {16, 17, 18, 19, 20, 21, 22, 23, FP}")
    case True
    then have "r \<in> set readable" "r \<noteq> 0" by (auto simp: readable_def)
    from read [OF this] True show ?thesis
      by (auto simp: slot_16_to_23 M) (auto simp: u'_def result_stored_def u slot_def)
  next
    case False
    then have "regs u' r = regs u r" using that by (auto simp: u'_def result_stored_def entry_saved_def)
    moreover have "r \<notin> {1..17} \<union> {SP}" using that False
      by (auto simp: entry_saved_def numeral_eq_Suc le_Suc_eq)
    then have "regs u r = regs t r" by (rule up)
    moreover have "regs t r = regs s r" using en that by (auto simp: frame_entered_def entry_saved_def)
    moreover have "r \<noteq> c \<or> r = 0" using c that False by (auto simp: writable_def entry_saved_def)
    ultimately show ?thesis by (auto simp: g_def with_result_def)
  qed
qed

subsection \<open>The whole emulation\<close>

definition operands_ok :: "u32 \<Rightarrow> bool" where
  "operands_ok ir \<longleftrightarrow> unat (insn_A ir) \<in> set readable
     \<and> (insn_OP ir \<noteq> 0x24 \<longrightarrow> unat (insn_B ir) \<in> set readable) \<and> insn_dest ir \<in> set writable"

text \<open>What is known when the result is about to be stored.\<close>

definition computed :: "u32 \<Rightarrow> 'w nios \<Rightarrow> nat \<Rightarrow> u32 \<Rightarrow> 'w nios \<Rightarrow> bool" where
  "computed b t c v u \<longleftrightarrow> memw u = reg_array b t \<and> world u = world t \<and> regs u SP = b
     \<and> regs u 7 = push_bit 2 (of_nat c XOR 16) \<and> regs u 9 = v
     \<and> (\<forall>r. r \<notin> {1..17} \<union> {SP} \<longrightarrow> regs u r = regs t r)"

lemma computedI:
  assumes "same_but R x u" "R \<subseteq> {1..17} - {7}" "memw x = reg_array b t" "world x = world t" "regs x SP = b"
    and "regs x 7 = push_bit 2 (of_nat c XOR 16)" "regs u 9 = v"
    and "\<And>r. r \<notin> {1..17} \<union> {SP} \<Longrightarrow> regs x r = regs t r"
  shows "computed b t c v u"
proof -
  have u: "u = x\<lparr>regs := regs u\<rparr>" and r: "\<And>r. r \<notin> R \<Longrightarrow> regs u r = regs x r"
    using assms(1) by (auto simp: same_but_def)
  have "memw u = memw x" "world u = world x" by (subst u, simp)+
  moreover have "SP \<notin> R" "7 \<notin> R" "\<And>q. q \<notin> {1..17} \<union> {SP} \<Longrightarrow> q \<notin> R" using assms(2) by auto
  ultimately show ?thesis using assms r by (simp add: computed_def)
qed

lemma decoded_simps:
  "regs (decoded b ir t) 4 = insn_IMM16 ir" "regs (decoded b ir t) 5 = insn_OP ir" "regs (decoded b ir t) 6 = push_bit 2 (insn_B ir XOR 16)"
  "regs (decoded b ir t) 7 = push_bit 2 (insn_C ir XOR 16)" "regs (decoded b ir t) 14 = 32" "regs (decoded b ir t) 15 = 0x24"
  "regs (decoded b ir t) SP = b" "memw (decoded b ir t) = reg_array b t" "world (decoded b ir t) = world t"
  "r \<notin> {1..17} \<union> {SP} \<Longrightarrow> regs (decoded b ir t) r = regs t r"
  by (auto simp: decoded_def)

lemma decoded_A:
  assumes "frame_entered b s ret t" "unat (insn_A ir) \<in> set readable"
  shows "regs (decoded b ir t) 3 = rd s (unat (insn_A ir))"
  using reg_array_read [OF assms] by (simp add: decoded_def)

lemma reach_store_immediate:
  assumes emu: "\<not> ALT_NO_INSTRUCTION_EMULATION e" and en: "frame_entered b s ret t" and op: "insn_OP ir = 0x24"
    and a: "unat (insn_A ir) \<in> set readable"
  shows "\<exists>u. executes m (exceptions_section e) 570 (At (Beq 5 15 Lmul_immed # muldiv_operand_b @ at_select e) (decoded b ir t)) (At (at_store e) u)
    \<and> computed b t (unat (insn_B ir)) (emulated_result MUL (rd s (unat (insn_A ir))) (insn_IMM16 ir)) u"
proof -
  let ?d = "decoded b ir t"
  let ?x = "?d\<lparr>regs := (regs ?d)(7 := regs ?d 6, 6 := insn_IMM16 ir, 4 := 0x27)\<rparr>"
  have run1: "executes m (exceptions_section e) 5 (At (Beq 5 15 Lmul_immed # muldiv_operand_b @ at_select e) ?d)
      (At (drop 5 multiply_prepare @ multiply_loop @ after_multiply_loop e) ?x)"
    using op by (intro executes_run [of _ _ 5]) (simp_all add: nios_steps_simps step_straight nios_simps
        goto_emulation [OF emu] multiply_prepare_def decoded_simps fun_upd_twist)
  obtain u where run2: "executes m (exceptions_section e) 540 (At (drop 5 multiply_prepare @ multiply_loop @ after_multiply_loop e) ?x) (At (at_store e) u)"
    and same: "same_but {6, 9, 10, 11, 12, 14, 15, 16} ?x u" and res: "regs u 9 = emulated_result MUL (regs ?x 3) (regs ?x 6)"
    using multiply_run [OF emu, of MUL ?x m] by (auto simp: decoded_simps)
  have "executes m (exceptions_section e) 570 (At (Beq 5 15 Lmul_immed # muldiv_operand_b @ at_select e) ?d) (At (at_store e) u)"
    by (rule executes_trans [OF run1 run2]) simp
  moreover have "computed b t (unat (insn_B ir)) (emulated_result MUL (rd s (unat (insn_A ir))) (insn_IMM16 ir)) u"
    by (rule computedI [OF same]) (auto simp: decoded_simps res decoded_A [OF en a])
  ultimately show ?thesis by blast
qed

definition operands_loaded :: "u32 \<Rightarrow> u32 \<Rightarrow> 'w nios \<Rightarrow> 'w nios" where
  "operands_loaded b ir d = d\<lparr>regs := (regs d)(6 := memw d (push_bit 2 (insn_B ir XOR 16) + b), 4 := insn_OPX ir, 8 := 0x3a)\<rparr>"

lemma operand_b_run:
  assumes op: "insn_OP ir \<noteq> 0x24"
  shows "executes m (exceptions_section e) 6 (At (Beq 5 15 Lmul_immed # muldiv_operand_b @ at_select e) (decoded b ir t))
    (At (at_select e) (operands_loaded b ir (decoded b ir t)))"
proof -
  have "drop_bit 5 (insn_IMM16 ir) AND 63 = insn_OPX ir" by (rule field_OPX)
  then show ?thesis
    using op by (intro executes_run [of _ _ 6]) (simp_all add: nios_steps_simps step_straight nios_simps muldiv_operand_b_def
        decoded_simps operands_loaded_def fun_upd_twist del: push_bit_xor)
qed

lemma muldiv_insn_cases:
  assumes "muldiv_insn ir = Some op"
  shows "insn_OP ir = 0x24 \<and> op = MUL \<or> insn_OP ir = 0x3a \<and> insn_OPX ir = opx_of op"
  using assms by (auto simp: muldiv_insn_def split: if_splits)

lemma reach_store_register:
  assumes emu: "\<not> ALT_NO_INSTRUCTION_EMULATION e" and en: "frame_entered b s ret t"
    and op: "insn_OP ir = 0x3a" "insn_OPX ir = opx_of op"
    and a: "unat (insn_A ir) \<in> set readable" and r: "unat (insn_B ir) \<in> set readable"
  shows "\<exists>u. executes m (exceptions_section e) 570 (At (Beq 5 15 Lmul_immed # muldiv_operand_b @ at_select e) (decoded b ir t)) (At (at_store e) u)
    \<and> computed b t (unat (insn_C ir)) (emulated_result op (rd s (unat (insn_A ir))) (rd s (unat (insn_B ir)))) u"
proof -
  let ?y = "operands_loaded b ir (decoded b ir t)"
  have run1: "executes m (exceptions_section e) 6 (At (Beq 5 15 Lmul_immed # muldiv_operand_b @ at_select e) (decoded b ir t))
    (At (at_select e) ?y)"
    using op by (intro operand_b_run) simp
  have sel: "selecting 0x3a (opx_of op) ?y"
    using op by (simp add: selecting_def operands_loaded_def decoded_simps)
  have y: "regs ?y 3 = rd s (unat (insn_A ir))" "regs ?y 6 = rd s (unat (insn_B ir))" "regs ?y 14 = 32" "regs ?y 4 = opx_of op"
    "memw ?y = reg_array b t" "world ?y = world t" "regs ?y SP = b" "regs ?y 7 = push_bit 2 (insn_C ir XOR 16)"
    "\<And>q. q \<notin> {1..17} \<union> {SP} \<Longrightarrow> regs ?y q = regs t q"
    using op reg_array_read [OF en r] by (auto simp: operands_loaded_def decoded_simps decoded_A [OF en a])
  show ?thesis
  proof (cases "op \<in> {DIVU, DIV}")
    case True
    obtain v where run2: "executes m (exceptions_section e) 13 (At (at_select e) ?y)
      (At (tl divide_prepare @ divide_loop @ after_divide_loop e) (?y\<lparr>regs := (regs ?y)(15 := v)\<rparr>))"
      using select_divide [OF emu True sel] by blast
    let ?z = "?y\<lparr>regs := (regs ?y)(15 := v)\<rparr>"
    have "regs ?z 4 = (if op = DIV then 0x25 else 0x24)" "regs ?z 14 = 32" using True y by auto
    from divide_run [OF emu True this, of m] obtain u where
      run3: "executes m (exceptions_section e) 340 (At (tl divide_prepare @ divide_loop @ after_divide_loop e) ?z) (At (at_store e) u)"
      and same: "same_but {3, 6, 9, 13, 14, 15, 17} ?z u" and res: "regs u 9 = emulated_result op (regs ?z 3) (regs ?z 6)"
      by blast
    have "computed b t (unat (insn_C ir)) (emulated_result op (rd s (unat (insn_A ir))) (rd s (unat (insn_B ir)))) u"
      by (rule computedI [OF same]) (auto simp: y res)
    with executes_trans [OF run1 executes_trans [OF run2 run3 order_refl], of 570] show ?thesis by auto
  next
    case False
    then have m: "op \<in> {MUL, MULXUU, MULXSU, MULXSS}" by (cases op) auto
    let ?z = "?y\<lparr>regs := (regs ?y)(15 := opx_of op)\<rparr>"
    note run2 = select_multiply [OF emu m sel, of m]
    have "regs ?z 4 = opx_of op" "regs ?z 14 = 32" using y by auto
    from multiply_run [OF emu m this, of m] obtain u where
      run3: "executes m (exceptions_section e) 540 (At (drop 5 multiply_prepare @ multiply_loop @ after_multiply_loop e) ?z) (At (at_store e) u)"
      and same: "same_but {6, 9, 10, 11, 12, 14, 15, 16} ?z u" and res: "regs u 9 = emulated_result op (regs ?z 3) (regs ?z 6)"
      by blast
    have "computed b t (unat (insn_C ir)) (emulated_result op (rd s (unat (insn_A ir))) (rd s (unat (insn_B ir)))) u"
      by (rule computedI [OF same]) (auto simp: y res)
    with executes_trans [OF run1 executes_trans [OF run2 run3 order_refl], of 570] show ?thesis by auto
  qed
qed

lemma reach_store:
  assumes emu: "\<not> ALT_NO_INSTRUCTION_EMULATION e" and en: "frame_entered b s ret t" and ir: "regs t 2 = ir"
    and op: "muldiv_insn ir = Some op" and ok: "operands_ok ir"
  shows "\<exists>u. executes m (exceptions_section e) 600 (At (after_notirq e) t) (At (at_store e) u)
    \<and> computed b t (insn_dest ir) (emulated_result op (rd s (unat (insn_A ir))) (insn_src2 ir s)) u"
proof -
  have sp: "regs t SP = 60 + b" using en by (simp add: frame_entered_def framed_def)
  have pos: "after_notirq e = alt_exception_muldiv @ after_muldiv e" using emu by (simp add: after_notirq_def)
  have a: "unat (insn_A ir) \<in> set readable" using ok by (simp add: operands_ok_def)
  have "\<exists>u. executes m (exceptions_section e) 570 (At (Beq 5 15 Lmul_immed # muldiv_operand_b @ at_select e) (decoded b ir t)) (At (at_store e) u)
    \<and> computed b t (insn_dest ir) (emulated_result op (rd s (unat (insn_A ir))) (insn_src2 ir s)) u"
    using muldiv_insn_cases [OF op]
  proof
    assume "insn_OP ir = 0x24 \<and> op = MUL"
    then show ?thesis
      using reach_store_immediate [OF emu en _ a, of m]
      by (auto simp: insn_dest_def insn_src2_def intro: executes_mono)
  next
    assume o: "insn_OP ir = 0x3a \<and> insn_OPX ir = opx_of op"
    moreover from o have "unat (insn_B ir) \<in> set readable" using ok by (simp add: operands_ok_def)
    ultimately show ?thesis
      using reach_store_register [OF emu en _ _ a, of op m]
      by (auto simp: insn_dest_def insn_src2_def)
  qed
  then obtain u where
    u: "executes m (exceptions_section e) 570 (At (Beq 5 15 Lmul_immed # muldiv_operand_b @ at_select e) (decoded b ir t)) (At (at_store e) u)"
      "computed b t (insn_dest ir) (emulated_result op (rd s (unat (insn_A ir))) (insn_src2 ir s)) u" by blast
  have "executes m (exceptions_section e) 600 (At (after_notirq e) t) (At (at_store e) u)"
    unfolding pos by (rule executes_trans [OF decode_run [OF sp ir] u(1)]) simp
  with u(2) show ?thesis by blast
qed

lemma outside_upper: "outside b 136 a \<Longrightarrow> outside (60 + b) 76 a"
proof -
  assume "outside b 136 a"
  then have le: "136 \<le> unat (a - b)" by (simp add: outside_def word_le_nat_alt)
  then have "60 \<le> a - b" by (simp add: word_le_nat_alt)
  then have "unat (a - b - 60) = unat (a - b) - unat (60 :: u32)" by (rule unat_sub)
  with le have "76 \<le> unat (a - b - 60)" by simp
  moreover have "a - (60 + b) = a - b - 60" by simp
  ultimately show ?thesis by (simp only: outside_def word_le_nat_alt) simp
qed

lemma reg_array_outside: "outside b 136 a \<Longrightarrow> reg_array b t a = memw t a"
  using outside_neq [of b 136 a 0] outside_neq [of b 136 a 4] outside_neq [of b 136 a 8] outside_neq [of b 136 a 12]
    outside_neq [of b 136 a 16] outside_neq [of b 136 a 20] outside_neq [of b 136 a 24] outside_neq [of b 136 a 28]
    outside_neq [of b 136 a 40] outside_neq [of b 136 a 44] outside_neq [of b 136 a 48] outside_neq [of b 136 a 64]
  by (simp add: reg_array_def)

text \<open>The emulated instruction's effect: the destination register gets the result, nothing else changes,
  and the program goes on behind the instruction.\<close>

lemma emulation_path:
  assumes emu: "\<not> ALT_NO_INSTRUCTION_EMULATION e" and sp: "regs s SP = 136 + b" and en: "frame_entered b s ret t"
    and ir: "regs t 2 = ir" and op: "muldiv_insn ir = Some op" and ok: "operands_ok ir"
  shows "\<exists>s'. executes m (exceptions_section e) 640 (At (after_notirq e) t) (Returned s')
    \<and> regs s' = (with_result (insn_dest ir) (emulated_result op (rd s (unat (insn_A ir))) (insn_src2 ir s)) (regs s))(EA := ret)
    \<and> pc s' = ret \<and> world s' = set_status m (estatus s) (world s) \<and> (\<forall>a. outside b 136 a \<longrightarrow> memw s' a = memw s a)"
proof -
  let ?v = "emulated_result op (rd s (unat (insn_A ir))) (insn_src2 ir s)" and ?c = "insn_dest ir"
  obtain u where run: "executes m (exceptions_section e) 600 (At (after_notirq e) t) (At (at_store e) u)"
    and u: "computed b t ?c ?v u"
    using reach_store [OF emu en ir op ok] by blast
  have c: "?c \<in> set writable" using ok by (simp add: operands_ok_def)
  define u' where "u' = result_stored b ((memw u)(regs u 7 + b := ?v)) u"
  define g where "g = with_result ?c ?v (regs s)"
  have run2: "executes m (exceptions_section e) 13 (At (at_store e) u) (At exceptions_exit u')"
    using store_run [OF emu, of u b m] u by (simp add: u'_def computed_def)
  have f: "framed b g (estatus s) ret u'" and other: "\<And>r. r \<notin> set entry_saved \<union> {EA, SP} \<Longrightarrow> regs u' r = g r"
    using stored_frame [OF en c _ _ _ u'_def g_def] u by (auto simp: computed_def)
  let ?s = "resumed m b g (estatus s) ret u'"
  have "executes m (exceptions_section e) 640 (At (after_notirq e) t) (Returned ?s)"
    by (rule executes_trans [OF run executes_trans [OF run2 exit_returns [OF f] order_refl]]) simp
  moreover have "g SP = 136 + b" using writable_less [OF c] sp by (simp add: g_def with_result_def)
  then have "regs ?s = g(EA := ret)" by (rule resumed_regs [OF _ other])
  moreover have "pc ?s = ret" by (simp add: resumed_def)
  moreover have "world ?s = set_status m (estatus s) (world s)"
    using u en by (simp add: resumed_def u'_def result_stored_def computed_def frame_entered_def)
  moreover have "memw ?s a = memw s a" if o: "outside b 136 a" for a
  proof -
    have "a \<noteq> slot b ?c" using slot_low(3) [of ?c b] writable_less [OF c] o by (auto simp: outside_def)
    moreover have "reg_array b t a = memw t a" by (rule reg_array_outside [OF o])
    moreover have "memw t a = memw s a"
      using en outside_upper [OF o] by (simp add: frame_entered_def)
    ultimately show ?thesis using u by (simp add: resumed_def u'_def result_stored_def computed_def slot_def)
  qed
  ultimately show ?thesis unfolding g_def by blast
qed

text \<open>Any other instruction passes through: the frame is as before.\<close>

definition soft_passed :: "u32 \<Rightarrow> 'w nios \<Rightarrow> u32 \<Rightarrow> 'w nios \<Rightarrow> bool" where
  "soft_passed b s ret t \<longleftrightarrow> framed b (regs s) (estatus s) ret t \<and> world t = world s
     \<and> (\<forall>r. r \<notin> set entry_saved \<union> {SP} \<longrightarrow> regs t r = regs s r)
     \<and> (\<forall>a. outside b 136 a \<longrightarrow> memw t a = memw s a)"

lemma entered_passed: "frame_entered b s ret t \<Longrightarrow> soft_passed b s ret t"
  using outside_upper by (auto simp: frame_entered_def soft_passed_def)

lemma not_emulated_path:
  assumes emu: "\<not> ALT_NO_INSTRUCTION_EMULATION e" and en: "frame_entered b s ret t"
    and ir: "regs t 2 = ir" and op: "muldiv_insn ir = None"
  shows "\<exists>u. executes m (exceptions_section e) 50 (At (after_notirq e) t) (At (after_muldiv e) u) \<and> soft_passed b s ret u \<and> regs u 2 = ir"
proof -
  have sp: "regs t SP = 60 + b" using en by (simp add: frame_entered_def framed_def)
  have pos: "after_notirq e = alt_exception_muldiv @ after_muldiv e" using emu by (simp add: after_notirq_def)
  have o: "insn_OP ir \<noteq> 0x24" using op by (auto simp: muldiv_insn_def)
  let ?y = "operands_loaded b ir (decoded b ir t)"
  have sel: "selecting (insn_OP ir) (insn_OPX ir) ?y"
    by (simp add: selecting_def operands_loaded_def decoded_simps)
  have "insn_OPX ir \<notin> {0x24, 0x25, 0x27, 0x07, 0x17, 0x1f}" if "insn_OP ir = 0x3a"
    using op that by (auto simp: muldiv_insn_def split: if_splits)
  from select_none [OF emu sel this] obtain v where
    run3: "executes m (exceptions_section e) 13 (At (at_select e) ?y) (At (after_muldiv e) (?y\<lparr>regs := (regs ?y)(15 := v, SP := regs ?y SP + 60)\<rparr>))"
    by blast
  let ?u = "?y\<lparr>regs := (regs ?y)(15 := v, SP := regs ?y SP + 60)\<rparr>"
  have run: "executes m (exceptions_section e) 50 (At (after_notirq e) t) (At (after_muldiv e) ?u)"
    unfolding pos
    by (rule executes_trans [OF decode_run [OF sp ir] executes_trans [OF operand_b_run [OF o] run3 order_refl]]) simp
  have "memw ?u (slot b r) = regs s r" if "r \<in> set entry_saved" for r
  proof -
    have "r \<in> set readable" "r \<noteq> 0" using that by (auto simp: entry_saved_def readable_def)
    with reg_array_read [OF en this(1)] show ?thesis
      by (simp add: operands_loaded_def decoded_simps slot_def rd_def del: push_bit_xor)
  qed
  moreover have "memw ?u = reg_array b t" by (simp add: operands_loaded_def decoded_simps)
  moreover have "reg_array b t (128 + b) = estatus s" "reg_array b t (132 + b) = ret"
    using en by (simp_all add: reg_array_def frame_entered_def framed_def)
  moreover have "regs ?u SP = 60 + b" by (simp add: operands_loaded_def decoded_simps)
  ultimately have "framed b (regs s) (estatus s) ret ?u" by (simp only: framed_def simp_thms) blast
  moreover have "world ?u = world s" using en by (simp add: operands_loaded_def decoded_simps frame_entered_def)
  moreover have "regs ?u r = regs s r" if "r \<notin> set entry_saved \<union> {SP}" for r
  proof -
    have "r \<notin> {3, 4, 5, 6, 7, 8, 14, 15, SP}" using that by (auto simp: entry_saved_def)
    then have "regs ?u r = regs t r" by (simp add: operands_loaded_def decoded_def)
    then show ?thesis using en that by (simp add: frame_entered_def)
  qed
  moreover have "memw ?u a = memw s a" if "outside b 136 a" for a
    using that reg_array_outside [OF that, of t] entered_passed [OF en]
    by (simp add: soft_passed_def operands_loaded_def decoded_simps)
  moreover have "regs ?u 2 = ir" using ir by (simp add: operands_loaded_def decoded_def)
  ultimately have "soft_passed b s ret ?u \<and> regs ?u 2 = ir" unfolding soft_passed_def by blast
  with run show ?thesis by blast
qed

end
