(* ===== verification/Exceptions.thy ===== *)
theory Exceptions
  imports Prelude
begin

text \<open>
  Exceptions raised by instructions: the enumeration of \<open>HAL/inc/sys/alt_exceptions.h\<close>, the handler's
  registration (\<open>alt_instruction_exception_register.c\<close>, \<open>alt_ecc_fatal_exception.c\<close>) and the entry
  point (\<open>alt_instruction_exception_entry.c\<close>), for every configuration of the processor and of the
  board support package. The registered handler is a parameter, as is the debugger that a break instruction
  enters; \<open>None\<close> is the entry point's endless loop. The assembler code that calls the entry point
  is in the theory \<open>ExcCode\<close>.
\<close>

subsection \<open>Causes\<close>

datatype alt_exception_cause =
    NIOS2_EXCEPTION_CAUSE_NOT_PRESENT
  | NIOS2_EXCEPTION_RESET
  | NIOS2_EXCEPTION_CPU_ONLY_RESET_REQUEST
  | NIOS2_EXCEPTION_INTERRUPT
  | NIOS2_EXCEPTION_TRAP_INST
  | NIOS2_EXCEPTION_UNIMPLEMENTED_INST
  | NIOS2_EXCEPTION_ILLEGAL_INST
  | NIOS2_EXCEPTION_MISALIGNED_DATA_ADDR
  | NIOS2_EXCEPTION_MISALIGNED_TARGET_PC
  | NIOS2_EXCEPTION_DIVISION_ERROR
  | NIOS2_EXCEPTION_SUPERVISOR_ONLY_INST_ADDR
  | NIOS2_EXCEPTION_SUPERVISOR_ONLY_INST
  | NIOS2_EXCEPTION_SUPERVISOR_ONLY_DATA_ADDR
  | NIOS2_EXCEPTION_TLB_MISS
  | NIOS2_EXCEPTION_TLB_EXECUTE_PERM_VIOLATION
  | NIOS2_EXCEPTION_TLB_READ_PERM_VIOLATION
  | NIOS2_EXCEPTION_TLB_WRITE_PERM_VIOLATION
  | NIOS2_EXCEPTION_MPU_INST_REGION_VIOLATION
  | NIOS2_EXCEPTION_MPU_DATA_REGION_VIOLATION
  | NIOS2_EXCEPTION_ECC_TLB_ERR
  | NIOS2_EXCEPTION_ECC_FETCH_ERR
  | NIOS2_EXCEPTION_ECC_REGISTER_FILE_ERR
  | NIOS2_EXCEPTION_ECC_DATA_ERR
  | NIOS2_EXCEPTION_ECC_DATA_CACHE_WRITEBACK_ERR

text \<open>An enumeration in C is an \<open>int\<close>, and a variable of the type may hold other values.\<close>

fun cause_value :: "alt_exception_cause \<Rightarrow> int" where
  "cause_value NIOS2_EXCEPTION_CAUSE_NOT_PRESENT = - 1"
| "cause_value NIOS2_EXCEPTION_RESET = 0"
| "cause_value NIOS2_EXCEPTION_CPU_ONLY_RESET_REQUEST = 1"
| "cause_value NIOS2_EXCEPTION_INTERRUPT = 2"
| "cause_value NIOS2_EXCEPTION_TRAP_INST = 3"
| "cause_value NIOS2_EXCEPTION_UNIMPLEMENTED_INST = 4"
| "cause_value NIOS2_EXCEPTION_ILLEGAL_INST = 5"
| "cause_value NIOS2_EXCEPTION_MISALIGNED_DATA_ADDR = 6"
| "cause_value NIOS2_EXCEPTION_MISALIGNED_TARGET_PC = 7"
| "cause_value NIOS2_EXCEPTION_DIVISION_ERROR = 8"
| "cause_value NIOS2_EXCEPTION_SUPERVISOR_ONLY_INST_ADDR = 9"
| "cause_value NIOS2_EXCEPTION_SUPERVISOR_ONLY_INST = 10"
| "cause_value NIOS2_EXCEPTION_SUPERVISOR_ONLY_DATA_ADDR = 11"
| "cause_value NIOS2_EXCEPTION_TLB_MISS = 12"
| "cause_value NIOS2_EXCEPTION_TLB_EXECUTE_PERM_VIOLATION = 13"
| "cause_value NIOS2_EXCEPTION_TLB_READ_PERM_VIOLATION = 14"
| "cause_value NIOS2_EXCEPTION_TLB_WRITE_PERM_VIOLATION = 15"
| "cause_value NIOS2_EXCEPTION_MPU_INST_REGION_VIOLATION = 16"
| "cause_value NIOS2_EXCEPTION_MPU_DATA_REGION_VIOLATION = 17"
| "cause_value NIOS2_EXCEPTION_ECC_TLB_ERR = 18"
| "cause_value NIOS2_EXCEPTION_ECC_FETCH_ERR = 19"
| "cause_value NIOS2_EXCEPTION_ECC_REGISTER_FILE_ERR = 20"
| "cause_value NIOS2_EXCEPTION_ECC_DATA_ERR = 21"
| "cause_value NIOS2_EXCEPTION_ECC_DATA_CACHE_WRITEBACK_ERR = 22"

lemma cause_value_inj: "cause_value c = cause_value d \<longleftrightarrow> c = d"
  by (cases c; cases d) simp_all

text \<open>The constants are ordered as their values, as C compares them.\<close>

instantiation alt_exception_cause :: linorder
begin

definition less_eq_alt_exception_cause :: "alt_exception_cause \<Rightarrow> alt_exception_cause \<Rightarrow> bool" where
  "c \<le> d \<longleftrightarrow> cause_value c \<le> cause_value d"

definition less_alt_exception_cause :: "alt_exception_cause \<Rightarrow> alt_exception_cause \<Rightarrow> bool" where
  "c < d \<longleftrightarrow> cause_value c < cause_value d"

instance
  by standard (auto simp: less_eq_alt_exception_cause_def less_alt_exception_cause_def cause_value_inj [symmetric])

end

lemmas cause_order = less_eq_alt_exception_cause_def less_alt_exception_cause_def

definition NIOS2_EXCEPTION_RETURN_REISSUE_INST :: int where "NIOS2_EXCEPTION_RETURN_REISSUE_INST = 0"
definition NIOS2_EXCEPTION_RETURN_SKIP_INST :: int where "NIOS2_EXCEPTION_RETURN_SKIP_INST = 1"
definition NIOS2_EXCEPTION_REG_CAUSE_MASK :: u32 where "NIOS2_EXCEPTION_REG_CAUSE_MASK = 0x7c"
definition NIOS2_EXCEPTION_REG_CAUSE_OFST :: nat where "NIOS2_EXCEPTION_REG_CAUSE_OFST = 2"

text \<open>The cases of the switch that return 1, in its order.\<close>

definition alt_exception_cause_generated_bad_addr :: "int \<Rightarrow> int" where
  "alt_exception_cause_generated_bad_addr cause =
     (if cause = cause_value NIOS2_EXCEPTION_SUPERVISOR_ONLY_DATA_ADDR
       \<or> cause = cause_value NIOS2_EXCEPTION_MISALIGNED_DATA_ADDR
       \<or> cause = cause_value NIOS2_EXCEPTION_MISALIGNED_TARGET_PC
       \<or> cause = cause_value NIOS2_EXCEPTION_TLB_READ_PERM_VIOLATION
       \<or> cause = cause_value NIOS2_EXCEPTION_TLB_WRITE_PERM_VIOLATION
       \<or> cause = cause_value NIOS2_EXCEPTION_MPU_DATA_REGION_VIOLATION
       \<or> cause = cause_value NIOS2_EXCEPTION_ECC_DATA_ERR then 1
      else if cause = cause_value NIOS2_EXCEPTION_TLB_MISS
       \<or> cause = cause_value NIOS2_EXCEPTION_ECC_TLB_ERR then 0
      else 0)"

subsection \<open>Registration and entry\<close>

record exc_cfg =
  NIOS2_HAS_EXTRA_EXCEPTION_INFO :: bool
  NIOS2_HAS_DEBUG_STUB :: bool

text \<open>This system: no extra information, a debug stub.\<close>

definition this_exc_cfg :: exc_cfg where
  "this_exc_cfg = \<lparr>NIOS2_HAS_EXTRA_EXCEPTION_INFO = False, NIOS2_HAS_DEBUG_STUB = True\<rparr>"

text \<open>The two handlers (0 is null), the processor's registers, and the rest of the system.\<close>

record 'w exc_state =
  alt_instruction_exception_handler :: u32
  alt_exception_ecc_fatal_handler :: u32
  exception_reg :: u32
  badaddr_reg :: u32
  exc_world :: 'w

record 'w exc_env =
  call_handler :: "u32 \<Rightarrow> int \<Rightarrow> u32 \<Rightarrow> u32 \<Rightarrow> 'w exc_state \<Rightarrow> int \<times> 'w exc_state"
  debugger :: "'w exc_state \<Rightarrow> 'w exc_state"

definition alt_instruction_exception_register :: "u32 \<Rightarrow> 'w exc_state \<Rightarrow> 'w exc_state" where
  "alt_instruction_exception_register exception_handler s = s\<lparr>alt_instruction_exception_handler := exception_handler\<rparr>"

definition alt_ecc_fatal_exception_register :: "u32 \<Rightarrow> 'w exc_state \<Rightarrow> 'w exc_state" where
  "alt_ecc_fatal_exception_register handler s = s\<lparr>alt_exception_ecc_fatal_handler := handler\<rparr>"

text \<open>The cause is computed as an \<open>alt_u32\<close> and passed as the enumeration.\<close>

definition alt_instruction_exception_entry ::
  "exc_cfg \<Rightarrow> 'w exc_env \<Rightarrow> u32 \<Rightarrow> 'w exc_state \<Rightarrow> (int \<times> 'w exc_state) option" where
  "alt_instruction_exception_entry cfg e exception_pc s =
     (let (cause, badaddr) =
            (if NIOS2_HAS_EXTRA_EXCEPTION_INFO cfg
             then (drop_bit NIOS2_EXCEPTION_REG_CAUSE_OFST (exception_reg s AND NIOS2_EXCEPTION_REG_CAUSE_MASK), badaddr_reg s)
             else (word_of_int (cause_value NIOS2_EXCEPTION_CAUSE_NOT_PRESENT), 0))
      in if alt_instruction_exception_handler s \<noteq> 0
         then Some (call_handler e (alt_instruction_exception_handler s) (sint cause) exception_pc badaddr s)
         else if NIOS2_HAS_DEBUG_STUB cfg
              then Some (NIOS2_EXCEPTION_RETURN_REISSUE_INST, debugger e s)
              else None)"

subsection \<open>The cause field\<close>

lemma field_of_reg: "((x :: u32) AND NOT m OR p) AND m = p AND m"
  by (rule bit_word_eqI) (auto simp: bit_and_iff bit_or_iff bit_not_iff)

text \<open>The processor's register with cause \<open>c\<close>; \<open>x\<close> gives the other bits.\<close>

definition reg_with_cause :: "u32 \<Rightarrow> alt_exception_cause \<Rightarrow> u32" where
  "reg_with_cause x c = (x AND NOT NIOS2_EXCEPTION_REG_CAUSE_MASK)
     OR push_bit NIOS2_EXCEPTION_REG_CAUSE_OFST (word_of_int (cause_value c))"

definition cause_field :: "u32 \<Rightarrow> u32" where
  "cause_field r = drop_bit NIOS2_EXCEPTION_REG_CAUSE_OFST (r AND NIOS2_EXCEPTION_REG_CAUSE_MASK)"

lemma cause_field_decodes:
  assumes "NIOS2_EXCEPTION_CAUSE_NOT_PRESENT < c"
  shows "sint (cause_field (reg_with_cause x c)) = cause_value c"
proof -
  have "sint (drop_bit 2 ((push_bit 2 (word_of_int (cause_value c)) :: u32) AND 0x7c)) = cause_value c"
    using assms by (cases c) (simp_all add: cause_order)
  then show ?thesis
    unfolding cause_field_def reg_with_cause_def field_of_reg
    by (simp only: NIOS2_EXCEPTION_REG_CAUSE_MASK_def NIOS2_EXCEPTION_REG_CAUSE_OFST_def)
qed

lemma cause_field_small: "0 \<le> sint (cause_field r) \<and> sint (cause_field r) < 32"
proof -
  have "unat (r AND 0x7c) \<le> unat (0x7c :: u32)" by (rule word_and_mask_less)
  then have "unat (r AND 0x7c) div 2 ^ 2 < 32" by simp
  then have "unat (cause_field r) < 32"
    by (simp add: cause_field_def NIOS2_EXCEPTION_REG_CAUSE_MASK_def NIOS2_EXCEPTION_REG_CAUSE_OFST_def
        drop_bit_eq_div unat_div)
  then show ?thesis by (simp add: sint32_conv word_less_nat_alt del: of_nat_unat)
qed

text \<open>The registers' values reach the handler; the state is that of the registration.\<close>

lemma entry_calls:
  assumes "h \<noteq> 0"
  shows "alt_instruction_exception_entry cfg e pc (alt_instruction_exception_register h s) =
    Some (call_handler e h
      (if NIOS2_HAS_EXTRA_EXCEPTION_INFO cfg then sint (cause_field (exception_reg s)) else - 1) pc
      (if NIOS2_HAS_EXTRA_EXCEPTION_INFO cfg then badaddr_reg s else 0)
      (alt_instruction_exception_register h s))"
  using assms
  by (simp add: alt_instruction_exception_entry_def alt_instruction_exception_register_def cause_field_def)

text \<open>An exception with a handler registered calls exactly that handler, with the program counter of the
  exception, and the handler's verdict is the result. With the optional registers the cause it
  gets is the one the processor recorded, for every real cause and whatever the other bits of the
  register, and the address is the recorded one; without them it gets the constant that says
  so, which no recorded cause can be. So a handler that uses the address only when
  alt_exception_cause_generated_bad_addr allows it never uses a made-up one. With the handler
  taken back (null), the debugger is entered and the instruction is re-issued, or, without a
  debugger, the entry never returns.\<close>

theorem exception_entry_arguments:
  assumes "h \<noteq> 0"
  shows "(\<exists>cause bad_addr.
      alt_instruction_exception_entry cfg e pc (alt_instruction_exception_register h s)
        = Some (call_handler e h cause pc bad_addr (alt_instruction_exception_register h s))
      \<and> (if NIOS2_HAS_EXTRA_EXCEPTION_INFO cfg
         then bad_addr = badaddr_reg s \<and> cause_value NIOS2_EXCEPTION_CAUSE_NOT_PRESENT < cause
           \<and> (\<forall>c x. NIOS2_EXCEPTION_CAUSE_NOT_PRESENT < c \<longrightarrow> exception_reg s = reg_with_cause x c \<longrightarrow> cause = cause_value c)
         else cause = cause_value NIOS2_EXCEPTION_CAUSE_NOT_PRESENT)
      \<and> (alt_exception_cause_generated_bad_addr cause = 1 \<longrightarrow> bad_addr = badaddr_reg s))
    \<and> alt_instruction_exception_entry cfg e pc (alt_instruction_exception_register 0 s)
      = (if NIOS2_HAS_DEBUG_STUB cfg
         then Some (NIOS2_EXCEPTION_RETURN_REISSUE_INST, debugger e (alt_instruction_exception_register 0 s)) else None)"
proof (rule conjI)
  let ?cause = "if NIOS2_HAS_EXTRA_EXCEPTION_INFO cfg then sint (cause_field (exception_reg s)) else - 1"
  let ?bad = "if NIOS2_HAS_EXTRA_EXCEPTION_INFO cfg then badaddr_reg s else 0"
  have decode: "sint (cause_field (exception_reg s)) = cause_value c"
    if "NIOS2_EXCEPTION_CAUSE_NOT_PRESENT < c" "exception_reg s = reg_with_cause x c" for c x
    unfolding that(2) by (rule cause_field_decodes [OF that(1)])
  show "\<exists>cause bad_addr. alt_instruction_exception_entry cfg e pc (alt_instruction_exception_register h s)
        = Some (call_handler e h cause pc bad_addr (alt_instruction_exception_register h s))
      \<and> (if NIOS2_HAS_EXTRA_EXCEPTION_INFO cfg
         then bad_addr = badaddr_reg s \<and> cause_value NIOS2_EXCEPTION_CAUSE_NOT_PRESENT < cause
           \<and> (\<forall>c x. NIOS2_EXCEPTION_CAUSE_NOT_PRESENT < c \<longrightarrow> exception_reg s = reg_with_cause x c \<longrightarrow> cause = cause_value c)
         else cause = cause_value NIOS2_EXCEPTION_CAUSE_NOT_PRESENT)
      \<and> (alt_exception_cause_generated_bad_addr cause = 1 \<longrightarrow> bad_addr = badaddr_reg s)"
    using cause_field_small [of "exception_reg s"] decode
    by (intro exI [of _ ?cause] exI [of _ ?bad] conjI entry_calls [OF assms])
      (auto simp: alt_exception_cause_generated_bad_addr_def)
qed (simp add: alt_instruction_exception_entry_def alt_instruction_exception_register_def)

text \<open>The cause field of the witness's register is 6, with other bits set; its handler logs its arguments.\<close>

lemma exception_entry_witness:
  "alt_instruction_exception_entry \<lparr>NIOS2_HAS_EXTRA_EXCEPTION_INFO = True, NIOS2_HAS_DEBUG_STUB = False\<rparr>
     \<lparr>call_handler = (\<lambda>h c pc b s. (1, s\<lparr>exc_world := (h, c, pc, b)\<rparr>)), debugger = (\<lambda>s. s)\<rparr> 0x100
     (alt_instruction_exception_register 0x4000
       \<lparr>alt_instruction_exception_handler = 0, alt_exception_ecc_fatal_handler = 0,
        exception_reg = reg_with_cause 0x80000001 NIOS2_EXCEPTION_MISALIGNED_DATA_ADDR, badaddr_reg = 0x1001, exc_world = (0, 0, 0, 0)\<rparr>)
   = Some (1, \<lparr>alt_instruction_exception_handler = 0x4000, alt_exception_ecc_fatal_handler = 0,
        exception_reg = reg_with_cause 0x80000001 NIOS2_EXCEPTION_MISALIGNED_DATA_ADDR, badaddr_reg = 0x1001,
        exc_world = (0x4000, 6, 0x100, 0x1001)\<rparr>)"
proof -
  let ?cfg = "\<lparr>NIOS2_HAS_EXTRA_EXCEPTION_INFO = True, NIOS2_HAS_DEBUG_STUB = False\<rparr>"
  let ?e = "\<lparr>call_handler = (\<lambda>h c pc b s. (1, s\<lparr>exc_world := (h, c, pc, b)\<rparr>)), debugger = (\<lambda>s. s)\<rparr> :: (u32 \<times> int \<times> u32 \<times> u32) exc_env"
  let ?s = "\<lparr>alt_instruction_exception_handler = 0, alt_exception_ecc_fatal_handler = 0,
        exception_reg = reg_with_cause 0x80000001 NIOS2_EXCEPTION_MISALIGNED_DATA_ADDR, badaddr_reg = 0x1001, exc_world = (0, 0, 0, 0)\<rparr>"
  have "(0x4000 :: u32) \<noteq> 0" by simp
  from exception_entry_arguments [OF this, of ?cfg ?e "0x100" ?s] obtain cause bad where
    c: "alt_instruction_exception_entry ?cfg ?e 0x100 (alt_instruction_exception_register 0x4000 ?s)
        = Some (call_handler ?e 0x4000 cause 0x100 bad (alt_instruction_exception_register 0x4000 ?s))"
    "bad = 0x1001"
    "\<forall>c x. NIOS2_EXCEPTION_CAUSE_NOT_PRESENT < c \<longrightarrow> exception_reg ?s = reg_with_cause x c \<longrightarrow> cause = cause_value c" by auto
  have "NIOS2_EXCEPTION_CAUSE_NOT_PRESENT < NIOS2_EXCEPTION_MISALIGNED_DATA_ADDR" by (simp add: cause_order)
  with c(3) have "cause = 6" by (metis cause_value.simps(8) exc_state.select_convs(3))
  with c(1,2) show ?thesis by (simp add: alt_instruction_exception_register_def)
qed

end
