(* ===== verification/ExcProps.thy ===== *)
theory ExcProps
  imports MulDiv Irq Exceptions
begin

text \<open>
  Exceptions from the interrupted program's point of view: from the instruction that the processor
  interrupts, through the code at the exception address and the C functions it calls, to the instruction
  that the program goes on with. The C functions are known by their models, \<open>alt_irq_handler\<close> of the
  theory Irq and \<open>alt_instruction_exception_entry\<close> of the theory Exceptions, and by the calling
  convention.
\<close>

subsection \<open>Taking the exception\<close>

text \<open>The world in which the handler runs: interrupts are off.\<close>

definition masked :: "'w nios_env \<Rightarrow> 'w \<Rightarrow> 'w" where
  "masked m w = set_status m (status_of m w AND NOT NIOS2_PIE) w"

lemma take_simps:
  "world (take_exception m s) = masked m (world s)" "estatus (take_exception m s) = status_of m (world s)"
  "regs (take_exception m s) = (regs s)(EA := pc s + 4)" "memw (take_exception m s) = memw s"
  by (simp_all add: take_exception_def masked_def wr_def)

lemma take_sp: "regs (take_exception m s) SP = 136 + (regs s SP - 136)"
  by (simp add: take_simps)

definition handled :: "'w nios_env \<Rightarrow> exc_build \<Rightarrow> nat \<Rightarrow> 'w nios \<Rightarrow> 'w config" where
  "handled m b n s = nios_steps m (exceptions_section b) n (At (exceptions_section b) (take_exception m s))"

lemma handledI:
  "executes m (exceptions_section b) n (At (exceptions_section b) (take_exception m s)) c \<Longrightarrow> ended c \<Longrightarrow> handled m b n s = c"
  unfolding handled_def by (rule executes_steps)

subsection \<open>Interrupts\<close>

text \<open>The interrupt dispatcher as a function called by the exception handler.\<close>

definition calls_dispatcher :: "'w nios_env \<Rightarrow> 'w isr_env \<Rightarrow> bool" where
  "calls_dispatcher m e \<longleftrightarrow> follows_abi m Alt_irq_handler \<and> (\<forall>w. ipending_of m w = alt_irq_pending e w)
     \<and> (\<forall>t. map_option world (call_c m Alt_irq_handler t) = alt_irq_handler e (world t))"

lemma interrupt_handled:
  assumes pie: "status_of m (world s) AND NIOS2_PIE \<noteq> 0" and line: "alt_irq_pending e (masked m (world s)) \<noteq> 0"
    and c: "calls_dispatcher m e"
  shows "case alt_irq_handler e (masked m (world s)) of
     None \<Rightarrow> handled m b 60 s = Lost
   | Some w \<Rightarrow> \<exists>s'. handled m b 60 s = Returned s' \<and> pc s' = pc s \<and> regs s' = (regs s)(EA := pc s)
       \<and> world s' = set_status m (status_of m (world s)) w"
proof -
  let ?s = "take_exception m s"
  have abi: "follows_abi m Alt_irq_handler" and irq: "irq_taken m ?s"
    using c pie line by (simp_all add: calls_dispatcher_def irq_taken_def take_simps NIOS2_PIE_def)
  obtain t where t: "world t = world ?s"
    "case call_c m Alt_irq_handler t of
       None \<Rightarrow> executes m (exceptions_section b) 60 (At (exceptions_section b) ?s) Lost
     | Some u \<Rightarrow> executes m (exceptions_section b) 60 (At (exceptions_section b) ?s)
           (Returned (resumed m (regs s SP - 136) (regs ?s) (estatus ?s) (regs ?s EA - 4) u))
         \<and> regs (resumed m (regs s SP - 136) (regs ?s) (estatus ?s) (regs ?s EA - 4) u) = (regs ?s)(EA := regs ?s EA - 4)"
    using interrupt_path [OF take_sp irq abi, of b] by blast
  have w: "map_option world (call_c m Alt_irq_handler t) = alt_irq_handler e (masked m (world s))"
    using c t(1) by (simp add: calls_dispatcher_def take_simps)
  show ?thesis
  proof (cases "call_c m Alt_irq_handler t")
    case None
    with t(2) w show ?thesis by (auto intro: handledI simp flip: w)
  next
    case (Some u)
    let ?r = "resumed m (regs s SP - 136) (regs ?s) (estatus ?s) (regs ?s EA - 4) u"
    have "handled m b 60 s = Returned ?r" "regs ?r = (regs s)(EA := pc s)"
      using t(2) Some by (auto intro: handledI simp: take_simps)
    moreover have "pc ?r = pc s" "world ?r = set_status m (status_of m (world s)) (world u)"
      by (simp_all add: resumed_def take_simps)
    ultimately show ?thesis using Some by (auto simp flip: w)
  qed
qed

text \<open>C37. An interrupt is invisible to the program that it interrupts. When a line is pending and
  interrupts are on, the code at the exception address (entry, test, call of the dispatcher,
  exit, as the linker puts the sections together, whatever the build's options) returns within 60
  instructions of its own to the instruction that was interrupted, with the status register and every
  general register as before except the exception return address; the rest of the system is as
  alt_irq_handler, called with interrupts off, leaves it. If the dispatcher never returns, neither
  does the program. The dispatcher is known by its model and by the calling convention.\<close>

theorem interrupt_transparent:
  assumes "status_of m (world s) AND NIOS2_PIE \<noteq> 0" and "alt_irq_pending e (masked m (world s)) \<noteq> 0"
    and "calls_dispatcher m e"
  shows "case alt_irq_handler e (masked m (world s)) of
     None \<Rightarrow> handled m b 60 s = Lost
   | Some w \<Rightarrow> \<exists>s'. handled m b 60 s = Returned s' \<and> pc s' = pc s \<and> regs s' = (regs s)(EA := pc s)
       \<and> world s' = set_status m (status_of m (world s)) w"
  by (rule interrupt_handled [OF assms])

text \<open>The witness's system is the one of the theory Irq; its dispatcher, as a function of the calling
  convention, overwrites every register that it may.\<close>

definition demo_machine :: "(cpu \<times> u32) nios_env" where
  "demo_machine = \<lparr>ipending_of = pending demo_env, status_of = (\<lambda>w. status (fst w)),
     set_status = (\<lambda>v w. ((fst w)\<lparr>status := v\<rparr>, snd w)),
     call_c = (\<lambda>f t. map_option (\<lambda>w. t\<lparr>world := w,
        regs := (\<lambda>r. if r \<in> set entry_saved \<union> {EA} then 0xdeadbeef else regs t r)\<rparr>) (alt_irq_handler demo_env (world t)))\<rparr>"

lemma demo_calls: "calls_dispatcher demo_machine demo_env"
  by (auto simp: calls_dispatcher_def follows_abi_def demo_machine_def alt_irq_pending_def
      option.map_comp comp_def option.map_ident)

lemma demo_first: "first_active 0x20 1 0 = Some 5"
  by (simp add: first_active_unfold [of "0x20" 1] first_active_unfold [of "0x20" 2] first_active_unfold [of "0x20" 4]
      first_active_unfold [of "0x20" 8] first_active_unfold [of "0x20" 16] first_active_unfold [of "0x20" 32])

lemma demo_dispatch: "alt_irq_handler demo_env (demo_cpu, 0xFF) = Some (demo_cpu, 0xDF)"
proof -
  have p: "alt_irq_pending demo_env (demo_cpu, 0xFF) = 0x20" "alt_irq_pending demo_env (demo_cpu, 0xDF) = 0"
    by (simp_all add: alt_irq_pending_def demo_env_def demo_cpu_def registered_def cpu_init_def)
  have "dispatch_one demo_env 0x20 (demo_cpu, 0xFF) = Some (demo_cpu, 0xDF)"
    by (simp add: dispatch_one_def demo_first) (simp add: demo_env_def demo_cpu_def registered_def cpu_init_def)
  then show ?thesis
    unfolding alt_irq_handler_def p(1) by (subst irq_handler_loop.simps) (simp add: p(2))
qed

text \<open>A program at 0x400 with interrupts on: register \<open>r\<close> holds 0x1000 + \<open>r\<close>.\<close>

definition demo_program :: "(cpu \<times> u32) nios" where
  "demo_program = \<lparr>regs = (\<lambda>r. 0x1000 + of_nat r), memw = (\<lambda>a. 0), estatus = 0, pc = 0x400,
     world = (demo_cpu\<lparr>status := 1\<rparr>, 0xFF)\<rparr>"

lemma interrupt_transparent_witness:
  "\<exists>s'. handled demo_machine this_exc_build 60 demo_program = Returned s' \<and> pc s' = 0x400
     \<and> regs s' 3 = 0x1003 \<and> world s' = (demo_cpu\<lparr>status := 1\<rparr>, 0xDF)"
proof -
  have m: "masked demo_machine (world demo_program) = (demo_cpu, 0xFF)"
    by (simp add: masked_def demo_machine_def demo_program_def NIOS2_PIE_def demo_cpu_def registered_def cpu_init_def)
  have "status_of demo_machine (world demo_program) AND NIOS2_PIE \<noteq> 0"
    by (simp add: demo_machine_def demo_program_def NIOS2_PIE_def)
  moreover have "alt_irq_pending demo_env (masked demo_machine (world demo_program)) \<noteq> 0"
    by (simp add: m alt_irq_pending_def demo_env_def demo_cpu_def registered_def cpu_init_def)
  ultimately obtain s' where s': "handled demo_machine this_exc_build 60 demo_program = Returned s'"
    "pc s' = pc demo_program" "regs s' = (regs demo_program)(EA := pc demo_program)"
    "world s' = set_status demo_machine (status_of demo_machine (world demo_program)) (demo_cpu, 0xDF)"
    using interrupt_transparent [OF _ _ demo_calls, of demo_program this_exc_build]
    by (simp only: m demo_dispatch option.case) blast
  from s'(2-4) have "pc s' = 0x400" "regs s' 3 = 0x1003" "world s' = (demo_cpu\<lparr>status := 1\<rparr>, 0xDF)"
    by (simp_all add: demo_program_def demo_machine_def)
  with s'(1) show ?thesis by blast
qed

subsection \<open>Exceptions of instructions\<close>

definition not_interrupted :: "'w nios_env \<Rightarrow> 'w nios \<Rightarrow> bool" where
  "not_interrupted m s \<longleftrightarrow> status_of m (world s) AND NIOS2_PIE = 0 \<or> ipending_of m (masked m (world s)) = 0"

text \<open>The instruction is not in the part of the stack that the handler uses.\<close>

definition insn_apart :: "'w nios \<Rightarrow> bool" where
  "insn_apart s \<longleftrightarrow> outside (regs s SP - 76) 76 (pc s)"

lemma instruction_handled:
  assumes "not_interrupted m s" "insn_apart s"
  shows "\<exists>t. executes m (exceptions_section b) 27 (At (exceptions_section b) (take_exception m s)) (At (after_notirq b) t)
    \<and> frame_entered (regs s SP - 136) (take_exception m s) (pc s + 4) t \<and> regs t 2 = memw s (pc s)"
proof -
  have "\<not> irq_taken m (take_exception m s)"
    using assms(1) by (auto simp: not_interrupted_def irq_taken_def take_simps NIOS2_PIE_def)
  moreover have "outside (60 + (regs s SP - 136)) 76 (regs (take_exception m s) EA - 4)"
    using assms(2) by (simp add: insn_apart_def take_simps)
  ultimately show ?thesis
    using enter_not_irq [OF take_sp [of m s], where e = b] by (simp add: take_simps)
qed

text \<open>C38. With instruction emulation linked in, an unimplemented multiplication or division does what
  the architecture says of it: for every encoding of div, divu, mul, muli, mulxss, mulxsu and
  mulxuu with operands that the emulation supports (not et, bt, sp, ea, ba; as a destination not gp either),
  and, for divisions, a divisor that is not zero, the program goes on behind the instruction within 680
  instructions of the handler, with the result in the destination register (an instruction with
  destination r0 has none), every other register except the exception return address, the status register and
  all memory outside the 136 bytes below the stack pointer as before.\<close>

theorem muldiv_emulated:
  assumes "\<not> ALT_NO_INSTRUCTION_EMULATION b" and "not_interrupted m s" and "insn_apart s"
    and "muldiv_insn (memw s (pc s)) = Some op" and "operands_ok (memw s (pc s))"
    and "op \<in> {DIVU, DIV} \<Longrightarrow> insn_src2 (memw s (pc s)) s \<noteq> 0"
  shows "\<exists>s'. handled m b 680 s = Returned s' \<and> pc s' = pc s + 4
    \<and> regs s' = (with_result (insn_dest (memw s (pc s)))
         (architecture_result op (rd s (unat (insn_A (memw s (pc s))))) (insn_src2 (memw s (pc s)) s)) (regs s))(EA := pc s + 4)
    \<and> world s' = set_status m (status_of m (world s)) (masked m (world s))
    \<and> (\<forall>a. outside (regs s SP - 136) 136 a \<longrightarrow> memw s' a = memw s a)"
proof -
  let ?ir = "memw s (pc s)" and ?t = "take_exception m s" and ?c = "exceptions_section b"
  obtain t where t: "executes m ?c 27 (At ?c ?t) (At (after_notirq b) t)"
    "frame_entered (regs s SP - 136) ?t (pc s + 4) t" "regs t 2 = ?ir"
    using instruction_handled [OF assms(2,3)] by blast
  obtain s' where run: "executes m ?c 640 (At (after_notirq b) t) (Returned s')"
    and s': "regs s' = (with_result (insn_dest ?ir) (emulated_result op (rd ?t (unat (insn_A ?ir))) (insn_src2 ?ir ?t)) (regs ?t))(EA := pc s + 4)"
      "pc s' = pc s + 4" "world s' = set_status m (estatus ?t) (world ?t)"
      "\<forall>a. outside (regs s SP - 136) 136 a \<longrightarrow> memw s' a = memw ?t a"
    using emulation_path [OF assms(1) take_sp t(2,3) assms(4,5)] by blast
  have "executes m ?c 680 (At ?c ?t) (Returned s')" by (rule executes_trans [OF t(1) run]) simp
  then have h: "handled m b 680 s = Returned s'" by (rule handledI) simp
  have src: "rd ?t r = rd s r" if "r \<in> set readable" for r
    using that by (auto simp: rd_def take_simps readable_def)
  have a: "rd ?t (unat (insn_A ?ir)) = rd s (unat (insn_A ?ir))"
    using assms(5) by (intro src) (simp add: operands_ok_def)
  have b: "insn_src2 ?ir ?t = insn_src2 ?ir s"
    using assms(5) src by (auto simp: insn_src2_def operands_ok_def)
  have "emulated_result op (rd s (unat (insn_A ?ir))) (insn_src2 ?ir s)
      = architecture_result op (rd s (unat (insn_A ?ir))) (insn_src2 ?ir s)"
    by (rule emulated_result_correct [OF assms(6)])
  moreover have "(with_result c v (regs ?t))(EA := x) = (with_result c v (regs s))(EA := x)" for c v x
    by (auto simp: with_result_def take_simps fun_eq_iff)
  ultimately show ?thesis using h s' by (auto simp: a b take_simps)
qed

text \<open>The witness executes \<open>div r2, r3, r4\<close> with -7 and 2.\<close>

definition demo_build :: exc_build where
  "demo_build = \<lparr>ALT_NO_INSTRUCTION_EMULATION = False, ALT_TRAP_HANDLER = True,
     ALT_INCLUDE_INSTRUCTION_RELATED_EXCEPTION_API = True, HAS_DEBUG_STUB = True\<rparr>"

definition plain_machine :: "u32 nios_env" where
  "plain_machine = \<lparr>ipending_of = (\<lambda>w. 0), status_of = (\<lambda>w. w), set_status = (\<lambda>v w. v), call_c = (\<lambda>f t. None)\<rparr>"

definition division_program :: "u32 nios" where
  "division_program = \<lparr>regs = (\<lambda>r. 0x1000)(3 := - 7, 4 := 2, SP := 0x8000), memw = (\<lambda>a. 0)(0x400 := 0x1905283a),
     estatus = 0, pc = 0x400, world = 1\<rparr>"

lemma muldiv_emulated_witness:
  "\<exists>s'. handled plain_machine demo_build 680 division_program = Returned s' \<and> pc s' = 0x404 \<and> regs s' 2 = - 3
     \<and> regs s' 3 = - 7 \<and> world s' = 1"
proof -
  let ?ir = "0x1905283a :: u32"
  have ir: "memw division_program (pc division_program) = ?ir" by (simp add: division_program_def)
  have f: "insn_A ?ir = 3" "insn_B ?ir = 4" "insn_C ?ir = 2" "insn_OP ?ir = 0x3a" "insn_OPX ?ir = 0x25"
    by (simp_all add: insn_defs)
  have op: "muldiv_insn ?ir = Some DIV" by (simp add: muldiv_insn_def f)
  have d: "insn_dest ?ir = 2" and src: "insn_src2 ?ir division_program = 2"
    by (simp_all add: insn_dest_def insn_src2_def f rd_def division_program_def)
  have ok: "operands_ok ?ir" by (simp add: operands_ok_def f d readable_def writable_def)
  have apart: "insn_apart division_program" "not_interrupted plain_machine division_program"
    by (simp_all add: insn_apart_def outside_def division_program_def not_interrupted_def plain_machine_def)
  have b: "\<not> ALT_NO_INSTRUCTION_EMULATION demo_build" by (simp add: demo_build_def)
  have nz: "insn_src2 ?ir division_program \<noteq> 0" by (simp add: src)
  have res: "architecture_result DIV (- 7) 2 = - 3" by (simp add: signed_divide_int_def)
  from muldiv_emulated [OF b apart(2,1), unfolded ir, OF op ok nz] obtain s' where
    s': "handled plain_machine demo_build 680 division_program = Returned s'" "pc s' = pc division_program + 4"
    "regs s' = (with_result 2 (architecture_result DIV (rd division_program 3) 2) (regs division_program))(EA := pc division_program + 4)"
    "world s' = set_status plain_machine (status_of plain_machine (world division_program)) (masked plain_machine (world division_program))"
    by (auto simp: f d src)
  have "rd division_program 3 = - 7" by (simp add: rd_def division_program_def)
  then have "pc s' = 0x404" "regs s' 2 = - 3" "regs s' 3 = - 7" "world s' = 1"
    using s'(2-4) by (simp_all only: res) (simp_all add: division_program_def with_result_def plain_machine_def)
  with s'(1) show ?thesis by blast
qed

subsection \<open>Registered exception handlers\<close>

text \<open>The C entry point of instruction-related exceptions as called by the handler: it gets the address of the
  instruction in register 4 and returns in register 2. It keeps the registers that the calling
  convention reserves for the caller and the handler's frame; the exception return address (ea) is not
  among them, and an exception within the C code overwrites it.\<close>

definition calls_exception_entry :: "'w exc_state nios_env \<Rightarrow> exc_cfg \<Rightarrow> 'w exc_env \<Rightarrow> bool" where
  "calls_exception_entry m cfg e \<longleftrightarrow> follows_abi m Alt_instruction_exception_entry
     \<and> (\<forall>t. map_option (\<lambda>u. (rd u 2, world u)) (call_c m Alt_instruction_exception_entry t)
          = map_option (\<lambda>(rc, w). (word_of_int rc, w)) (alt_instruction_exception_entry cfg e (rd t 4) (world t)))"

text \<open>An instruction that no other handler of the build takes.\<close>

definition left_to_api :: "exc_build \<Rightarrow> u32 \<Rightarrow> bool" where
  "left_to_api b ir \<longleftrightarrow> (ALT_NO_INSTRUCTION_EMULATION b \<or> muldiv_insn ir = None)
     \<and> (ALT_TRAP_HANDLER b \<longrightarrow> ir \<noteq> trap_instruction)"

lemma passed_wr: "soft_passed c s ret t \<Longrightarrow> r \<in> set entry_saved \<Longrightarrow> soft_passed c s ret (wr r v t)"
  by (auto simp: soft_passed_def framed_def wr_def entry_saved_def)

lemma reach_unknown:
  assumes "not_interrupted m s" "insn_apart s" "left_to_api b (memw s (pc s))"
  shows "\<exists>t. executes m (exceptions_section b) 90 (At (exceptions_section b) (take_exception m s)) (At (after_soft b) t)
    \<and> soft_passed (regs s SP - 136) (take_exception m s) (pc s + 4) t"
proof -
  let ?c = "exceptions_section b" and ?ir = "memw s (pc s)"
  obtain t where t: "executes m ?c 27 (At ?c (take_exception m s)) (At (after_notirq b) t)"
    "frame_entered (regs s SP - 136) (take_exception m s) (pc s + 4) t" "regs t 2 = ?ir"
    using instruction_handled [OF assms(1,2)] by blast
  obtain u where u: "executes m ?c 50 (At (after_notirq b) t) (At (after_muldiv b) u)"
    "soft_passed (regs s SP - 136) (take_exception m s) (pc s + 4) u" "regs u 2 = ?ir"
  proof (cases "ALT_NO_INSTRUCTION_EMULATION b")
    case True
    then have "after_notirq b = after_muldiv b" by (simp add: after_notirq_def)
    then show ?thesis using that [of t] t entered_passed by fastforce
  next
    case False
    then have "muldiv_insn ?ir = None" using assms(3) by (simp add: left_to_api_def)
    from not_emulated_path [OF False t(2,3) this] show ?thesis using that by blast
  qed
  obtain v where v: "executes m ?c 4 (At (after_muldiv b) u) (At (after_soft b) v)"
    "soft_passed (regs s SP - 136) (take_exception m s) (pc s + 4) v"
  proof (cases "ALT_TRAP_HANDLER b")
    case True
    then have "?ir \<noteq> trap_instruction" using assms(3) by (simp add: left_to_api_def)
    then have "executes m ?c 4 (At (after_muldiv b) u) (At (after_soft b) (wr 3 trap_instruction u))"
      using trap_path [OF True, of m u] u(3) by simp
    moreover have "soft_passed (regs s SP - 136) (take_exception m s) (pc s + 4) (wr 3 trap_instruction u)"
      by (rule passed_wr [OF u(2)]) (simp add: entry_saved_def)
    ultimately show ?thesis using that by blast
  next
    case False
    then have "after_muldiv b = after_soft b" by (simp add: after_muldiv_def)
    then show ?thesis using that [of u] u by simp
  qed
  from executes_trans [OF t(1) executes_trans [OF u(1) v(1) order_refl], of 90] v(2) show ?thesis by auto
qed

text \<open>C39. With the interface for instruction-related exceptions linked in, an exception of an instruction that
  no other handler takes calls alt_instruction_exception_entry, as a C function of the calling
  convention, with the address of the instruction, and what that returns decides where the program goes on.
  For a value other than 0 (NIOS2_EXCEPTION_RETURN_REISSUE_INST) it goes on behind the
  instruction. For 0 it goes on at the address before what register ea holds when the C code
  returns: at the same instruction if the C code has left ea as it was, and somewhere else if an exception within
  it has changed ea, which the calling convention does not reserve. Status and general registers
  are as before, except ea, which is the address gone to; the rest of the
  system is as the C code left it. If the entry point never returns, neither does the program.\<close>

theorem exception_api_resumes:
  assumes "ALT_INCLUDE_INSTRUCTION_RELATED_EXCEPTION_API b" and "not_interrupted m s" and "insn_apart s"
    and "left_to_api b (memw s (pc s))" and "calls_exception_entry m cfg e"
  shows "case alt_instruction_exception_entry cfg e (pc s) (masked m (world s)) of
     None \<Rightarrow> handled m b 120 s = Lost
   | Some (rc, w) \<Rightarrow> \<exists>t u s'. call_c m Alt_instruction_exception_entry t = Some u
       \<and> regs t 4 = pc s \<and> regs t EA = pc s + 4 \<and> handled m b 120 s = Returned s'
       \<and> pc s' = (if word_of_int rc = (word_of_int NIOS2_EXCEPTION_RETURN_REISSUE_INST :: u32) then regs u EA - 4 else pc s + 4)
       \<and> (regs u EA = regs t EA \<longrightarrow>
            pc s' = (if word_of_int rc = (word_of_int NIOS2_EXCEPTION_RETURN_REISSUE_INST :: u32) then pc s else pc s + 4))
       \<and> regs s' = (regs s)(EA := pc s') \<and> world s' = set_status m (status_of m (world s)) w"
proof -
  let ?c = "exceptions_section b" and ?s = "take_exception m s" and ?b = "regs s SP - 136"
  obtain t where t: "executes m ?c 90 (At ?c ?s) (At (after_soft b) t)" "soft_passed ?b ?s (pc s + 4) t"
    using reach_unknown [OF assms(2-4)] by blast
  let ?call = "call_c m Alt_instruction_exception_entry (wr 4 (regs t EA - 4) t)"
  have ea: "regs t EA = pc s + 4" using t(2) by (simp add: soft_passed_def take_simps entry_saved_def)
  have abi: "follows_abi m Alt_instruction_exception_entry" using assms(5) by (simp add: calls_exception_entry_def)
  have "world t = masked m (world s)" using t(2) by (simp add: soft_passed_def take_simps)
  then have entry: "map_option (\<lambda>u. (rd u 2, world u)) ?call
      = map_option (\<lambda>(rc, w). (word_of_int rc, w)) (alt_instruction_exception_entry cfg e (pc s) (masked m (world s)))"
    using assms(5) by (simp add: calls_exception_entry_def ea)
  show ?thesis
  proof (cases ?call)
    case None
    then have "alt_instruction_exception_entry cfg e (pc s) (masked m (world s)) = None" using entry by simp
    moreover have "executes m ?c 120 (At ?c ?s) Lost"
      by (rule executes_trans [OF t(1) api_path_lost [OF assms(1) None]]) simp
    then have "handled m b 120 s = Lost" by (rule handledI) simp
    ultimately show ?thesis by simp
  next
    case (Some u)
    then obtain rc w where rc: "alt_instruction_exception_entry cfg e (pc s) (masked m (world s)) = Some (rc, w)"
      "rd u 2 = word_of_int rc" "world u = w"
      using entry by (cases "alt_instruction_exception_entry cfg e (pc s) (masked m (world s))") auto
    have f: "framed ?b (regs ?s) (estatus ?s) (pc s + 4) t" using t(2) by (simp add: soft_passed_def)
    define ret where "ret = (if rd u 2 \<noteq> 0 then pc s + 4 else regs u EA - 4)"
    define s' where "s' = resumed m ?b (regs ?s) (estatus ?s) ret (api_state ?b u)"
    have "executes m ?c 120 (At ?c ?s) (Returned s')"
      using executes_trans [OF t(1) api_path [OF assms(1) abi f Some], of 120] by (simp add: s'_def ret_def)
    then have "handled m b 120 s = Returned s'" by (rule handledI) simp
    moreover have "pc s' = (if word_of_int rc = (word_of_int NIOS2_EXCEPTION_RETURN_REISSUE_INST :: u32) then regs u EA - 4 else pc s + 4)"
      using rc(2) by (simp add: s'_def resumed_def ret_def NIOS2_EXCEPTION_RETURN_REISSUE_INST_def)
    moreover have "regs s' = (regs s)(EA := pc s')"
    proof -
      have other: "regs (api_state ?b u) r = regs ?s r" if "r \<notin> set entry_saved \<union> {EA, SP}" for r
      proof -
        have "r \<noteq> 15" "r \<noteq> 4" using that by (auto simp: entry_saved_def)
        then have "regs (api_state ?b u) r = regs (wr 4 (regs t EA - 4) t) r"
          using abi Some that by (auto simp: api_state_def follows_abi_def wr_def)
        also have "\<dots> = regs ?s r" using t(2) that \<open>r \<noteq> 4\<close> by (auto simp: soft_passed_def wr_def)
        finally show ?thesis .
      qed
      have "regs s' = (regs ?s)(EA := ret)" unfolding s'_def by (rule resumed_regs [OF take_sp other])
      moreover have "pc s' = ret" by (simp add: s'_def resumed_def)
      ultimately show ?thesis by (simp add: take_simps)
    qed
    moreover have "world s' = set_status m (status_of m (world s)) w"
      using rc(3) by (simp add: s'_def resumed_def take_simps api_state_def)
    moreover have "regs (wr 4 (regs t EA - 4) t) 4 = pc s" "regs (wr 4 (regs t EA - 4) t) EA = pc s + 4"
      using ea by (simp_all add: wr_def)
    ultimately show ?thesis unfolding rc(1) option.case prod.case
      by (intro exI [of _ "wr 4 (regs t EA - 4) t"] exI [of _ u] exI [of _ s']) (simp add: Some)
  qed
qed

text \<open>A build without the interface, as this one, hands the exception to the debugger.\<close>

theorem unhandled_exception_breaks:
  assumes "\<not> ALT_INCLUDE_INSTRUCTION_RELATED_EXCEPTION_API b" "HAS_DEBUG_STUB b"
    and "not_interrupted m s" "insn_apart s" "left_to_api b (memw s (pc s))"
  shows "\<exists>t. handled m b 120 s = Broken t \<and> world t = masked m (world s)"
proof -
  obtain t where t: "executes m (exceptions_section b) 90 (At (exceptions_section b) (take_exception m s)) (At (after_soft b) t)"
    "soft_passed (regs s SP - 136) (take_exception m s) (pc s + 4) t"
    using reach_unknown [OF assms(3-5)] by blast
  have "executes m (exceptions_section b) 120 (At (exceptions_section b) (take_exception m s)) (Broken t)"
    by (rule executes_trans [OF t(1) no_api_path [OF assms(1,2)]]) simp
  then have "handled m b 120 s = Broken t" by (rule handledI) simp
  moreover have "world t = masked m (world s)" using t(2) by (simp add: soft_passed_def take_simps)
  ultimately show ?thesis by blast
qed

text \<open>The witness's handlers return \<open>rc\<close> and count; the second argument of the machine says what the C code
  does to ea.\<close>

definition counting_env :: "int \<Rightarrow> (u32 \<times> nat) exc_env" where
  "counting_env rc = \<lparr>call_handler = (\<lambda>h cause pc bad s. (rc, s\<lparr>exc_world := apsnd Suc (exc_world s)\<rparr>)), debugger = (\<lambda>s. s)\<rparr>"

definition api_machine :: "int \<Rightarrow> (u32 \<Rightarrow> u32) \<Rightarrow> (u32 \<times> nat) exc_state nios_env" where
  "api_machine rc f = \<lparr>ipending_of = (\<lambda>w. 0), status_of = (\<lambda>w. fst (exc_world w)),
     set_status = (\<lambda>v w. w\<lparr>exc_world := (v, snd (exc_world w))\<rparr>),
     call_c = (\<lambda>_ t. map_option (\<lambda>(rc, w). t\<lparr>world := w, regs := (regs t)(2 := word_of_int rc, 3 := 0xdeadbeef, EA := f (regs t EA))\<rparr>)
        (alt_instruction_exception_entry this_exc_cfg (counting_env rc) (rd t 4) (world t)))\<rparr>"

lemma api_machine_calls: "calls_exception_entry (api_machine rc f) this_exc_cfg (counting_env rc)"
  by (auto simp: calls_exception_entry_def follows_abi_def api_machine_def entry_saved_def option.map_comp comp_def rd_def
      split: prod.splits intro!: option.map_cong)

definition api_world :: "u32 \<Rightarrow> nat \<Rightarrow> (u32 \<times> nat) exc_state" where
  "api_world st n = \<lparr>alt_instruction_exception_handler = 0x5000, alt_exception_ecc_fatal_handler = 0, exception_reg = 0,
     badaddr_reg = 0, exc_world = (st, n)\<rparr>"

text \<open>The instruction at 0x400 is 0, a call, which neither the emulation nor the trap handler takes.\<close>

definition api_program :: "(u32 \<times> nat) exc_state nios" where
  "api_program = \<lparr>regs = (\<lambda>r. 0x1000 + of_nat r), memw = (\<lambda>a. 0), estatus = 0, pc = 0x400, world = api_world 1 7\<rparr>"

lemma api_program_ok:
  "not_interrupted (api_machine rc f) api_program" "insn_apart api_program" "left_to_api demo_build (memw api_program (pc api_program))"
  "ALT_INCLUDE_INSTRUCTION_RELATED_EXCEPTION_API demo_build"
  by (simp_all add: not_interrupted_def api_machine_def insn_apart_def outside_def api_program_def left_to_api_def
      muldiv_insn_def insn_OP_def trap_instruction_def demo_build_def)

lemma api_program_value:
  "alt_instruction_exception_entry this_exc_cfg (counting_env rc) (pc api_program) (masked (api_machine rc f) (world api_program))
     = Some (rc, api_world 0 8)"
  by (simp add: masked_def api_machine_def api_program_def api_world_def NIOS2_PIE_def
      alt_instruction_exception_entry_def this_exc_cfg_def counting_env_def)

text \<open>A handler that skips the instruction; one that has it issued again; and one that has it issued
  again after an exception of the instruction at 0x2000 within it: the program goes on there.\<close>

lemma exception_api_resumes_witness:
  "(\<exists>s'. handled (api_machine 1 id) demo_build 120 api_program = Returned s' \<and> pc s' = 0x404 \<and> regs s' 3 = 0x1003
     \<and> world s' = api_world 1 8)
   \<and> (\<exists>s'. handled (api_machine 0 id) demo_build 120 api_program = Returned s' \<and> pc s' = 0x400)
   \<and> (\<exists>s'. handled (api_machine 0 (\<lambda>_. 0x2004)) demo_build 120 api_program = Returned s' \<and> pc s' = 0x2000)"
proof -
  note resumes = exception_api_resumes [OF api_program_ok(4,1,2,3) api_machine_calls, unfolded api_program_value option.case prod.case]
  have ea: "call_c (api_machine rc f) Alt_instruction_exception_entry t = Some u \<Longrightarrow> regs u EA = f (regs t EA)" for rc f t u
    by (auto simp: api_machine_def)
  have p: "pc api_program = 0x400" by (simp add: api_program_def)
  obtain s1 where "handled (api_machine 1 id) demo_build 120 api_program = Returned s1" "pc s1 = 0x404"
    "regs s1 = (regs api_program)(EA := pc s1)"
    "world s1 = set_status (api_machine 1 id) (status_of (api_machine 1 id) (world api_program)) (api_world 0 8)"
    using resumes [of 1 id] by (auto simp: NIOS2_EXCEPTION_RETURN_REISSUE_INST_def p)
  then have "\<exists>s'. handled (api_machine 1 id) demo_build 120 api_program = Returned s' \<and> pc s' = 0x404 \<and> regs s' 3 = 0x1003
     \<and> world s' = api_world 1 8"
    by (intro exI [of _ s1]) (simp add: api_program_def api_machine_def api_world_def)
  moreover have "\<exists>s'. handled (api_machine 0 id) demo_build 120 api_program = Returned s' \<and> pc s' = 0x400"
    using resumes [of 0 id] ea [of 0 id] by (auto simp: NIOS2_EXCEPTION_RETURN_REISSUE_INST_def p)
  moreover have "\<exists>s'. handled (api_machine 0 (\<lambda>_. 0x2004)) demo_build 120 api_program = Returned s' \<and> pc s' = 0x2000"
    using resumes [of 0 "\<lambda>_. 0x2004"] ea [of 0 "\<lambda>_. 0x2004"] by (auto simp: NIOS2_EXCEPTION_RETURN_REISSUE_INST_def p)
  ultimately show ?thesis by blast
qed

end
