(* ===== verification/UartIrq.thy ===== *)
theory UartIrq
  imports JtagUse ExcProps
begin

text \<open>
  The interrupt of the JTAG UART through all layers: the schedules of the theory JtagUart let the interrupt routine
  run as one step between two accesses of the driver; here that step is what the processor, the code at the
  exception address, the dispatcher and the registered handler do together.
\<close>

subsection \<open>The routine and the status register\<close>

lemma set_cpu_regs:
  "rd_reg b r (set_cpu c s) = (case rd_reg b r s of (v, t) \<Rightarrow> (v, set_cpu c t))"
  "wr_reg b r v (set_cpu c s) = set_cpu c (wr_reg b r v s)"
  "upd_sp f (set_cpu c s) = set_cpu c (upd_sp f s)"
  by (simp_all add: rd_reg_def wr_reg_def upd_sp_def set_cpu_def split: prod.splits)

lemma set_cpu_twice [simp]: "set_cpu c (set_cpu d s) = set_cpu c s" "set_cpu (scpu s) s = s"
  by (simp_all add: set_cpu_def)

lemma isr_rx_cpu:
  assumes "isr_rx b data s = Some (d, s')"
  shows "isr_rx b data (set_cpu c s) = Some (d, set_cpu c s')"
proof -
  from assms have "(\<lambda>b data s (d, s'). isr_rx b data (set_cpu c s) = Some (d, set_cpu c s')) b data s (d, s')"
  proof (induction rule: isr_rx.raw_induct [rotated, consumes 1, case_names step])
    case (step rec b data s y)
    then show ?case
      by (subst isr_rx.simps) (auto simp: set_cpu_regs Let_def split: if_splits prod.splits)
  qed
  then show ?thesis by simp
qed

lemma irq_off_cpu: "irq_off b m (set_cpu c s) = set_cpu c (irq_off b m s)"
  by (simp add: irq_off_def set_cpu_regs Let_def split: prod.splits)

lemma isr_read_cpu: "isr_read b s = Some s' \<Longrightarrow> isr_read b (set_cpu c s) = Some (set_cpu c s')"
proof -
  assume a: "isr_read b s = Some s'"
  then obtain d t where rx: "isr_rx b (push_bit 16 1) s = Some (d, t)"
    by (auto simp: isr_read_def bind_eq_Some_conv)
  from isr_rx_cpu [OF rx, of c] rx a show ?thesis
    by (auto simp: isr_read_def irq_off_cpu)
qed

lemma isr_tx_cpu: "isr_tx b n (set_cpu c s) = (case isr_tx b n s of (k, t) \<Rightarrow> (k, set_cpu c t))"
  by (induction b n s rule: isr_tx.induct) (auto simp: set_cpu_regs Let_def)

lemma isr_write_cpu: "isr_write b control (set_cpu c s) = set_cpu c (isr_write b control s)"
proof -
  define n where "n = unat (drop_bit 16 (control AND JTAG_WSPACE_MSK))"
  have w: "isr_write b control u = (case isr_tx b n u of (k, t) \<Rightarrow> if 0 < k then irq_off b JTAG_WE_MSK t else t)" for u
    by (simp only: isr_write_def n_def Let_def)
  show ?thesis unfolding w isr_tx_cpu by (cases "isr_tx b n s") (simp add: irq_off_cpu)
qed

lemma uart_irq_cpu_Some:
  assumes "jtag_uart_irq b s = Some s'"
  shows "jtag_uart_irq b (set_cpu c s) = Some (set_cpu c s')"
proof -
  from assms have "(\<lambda>b s s'. jtag_uart_irq b (set_cpu c s) = Some (set_cpu c s')) b s s'"
  proof (induction rule: jtag_uart_irq.raw_induct [rotated, consumes 1, case_names step])
    case (step rec b s y)
    obtain v t where rd: "rd_reg b 1 s = (v, t)" by fastforce
    then have rd': "rd_reg b 1 (set_cpu c s) = (v, set_cpu c t)" by (simp add: set_cpu_regs)
    show ?case
    proof (cases "v AND (JTAG_RI_MSK OR JTAG_WI_MSK) = 0")
      case True
      then show ?thesis using step(2) rd by (subst jtag_uart_irq.simps) (simp add: rd')
    next
      case False
      let ?w = "\<lambda>u. if v AND JTAG_WI_MSK \<noteq> 0 then isr_write b v u else u"
      from False step(2) rd obtain u where
        u: "(if v AND JTAG_RI_MSK \<noteq> 0 then isr_read b t else Some t) = Some u" "rec b (?w u) = Some y"
        by (auto simp: bind_eq_Some_conv)
      from u(1) have u': "(if v AND JTAG_RI_MSK \<noteq> 0 then isr_read b (set_cpu c t) else Some (set_cpu c t)) = Some (set_cpu c u)"
        using isr_read_cpu [of b t u c] by (auto split: if_splits)
      have "jtag_uart_irq b (?w (set_cpu c u)) = Some (set_cpu c y)"
        using step(1) [OF u(2)] by (simp add: isr_write_cpu if_distrib cong: if_cong)
      with False u' show ?thesis by (subst jtag_uart_irq.simps) (simp add: rd')
    qed
  qed
  then show ?thesis .
qed

lemma uart_irq_cpu: "jtag_uart_irq b (set_cpu c s) = map_option (set_cpu c) (jtag_uart_irq b s)"
proof (cases "jtag_uart_irq b s")
  case None
  have "jtag_uart_irq b (set_cpu c s) = None"
  proof (rule ccontr)
    assume "jtag_uart_irq b (set_cpu c s) \<noteq> None"
    then obtain t where "jtag_uart_irq b (set_cpu c s) = Some t" by blast
    from uart_irq_cpu_Some [OF this, of "scpu s"] None show False by simp
  qed
  then show ?thesis using None by simp
qed (simp add: uart_irq_cpu_Some)

text \<open>The routine keeps the base address and ends with a control register without requests.\<close>

abbreviation base_of :: "'d usys \<Rightarrow> u32" where
  "base_of s \<equiv> jbase (jsp s)"

lemma rd_reg_base: "rd_reg b r s = (v, t) \<Longrightarrow> base_of t = base_of s"
  using rd_reg_simps(1) by metis

lemma isr_rx_base: "isr_rx b data s = Some (d, s') \<Longrightarrow> base_of s' = base_of s"
proof -
  assume "isr_rx b data s = Some (d, s')"
  then have "(\<lambda>b data s (d, s'). base_of s' = base_of s) b data s (d, s')"
  proof (induction rule: isr_rx.raw_induct [rotated, consumes 1, case_names step])
    case (step rec b data s y)
    then show ?case
      by (auto simp: Let_def rx_store_def split: if_splits prod.splits dest: rd_reg_base)
  qed
  then show ?thesis by simp
qed

lemma irq_off_base: "base_of (irq_off b m s) = base_of s"
  by (auto simp: irq_off_def Let_def rd_reg_def split: prod.splits)

lemma isr_read_base: "isr_read b s = Some s' \<Longrightarrow> base_of s' = base_of s"
  by (auto simp: isr_read_def irq_off_base bind_eq_Some_conv dest: isr_rx_base)

lemma isr_tx_base: "isr_tx b n s = (k, s') \<Longrightarrow> base_of s' = base_of s"
  by (induction b n s arbitrary: k s' rule: isr_tx.induct) (auto simp: Let_def split: if_splits)

lemma isr_write_base: "base_of (isr_write b control s) = base_of s"
  by (auto simp: isr_write_def Let_def irq_off_base split: prod.splits dest: isr_tx_base)

definition requests_read :: "'d bus \<Rightarrow> u32 \<Rightarrow> u32 \<Rightarrow> 'd usys \<Rightarrow> bool" where
  "requests_read b bs v s' \<longleftrightarrow> (\<exists>s. rd_reg b 1 s = (v, s') \<and> base_of s = bs)"

lemma uart_irq_ends:
  assumes "jtag_uart_irq b s = Some s'"
  shows "\<exists>v. requests_read b (base_of s) v s' \<and> v AND (JTAG_RI_MSK OR JTAG_WI_MSK) = 0"
proof -
  from assms have "(\<lambda>b s s'. \<exists>v. requests_read b (base_of s) v s' \<and> v AND (JTAG_RI_MSK OR JTAG_WI_MSK) = 0) b s s'"
  proof (induction rule: jtag_uart_irq.raw_induct [rotated, consumes 1, case_names step])
    case (step rec b s y)
    obtain v t where rd: "rd_reg b 1 s = (v, t)" by fastforce
    show ?case
    proof (cases "v AND (JTAG_RI_MSK OR JTAG_WI_MSK) = 0")
      case True
      then show ?thesis using step(2) rd by (auto simp: requests_read_def)
    next
      case False
      let ?w = "\<lambda>u. if v AND JTAG_WI_MSK \<noteq> 0 then isr_write b v u else u"
      from False step(2) rd obtain u where
        u: "(if v AND JTAG_RI_MSK \<noteq> 0 then isr_read b t else Some t) = Some u" "rec b (?w u) = Some y"
        by (auto simp: bind_eq_Some_conv)
      have "base_of u = base_of t" using u(1) isr_read_base [of b t u] by (auto split: if_splits)
      then have "base_of (?w u) = base_of s" using rd_reg_base [OF rd] by (simp add: isr_write_base)
      with step(1) [OF u(2)] show ?thesis by simp
    qed
  qed
  then show ?thesis .
qed

subsection \<open>The line, the dispatcher and the processor\<close>

text \<open>The interrupt lines are a function of the hardware's state; what the ipending register shows is masked by
  ienable. The handler registered for the UART is its routine with its state as the context; no other handler
  is called.\<close>

definition uart_env :: "'d bus \<Rightarrow> ('d \<Rightarrow> u32) \<Rightarrow> u32 \<Rightarrow> u32 \<Rightarrow> 'd usys isr_env" where
  "uart_env b lines isr spa = \<lparr>cpu_of = scpu, pending = (\<lambda>s. lines (dev (jw (app s))) AND ienable (scpu s)),
     call = (\<lambda>h ctxt s. if h = isr \<and> ctxt = spa then jtag_uart_irq b s else None)\<rparr>"

text \<open>The core's documentation: it holds its line low when its control register shows neither of the
  two requests.\<close>

definition line_follows :: "'d bus \<Rightarrow> u32 \<Rightarrow> ('d \<Rightarrow> u32) \<Rightarrow> u32 \<Rightarrow> bool" where
  "line_follows b bs lines irq \<longleftrightarrow> (\<forall>d v d'. bus_rd b d (bs + 4) = (v, d') \<longrightarrow>
     v AND (JTAG_RI_MSK OR JTAG_WI_MSK) = 0 \<longrightarrow> \<not> bit (lines d') (unat irq))"

lemma uart_irq_lowers:
  assumes "jtag_uart_irq b s = Some s'" "line_follows b (base_of s) lines irq"
  shows "\<not> bit (lines (dev (jw (app s')))) (unat irq)"
proof -
  obtain v t where v: "rd_reg b 1 t = (v, s')" "base_of t = base_of s" "v AND (JTAG_RI_MSK OR JTAG_WI_MSK) = 0"
    using uart_irq_ends [OF assms(1)] by (auto simp: requests_read_def)
  obtain d' where d': "bus_rd b (dev (jw (app t))) (jbase (jsp t) + 4) = (v, d')" "dev (jw (app s')) = d'"
    using v(1) by (cases "bus_rd b (dev (jw (app t))) (jbase (jsp t) + 4)") (auto simp: rd_reg_def IORD_conv Let_def)
  with v(2,3) assms(2) show ?thesis unfolding line_follows_def by metis
qed

lemma uart_irq_keeps_cpu: "jtag_uart_irq b s = Some s' \<Longrightarrow> scpu s' = scpu s"
  using uart_irq_cpu [of b "scpu s" s] by (metis option.inject option.simps(9) set_cpu_simps(2) set_cpu_twice(2))

text \<open>The processor as initialisation leaves it: one interrupt is registered and enabled.\<close>

lemma one_bit:
  assumes "irq < 32" "l AND push_bit (unat irq) 1 \<noteq> (0 :: u32)"
  shows "lowest (l AND push_bit (unat irq) 1) = unat irq"
proof -
  have "bit (l AND push_bit (unat irq) 1) (lowest (l AND push_bit (unat irq) 1))"
    using lowest_bit [OF assms(2)] by blast
  then show ?thesis by (simp only: bit_and_iff bit_one_shift)
qed

lemma uart_dispatch:
  assumes cpu: "scpu s = (registered irq isr spa cpu_init)\<lparr>status := st\<rparr>" and irq: "irq < 32" "isr \<noteq> 0"
    and line: "bit (lines (dev (jw (app s)))) (unat irq)" and low: "line_follows b (base_of s) lines irq"
  shows "alt_irq_handler (uart_env b lines isr spa) s = jtag_uart_irq b s"
proof -
  let ?e = "uart_env b lines isr spa"
  have u: "unat irq < 32" using irq(1) by (simp add: word_less_nat_alt)
  have en: "ienable (scpu s) = push_bit (unat irq) 1" and tab: "irq_table (scpu s) ! unat irq = (isr, spa)" "length (irq_table (scpu s)) = 32"
    using u irq(2) by (simp_all add: cpu registered_def cpu_init_def Let_def)
  have p: "alt_irq_pending ?e t = lines (dev (jw (app t))) AND push_bit (unat irq) 1" if "scpu t = scpu s" for t
    using that en by (simp add: alt_irq_pending_def uart_env_def)
  have high: "alt_irq_pending ?e s \<noteq> 0" using line u by (simp add: p and_shift_zero)
  have "dispatch_one ?e (alt_irq_pending ?e s) s = jtag_uart_irq b s"
    using dispatch_lowest [OF high, of ?e s] one_bit [OF irq(1) high [unfolded p [OF refl]]] tab irq(2)
    by (simp add: p [OF refl]) (simp add: uart_env_def)
  moreover have "alt_irq_pending ?e t = 0" if "jtag_uart_irq b s = Some t" for t
    using uart_irq_lowers [OF that low] p [OF uart_irq_keeps_cpu [OF that]] by (simp add: and_shift_zero)
  ultimately show ?thesis
    unfolding alt_irq_handler_def
    by (subst irq_handler_loop.simps) (auto simp: bind_eq_None_conv split: Option.bind_splits)
qed

subsection \<open>All layers\<close>

text \<open>The processor of the exception handler over the driver's system: the status register is the one
  of the theory Irq. What the compiled dispatcher does to registers and stack is the parameter
  \<open>cc\<close>.\<close>

definition uart_machine :: "'d bus \<Rightarrow> ('d \<Rightarrow> u32) \<Rightarrow> u32 \<Rightarrow> u32 \<Rightarrow> (cfunction \<Rightarrow> 'd usys nios \<Rightarrow> 'd usys nios option) \<Rightarrow> 'd usys nios_env" where
  "uart_machine b lines isr spa cc = \<lparr>ipending_of = alt_irq_pending (uart_env b lines isr spa),
     status_of = (\<lambda>s. status (scpu s)), set_status = (\<lambda>v s. set_cpu ((scpu s)\<lparr>status := v\<rparr>) s), call_c = cc\<rparr>"

text \<open>The system after initialisation, in any later state of the driver and the core: the
  registration is still there.\<close>

definition registered_state :: "'d usys \<Rightarrow> 'd usys \<Rightarrow> bool" where
  "registered_state s1 s \<longleftrightarrow> (\<exists>st. scpu s = (scpu s1)\<lparr>status := st\<rparr>)"

lemma init_cpu:
  assumes "jtag_uart_init e b isr tmo spa al ic irq s0 = Some s1" "scpu s0 = cpu_init" "irq < 32"
  shows "scpu s1 = registered irq isr spa cpu_init"
proof -
  have lt: "irq < 0x80000000" using assms(3) by (rule order.strict_trans) simp
  have c: "alt_ic_isr_register ic irq isr spa 0 cpu_init = Some (0, registered irq isr spa cpu_init)"
    using assms(3) lt by (simp add: alt_ic_isr_register_def iic_conv register_conv)
  have al: "scpu (snd (alt_alarm_start e a n f x s)) = scpu s" for a n f x and s :: "'a usys"
    by (auto simp: alt_alarm_start_def upd_alarm_def Let_def alt_irq_disable_all_def alt_irq_enable_all_def)
  show ?thesis
    using assms(1,2) c al by (auto simp: jtag_uart_init_def Let_def split: prod.splits if_splits) (metis set_cpu_simps(2) snd_conv upd_sp_simps(3))+
qed

text \<open>C40. The atomic interrupt of the driver's schedules is implemented: on a system started by
  ALTERA_AVALON_JTAG_UART_INIT, in any later state with interrupts on and the UART's line high, let the
  processor take the interrupt before any instruction. Then the code at the exception address, with
  alt_irq_handler, the table that initialisation filled and the routine it registered, does what
  a Uart_irq of a schedule does in one step: it fails to return exactly if that step does, and
  otherwise the program goes on at the same instruction, with its registers except the exception
  return address, and the driver, the core and the processor are in exactly the state after the step.
  The core holds its line low when its control register shows no request.\<close>

theorem uart_interrupt_implemented:
  assumes "jtag_uart_init e b isr tmo spa al ic irq s0 = Some s1" and "scpu s0 = cpu_init" and "irq < 32" and "isr \<noteq> 0"
    and "registered_state s1 (world p)" and "alt_irq_enabled (scpu (world p)) \<noteq> 0"
    and "bit (lines (dev (jw (app (world p))))) (unat irq)" and "line_follows b (base_of (world p)) lines irq"
    and "calls_dispatcher (uart_machine b lines isr spa cc) (uart_env b lines isr spa)"
  shows "case pt b [Uart_irq] (world p) of
     None \<Rightarrow> handled (uart_machine b lines isr spa cc) bld 60 p = Lost
   | Some (xs, s') \<Rightarrow> \<exists>p'. handled (uart_machine b lines isr spa cc) bld 60 p = Returned p'
       \<and> pc p' = pc p \<and> regs p' = (regs p)(EA := pc p) \<and> world p' = s'"
proof -
  let ?m = "uart_machine b lines isr spa cc" and ?e = "uart_env b lines isr spa" and ?s = "world p"
  define c where "c = (scpu ?s)\<lparr>status := status (scpu ?s) AND NOT NIOS2_PIE\<rparr>"
  have mask: "masked ?m ?s = set_cpu c ?s" by (simp add: masked_def uart_machine_def c_def)
  obtain st where st: "scpu ?s = (registered irq isr spa cpu_init)\<lparr>status := st\<rparr>"
    using assms(5) init_cpu [OF assms(1-3)] by (auto simp: registered_state_def)
  have cpu: "scpu (set_cpu c ?s) = (registered irq isr spa cpu_init)\<lparr>status := status (scpu ?s) AND NOT NIOS2_PIE\<rparr>"
    by (simp add: c_def st)
  have d: "alt_irq_handler ?e (set_cpu c ?s) = map_option (set_cpu c) (jtag_uart_irq b ?s)"
    using uart_dispatch [OF cpu assms(3,4)] assms(7,8) by (simp add: uart_irq_cpu)
  have "status_of ?m ?s AND NIOS2_PIE \<noteq> 0"
    using assms(6) by (simp add: uart_machine_def alt_irq_enabled_def NIOS2_STATUS_PIE_MSK_def NIOS2_PIE_def)
  moreover have "alt_irq_pending ?e (masked ?m ?s) \<noteq> 0"
  proof -
    have "unat irq < 32" using assms(3) by (simp add: word_less_nat_alt)
    moreover have "ienable c = push_bit (unat irq) 1" by (simp add: c_def st registered_def Let_def assms(4) cpu_init_def)
    ultimately show ?thesis using assms(7) by (simp add: mask alt_irq_pending_def uart_env_def)
  qed
  ultimately have h: "case alt_irq_handler ?e (masked ?m ?s) of
     None \<Rightarrow> handled ?m bld 60 p = Lost
   | Some w \<Rightarrow> \<exists>s'. handled ?m bld 60 p = Returned s' \<and> pc s' = pc p \<and> regs s' = (regs p)(EA := pc p)
       \<and> world s' = set_status ?m (status_of ?m ?s) w"
    using assms(9) by (rule interrupt_handled)
  have pt: "pt b [Uart_irq] ?s = map_option (Pair []) (jtag_uart_irq b ?s)" using assms(6) by simp
  show ?thesis
  proof (cases "jtag_uart_irq b ?s")
    case None
    then show ?thesis using h by (simp add: pt mask d del: pt.simps)
  next
    case (Some s')
    have "set_status ?m (status_of ?m ?s) (set_cpu c s') = s'"
      using uart_irq_keeps_cpu [OF Some] by (simp add: uart_machine_def c_def) (metis set_cpu_twice(2))
    with h show ?thesis by (simp add: pt mask d Some del: pt.simps)
  qed
qed

text \<open>The witness: the core of the theory JtagUse with two characters typed, and a program at
  0x400. The compiled dispatcher overwrites every register that it may.\<close>

definition core_lines :: "core \<Rightarrow> u32" where
  "core_lines d = (if enables d AND JTAG_RE_MSK \<noteq> 0 \<and> typed d \<noteq> [] \<or> enables d AND JTAG_WE_MSK \<noteq> 0 then 0x20 else 0)"

definition core_env :: "core usys isr_env" where
  "core_env = uart_env core_bus core_lines 0x1000 0x3000"

definition core_cc :: "cfunction \<Rightarrow> core usys nios \<Rightarrow> core usys nios option" where
  "core_cc f t = map_option (\<lambda>w. t\<lparr>world := w,
     regs := (\<lambda>r. if r \<in> set entry_saved \<union> {EA} then 0xdeadbeef else regs t r)\<rparr>) (alt_irq_handler core_env (world t))"

definition core_machine :: "core usys nios_env" where
  "core_machine = uart_machine core_bus core_lines 0x1000 0x3000 core_cc"

definition core_started :: "core usys option" where
  "core_started = jtag_uart_init core_alarms core_bus 0x1000 0x2000 0x3000 0x200 0 5 (set_cpu cpu_init (core_sys [72, 105]))"

definition core_program :: "core usys nios" where
  "core_program = \<lparr>regs = (\<lambda>r. 0x1000 + of_nat r), memw = (\<lambda>a. 0), estatus = 0, pc = 0x400,
     world = (let s = the core_started in set_cpu ((scpu s)\<lparr>status := 1\<rparr>) s)\<rparr>"

lemma core_started_some: "core_started \<noteq> None"
  by code_simp

lemma core_interrupt: "map_option (\<lambda>(xs, s). rxq s) (pt core_bus [Uart_irq] (world core_program)) = Some [72, 105]"
  by code_simp

lemma core_line: "core_lines (dev (jw (app (world core_program)))) = 0x20" "base_of (world core_program) = 0"
  by code_simp+

lemma no_requests: "v AND 0x300 = 0 \<Longrightarrow> \<not> bit v 8 \<and> \<not> bit (v :: u32) 9"
proof -
  assume "v AND 0x300 = 0"
  then have "\<not> bit (v AND 0x300) 8" "\<not> bit (v AND 0x300) 9" by simp_all
  then show ?thesis by (simp add: bit_and_iff)
qed

lemma core_line_follows: "line_follows core_bus 0 core_lines 5"
  by (auto simp: line_follows_def core_bus_def core_read_def core_lines_def bit_or_iff JTAG_RI_MSK_def JTAG_WI_MSK_def
      dest!: no_requests split: if_splits)

lemma core_calls: "calls_dispatcher core_machine core_env"
  by (auto simp: calls_dispatcher_def follows_abi_def core_machine_def uart_machine_def core_cc_def core_env_def
      option.map_comp comp_def option.map_ident)

lemma uart_interrupt_implemented_witness:
  "\<exists>xs s' p'. pt core_bus [Uart_irq] (world core_program) = Some (xs, s') \<and> rxq s' = [72, 105]
     \<and> handled core_machine this_exc_build 60 core_program = Returned p' \<and> pc p' = 0x400 \<and> world p' = s'"
proof -
  obtain s1 where s1: "core_started = Some s1" using core_started_some by blast
  have reg: "registered_state s1 (world core_program)"
    by (auto simp: registered_state_def core_program_def s1)
  have on: "alt_irq_enabled (scpu (world core_program)) \<noteq> 0"
    by (simp add: core_program_def Let_def alt_irq_enabled_def NIOS2_STATUS_PIE_MSK_def)
  have line: "bit (core_lines (dev (jw (app (world core_program))))) (unat (5 :: u32))"
    by (simp add: core_line)
  have base: "line_follows core_bus (base_of (world core_program)) core_lines 5"
    by (simp only: core_line(2) core_line_follows)
  have ir: "(5 :: u32) < 32" "(0x1000 :: u32) \<noteq> 0" "scpu (set_cpu cpu_init (core_sys [72, 105])) = cpu_init" by simp_all
  note h = uart_interrupt_implemented [OF s1 [unfolded core_started_def] ir(3,1,2) reg on line base
      core_calls [unfolded core_machine_def core_env_def], of this_exc_build, folded core_machine_def]
  obtain xs s' where pt: "pt core_bus [Uart_irq] (world core_program) = Some (xs, s')" "rxq s' = [72, 105]"
    using core_interrupt by (auto simp del: pt.simps)
  from h obtain p' where "handled core_machine this_exc_build 60 core_program = Returned p'" "pc p' = pc core_program" "world p' = s'"
    by (simp only: pt option.case prod.case) blast
  with pt show ?thesis by (auto simp: core_program_def simp del: pt.simps)
qed

end
