(* ===== verification/Process.thy ===== *)
theory Process
  imports Boot
begin

text \<open>
  The system calls about processes and links, of which there is one and there are none: \<open>alt_kill.c\<close>,
  \<open>alt_getpid.c\<close>, \<open>alt_wait.c\<close>, \<open>alt_fork.c\<close>, \<open>alt_execve.c\<close>, \<open>alt_link.c\<close>, \<open>alt_unlink.c\<close> and
  \<open>alt_rename.c\<close>. A call gives its result and the state of the POSIX layer, whose \<open>errno\<close> it
  sets; a call that ends the program gives what \<open>_exit\<close> gives. Signal numbers are newlib's.
\<close>

definition ECHILD :: int where "ECHILD = 10"

definition SIGQUIT :: int where "SIGQUIT = 3"
definition SIGILL :: int where "SIGILL = 4"
definition SIGTRAP :: int where "SIGTRAP = 5"
definition SIGABRT :: int where "SIGABRT = 6"
definition SIGFPE :: int where "SIGFPE = 8"
definition SIGKILL :: int where "SIGKILL = 9"
definition SIGBUS :: int where "SIGBUS = 10"
definition SIGSEGV :: int where "SIGSEGV = 11"
definition SIGSYS :: int where "SIGSYS = 12"
definition SIGPIPE :: int where "SIGPIPE = 13"
definition SIGALRM :: int where "SIGALRM = 14"
definition SIGTERM :: int where "SIGTERM = 15"
definition SIGURG :: int where "SIGURG = 16"
definition SIGCHLD :: int where "SIGCHLD = 20"
definition SIGPOLL :: int where "SIGPOLL = 23"
definition SIGXCPU :: int where "SIGXCPU = 24"
definition SIGXFSZ :: int where "SIGXFSZ = 25"
definition SIGVTALRM :: int where "SIGVTALRM = 26"
definition SIGPROF :: int where "SIGPROF = 27"
definition SIGUSR1 :: int where "SIGUSR1 = 30"
definition SIGUSR2 :: int where "SIGUSR2 = 31"

lemmas signal_defs = SIGQUIT_def SIGILL_def SIGTRAP_def SIGABRT_def SIGFPE_def SIGKILL_def SIGBUS_def
  SIGSEGV_def SIGSYS_def SIGPIPE_def SIGALRM_def SIGTERM_def SIGURG_def SIGCHLD_def SIGPOLL_def
  SIGXCPU_def SIGXFSZ_def SIGVTALRM_def SIGPROF_def SIGUSR1_def SIGUSR2_def

subsection \<open>kill\<close>

text \<open>The signals of the second case of the switch.\<close>

definition exit_signals :: "int list" where
  "exit_signals = [SIGABRT, SIGALRM, SIGFPE, SIGILL, SIGKILL, SIGPIPE, SIGQUIT, SIGSEGV, SIGTERM, SIGUSR1,
     SIGUSR2, SIGBUS, SIGPOLL, SIGPROF, SIGSYS, SIGTRAP, SIGVTALRM, SIGXCPU, SIGXFSZ]"

definition kill_end :: "int \<Rightarrow> 'd hal \<Rightarrow> int \<times> 'd hal" where
  "kill_end rc s = (if rc \<noteq> 0 then (- 1, set_errno rc s) else (0, s))"

definition alt_kill :: "int \<Rightarrow> int \<Rightarrow> 'd hal \<Rightarrow> (bool \<times> 'd hal) + (int \<times> 'd hal)" where
  "alt_kill pid sig s =
     (if pid \<le> 0
      then (if sig = 0 then Inr (kill_end 0 s)
            else if sig \<in> set exit_signals then Inl (alt_exit 0 s)
            else if sig = SIGCHLD \<or> sig = SIGURG then Inr (kill_end 0 s)
            else Inr (kill_end EINVAL s))
      else Inr (kill_end ESRCH s))"

subsection \<open>The other calls\<close>

definition alt_getpid :: int where "alt_getpid = 0"

definition alt_fork :: "'d hal \<Rightarrow> int \<times> 'd hal" where
  "alt_fork s = (- 1, set_errno ENOSYS s)"

definition alt_execve :: "string \<Rightarrow> string list \<Rightarrow> string list \<Rightarrow> 'd hal \<Rightarrow> int \<times> 'd hal" where
  "alt_execve name argv env s = (- 1, set_errno ENOSYS s)"

text \<open>Also gives the status it stores.\<close>

definition alt_wait :: "'d hal \<Rightarrow> int \<times> int \<times> 'd hal" where
  "alt_wait s = (- 1, 0, set_errno ECHILD s)"

definition alt_link :: "string \<Rightarrow> string \<Rightarrow> 'd hal \<Rightarrow> int \<times> 'd hal" where
  "alt_link existing new s = (- 1, set_errno ENOSYS s)"

definition alt_unlink :: "string \<Rightarrow> 'd hal \<Rightarrow> int \<times> 'd hal" where
  "alt_unlink name s = (- 1, set_errno ENOSYS s)"

definition alt_rename :: "string \<Rightarrow> string \<Rightarrow> 'd hal \<Rightarrow> int \<times> 'd hal" where
  "alt_rename existing new s = (- 1, set_errno ENOSYS s)"

subsection \<open>Properties\<close>

text \<open>Only \<open>errno\<close> is set.\<close>

lemma set_errno_frame: "fd_list (set_errno n s) = fd_list s" "alt_max_fd (set_errno n s) = alt_max_fd s"
  "dlinks (set_errno n s) = dlinks s" "devs (set_errno n s) = devs s" "drv (set_errno n s) = drv s"
  "errno (set_errno n s) = n"
  by (simp_all add: set_errno_def)

lemma signals_disjoint: "0 \<notin> set exit_signals" "SIGCHLD \<notin> set exit_signals" "SIGURG \<notin> set exit_signals"
  by (simp_all add: exit_signals_def signal_defs)

text \<open>What is true of every one of the calls that are not supported.\<close>

definition unsupported :: "int \<Rightarrow> 'd hal \<Rightarrow> int \<times> 'd hal \<Rightarrow> bool" where
  "unsupported e s r \<longleftrightarrow> fst r = - 1 \<and> errno (snd r) = e \<and> fd_list (snd r) = fd_list s
     \<and> alt_max_fd (snd r) = alt_max_fd s \<and> dlinks (snd r) = dlinks s \<and> devs (snd r) = devs s \<and> drv (snd r) = drv s"

lemma unsupported_set_errno: "unsupported e s (- 1, set_errno e s)"
  by (simp add: unsupported_def set_errno_frame)

lemma unsupported_calls:
  "unsupported ENOSYS s (alt_fork s)" "unsupported ENOSYS s (alt_execve name argv env s)"
  "unsupported ENOSYS s (alt_link old new s)" "unsupported ENOSYS s (alt_unlink name s)"
  "unsupported ENOSYS s (alt_rename old new s)"
  "alt_wait s = (r, st, s') \<Longrightarrow> st = 0 \<and> unsupported ECHILD s (r, s')"
  by (auto simp: alt_fork_def alt_execve_def alt_link_def alt_unlink_def alt_rename_def alt_wait_def unsupported_set_errno)

text \<open>Signals. kill ends the program exactly for the signals whose default is to do so - abort's among
  them - sent to the program itself (its own process id, 0 or a negative one), at once and in the
  state it is in, and is reported as a pass to a simulator, as exit code 0 is; it succeeds and changes
  nothing exactly for the null signal, SIGCHLD and SIGURG sent to the program itself; otherwise it
  returns -1 and changes nothing but errno, which is ESRCH for another process id and EINVAL
  for any other signal. So a signal the program sends to itself never fails with ESRCH.\<close>

theorem kill_outcome:
  "((\<exists>x. alt_kill pid sig s = Inl x) \<longleftrightarrow> pid \<le> 0 \<and> sig \<in> set exit_signals)
   \<and> (\<forall>v s'. alt_kill pid sig s = Inl (v, s') \<longrightarrow> v \<and> s' = s)
   \<and> (alt_kill pid sig s = Inr (0, s) \<longleftrightarrow> pid \<le> 0 \<and> sig \<in> {0, SIGCHLD, SIGURG})
   \<and> (\<forall>r s'. alt_kill pid sig s = Inr (r, s') \<longrightarrow> r \<noteq> 0 \<longrightarrow>
        unsupported (if pid \<le> 0 then EINVAL else ESRCH) s (r, s'))
   \<and> alt_kill alt_getpid sig s = alt_kill 0 sig s"
proof -
  have "EINVAL \<noteq> 0" "ESRCH \<noteq> 0" by (simp_all add: errno_defs)
  then show ?thesis using signals_disjoint
    by (auto simp: alt_kill_def kill_end_def unsupported_set_errno alt_exit_def alt_getpid_def)
qed

lemma kill_outcome_witness:
  "alt_kill 0 SIGTERM demo_hal = Inl (True, demo_hal) \<and> alt_kill 0 SIGCHLD demo_hal = Inr (0, demo_hal) \<and> errno (snd (projr (alt_kill 7 SIGTERM demo_hal))) = ESRCH
     \<and> errno (snd (projr (alt_kill (- 1) 2 demo_hal))) = EINVAL"
proof -
  obtain v t where k: "alt_kill 0 SIGTERM demo_hal = Inl (v, t)"
    using kill_outcome [of 0 SIGTERM demo_hal] by (auto simp: exit_signals_def)
  have "v" "t = demo_hal" using kill_outcome [of 0 SIGTERM demo_hal] k by blast+
  moreover have "alt_kill 0 SIGCHLD demo_hal = Inr (0, demo_hal)" using kill_outcome [of 0 SIGCHLD demo_hal] by simp
  ultimately show ?thesis using k
    by (simp add: alt_kill_def kill_end_def set_errno_frame exit_signals_def signal_defs errno_defs)
qed

end
