(* ===== verification/Channels.thy ===== *)
theory Channels
  imports FdTable Cache "HOL-Library.Monad_Syntax"
begin

text \<open>
  DMA channels and flash devices: the structures and inline functions of \<open>alt_dma_dev.h\<close>,
  \<open>alt_dma.h\<close>, \<open>alt_flash_types.h\<close>, \<open>alt_flash_dev.h\<close> and \<open>alt_flash.h\<close>, and
  \<open>alt_dma_txchan_open.c\<close>, \<open>alt_dma_rxchan_open.c\<close> and \<open>alt_flash_dev.c\<close>. They use the lists and
  the search of the device registry: a structure begins as a device does, with its links and its
  name, which are in the state of the POSIX layer; the rest of a structure does not change and is in the
  environment, as are the drivers behind the function pointers. \<open>None\<close> is a call or an
  access through a null pointer, or a search or flush that does not end.
\<close>

subsection \<open>Structures\<close>

record alt_dma_txchan_dev =
  tx_space :: u32
  tx_dma_send :: u32
  tx_ioctl :: u32

record alt_dma_rxchan_dev =
  rx_depth :: u32
  rx_prepare :: u32
  rx_ioctl :: u32

record flash_region =
  roffset :: int
  region_size :: int
  number_of_blocks :: int
  block_size :: int

record alt_flash_dev =
  fopen :: u32
  fclose :: u32
  fwrite :: u32
  fread :: u32
  fget_info :: u32
  ferase_block :: u32
  fwrite_block :: u32
  base_addr :: u32
  flength :: int
  number_of_regions :: int
  region_info :: "flash_region list"

text \<open>A driver function gets its own address, the descriptor and its arguments, pointers as addresses.\<close>

record 'd chan_env =
  reg_env :: "'d hal_env"
  alt_dma_txchan_list :: ptr
  alt_dma_rxchan_list :: ptr
  alt_flash_dev_list :: ptr
  tx_dev :: "ptr \<Rightarrow> alt_dma_txchan_dev"
  rx_dev :: "ptr \<Rightarrow> alt_dma_rxchan_dev"
  flash_dev :: "ptr \<Rightarrow> alt_flash_dev"
  call_space :: "u32 \<Rightarrow> ptr \<Rightarrow> 'd hal \<Rightarrow> int \<times> 'd hal"
  call_post :: "u32 \<Rightarrow> ptr \<Rightarrow> u32 \<Rightarrow> u32 \<Rightarrow> u32 \<Rightarrow> u32 \<Rightarrow> 'd hal \<Rightarrow> int \<times> 'd hal"
  call_ioctl :: "u32 \<Rightarrow> ptr \<Rightarrow> u32 \<Rightarrow> u32 \<Rightarrow> 'd hal \<Rightarrow> int \<times> 'd hal"
  call_open :: "u32 \<Rightarrow> ptr \<Rightarrow> string \<Rightarrow> 'd hal \<Rightarrow> ptr \<times> 'd hal"
  call_close :: "u32 \<Rightarrow> ptr \<Rightarrow> 'd hal \<Rightarrow> int \<times> 'd hal"
  call_rw :: "u32 \<Rightarrow> ptr \<Rightarrow> u32 \<Rightarrow> u32 \<Rightarrow> u32 \<Rightarrow> 'd hal \<Rightarrow> int \<times> 'd hal"
  call_info :: "u32 \<Rightarrow> ptr \<Rightarrow> u32 \<Rightarrow> u32 \<Rightarrow> 'd hal \<Rightarrow> int \<times> 'd hal"
  call_erase :: "u32 \<Rightarrow> ptr \<Rightarrow> u32 \<Rightarrow> 'd hal \<Rightarrow> int \<times> 'd hal"
  call_block :: "u32 \<Rightarrow> ptr \<Rightarrow> u32 \<Rightarrow> u32 \<Rightarrow> u32 \<Rightarrow> u32 \<Rightarrow> 'd hal \<Rightarrow> int \<times> 'd hal"

text \<open>A call through a function pointer.\<close>

definition through :: "u32 \<Rightarrow> 'a \<Rightarrow> 'a option" where
  "through f x = (if f = 0 then None else Some x)"

subsection \<open>DMA channels\<close>

definition alt_dma_txchan_reg :: "'d chan_env \<Rightarrow> ptr \<Rightarrow> 'd hal \<Rightarrow> int \<times> 'd hal" where
  "alt_dma_txchan_reg e dev s = alt_dev_llist_insert dev (alt_dma_txchan_list e) s"

definition alt_dma_rxchan_reg :: "'d chan_env \<Rightarrow> ptr \<Rightarrow> 'd hal \<Rightarrow> int \<times> 'd hal" where
  "alt_dma_rxchan_reg e dev s = alt_dev_llist_insert dev (alt_dma_rxchan_list e) s"

definition alt_dma_txchan_open :: "'d chan_env \<Rightarrow> string \<Rightarrow> 'd hal \<Rightarrow> (ptr \<times> 'd hal) option" where
  "alt_dma_txchan_open e name s = do {
     dev \<leftarrow> alt_find_dev (reg_env e) name (alt_dma_txchan_list e) s;
     let s = (if dev = 0 then set_errno ENODEV s else s);
     Some (dev, s) }"

definition alt_dma_rxchan_open :: "'d chan_env \<Rightarrow> string \<Rightarrow> 'd hal \<Rightarrow> (ptr \<times> 'd hal) option" where
  "alt_dma_rxchan_open e name s = do {
     dev \<leftarrow> alt_find_dev (reg_env e) name (alt_dma_rxchan_list e) s;
     let s = (if dev = 0 then set_errno ENODEV s else s);
     Some (dev, s) }"

definition alt_dma_txchan_close :: "ptr \<Rightarrow> int" where "alt_dma_txchan_close dma = 0"
definition alt_dma_rxchan_close :: "ptr \<Rightarrow> int" where "alt_dma_rxchan_close dma = 0"

definition alt_dma_txchan_send ::
  "'d chan_env \<Rightarrow> ptr \<Rightarrow> u32 \<Rightarrow> u32 \<Rightarrow> u32 \<Rightarrow> u32 \<Rightarrow> 'd hal \<Rightarrow> (int \<times> 'd hal) option" where
  "alt_dma_txchan_send e dma src len d handle s =
     (if dma \<noteq> 0
      then through (tx_dma_send (tx_dev e dma)) (call_post e (tx_dma_send (tx_dev e dma)) dma src len d handle s)
      else Some (- ENODEV, s))"

definition alt_dma_txchan_space :: "'d chan_env \<Rightarrow> ptr \<Rightarrow> 'd hal \<Rightarrow> (int \<times> 'd hal) option" where
  "alt_dma_txchan_space e dma s =
     (if dma \<noteq> 0 then through (tx_space (tx_dev e dma)) (call_space e (tx_space (tx_dev e dma)) dma s)
      else Some (- ENODEV, s))"

definition alt_dma_txchan_ioctl :: "'d chan_env \<Rightarrow> ptr \<Rightarrow> u32 \<Rightarrow> u32 \<Rightarrow> 'd hal \<Rightarrow> (int \<times> 'd hal) option" where
  "alt_dma_txchan_ioctl e dma req arg s =
     (if dma \<noteq> 0 then through (tx_ioctl (tx_dev e dma)) (call_ioctl e (tx_ioctl (tx_dev e dma)) dma req arg s)
      else Some (- ENODEV, s))"

definition alt_dma_rxchan_prepare ::
  "'d chan_env \<Rightarrow> ptr \<Rightarrow> u32 \<Rightarrow> u32 \<Rightarrow> u32 \<Rightarrow> u32 \<Rightarrow> 'd hal \<Rightarrow> (int \<times> 'd hal) option" where
  "alt_dma_rxchan_prepare e dma dat len d handle s =
     (if dma \<noteq> 0
      then through (rx_prepare (rx_dev e dma)) (call_post e (rx_prepare (rx_dev e dma)) dma dat len d handle s)
      else Some (- ENODEV, s))"

definition alt_dma_rxchan_ioctl :: "'d chan_env \<Rightarrow> ptr \<Rightarrow> u32 \<Rightarrow> u32 \<Rightarrow> 'd hal \<Rightarrow> (int \<times> 'd hal) option" where
  "alt_dma_rxchan_ioctl e dma req arg s =
     (if dma \<noteq> 0 then through (rx_ioctl (rx_dev e dma)) (call_ioctl e (rx_ioctl (rx_dev e dma)) dma req arg s)
      else Some (- ENODEV, s))"

text \<open>The only function without a test for null.\<close>

definition alt_dma_rxchan_depth :: "'d chan_env \<Rightarrow> ptr \<Rightarrow> u32 option" where
  "alt_dma_rxchan_depth e dma = (if dma = 0 then None else Some (rx_depth (rx_dev e dma)))"

subsection \<open>Flash devices\<close>

definition alt_flash_device_register :: "'d chan_env \<Rightarrow> ptr \<Rightarrow> 'd hal \<Rightarrow> int \<times> 'd hal" where
  "alt_flash_device_register e fd s = alt_dev_llist_insert fd (alt_flash_dev_list e) s"

definition alt_flash_open_dev :: "'d chan_env \<Rightarrow> string \<Rightarrow> 'd hal \<Rightarrow> (ptr \<times> 'd hal) option" where
  "alt_flash_open_dev e name s = do {
     dev \<leftarrow> alt_find_dev (reg_env e) name (alt_flash_dev_list e) s;
     Some (if dev \<noteq> 0 \<and> fopen (flash_dev e dev) \<noteq> 0 then call_open e (fopen (flash_dev e dev)) dev name s
           else (dev, s)) }"

definition alt_flash_close_dev :: "'d chan_env \<Rightarrow> ptr \<Rightarrow> 'd hal \<Rightarrow> 'd hal" where
  "alt_flash_close_dev e fd s =
     (if fd \<noteq> 0 \<and> fclose (flash_dev e fd) \<noteq> 0 then snd (call_close e (fclose (flash_dev e fd)) fd s) else s)"

definition alt_write_flash :: "'d chan_env \<Rightarrow> ptr \<Rightarrow> u32 \<Rightarrow> u32 \<Rightarrow> u32 \<Rightarrow> 'd hal \<Rightarrow> (int \<times> 'd hal) option" where
  "alt_write_flash e fd off src_addr len s =
     through fd (call_rw e (fwrite (flash_dev e fd)) fd off src_addr len s) \<bind> through (fwrite (flash_dev e fd))"

definition alt_read_flash :: "'d chan_env \<Rightarrow> ptr \<Rightarrow> u32 \<Rightarrow> u32 \<Rightarrow> u32 \<Rightarrow> 'd hal \<Rightarrow> (int \<times> 'd hal) option" where
  "alt_read_flash e fd off dest_addr len s =
     through fd (call_rw e (fread (flash_dev e fd)) fd off dest_addr len s) \<bind> through (fread (flash_dev e fd))"

definition alt_get_flash_info :: "'d chan_env \<Rightarrow> ptr \<Rightarrow> u32 \<Rightarrow> u32 \<Rightarrow> 'd hal \<Rightarrow> (int \<times> 'd hal) option" where
  "alt_get_flash_info e fd info number s =
     through fd (call_info e (fget_info (flash_dev e fd)) fd info number s) \<bind> through (fget_info (flash_dev e fd))"

text \<open>Also give the cache instructions executed.\<close>

definition alt_erase_flash_block ::
  "cache_cfg \<Rightarrow> 'd chan_env \<Rightarrow> ptr \<Rightarrow> u32 \<Rightarrow> u32 \<Rightarrow> 'd hal \<Rightarrow> (int \<times> cache_insn list \<times> 'd hal) option" where
  "alt_erase_flash_block cfg e fd off len s = do {
     (ret_code, s) \<leftarrow> through fd (call_erase e (ferase_block (flash_dev e fd)) fd off s)
       \<bind> through (ferase_block (flash_dev e fd));
     t \<leftarrow> (if ret_code = 0 then alt_dcache_flush cfg (base_addr (flash_dev e fd) + off) len else Some []);
     Some (ret_code, t, s) }"

definition alt_write_flash_block ::
  "cache_cfg \<Rightarrow> 'd chan_env \<Rightarrow> ptr \<Rightarrow> u32 \<Rightarrow> u32 \<Rightarrow> u32 \<Rightarrow> u32 \<Rightarrow> 'd hal \<Rightarrow> (int \<times> cache_insn list \<times> 'd hal) option" where
  "alt_write_flash_block cfg e fd block_offset data_offset dat len s = do {
     (ret_code, s) \<leftarrow> through fd (call_block e (fwrite_block (flash_dev e fd)) fd block_offset data_offset dat len s)
       \<bind> through (fwrite_block (flash_dev e fd));
     t \<leftarrow> (if ret_code = 0 then alt_dcache_flush cfg (base_addr (flash_dev e fd) + data_offset) len else Some []);
     Some (ret_code, t, s) }"

subsection \<open>Registries\<close>

lemma find_append: "find P (xs @ ys) = (case find P xs of None \<Rightarrow> find P ys | Some x \<Rightarrow> Some x)"
  by (induction xs) auto

text \<open>What the clients rely on: a registered entry is found by its name until a later one takes the name over.\<close>

locale registry =
  fixes reg :: "ptr \<Rightarrow> 's \<Rightarrow> int \<times> 's"
    and lookup :: "string \<Rightarrow> 's \<Rightarrow> ptr option"
    and entries :: "'s \<Rightarrow> (ptr \<times> string) list \<Rightarrow> bool"
    and fresh :: "'s \<Rightarrow> ptr \<Rightarrow> string \<Rightarrow> bool"
  assumes reg_law: "entries s es \<Longrightarrow> fresh s p nm \<Longrightarrow> p \<notin> fst ` set es \<Longrightarrow>
      \<exists>s'. reg p s = (0, s') \<and> entries s' ((p, nm) # es) \<and> (\<forall>q. fresh s' q = fresh s q)"
    and lookup_law: "entries s es \<Longrightarrow> c_string nm \<Longrightarrow> lookup nm s = Some (first_or_null (\<lambda>n. n = nm) es)"
begin

abbreviation reg_all :: "ptr list \<Rightarrow> 's \<Rightarrow> 's" where
  "reg_all ps \<equiv> fold (\<lambda>p s. snd (reg p s)) ps"

lemma reg_all_entries:
  assumes "entries s es" "\<forall>(p, nm) \<in> set new. fresh s p nm" "distinct (map fst new @ map fst es)"
  shows "entries (reg_all (map fst new) s) (rev new @ es)"
  using assms
proof (induction new arbitrary: s es)
  case (Cons e new)
  obtain p nm where e: "e = (p, nm)" by fastforce
  have "fresh s p nm" "p \<notin> fst ` set es" using Cons.prems by (auto simp: e)
  from reg_law [OF Cons.prems(1) this] obtain s' where s':
    "reg p s = (0, s')" "entries s' ((p, nm) # es)" "\<forall>q. fresh s' q = fresh s q" by blast
  have "entries (reg_all (map fst new) s') (rev new @ (p, nm) # es)"
    using Cons.prems s'(3) by (intro Cons.IH [OF s'(2)]) (auto simp: e)
  then show ?case by (simp add: e s'(1))
qed simp

lemma latest_found:
  assumes "entries s es" "\<forall>(p, nm) \<in> set new. fresh s p nm" "distinct (map fst new @ map fst es)" "c_string nm"
    "(p, nm) \<in> set new" "distinct (map snd new)"
  shows "lookup nm (reg_all (map fst new) s) = Some p"
proof -
  have "find (\<lambda>(p, n). n = nm) (rev new) = Some (p, nm)"
    using assms(5,6) by (induction new rule: rev_induct) force+
  then have "find (\<lambda>(p, n). n = nm) (rev new @ es) = Some (p, nm)" by (simp add: find_append)
  with lookup_law [OF reg_all_entries [OF assms(1-3)] assms(4)] show ?thesis
    by (simp add: first_or_null_def)
qed

lemma others_found:
  assumes "entries s es" "\<forall>(p, nm) \<in> set new. fresh s p nm" "distinct (map fst new @ map fst es)" "c_string nm"
    "nm \<notin> snd ` set new"
  shows "lookup nm (reg_all (map fst new) s) = lookup nm s"
proof -
  have "find (\<lambda>(p, n). n = nm) (rev new) = None" using assms(5) by (force simp: find_None_iff)
  then have "find (\<lambda>(p, n). n = nm) (rev new @ es) = find (\<lambda>(p, n). n = nm) es" by (simp add: find_append)
  with lookup_law [OF reg_all_entries [OF assms(1-3)] assms(4)] lookup_law [OF assms(1,4)] show ?thesis
    by (simp add: first_or_null_def)
qed

end

text \<open>The lists of the HAL are registries: the entries are read off the links and names.\<close>

definition list_entries :: "ptr \<Rightarrow> 'd hal \<Rightarrow> (ptr \<times> string) list \<Rightarrow> bool" where
  "list_entries lh s es \<longleftrightarrow> named_list s lh (map fst es) \<and> es = with_names s (map fst es)"

definition can_register :: "ptr \<Rightarrow> 'd hal \<Rightarrow> ptr \<Rightarrow> string \<Rightarrow> bool" where
  "can_register lh s p nm \<longleftrightarrow> p \<noteq> 0 \<and> p \<noteq> lh \<and> dname (devs s p) = Some nm \<and> nm \<noteq> [] \<and> c_string nm"

interpretation rl: registry "\<lambda>p. alt_dev_llist_insert p lh" "\<lambda>nm. alt_find_dev e nm lh" "list_entries lh" "can_register lh" for e lh
proof
  fix s :: "'a hal" and es p nm
  assume h: "list_entries lh s es" "can_register lh s p nm" "p \<notin> fst ` set es"
  let ?s = "s\<lparr>dlinks := alt_llist_insert lh p (dlinks s)\<rparr>"
  have "named_list ?s lh (p # map fst es)"
    using h by (intro reg_named [where dn = nm]) (auto simp: list_entries_def can_register_def)
  moreover have "with_names ?s ps = with_names s ps" for ps by (simp add: with_names_def)
  ultimately have "list_entries lh ?s ((p, nm) # es)"
    using h(1,2) by (auto simp: list_entries_def can_register_def with_names_def)
  moreover have "alt_dev_llist_insert p lh s = (0, ?s)"
    using h(2) by (simp add: alt_dev_llist_insert_def can_register_def)
  moreover have "can_register lh ?s q = can_register lh s q" for q by (auto simp: can_register_def)
  ultimately show "\<exists>s'. alt_dev_llist_insert p lh s = (0, s') \<and> list_entries lh s' ((p, nm) # es)
    \<and> (\<forall>q. can_register lh s' q = can_register lh s q)" by blast
next
  fix s :: "'a hal" and es nm
  assume "list_entries lh s es" "c_string nm"
  then show "alt_find_dev e nm lh s = Some (first_or_null (\<lambda>n. n = nm) es)"
    using find_dev_spec [of s lh "map fst es" nm e] by (simp add: list_entries_def)
qed

subsection \<open>Properties\<close>

definition unchanged_but_errno :: "'d hal \<Rightarrow> 'd hal \<Rightarrow> bool" where
  "unchanged_but_errno s s' \<longleftrightarrow> s' = s\<lparr>errno := errno s'\<rparr>"

definition tx_register_all :: "'d chan_env \<Rightarrow> ptr list \<Rightarrow> 'd hal \<Rightarrow> 'd hal" where
  "tx_register_all e ps s = fold (\<lambda>p s. snd (alt_dma_txchan_reg e p s)) ps s"

text \<open>DMA channels. After any number of transmit channels with different names have been registered,
  opening one by its name gives exactly that channel, changes nothing, and sending on it calls its own
  driver with the channel and the caller's buffer, length, callback and handle; opening a name
  that no registered channel has gives null with errno ENODEV and changes nothing else, and
  every operation on a null channel fails with -ENODEV without calling a driver - so the error
  reaches a caller that did not check what open returned.\<close>

theorem dma_channel_use:
  assumes "list_entries (alt_dma_txchan_list e) s es" and "distinct (map fst new @ map fst es)"
    and "\<forall>(p, nm) \<in> set new. can_register (alt_dma_txchan_list e) s p nm" and "distinct (map snd new)"
    and "c_string nm" and "s1 = tx_register_all e (map fst new) s"
  shows "((p, nm) \<in> set new \<and> tx_dma_send (tx_dev e p) \<noteq> 0 \<longrightarrow>
      alt_dma_txchan_open e nm s1 = Some (p, s1)
      \<and> alt_dma_txchan_send e p src len d h s1 = Some (call_post e (tx_dma_send (tx_dev e p)) p src len d h s1))
    \<and> (nm \<notin> snd ` set (new @ es) \<longrightarrow>
      (\<exists>s2. alt_dma_txchan_open e nm s1 = Some (0, s2) \<and> unchanged_but_errno s1 s2 \<and> errno s2 = ENODEV
        \<and> alt_dma_txchan_send e 0 src len d h s2 = Some (- ENODEV, s2)
        \<and> alt_dma_txchan_space e 0 s2 = Some (- ENODEV, s2) \<and> alt_dma_txchan_ioctl e 0 req arg s2 = Some (- ENODEV, s2)))"
proof -
  let ?find = "\<lambda>s. alt_find_dev (reg_env e) nm (alt_dma_txchan_list e) s"
  have s1: "s1 = fold (\<lambda>p s. snd (alt_dev_llist_insert p (alt_dma_txchan_list e) s)) (map fst new) s"
    using assms(6) by (simp add: tx_register_all_def alt_dma_txchan_reg_def)
  have found: "?find s1 = Some p" if "(p, nm) \<in> set new"
    unfolding s1 using rl.latest_found [OF assms(1,3,2,5) that assms(4)] .
  have missing: "?find s1 = Some 0" if "nm \<notin> snd ` set (new @ es)"
  proof -
    have "nm \<notin> snd ` set new" using that by auto
    from rl.others_found [OF assms(1,3,2,5) this] have "?find s1 = ?find s" unfolding s1 .
    moreover have "find (\<lambda>(p, n). n = nm) es = None" using that by (force simp: find_None_iff)
    ultimately show ?thesis using rl.lookup_law [OF assms(1,5), of "reg_env e"] by (simp add: first_or_null_def)
  qed
  have nz: "p \<noteq> 0" if "(p, nm) \<in> set new" using assms(3) that by (force simp: can_register_def)
  show ?thesis
    using found missing nz
    by (auto simp: alt_dma_txchan_open_def alt_dma_txchan_send_def alt_dma_txchan_space_def
        alt_dma_txchan_ioctl_def through_def unchanged_but_errno_def set_errno_def)
qed

text \<open>Two channels; the driver counts its calls.\<close>

definition demo_dma_env :: "nat chan_env" where
  "demo_dma_env = \<lparr>reg_env = demo_hal_env, alt_dma_txchan_list = 0x60, alt_dma_rxchan_list = 0x64, alt_flash_dev_list = 0x68,
     tx_dev = (\<lambda>_. \<lparr>tx_space = 1, tx_dma_send = 2, tx_ioctl = 3\<rparr>),
     rx_dev = (\<lambda>_. \<lparr>rx_depth = 4, rx_prepare = 2, rx_ioctl = 3\<rparr>),
     flash_dev = (\<lambda>_. \<lparr>fopen = 0, fclose = 0, fwrite = 5, fread = 6, fget_info = 7, ferase_block = 8, fwrite_block = 9,
       base_addr = 0x1000, flength = 0x800, number_of_regions = 0, region_info = []\<rparr>),
     call_space = (\<lambda>_ _ s. (1, s)), call_post = (\<lambda>_ _ _ len _ _ s. (0, s\<lparr>drv := drv s + unat len\<rparr>)),
     call_ioctl = (\<lambda>_ _ _ _ s. (0, s)), call_open = (\<lambda>_ p _ s. (p, s)), call_close = (\<lambda>_ _ s. (0, s)),
     call_rw = (\<lambda>_ _ _ _ _ s. (0, s)), call_info = (\<lambda>_ _ _ _ s. (0, s)), call_erase = (\<lambda>_ _ _ s. (0, s)),
     call_block = (\<lambda>_ _ _ _ _ _ s. (0, s\<lparr>drv := drv s + 1\<rparr>))\<rparr>"

definition demo_dma :: "nat hal" where
  "demo_dma = demo_hal\<lparr>dlinks := ALT_LLIST_HEAD 0x60 (dlinks demo_hal),
     devs := (devs demo_hal)(0x70 := (devs demo_hal 0)\<lparr>dname := Some ''/dev/dma_0''\<rparr>,
                             0x78 := (devs demo_hal 0)\<lparr>dname := Some ''/dev/dma_1''\<rparr>)\<rparr>"

lemma demo_dma_drv: "drv demo_dma = 0"
  by (simp add: demo_dma_def demo_hal_def hal_init_def alt_fs_reg_def alt_dev_reg_def
      alt_dev_llist_insert_def demo_devs_def alt_dev_null_def)

lemma dma_channel_witness:
  "\<exists>s1. alt_dma_txchan_open demo_dma_env ''/dev/dma_0'' s1 = Some (0x70, s1)
     \<and> alt_dma_txchan_send demo_dma_env 0x70 0x2000 64 0 0 s1 \<noteq> None
     \<and> (\<exists>s2. alt_dma_txchan_open demo_dma_env ''/dev/dma_2'' s1 = Some (0, s2) \<and> errno s2 = ENODEV)"
proof -
  let ?new = "[(0x70 :: ptr, ''/dev/dma_0''), (0x78, ''/dev/dma_1'')]"
  have l: "list_entries (alt_dma_txchan_list demo_dma_env) demo_dma []"
    by (simp add: list_entries_def named_list_def with_names_def demo_dma_env_def demo_dma_def dll_head)
  have d: "distinct (map fst ?new @ map fst [])" "distinct (map snd ?new)" by simp_all
  have r: "\<forall>(p, nm) \<in> set ?new. can_register (alt_dma_txchan_list demo_dma_env) demo_dma p nm"
    by (simp add: can_register_def demo_dma_env_def demo_dma_def c_string_def)
  have c: "c_string ''/dev/dma_0''" "c_string ''/dev/dma_2''" by (simp_all add: c_string_def)
  note u = dma_channel_use [OF l d(1) r d(2) c(1) refl] dma_channel_use [OF l d(1) r d(2) c(2) refl]
  have f: "tx_dma_send (tx_dev demo_dma_env 0x70) \<noteq> 0" by (simp add: demo_dma_env_def)
  with u(1) [of "0x70" "0x2000" 64 0 0 0 0] have
    "alt_dma_txchan_open demo_dma_env ''/dev/dma_0'' (tx_register_all demo_dma_env (map fst ?new) demo_dma)
       = Some (0x70, tx_register_all demo_dma_env (map fst ?new) demo_dma)"
    "alt_dma_txchan_send demo_dma_env 0x70 0x2000 64 0 0 (tx_register_all demo_dma_env (map fst ?new) demo_dma) \<noteq> None"
    by simp_all
  moreover have "\<exists>s2. alt_dma_txchan_open demo_dma_env ''/dev/dma_2'' (tx_register_all demo_dma_env (map fst ?new) demo_dma)
      = Some (0, s2) \<and> errno s2 = ENODEV"
    using u(2) [of 0 0 0 0 0 0 0] by auto
  ultimately show ?thesis by blast
qed

text \<open>Flash blocks. When the driver reports that a block was written (or erased), no byte of the
  written (or erased) part of the flash is left in the data cache, so the processor reads the flash
  itself from then on; when the driver fails, its error code is passed on and nothing is flushed.\<close>

theorem flash_block_coherent:
  assumes "dcache_ok cfg" and "documented cfg u" and "fd \<noteq> 0"
    and "fits (NIOS2_DCACHE_LINE_SIZE cfg) (base_addr (flash_dev e fd) + off) len"
  shows "(fwrite_block (flash_dev e fd) \<noteq> 0 \<longrightarrow>
      (\<exists>rc t s'. alt_write_flash_block cfg e fd boff off dat len s = Some (rc, t, s')
         \<and> call_block e (fwrite_block (flash_dev e fd)) fd boff off dat len s = (rc, s')
         \<and> (if rc = 0 then \<forall>c b. in_range (base_addr (flash_dev e fd) + off) len b \<longrightarrow> \<not> in_dcache u (run u t c) b
            else t = [])))
    \<and> (ferase_block (flash_dev e fd) \<noteq> 0 \<longrightarrow>
      (\<exists>rc t s'. alt_erase_flash_block cfg e fd off len s = Some (rc, t, s')
         \<and> call_erase e (ferase_block (flash_dev e fd)) fd off s = (rc, s')
         \<and> (if rc = 0 then \<forall>c b. in_range (base_addr (flash_dev e fd) + off) len b \<longrightarrow> \<not> in_dcache u (run u t c) b
            else t = [])))"
proof -
  obtain t where t: "alt_dcache_flush cfg (base_addr (flash_dev e fd) + off) len = Some t"
    "\<And>c b. in_range (base_addr (flash_dev e fd) + off) len b \<Longrightarrow>
      \<not> in_dcache u (run u t c) b \<and> mem_holds u (run u t c) b = cpu_reads u c b"
    using dcache_flush_coherent [OF assms(1,4,2)] by blast
  obtain rc s' where w: "call_block e (fwrite_block (flash_dev e fd)) fd boff off dat len s = (rc, s')" by fastforce
  obtain rc2 s2 where r: "call_erase e (ferase_block (flash_dev e fd)) fd off s = (rc2, s2)" by fastforce
  have "fwrite_block (flash_dev e fd) \<noteq> 0 \<longrightarrow>
      alt_write_flash_block cfg e fd boff off dat len s = Some (rc, if rc = 0 then t else [], s')"
    using assms(3) w t(1) by (simp add: alt_write_flash_block_def through_def)
  moreover have "ferase_block (flash_dev e fd) \<noteq> 0 \<longrightarrow>
      alt_erase_flash_block cfg e fd off len s = Some (rc2, if rc2 = 0 then t else [], s2)"
    using assms(3) r t(1) by (simp add: alt_erase_flash_block_def through_def)
  ultimately show ?thesis using t(2) w r by (cases "rc = 0"; cases "rc2 = 0") simp_all
qed

lemma flash_block_witness:
  "\<exists>t s'. alt_write_flash_block demo_cfg demo_dma_env 0x80 0 0x10 0x2000 40 demo_dma = Some (0, t, s')
     \<and> \<not> in_dcache (demo_unit demo_cfg) (run (demo_unit demo_cfg) t demo_dirty) 0x1021"
proof -
  have f: "fits (NIOS2_DCACHE_LINE_SIZE demo_cfg) (base_addr (flash_dev demo_dma_env 0x80) + 0x10) 40"
    by (simp add: fits_def demo_cfg_def demo_dma_env_def)
  have n: "(0x80 :: ptr) \<noteq> 0" by simp
  have r: "in_range (base_addr (flash_dev demo_dma_env 0x80) + 0x10) 40 0x1021" by (simp add: in_range_def demo_dma_env_def)
  have w: "fwrite_block (flash_dev demo_dma_env 0x80) \<noteq> 0"
    "call_block demo_dma_env (fwrite_block (flash_dev demo_dma_env 0x80)) 0x80 0 0x10 0x2000 40 demo_dma
       = (0, demo_dma\<lparr>drv := drv demo_dma + 1\<rparr>)"
    by (simp_all add: demo_dma_env_def)
  from flash_block_coherent [OF demo_cfg_ok(1) demo_documented n f, of 0 "0x2000" demo_dma] w obtain t s' where
    "alt_write_flash_block demo_cfg demo_dma_env 0x80 0 0x10 0x2000 40 demo_dma = Some (0, t, s')"
    "\<forall>c. \<not> in_dcache (demo_unit demo_cfg) (run (demo_unit demo_cfg) t c) 0x1021"
    using r by (auto simp del: split_paired_All split_paired_Ex)
  then show ?thesis by blast
qed

end
