(* ===== verification/Sysid.thy ===== *)
theory Sysid
  imports HalIo
begin

text \<open>
  The system-identification check, \<open>altera_avalon_sysid_qsys.c\<close>. This system has no such
  component, so its base address, id and time stamp (\<open>SYSID_BASE\<close>, \<open>SYSID_ID\<close> and
  \<open>SYSID_TIMESTAMP\<close> of a \<open>system.h\<close> that has one) are arguments.
\<close>

definition IORD_ALTERA_AVALON_SYSID_QSYS_ID :: "'d bus \<Rightarrow> u32 \<Rightarrow> 'd world \<Rightarrow> u32 \<times> 'd world" where
  "IORD_ALTERA_AVALON_SYSID_QSYS_ID b base w = IORD b base 0 w"

definition IORD_ALTERA_AVALON_SYSID_QSYS_TIMESTAMP :: "'d bus \<Rightarrow> u32 \<Rightarrow> 'd world \<Rightarrow> u32 \<times> 'd world" where
  "IORD_ALTERA_AVALON_SYSID_QSYS_TIMESTAMP b base w = IORD b base 1 w"

definition alt_avalon_sysid_qsys_test :: "'d bus \<Rightarrow> u32 \<Rightarrow> u32 \<Rightarrow> u32 \<Rightarrow> 'd world \<Rightarrow> int \<times> 'd world" where
  "alt_avalon_sysid_qsys_test b sysid_base sysid_id sysid_timestamp w =
     (let (hardware_id, w) = IORD_ALTERA_AVALON_SYSID_QSYS_ID b sysid_base w;
          (hardware_timestamp, w) = IORD_ALTERA_AVALON_SYSID_QSYS_TIMESTAMP b sysid_base w
      in if sysid_timestamp = hardware_timestamp \<and> sysid_id = hardware_id then (0, w)
         else (if sint (hardware_timestamp - sysid_timestamp) > 0 then 1 else - 1, w))"

text \<open>The verdict, for time stamps less than 2^31 seconds apart: 0 exactly if both registers agree, 1
  exactly if the hardware is later, and -1 also if only the id differs.\<close>

lemma sysid_verdict:
  assumes "IORD b base 0 w = (hid, w1)" "IORD b base 1 w1 = (hts, w2)"
    "\<bar>int (unat hts) - int (unat ts)\<bar> < 2 ^ 31"
  shows "alt_avalon_sysid_qsys_test b base i ts w =
    (if hts = ts \<and> hid = i then 0 else if unat ts < unat hts then 1 else - 1, w2)"
proof -
  have "uint (hts - ts) = (if uint ts \<le> uint hts then uint hts - uint ts else uint hts - uint ts + 2 ^ 32)"
    by (simp add: uint_sub_if')
  moreover have "unat ts < unat hts \<longleftrightarrow> uint ts < uint hts" by (simp flip: word_less_nat_alt word_less_def)
  ultimately have "sint (hts - ts) > 0 \<longleftrightarrow> unat ts < unat hts"
    using assms(3) uint_lt2p [of hts] uint_lt2p [of ts] by (auto simp: sint32_conv word_less_def split: if_splits)
  then show ?thesis
    using assms(1,2) by (auto simp: alt_avalon_sysid_qsys_test_def IORD_ALTERA_AVALON_SYSID_QSYS_ID_def
        IORD_ALTERA_AVALON_SYSID_QSYS_TIMESTAMP_def)
qed

end
