(* ===== verification/Direct.thy ===== *)
theory Direct
  imports Boot
begin

text \<open>
  The POSIX layer with direct drivers (\<open>ALT_USE_DIRECT_DRIVERS\<close>): the other half of \<open>alt_read.c\<close>,
  \<open>alt_write.c\<close>, \<open>alt_ioctl.c\<close>, \<open>alt_fstat.c\<close>, \<open>alt_isatty.c\<close>, \<open>alt_open.c\<close>, \<open>alt_close.c\<close> and
  \<open>alt_lseek.c\<close>, the macros of \<open>HAL/inc/sys/alt_driver.h\<close>, and \<open>alt_putchar.c\<close>, \<open>alt_getchar.c\<close> and
  \<open>alt_putstr.c\<close>, with the UART of this system behind all three standard streams. There are no other
  descriptors, and the calls go straight to the driver's functions. This system is not configured so; the
  point is how far the two layers agree. \<open>None\<close>: the call does not return within the schedule.
\<close>

subsection \<open>The macros\<close>

definition ALT_DRIVER_WRITE :: "'b board \<Rightarrow> u8 list \<Rightarrow> u32 \<Rightarrow> 'b machine \<Rightarrow> (int \<times> 'b machine) option" where
  "ALT_DRIVER_WRITE bd buf flags s =
     map_option (\<lambda>(rc, xs, u). (rc, s\<lparr>drv := (u, xs)\<rparr>))
       (jtag_uart_write (core_of bd) buf flags (snd (drv s)) (uart_of s))"

definition ALT_DRIVER_READ :: "'b board \<Rightarrow> int \<Rightarrow> u32 \<Rightarrow> 'b machine \<Rightarrow> (int \<times> u8 list \<times> 'b machine) option" where
  "ALT_DRIVER_READ bd len flags s =
     map_option (\<lambda>(rc, buf, xs, u). (rc, buf, s\<lparr>drv := (u, xs)\<rparr>))
       (jtag_uart_read (core_of bd) len flags (snd (drv s)) (uart_of s))"

definition ALT_DRIVER_IOCTL :: "u32 \<Rightarrow> u32 \<Rightarrow> 'b machine \<Rightarrow> int \<times> u32 option \<times> 'b machine" where
  "ALT_DRIVER_IOCTL req arg s =
     (let (rc, out, u) = jtag_uart_ioctl req arg (uart_of s) in (rc, out, s\<lparr>drv := (u, snd (drv s))\<rparr>))"

subsection \<open>The calls\<close>

text \<open>A \<open>size_t\<close> length is passed on as an \<open>int\<close>.\<close>

definition direct_read :: "'b board \<Rightarrow> int \<Rightarrow> u32 \<Rightarrow> 'b machine \<Rightarrow> (int \<times> u8 list \<times> 'b machine) option" where
  "direct_read bd file len s =
     (if file = 0 then ALT_DRIVER_READ bd (sint len) 0 s else Some (- 1, [], set_errno EBADFD s))"

definition direct_write :: "'b board \<Rightarrow> int \<Rightarrow> u8 list \<Rightarrow> 'b machine \<Rightarrow> (int \<times> 'b machine) option" where
  "direct_write bd file buf s =
     (if file = 1 then ALT_DRIVER_WRITE bd buf 0 s
      else if file = 2 then ALT_DRIVER_WRITE bd buf 0 s
      else Some (- 1, set_errno EBADFD s))"

definition direct_ioctl :: "int \<Rightarrow> u32 \<Rightarrow> u32 \<Rightarrow> 'b machine \<Rightarrow> int \<times> u32 option \<times> 'b machine" where
  "direct_ioctl file req arg s =
     (if file = 0 then ALT_DRIVER_IOCTL req arg s
      else if file = 1 then ALT_DRIVER_IOCTL req arg s
      else if file = 2 then ALT_DRIVER_IOCTL req arg s
      else (- 1, None, set_errno EBADFD s))"

text \<open>The mode stored, if any.\<close>

definition direct_fstat :: "int \<Rightarrow> 'b machine \<Rightarrow> int \<times> u32 option \<times> 'b machine" where
  "direct_fstat file s =
     (if file = 0 \<or> file = 1 \<or> file = 2 then (0, Some S_IFCHR, s) else (- 1, None, s))"

definition direct_isatty :: "int \<Rightarrow> 'b machine \<Rightarrow> int \<times> 'b machine" where
  "direct_isatty file s = (if file = 0 \<or> file = 1 \<or> file = 2 then 1 else 0, s)"

definition direct_open :: "string \<Rightarrow> u32 \<Rightarrow> u32 \<Rightarrow> 'b machine \<Rightarrow> int \<times> 'b machine" where
  "direct_open file flags mode s = (- 1, set_errno ENOSYS s)"

definition direct_close :: "int \<Rightarrow> 'b machine \<Rightarrow> int \<times> 'b machine" where
  "direct_close fildes s = (- 1, set_errno ENOSYS s)"

definition direct_lseek :: "int \<Rightarrow> int \<Rightarrow> int \<Rightarrow> 'b machine \<Rightarrow> int \<times> 'b machine" where
  "direct_lseek file ptr dir s = (- 1, set_errno ENOSYS s)"

subsection \<open>Characters and strings\<close>

definition direct_putchar :: "'b board \<Rightarrow> u32 \<Rightarrow> 'b machine \<Rightarrow> (u32 \<times> 'b machine) option" where
  "direct_putchar bd c s =
     map_option (\<lambda>(rc, s). if rc = - 1 then (- 1, s) else (c, s))
       (ALT_DRIVER_WRITE bd [ucast (c AND 0xff)] 0 s)"

text \<open>\<open>char\<close> is signed.\<close>

definition direct_getchar :: "'b board \<Rightarrow> 'b machine \<Rightarrow> (u32 \<times> 'b machine) option" where
  "direct_getchar bd s =
     map_option (\<lambda>(rc, buf, s). if rc \<le> 0 then (- 1, s) else (scast (buf ! 0), s))
       (ALT_DRIVER_READ bd 1 (fd_flags (fd_list s ! 0)) s)"

definition direct_putstr :: "'b board \<Rightarrow> string \<Rightarrow> 'b machine \<Rightarrow> (int \<times> 'b machine) option" where
  "direct_putstr bd str s = ALT_DRIVER_WRITE bd (bytes_of str) 0 s"

subsection \<open>The flags that count\<close>

lemma write_loop_flags_some:
  assumes "flags AND JTAG_O_NONBLOCK = flags' AND JTAG_O_NONBLOCK" "write_loop b flags out ptr xs s = Some y"
  shows "write_loop b flags' out ptr xs s = Some y"
proof -
  from assms(2) have "(\<lambda>b flags out ptr xs s y. flags AND JTAG_O_NONBLOCK = flags' AND JTAG_O_NONBLOCK \<longrightarrow>
    write_loop b flags' out ptr xs s = Some y) b flags out ptr xs s y"
  proof (induction rule: write_loop.raw_induct [rotated, consumes 1, case_names step])
    case (step rec b flags out ptr xs s y)
    from step(2) obtain out1 ptr1 xs1 s1 xs2 s2 where
      c: "write_copy b out ptr xs s = Some (out1, ptr1, xs1, s1)" "irq_on b JTAG_WE_MSK xs1 s1 = Some (xs2, s2)"
      by (auto simp: bind_eq_Some_conv)
    have "write_loop b flags' out ptr xs s = Some y" if eq: "flags AND JTAG_O_NONBLOCK = flags' AND JTAG_O_NONBLOCK"
    proof (cases "length ptr1 > 0 \<and> flags AND JTAG_O_NONBLOCK = 0")
      case False
      with step(2) c eq show ?thesis by (subst write_loop.simps) (auto split: if_splits)
    next
      case True
      with step(2) c obtain xs3 s3 xs4 s4 where
        w: "write_spin b out1 xs2 s2 = Some (xs3, s3)" "pt b xs3 s3 = Some (xs4, s4)"
        by (auto simp: bind_eq_Some_conv)
      with step(2) c True have "(if host_inactive (jsp s4) \<noteq> 0 then Some (ptr1, xs4, s4) else rec b flags out1 ptr1 xs4 s4) = Some y"
        by simp
      with step(1) [of b flags out1 ptr1 xs4 s4 y] eq True c w show ?thesis
        by (subst write_loop.simps) (simp split: if_splits)
    qed
    then show ?case by simp
  qed
  with assms(1) show ?thesis by simp
qed

lemma jtag_uart_write_flags:
  assumes "flags AND JTAG_O_NONBLOCK = flags' AND JTAG_O_NONBLOCK"
  shows "jtag_uart_write b data flags xs s = jtag_uart_write b data flags' xs s"
proof -
  have "write_loop b flags out ptr xs s = write_loop b flags' out ptr xs s" for out ptr xs s
    using write_loop_flags_some [OF assms, of b out ptr xs s] write_loop_flags_some [OF assms [symmetric], of b out ptr xs s]
    by (cases "write_loop b flags out ptr xs s"; cases "write_loop b flags' out ptr xs s") auto
  with assms show ?thesis by (simp add: jtag_uart_write_def)
qed

subsection \<open>The two layers\<close>

lemma direct_write_flow:
  assumes "direct_write bd file buf s = Some (rc, s')" "file = 1 \<or> file = 2" "jinv (jsp (uart_of s))"
  obtains n where "n \<le> length buf" "jflow (uart_of s) (take n buf) [] (uart_of s')"
    "rc = (if n \<noteq> 0 then int n else - EIO)"
proof -
  from assms(1,2) obtain xs u where w: "jtag_uart_write (core_of bd) buf 0 (snd (drv s)) (uart_of s) = Some (rc, xs, u)"
    and s': "s' = s\<lparr>drv := (u, xs)\<rparr>"
    by (auto simp: direct_write_def ALT_DRIVER_WRITE_def)
  have z: "0 AND JTAG_O_NONBLOCK = 0" by (simp add: JTAG_O_NONBLOCK_def)
  from jtag_uart_write_spec [OF w assms(3)] obtain n where
    "n \<le> length buf" "writes (uart_of s) (take n buf) u" "rc = (if n \<noteq> 0 then int n else - EIO)"
    unfolding z by (auto cong del: if_weak_cong)
  with s' that show ?thesis by (auto simp: writes_def)
qed

text \<open>C36. The two layers agree on the console: on the same state and with the same interrupts to come, whenever
  the direct \<open>write\<close> to the standard output returns, the \<open>write\<close> through descriptor, device and
  function pointer leaves the same state and gives the same number of bytes. Only failures differ: the direct call
  returns the driver's \<open>-EIO\<close> as it is and leaves \<open>errno\<close> alone, the other sets \<open>errno\<close> and returns
  -1. \<open>fstat\<close> and \<open>isatty\<close> agree altogether.\<close>

theorem direct_layer_agrees:
  assumes "console_open bd s" and "uart_behind bd" and "write_at bd \<noteq> 0"
    and "direct_write bd 1 (bytes_of buf) s = Some (rc, s')"
  shows "alt_write (hal_of bd) 1 buf s = Some (if rc < 0 then (- 1, set_errno EIO s') else (rc, s'))
    \<and> (rc = - EIO \<or> 0 < rc) \<and> errno s' = errno s
    \<and> alt_fstat (hal_of bd) 1 s = Some (direct_fstat 1 s) \<and> alt_isatty (hal_of bd) 1 s = Some (direct_isatty 1 s)"
proof -
  note fd = console_fd [OF assms(1)]
  have inv: "jinv (jsp (uart_of s))" using assms(1) by (simp add: console_open_def)
  from assms(4) obtain xs u where w: "jtag_uart_write (core_of bd) (bytes_of buf) 0 (snd (drv s)) (uart_of s) = Some (rc, xs, u)"
    and s': "s' = s\<lparr>drv := (u, xs)\<rparr>"
    by (auto simp: direct_write_def ALT_DRIVER_WRITE_def)
  have "drv_write (hal_of bd) (write_at bd) 1 buf s = (rc, s')"
    using assms(2) w fd(3) jtag_uart_write_flags [of 0 "O_WRONLY OR ALT_FD_DEV"] console_flags(2)
    unfolding uart_behind_def jtag_uart_write_fd_def s' by (metis and.left_neutral zero_and_eq)
  moreover have "rc = - EIO \<or> 0 < rc"
    by (rule direct_write_flow [OF assms(4) _ inv]) auto
  moreover have "alt_fstat (hal_of bd) 1 s = Some (direct_fstat 1 s)" "alt_isatty (hal_of bd) 1 s = Some (direct_isatty 1 s)"
    using fd by (simp_all add: alt_fstat_def alt_isatty_def direct_fstat_def direct_isatty_def on_fd_def jtag_uart_dev_def)
  ultimately show ?thesis
    using fd assms(3) console_flags(1) s' by (auto simp: alt_write_def on_fd_def jtag_uart_dev_def errno_defs)
qed

lemma direct_layer_witness:
  "\<exists>s s'. direct_write demo_board 1 [79, 75] s = Some (2, s') \<and> alt_write (hal_of demo_board) 1 ''OK'' s = Some (2, s')"
proof -
  obtain s xs v where s: "ready demo_board s" "snd (drv s) = demo_schedule"
    and w: "jtag_uart_write slow_bus (bytes_of ''OK'') (O_WRONLY OR ALT_FD_DEV) demo_schedule (uart_of s) = Some (2, xs, v)"
    by (rule demo_started)
  have b: "core_of demo_board = slow_bus" "write_at demo_board \<noteq> 0" by (simp_all add: demo_board_def)
  have "0 AND JTAG_O_NONBLOCK = (O_WRONLY OR ALT_FD_DEV) AND JTAG_O_NONBLOCK" using console_flags(2) by simp
  note w' = w [folded jtag_uart_write_flags [OF this]]
  have d: "direct_write demo_board 1 (bytes_of ''OK'') s = Some (2, s\<lparr>drv := (v, xs)\<rparr>)"
    using w' s(2) b by (simp add: direct_write_def ALT_DRIVER_WRITE_def)
  have "bytes_of ''OK'' = [79, 75]" by (simp add: bytes_of_def of_char_def)
  with direct_layer_agrees [OF ready_console [OF s(1) demo_linked] demo_board_ok(2) b(2) d] d show ?thesis by auto
qed

text \<open>The result of \<open>putchar\<close> is always its argument: the driver never returns -1.\<close>

lemma direct_putchar_result:
  assumes "direct_putchar bd c s = Some (r, s')" "jinv (jsp (uart_of s))"
  shows "r = c \<and> (jflow (uart_of s) [] [] (uart_of s') \<or> jflow (uart_of s) [ucast (c AND 0xff)] [] (uart_of s'))"
proof -
  from assms(1) obtain rc where w: "direct_write bd 1 [ucast (c AND 0xff)] s = Some (rc, s')" and r: "r = (if rc = - 1 then - 1 else c)"
    by (auto simp: direct_putchar_def direct_write_def split: if_splits)
  obtain n where "n \<le> 1" "jflow (uart_of s) (take n [ucast (c AND 0xff)]) [] (uart_of s')" "rc = (if n \<noteq> 0 then int n else - EIO)"
    by (rule direct_write_flow [OF w _ assms(2)]) auto
  with r show ?thesis by (cases "n = 0") (auto simp: EIO_def)
qed

text \<open>The result of \<open>getchar\<close> is -1 when nothing was read, and also when the byte read is 255.\<close>

lemma direct_getchar_result:
  assumes "direct_getchar bd s = Some (r, s')" "jinv (jsp (uart_of s))"
  obtains "r = - 1" "jflow (uart_of s) [] [] (uart_of s')"
    | c where "r = scast c" "jflow (uart_of s) [] [c] (uart_of s')"
proof -
  from assms(1) obtain rc buf xs u where
    rd: "jtag_uart_read (core_of bd) 1 (fd_flags (fd_list s ! 0)) (snd (drv s)) (uart_of s) = Some (rc, buf, xs, u)"
    and r: "r = (if rc \<le> 0 then - 1 else scast (buf ! 0))" and s': "s' = s\<lparr>drv := (u, xs)\<rparr>"
    by (auto simp: direct_getchar_def ALT_DRIVER_READ_def split: if_splits)
  note sp = jtag_uart_read_spec [OF rd assms(2)]
  show ?thesis
  proof (cases buf)
    case Nil
    with sp r s' that(1) show ?thesis by (auto simp: reads_def errno_defs)
  next
    case (Cons c cs)
    with sp r s' that(2) [of c] show ?thesis by (auto simp: reads_def)
  qed
qed

end
