(* ===== verification/Spec2Isabelle.thy ===== *)
theory Spec2Isabelle
  imports UsbProps UsbWait TimeOfDay BusySleep Boot LogProps Gmon Load UartIrq Process Channels Sysid Direct
begin

text \<open>
  A verification development of the software of an FPGA laboratory system (DE2-115 board, Nios II
  processor): the USB keyboard program in \<open>software/usb_kb\<close> and the board support package it runs on,
  \<open>software/usb_kb_bsp\<close> (Altera's hardware abstraction layer, HAL, as generated for this system). Paths
  below are relative to these two directories of \<open>src\<close>. The hardware design of the repository is
  SystemVerilog and is not modelled.

  \<^bold>\<open>The program and its parts.\<close>
  The keyboard program drives a CY7C67200 USB host controller through a four-register host port: it
  resets the chip, waits for a keyboard, enumerates it by control transfers, and then polls it for reports
  and puts the key code on a port that the hardware reads. Below it the HAL boots the processor, dispatches
  interrupts, keeps lists of alarms, devices and file systems, gives POSIX-like calls on file
  descriptors, and drives the JTAG UART that is the console. They meet in \<open>alt_main.c\<close>, which sets up
  interrupts and the UART, connects the standard streams to it and calls \<open>main\<close>.

  \<^bold>\<open>How code and model correspond.\<close>
  A C function is a HOL function of the same name; C state is a record that goes in and comes out; a
  loop whose end is not evident is a \<open>partial_function (option)\<close>, so that not returning is
  \<^const>\<open>None\<close>; undefined behaviour (a null or wild access, a shift by the word's width) is \<^const>\<open>None\<close> as
  well, and each theory says which it means. Machine integers are words of their width. What is not in the
  sources is a parameter: the devices behind the bus (\<open>'d bus\<close>), the functions behind function pointers
  (drivers, alarm callbacks, interrupt and exception handlers), the C library, the linker's addresses, the
  cache instructions. Every access to the bus is logged, so that a property can speak of the order of accesses.

  \<^bold>\<open>Theories.\<close>
  \<^item> \<open>Prelude\<close>, \<open>Numerals\<close>, \<open>Ring\<close>: integer types, error numbers and lemma collections; numerals; ring
    buffers and the contract \<open>fifo\<close> of a bounded queue.
  \<^item> \<open>HalIo\<close>: \<open>HAL/inc/io.h\<close>; the bus, time and the log.
  \<^item> \<open>UsbHpi\<close>, \<open>UsbTransfers\<close>: \<open>usb.c\<close>. The nine request functions write transaction lists
    into the chip's memory; read back from there, each list is a well-formed control transfer of the intended
    request.
  \<^item> \<open>UsbMain\<close>, \<open>UsbProps\<close>, \<open>UsbWait\<close>: \<open>main.c\<close> as a step function on program points, one
    step per iteration of a polling loop. Invariants over runs of any length on any device: no polling before a
    complete enumeration, the key-code port only ever shows masked report bytes, the data toggle
    counts the polls. Progress: a device that answers is enumerated and polled. The waiting loop's exact termination
    condition.
  \<^item> \<open>Llist\<close>: \<open>alt_llist.h\<close> against lists (\<open>dll\<close>); the locale \<open>linked_list\<close> is what
    alarms and devices rely on.
  \<^item> \<open>Irq\<close>: \<open>alt_irq.h\<close>, the two registries, the dispatcher. Which handler is called, when the dispatcher
    returns, where the registries differ; the locale \<open>critical_section\<close>.
  \<^item> \<open>Alarm\<close>, \<open>TimeOfDay\<close>, \<open>BusySleep\<close>: the tick refines a list of countdowns, in spite of wrapping
    times; wall-clock time; the iterations of the delay loops.
  \<^item> \<open>DevList\<close>: registration and search by name.
  \<^item> \<open>FdTable\<close>, \<open>FdProps\<close>, \<open>FdCalls\<close>, \<open>FdUse\<close>: the descriptor pool and the system calls. The invariant of
    the pool (contract \<open>handle_pool\<close>), what each call does on every branch, histories of calls, exclusive access.
  \<^item> \<open>JtagUart\<close>: the UART driver. \<open>JtagProps\<close>, \<open>JtagRead\<close>, \<open>JtagWrite\<close>: its ring buffers are queues
    (two interpretations of \<open>fifo\<close>) and every step moves bytes between core, queues and callers without loss,
    doubling or reordering, whatever the interleaving. \<open>JtagReturns\<close>, \<open>JtagCore\<close>, \<open>JtagUse\<close>: when the calls
    return, that the interrupt routine does so on every core that keeps to its documentation, and whole histories.
  \<^item> \<open>Boot\<close>: \<open>alt_sys_init.c\<close>, \<open>alt_main.c\<close>, \<open>alt_exit.c\<close>. The composition: the
    machine is a POSIX layer whose drivers' state is the UART with its interrupts. A \<open>write\<close> to descriptor 1 after
    start-up goes into the UART's queue, and \<open>exit\<close> waits until the queue is sent.
  \<^item> \<open>Direct\<close>: the variants of the system calls that go straight to the driver
    (\<open>ALT_USE_DIRECT_DRIVERS\<close>), compared with the calls through descriptors.
  \<^item> \<open>Printf\<close>, \<open>LogPrintf\<close>, \<open>LogProps\<close>: the two formatted-output routines against references that format as a whole.
  \<^item> \<open>Heap\<close>: \<open>alt_sbrk.c\<close>. Contracts \<open>allocator\<close> and \<open>total_allocator\<close> of memory that only grows; \<open>sbrk\<close>
    interprets the latter, the profiler's slabs the former.
  \<^item> \<open>Gmon\<close>: \<open>alt_gmon.c\<close>. The call graph in memory refines a list of functions with their callers; the histogram.
  \<^item> \<open>Cache\<close>, \<open>Load\<close>: cache maintenance for every cache configuration, against what the processor's
    manual says of the cache instructions (\<open>documented\<close>); loading of sections.
  \<^item> \<open>Nios\<close>, \<open>ExcCode\<close>: Nios II instructions with a step function, and the code at the exception address
    as lists of them: \<open>alt_exception_entry.S\<close>, \<open>alt_irq_entry.S\<close>, \<open>alt_exception_trap.S\<close>,
    \<open>alt_exception_muldiv.S\<close>, in the order of \<open>linker.x\<close>. \<open>ExcEntry\<close>, \<open>MulDivArith\<close>, \<open>MulDiv\<close>, \<open>ExcProps\<close>: an interrupt
    is invisible to the program it interrupts, emulated multiplications and divisions compute
    what the architecture defines, exceptions left to the C handler resume where it says. \<open>UartIrq\<close>: the UART's
    interrupt through all layers, from the processor to the driver, is one step of the driver's schedules.
  \<^item> \<open>Exceptions\<close>, \<open>Process\<close>, \<open>Channels\<close>, \<open>Sysid\<close>: the exception entry point; calls on processes
    and links; DMA channels and flash devices (contract \<open>registry\<close>); system identification.
\<close>

text \<open>
  \<^bold>\<open>Bounds, schedules and why they are enough.\<close>
  \<^item> Runs of the keyboard program have any number of steps: invariants hold after each number, and progress
    is proved from a rank on the device's states, with no fixed bound.
  \<^item> The UART's \<open>read\<close>, \<open>write\<close> and \<open>close\<close> take a schedule of interrupts, of which every
    access to shared state consumes one element; properties hold for every schedule. That calls return
    is stated for schedules at least as long as the number of accesses: four per byte and six more for
    \<open>read\<close> and \<open>write\<close>, and for \<open>close\<close> as many UART interrupts as there are bytes to send.
  \<^item> The exception code runs for a number of instructions of its own: 60 for an interrupt, 120 for an
    exception passed to the C handler, 680 for the emulation (32 rounds of at most 17). They are
    sufficient, since the code has then returned and stays so.
  \<^item> A field width of the log's formatter is an unbounded integer; a width above \<open>INT_MAX\<close> overflows in C.
  \<^item> All other loops are total functions, or are proved to return under the hypotheses the code relies
    on (well-formed lists, word-aligned sections), or have the exact condition under which they
    return.

  \<^bold>\<open>Hypotheses on what is not in the sources.\<close>
  Drivers leave the descriptor table and the lists alone (\<open>drivers_ok\<close>); alarm callbacks do not touch the
  alarm list (\<open>callbacks_are\<close>); a USB controller with memory, mailbox and status register whose keyboard answers the
  enumeration in its order and then the polls (\<open>answers\<close>), a core that serves its interrupt
  (\<open>serviced\<close>, which \<open>documented_core\<close> implies, and \<open>sends\<close>); the cache instructions (\<open>documented\<close>); the linker's addresses are distinct
  (\<open>linked\<close>); compiled functions follow the calling convention (\<open>follows_abi\<close>) and do what their models do
  (\<open>calls_dispatcher\<close>, \<open>calls_exception_entry\<close>). Each property that uses one has a witness with a concrete instance.

  \<^bold>\<open>What modelling showed.\<close>
  \<^item> \<open>main.c\<close>: the poll counter that selects DATA0 or DATA1 is not reset when a keyboard is plugged in again.
  \<^item> \<open>alt_iic_isr_register.c\<close>: a negative interrupt number passes the bounds check. Its comment and that of
    \<open>alt_iic.c\<close> promise -1 for an error; the code returns \<open>-EINVAL\<close>.
  \<^item> \<open>alt_alarm_start.c\<close>: for the largest number of ticks the alarm fires at the next tick. \<open>alt_settod.c\<close>: the
    product of ticks and tick length wraps in 32 bits.
  \<^item> \<open>alt_busy_sleep.c\<close>: with nothing left to wait the last loop runs \<open>2^32\<close> iterations; the
    division that gives the iterations per microsecond rounds down; the comment at the head describes another number
    of iterations.
  \<^item> \<open>alt_fd_lock.c\<close>: the scan for another user of the device stops before the highest descriptor.
  \<^item> \<open>altera_avalon_jtag_uart_write.c\<close>: a blocking write of no bytes reports an error, and so does
    \<open>write\<close> of the empty text to the console.
  \<^item> \<open>alt_gmon.c\<close>: a sample in the last partial bucket is counted behind the histogram, and \<open>sbrk\<close>'s failure
    is not recognised.
  \<^item> \<open>alt_kill.c\<close>: every terminating signal ends with exit code 0. \<open>alt_dma.h\<close>: one operation lacks the test for
    null that the others have.
  \<^item> With direct drivers \<open>read\<close> and \<open>write\<close> return the driver's error code and do not set \<open>errno\<close>,
    \<open>alt_putchar\<close> never reports a failure, and \<open>alt_getchar\<close> gives -1 for the byte 255.
  \<^item> \<open>alt_exception_entry.S\<close>: an exception inside the exception handler spoils the address for
    re-issuing (the witness of \<open>exception_api_resumes\<close> shows one); the comment on the return code says the opposite of the code. \<open>alt_exception_muldiv.S\<close>: sp as
    source and gp as destination are limitations it does not document.
  \<^item> Comments that disagree with the code: \<open>alt_log_printf.c\<close> (the period of the clock message, the length
    of the echo) and \<open>alt_sbrk.c\<close> (bounds checking).

  \<^bold>\<open>Not modelled.\<close>
  \<^item> The SystemVerilog design, the interconnect generated by Qsys and the project files of Quartus and
    Eclipse: other languages and generated data.
  \<^item> The assembler files \<open>crt0.S\<close>, \<open>alt_mcount.S\<close>, \<open>alt_ecc_fatal_entry.S\<close>, \<open>alt_log_macro.S\<close> and
    \<open>alt_software_exception.S\<close>: reset, the look-up of known calls, code for options this processor
    does not have. Where C code depends on one, a hypothesis says so.
  \<^item> The constants of \<open>cy7c67200.h\<close> that no code uses.
  \<^item> Glue without behaviour of its own: \<open>alt_environ.c\<close>, \<open>alt_env_lock.c\<close>, \<open>alt_malloc_lock.c\<close>, \<open>alt_errno.c\<close>,
    and the operating-system macros, which are empty without an operating system.
  \<^item> Branches that this configuration does not compile: uC/OS-II, the external interrupt
    controller, the maximal heap size and stack checking; and the dynamic-size macros of \<open>io.h\<close>, which
    nothing modelled uses.
\<close>

end
